(* ===== verification/Prelude.thy ===== *)
theory Prelude
  imports Main "HOL-Library.Word"
begin

text \<open>
  Shared vocabulary of the development: the C integer types as words, C truth values,
  the error type of operations whose behaviour ISO C leaves undefined, decimal printing
  as done by \<open>printf\<close>, and the generic lemmas on words and lists that several
  components use.  The collection \<open>word_bits\<close> gathers the bit-level facts, so that
  \<open>auto simp: word_bits\<close> decides most questions about a single bit.
\<close>

unbundle bit_operations_syntax

named_theorems word_bits \<open>which bits of a word expression are set\<close>
named_theorems c_arith \<open>value-level facts about fixed-width arithmetic\<close>

section \<open>C integer types\<close>

type_synonym u8 = "8 word"
type_synonym u16 = "16 word"
type_synonym u32 = "32 word"
type_synonym u64 = "64 word"
type_synonym s32 = "32 word"
type_synonym s64 = "64 word"

text \<open>
  \<open>s32\<close> and \<open>s64\<close> are the same bit patterns read with \<open>sint\<close>.  A comparison
  result of C is an \<open>int\<close> that is 0 or 1.
\<close>

definition c_bool :: "bool \<Rightarrow> int" where
  "c_bool b = (if b then 1 else 0)"

lemma c_bool_simps [simp]:
  "c_bool True = 1" "c_bool False = 0" "c_bool b = 0 \<longleftrightarrow> \<not> b" "c_bool b = 1 \<longleftrightarrow> b"
  by (simp_all add: c_bool_def)

section \<open>Undefined behaviour as a value\<close>

datatype ub =
    NullDeref
  | Dangling
  | OutOfBounds
  | Uninitialised
  | BadFormatArgument
  | DivByZero
  | BadShift
  | SignedOverflow
  | Overlap

definition bindE :: "'e + 'a \<Rightarrow> ('a \<Rightarrow> 'e + 'b) \<Rightarrow> 'e + 'b" where
  "bindE r f = (case r of Inl e \<Rightarrow> Inl e | Inr x \<Rightarrow> f x)"

lemma bindE_simps [simp]:
  "bindE (Inl e) f = Inl e" "bindE (Inr x) f = f x"
  by (simp_all add: bindE_def)

lemma bindE_Inr_iff: "bindE r f = Inr y \<longleftrightarrow> (\<exists>x. r = Inr x \<and> f x = Inr y)"
  by (cases r) simp_all

lemma bindE_Inl_iff:
  "bindE r f = Inl e \<longleftrightarrow> r = Inl e \<or> (\<exists>x. r = Inr x \<and> f x = Inl e)"
  by (cases r) auto

lemma bindE_assoc: "bindE (bindE r f) g = bindE r (\<lambda>x. bindE (f x) g)"
  by (cases r) simp_all

section \<open>Decimal printing\<close>

text \<open>The conversions \<open>%d\<close> and \<open>%.2d\<close> of \<open>printf\<close>.\<close>

definition digit_char :: "nat \<Rightarrow> char" where
  "digit_char d = char_of (48 + d)"

fun show_nat :: "nat \<Rightarrow> string" where
  "show_nat n = (if n < 10 then [digit_char n] else show_nat (n div 10) @ [digit_char (n mod 10)])"

declare show_nat.simps [simp del]

definition show_int :: "int \<Rightarrow> string" where
  "show_int i = (if i < 0 then CHR ''-'' # show_nat (nat (- i)) else show_nat (nat i))"

definition pad_left :: "nat \<Rightarrow> char \<Rightarrow> string \<Rightarrow> string" where
  "pad_left n c s = replicate (n - length s) c @ s"

definition show_int2 :: "int \<Rightarrow> string" where
  "show_int2 i =
     (if i < 0 then CHR ''-'' # pad_left 2 CHR ''0'' (show_nat (nat (- i)))
      else pad_left 2 CHR ''0'' (show_nat (nat i)))"

lemma digit_char_simps [simp]:
  "digit_char 0 = CHR ''0''" "digit_char (Suc 0) = CHR ''1''" "digit_char 2 = CHR ''2''"
  "digit_char 3 = CHR ''3''" "digit_char 4 = CHR ''4''" "digit_char 5 = CHR ''5''"
  "digit_char 6 = CHR ''6''" "digit_char 7 = CHR ''7''" "digit_char 8 = CHR ''8''"
  "digit_char 9 = CHR ''9''"
  by code_simp+

lemma length_show_nat_small: "n < 10 \<Longrightarrow> length (show_nat n) = 1"
  by (simp add: show_nat.simps)

lemma length_show_nat_2: "10 \<le> n \<Longrightarrow> n < 100 \<Longrightarrow> length (show_nat n) = 2"
  by (simp add: show_nat.simps [of n] length_show_nat_small)

lemma length_show_nat_4: "1000 \<le> n \<Longrightarrow> n < 10000 \<Longrightarrow> length (show_nat n) = 4"
proof -
  assume n: "1000 \<le> n" "n < 10000"
  have "100 \<le> n div 10" "10 \<le> n div 100" "n div 100 < 100" using n by simp_all
  moreover have "show_nat n = show_nat (n div 10) @ [digit_char (n mod 10)]"
    using n by (subst show_nat.simps) simp
  moreover have "show_nat (n div 10) = show_nat (n div 10 div 10) @ [digit_char (n div 10 mod 10)]"
    using calculation(1) by (subst show_nat.simps) simp
  moreover have "n div 10 div 10 = n div 100" by (simp flip: div_mult2_eq)
  ultimately show ?thesis using length_show_nat_2 [of "n div 100"] by simp
qed

lemma length_show_int2: "0 \<le> i \<Longrightarrow> i < 100 \<Longrightarrow> length (show_int2 i) = 2"
  using length_show_nat_small [of "nat i"] length_show_nat_2 [of "nat i"]
  by (cases "nat i < 10") (auto simp: show_int2_def pad_left_def)

section \<open>Words\<close>

lemma word_eq_by_bits:
  fixes x y :: "'a::len word"
  assumes "\<And>n. n < LENGTH('a) \<Longrightarrow> bit x n = bit y n"
  shows "x = y"
  using assms by (rule bit_word_eqI)

lemmas bit_ops_iff [word_bits] =
  bit_and_iff bit_or_iff bit_xor_iff bit_not_iff bit_push_bit_iff bit_drop_bit_eq
  bit_mask_iff bit_0_eq bit_unsigned_iff

lemma unat_less_pow [c_arith]: "unat (x :: 'a::len word) < 2 ^ LENGTH('a)"
  by (fact unsigned_less)

lemma unat_add_exact:
  fixes x y :: "'a::len word"
  shows "unat x + unat y < 2 ^ LENGTH('a) \<Longrightarrow> unat (x + y) = unat x + unat y"
  by (simp add: unat_word_ariths)

lemma unat_sub_exact:
  fixes x y :: "'a::len word"
  shows "y \<le> x \<Longrightarrow> unat (x - y) = unat x - unat y"
  by (simp add: unat_sub)

lemma unat_mult_exact:
  fixes x y :: "'a::len word"
  shows "unat x * unat y < 2 ^ LENGTH('a) \<Longrightarrow> unat (x * y) = unat x * unat y"
  by (simp add: unat_word_ariths)

lemma unat_push_bit:
  fixes x :: "'a::len word"
  shows "unat (push_bit n x) = (unat x * 2 ^ n) mod 2 ^ LENGTH('a)"
  unfolding unsigned_push_bit_eq by (simp only: push_bit_eq_mult take_bit_eq_mod)

lemma unat_drop_bit [c_arith]: "unat (drop_bit n x) = unat x div 2 ^ n"
  unfolding unat_drop_bit_eq by (simp only: drop_bit_eq_div)

lemma unat_and_mask [c_arith]: "unat (x AND mask n) = unat x mod 2 ^ n"
  unfolding take_bit_eq_mask [symmetric] unsigned_take_bit_eq by (simp only: take_bit_eq_mod)

lemma unat_and_not_mask [c_arith]:
  fixes y :: "'a::len word"
  shows "unat (y AND NOT (mask k)) = unat y div 2 ^ k * 2 ^ k"
proof -
  have "y AND NOT (mask k) = push_bit k (drop_bit k y)"
    by (rule bit_word_eqI) (auto simp: word_bits bit_mask_iff le_add_diff_inverse)
  then have "unat (y AND NOT (mask k)) = (unat y div 2 ^ k * 2 ^ k) mod 2 ^ LENGTH('a)"
    by (simp add: unat_push_bit unat_drop_bit del: push_bit_and)
  moreover have "unat y div 2 ^ k * 2 ^ k < 2 ^ LENGTH('a)"
    using le_less_trans [OF div_times_less_eq_dividend [of "unat y" "2 ^ k"] unat_less_pow [of y]]
    by simp
  ultimately show ?thesis by simp
qed

lemma unat_mask_le:
  assumes "k \<le> LENGTH('a::len)"
  shows "unat (mask k :: 'a word) = 2 ^ k - 1"
proof -
  have "int (unat (mask k :: 'a word)) = int (2 ^ k - 1)"
    using assms uint_mask_eq [of k, where 'a = 'a] by (simp add: min_def mask_eq_exp_minus_1 of_nat_diff)
  then show ?thesis by (simp only: of_nat_eq_iff)
qed

section \<open>Lists\<close>

lemma nth_list_update_if:
  "i < length xs \<Longrightarrow> xs[i := v] ! j = (if i = j then v else xs ! j)"
  by (simp add: nth_list_update)

lemma append_nth_last [simp]: "(xs @ [x]) ! length xs = x"
  by simp

lemma list_update_last [simp]: "(xs @ [x])[length xs := y] = xs @ [y]"
  by (simp add: list_update_append)

end
