(* ===== verification/CMemory.thy ===== *)
theory CMemory
  imports Prelude
begin

text \<open>
  The part of the C abstract machine the laboratory programs use: storage is a list of
  blocks, each with its cells (an unwritten cell is indeterminate) and a flag that says
  whether its lifetime has ended.  A pointer is null or a block number with an offset.
  A load or store that ISO C leaves undefined is an error value.  \<open>malloc\<close>,
  \<open>strlen\<close> and the \<open>%s\<close> conversion are those of the standard library; the
  heap has a finite amount of room, so that both outcomes of \<open>malloc\<close> occur.
\<close>

section \<open>Blocks and pointers\<close>

record 'v block =
  cells :: "'v option list"
  live :: bool

record 'v cmem =
  blocks :: "'v block list"
  avail :: nat

datatype ptr = Null | Ptr nat int

fun ptr_add :: "ptr \<Rightarrow> int \<Rightarrow> ptr" where
  "ptr_add Null i = Null"
| "ptr_add (Ptr b off) i = Ptr b (off + i)"

fun locate :: "'v cmem \<Rightarrow> ptr \<Rightarrow> ub + (nat \<times> nat)" where
  "locate m Null = Inl NullDeref"
| "locate m (Ptr b off) =
     (if length (blocks m) \<le> b \<or> \<not> live (blocks m ! b) then Inl Dangling
      else if off < 0 \<or> int (length (cells (blocks m ! b))) \<le> off then Inl OutOfBounds
      else Inr (b, nat off))"

definition load :: "'v cmem \<Rightarrow> ptr \<Rightarrow> ub + 'v" where
  "load m p = bindE (locate m p) (\<lambda>(b, i).
     case cells (blocks m ! b) ! i of None \<Rightarrow> Inl Uninitialised | Some v \<Rightarrow> Inr v)"

definition set_cells :: "'v cmem \<Rightarrow> nat \<Rightarrow> 'v option list \<Rightarrow> 'v cmem" where
  "set_cells m b cs = m\<lparr>blocks := (blocks m)[b := (blocks m ! b)\<lparr>cells := cs\<rparr>]\<rparr>"

definition store :: "'v cmem \<Rightarrow> ptr \<Rightarrow> 'v \<Rightarrow> ub + 'v cmem" where
  "store m p v = bindE (locate m p) (\<lambda>(b, i).
     Inr (set_cells m b ((cells (blocks m ! b))[i := Some v])))"

section \<open>Allocation and lifetime\<close>

definition new_block :: "'v cmem \<Rightarrow> 'v option list \<Rightarrow> ptr \<times> 'v cmem" where
  "new_block m cs =
     (Ptr (length (blocks m)) 0, m\<lparr>blocks := blocks m @ [\<lparr>cells = cs, live = True\<rparr>]\<rparr>)"

definition end_lifetime :: "'v cmem \<Rightarrow> nat \<Rightarrow> 'v cmem" where
  "end_lifetime m b = m\<lparr>blocks := (blocks m)[b := (blocks m ! b)\<lparr>live := False\<rparr>]\<rparr>"

definition malloc :: "'v cmem \<Rightarrow> nat \<Rightarrow> ptr \<times> 'v cmem" where
  "malloc m n =
     (if n \<le> avail m then new_block (m\<lparr>avail := avail m - n\<rparr>) (replicate n None)
      else (Null, m))"

section \<open>Strings of the standard library\<close>

fun until_nul :: "u8 option list \<Rightarrow> ub + u8 list" where
  "until_nul [] = Inl OutOfBounds"
| "until_nul (None # cs) = Inl Uninitialised"
| "until_nul (Some c # cs) =
     (if c = 0 then Inr [] else bindE (until_nul cs) (\<lambda>s. Inr (c # s)))"

definition read_string :: "u8 cmem \<Rightarrow> ptr \<Rightarrow> ub + u8 list" where
  "read_string m p = bindE (locate m p) (\<lambda>(b, i). until_nul (drop i (cells (blocks m ! b))))"

definition c_strlen :: "u8 cmem \<Rightarrow> ptr \<Rightarrow> ub + nat" where
  "c_strlen m p = bindE (read_string m p) (\<lambda>s. Inr (length s))"

definition chars :: "u8 list \<Rightarrow> string" where
  "chars bs = map (\<lambda>b. char_of (unat b)) bs"

definition bytes_of :: "string \<Rightarrow> u8 list" where
  "bytes_of s = map (\<lambda>c. of_char c) s"

text \<open>The initialiser of a character array: the characters and a terminating NUL.\<close>

definition string_literal :: "string \<Rightarrow> u8 option list" where
  "string_literal s = map Some (bytes_of s) @ [Some 0]"

section \<open>Laws of loads and stores\<close>

definition valid_block :: "'v cmem \<Rightarrow> nat \<Rightarrow> bool" where
  "valid_block m b \<longleftrightarrow> b < length (blocks m) \<and> live (blocks m ! b)"

lemma locate_valid:
  "valid_block m b \<Longrightarrow> 0 \<le> off \<Longrightarrow> nat off < length (cells (blocks m ! b)) \<Longrightarrow>
   locate m (Ptr b off) = Inr (b, nat off)"
  by (auto simp: valid_block_def)

lemma locate_InrD:
  assumes "locate m p = Inr (b, i)"
  shows "valid_block m b" "i < length (cells (blocks m ! b))" "p = Ptr b (int i)"
  using assms by (cases p; auto simp: valid_block_def split: if_splits)+

lemma valid_set_cells [simp]: "valid_block (set_cells m b cs) b' \<longleftrightarrow> valid_block m b'"
  by (cases "b < length (blocks m)")
    (auto simp: valid_block_def set_cells_def nth_list_update list_update_beyond)

lemma cells_set_cells:
  "valid_block m b \<Longrightarrow>
   cells (blocks (set_cells m b cs) ! b') = (if b' = b then cs else cells (blocks m ! b'))"
  by (simp add: valid_block_def set_cells_def nth_list_update)

lemma set_cells_twice: "set_cells (set_cells m b cs) b ds = set_cells m b ds"
  by (cases "b < length (blocks m)") (simp_all add: set_cells_def list_update_beyond)

lemma length_blocks_set_cells [simp]:
  "length (blocks (set_cells m b cs)) = length (blocks m)"
  by (simp add: set_cells_def)

lemma avail_set_cells [simp]: "avail (set_cells m b cs) = avail m"
  by (simp add: set_cells_def)

lemma load_valid:
  "valid_block m b \<Longrightarrow> 0 \<le> off \<Longrightarrow> nat off < length (cells (blocks m ! b)) \<Longrightarrow>
   cells (blocks m ! b) ! nat off = Some v \<Longrightarrow> load m (Ptr b off) = Inr v"
  by (simp add: load_def locate_valid del: locate.simps)

lemma store_valid:
  "valid_block m b \<Longrightarrow> 0 \<le> off \<Longrightarrow> nat off < length (cells (blocks m ! b)) \<Longrightarrow>
   store m (Ptr b off) v = Inr (set_cells m b ((cells (blocks m ! b))[nat off := Some v]))"
  by (simp add: store_def locate_valid del: locate.simps)

lemma load_store_same:
  assumes "store m p v = Inr m'"
  shows "load m' p = Inr v"
proof -
  obtain b i where loc: "locate m p = Inr (b, i)"
    and m': "m' = set_cells m b ((cells (blocks m ! b))[i := Some v])"
    using assms by (auto simp: store_def bindE_Inr_iff)
  note inv = locate_InrD [OF loc]
  have "load m' (Ptr b (int i)) = Inr v"
    by (rule load_valid) (use inv in \<open>simp_all add: m' cells_set_cells\<close>)
  with inv(3) show ?thesis by simp
qed

lemma load_store_other:
  assumes "store m p v = Inr m'" "p \<noteq> q"
  shows "load m' q = load m q"
proof -
  obtain b i where loc: "locate m p = Inr (b, i)"
    and m': "m' = set_cells m b ((cells (blocks m ! b))[i := Some v])"
    using assms by (auto simp: store_def bindE_Inr_iff)
  note inv = locate_InrD [OF loc]
  have same: "live (blocks m' ! b') = live (blocks m ! b')"
       "length (cells (blocks m' ! b')) = length (cells (blocks m ! b'))" for b'
    using inv by (auto simp: m' set_cells_def valid_block_def nth_list_update)
  show ?thesis
  proof (cases q)
    case Null
    then show ?thesis by (simp add: load_def)
  next
    case (Ptr b' off)
    with assms(2) inv(3) have "b' = b \<Longrightarrow> 0 \<le> off \<Longrightarrow> nat off \<noteq> i" by auto
    moreover have "length (blocks m') = length (blocks m)" by (simp add: m')
    ultimately show ?thesis
      using Ptr inv same by (auto simp: load_def m' cells_set_cells)
  qed
qed

lemma new_block_props:
  assumes "new_block m cs = (p, m')"
  shows "p = Ptr (length (blocks m)) 0" "valid_block m' (length (blocks m))"
    "cells (blocks m' ! length (blocks m)) = cs"
    "b < length (blocks m) \<Longrightarrow> blocks m' ! b = blocks m ! b"
    "length (blocks m') = Suc (length (blocks m))"
  using assms by (auto simp: new_block_def valid_block_def nth_append)

lemma until_nul_literal:
  "0 \<notin> set bs \<Longrightarrow> until_nul (map Some bs @ Some 0 # rest) = Inr bs"
  by (induction bs) auto

lemma length_bytes_of [simp]: "length (bytes_of s) = length s"
  by (simp add: bytes_of_def)

lemma chars_bytes_of [simp]: "chars (bytes_of s) = s"
proof -
  have "unat (of_char c :: u8) = of_char c" for c
    unfolding of_nat_of_char [symmetric, where 'a = u8]
    by (simp add: unat_of_nat)
  then show ?thesis by (simp add: chars_def bytes_of_def o_def)
qed

lemma zero_in_bytes_of: "0 \<in> set (bytes_of s) \<longleftrightarrow> CHR 0x00 \<in> set s"
proof -
  have "(of_char c :: u8) = 0 \<longleftrightarrow> c = CHR 0x00" for c
    using chars_bytes_of [of "[c]"] by (auto simp: chars_def bytes_of_def char_of_def)
  then show ?thesis by (auto simp: bytes_of_def image_iff)
qed

end
