(* ===== verification/Exo1.thy ===== *)
theory Exo1
  imports CMemory
begin

text \<open>
  \<open>c/exo1.c\<close>: \<open>allocate_string\<close> copies \<open>length\<close> characters into a fresh heap
  block and terminates them, and \<open>main\<close> prints the copy of a local string.  The
  program is built on the host (\<open>size_t\<close> has 64 bits, \<open>int\<close> has 32).  The
  function \<open>tests_exo1\<close> comes from a binary archive and is a parameter.
\<close>

section \<open>allocate_string\<close>

text \<open>The argument of \<open>malloc\<close>: \<open>sizeof(char) * length + 1\<close>, computed in \<open>size_t\<close>.\<close>

definition alloc_size :: "s32 \<Rightarrow> u64" where
  "alloc_size len = 1 * scast len + 1"

function copy_loop :: "u8 cmem \<Rightarrow> ptr \<Rightarrow> ptr \<Rightarrow> int \<Rightarrow> int \<Rightarrow> ub + u8 cmem" where
  "copy_loop m alloc str i len =
     (if i < len
      then bindE (load m (ptr_add str i)) (\<lambda>c.
           bindE (store m (ptr_add alloc i) c) (\<lambda>m'.
           copy_loop m' alloc str (i + 1) len))
      else Inr m)"
  by pat_completeness auto
termination
  by (relation "measure (\<lambda>(m, alloc, str, i, len). nat (len - i))") auto

declare copy_loop.simps [simp del]

definition allocate_string :: "u8 cmem \<Rightarrow> ptr \<Rightarrow> s32 \<Rightarrow> ub + (ptr \<times> u8 cmem)" where
  "allocate_string m str len =
     (if str = Null then Inr (Null, m)
      else let (alloc, m1) = malloc m (unat (alloc_size len))
           in if alloc = Null then Inr (Null, m1)
              else bindE (copy_loop m1 alloc str 0 (sint len)) (\<lambda>m2.
                   bindE (store m2 (ptr_add alloc (sint len)) 0) (\<lambda>m3.
                   Inr (alloc, m3))))"

section \<open>main\<close>

record exo1_state =
  mem :: "u8 cmem"
  out :: "string list"

definition put_line :: "string \<Rightarrow> exo1_state \<Rightarrow> exo1_state" where
  "put_line s st = st\<lparr>out := out st @ [s]\<rparr>"

text \<open>\<open>printf\<close> with one \<open>%s\<close>: the argument must point to a string.\<close>

definition printf_s :: "string \<Rightarrow> ptr \<Rightarrow> exo1_state \<Rightarrow> ub + exo1_state" where
  "printf_s prefix p st =
     (if p = Null then Inl BadFormatArgument
      else bindE (read_string (mem st) p) (\<lambda>s.
           Inr (put_line (prefix @ chars s @ [CHR 0x0A]) st)))"

definition exo1_main :: "(exo1_state \<Rightarrow> ub + exo1_state) \<Rightarrow> exo1_state \<Rightarrow> ub + (int \<times> exo1_state)" where
  "exo1_main tests_exo1 st0 =
     (let st1 = put_line (''Welcome to ASM'' @ [CHR 0x0A]) st0;
          (str, m1) = new_block (mem st1) (string_literal ''Bonjour de main!'')
      in bindE (c_strlen m1 str) (\<lambda>n.
         bindE (allocate_string m1 str (of_nat n)) (\<lambda>(alloc, m2).
         bindE (printf_s ''Received allocated message : '' alloc (st1\<lparr>mem := m2\<rparr>)) (\<lambda>st2.
         bindE (tests_exo1 st2) (\<lambda>st3.
         Inr (0, st3))))))"

section \<open>The size argument\<close>

lemma alloc_size_value:
  assumes "0 \<le> sint (len :: s32)"
  shows "unat (alloc_size len) = nat (sint len) + 1"
proof -
  have bound: "sint len < 2 ^ 31"
    using sint_lt [of len] by simp
  have "uint (scast len :: u64) = sint len"
    unfolding scast_eq uint_word_of_int using assms bound by (simp add: mod_pos_pos_trivial)
  then have u: "unat (scast len :: u64) = nat (sint len)"
    by (metis nat_uint_eq)
  have "unat (scast len :: u64) + unat (1 :: u64) < 2 ^ LENGTH(64)"
    using bound unfolding u by simp
  from unat_add_exact [OF this] show ?thesis
    by (simp add: alloc_size_def u)
qed

lemma alloc_size_minus_one: "unat (alloc_size (- 1)) = 0"
  by (simp add: alloc_size_def)

section \<open>The copy loop\<close>

text \<open>
  With both blocks live, distinct, and large enough, the loop replaces the cells
  \<open>i..<len\<close> of the destination by those of the source and touches nothing else.
\<close>

definition copied :: "'v option list \<Rightarrow> 'v option list \<Rightarrow> nat \<Rightarrow> nat \<Rightarrow> nat \<Rightarrow> 'v option list" where
  "copied ds cs off i n = take i ds @ take (n - i) (drop (off + i) cs) @ drop n ds"

lemma copied_done: "n \<le> i \<Longrightarrow> i \<le> n \<Longrightarrow> copied ds cs off i n = ds"
  by (simp add: copied_def)

lemma copied_step:
  assumes "i < n" "n \<le> length ds" "off + n \<le> length cs"
  shows "copied (ds[i := cs ! (off + i)]) cs off (Suc i) n = copied ds cs off i n"
proof -
  have "drop (off + i) cs = cs ! (off + i) # drop (Suc (off + i)) cs"
    using assms by (simp add: Cons_nth_drop_Suc)
  moreover obtain k where k: "n - i = Suc k"
    using assms(1) by (metis Suc_diff_Suc)
  moreover have "n - Suc i = k"
    using k by simp
  ultimately have "take (n - i) (drop (off + i) cs) =
      cs ! (off + i) # take (n - Suc i) (drop (off + Suc i) cs)"
    by simp
  moreover have "take (Suc i) (ds[i := cs ! (off + i)]) = take i ds @ [cs ! (off + i)]"
    using assms by (simp add: take_Suc_conv_app_nth)
  ultimately show ?thesis
    using assms by (simp add: copied_def)
qed

lemma copy_loop_copies:
  assumes "valid_block m d" "valid_block m s" "d \<noteq> s"
    and "cells (blocks m ! s) = cs" "length (cells (blocks m ! d)) = n + k"
    and "off + n \<le> length cs" "\<forall>j < n. cs ! (off + j) \<noteq> None" "i \<le> n"
  shows "copy_loop m (Ptr d 0) (Ptr s (int off)) (int i) (int n) =
         Inr (set_cells m d (copied (cells (blocks m ! d)) cs off i n))"
  using assms
proof (induction "n - i" arbitrary: i m)
  case 0
  then have "(blocks m)[d := (blocks m ! d)\<lparr>cells := cells (blocks m ! d)\<rparr>] = blocks m"
    by simp
  with 0 show ?case
    by (simp add: copy_loop.simps copied_done set_cells_def)
next
  case (Suc x)
  then have lt: "i < n" by simp
  let ?ds = "cells (blocks m ! d)"
  obtain c where c: "cs ! (off + i) = Some c"
    using Suc.prems lt by blast
  have idx: "nat (int off + int i) = off + i" by simp
  have rd: "load m (Ptr s (int off + int i)) = Inr c"
    by (rule load_valid) (use Suc.prems lt c in \<open>simp_all add: idx\<close>)
  let ?m' = "set_cells m d (?ds[i := Some c])"
  have wr: "store m (Ptr d (int i)) c = Inr ?m'"
    using store_valid [of m d "int i" c] Suc.prems lt by simp
  have "copy_loop ?m' (Ptr d 0) (Ptr s (int off)) (int (Suc i)) (int n) =
        Inr (set_cells ?m' d (copied (cells (blocks ?m' ! d)) cs off (Suc i) n))"
    by (rule Suc.hyps) (use Suc.prems Suc.hyps(2) lt in \<open>simp_all add: cells_set_cells\<close>)
  also have "set_cells ?m' d (copied (cells (blocks ?m' ! d)) cs off (Suc i) n) =
             set_cells m d (copied ?ds cs off i n)"
    using copied_step [of i n ?ds off cs] Suc.prems lt
    by (simp add: cells_set_cells set_cells_twice flip: c)
  finally show ?case
    using lt rd wr by (simp add: copy_loop.simps [of m] add.commute)
qed

section \<open>Properties of allocate_string\<close>

text \<open>The source string at \<open>Ptr s off\<close> has \<open>n\<close> readable characters.\<close>

definition readable :: "u8 cmem \<Rightarrow> nat \<Rightarrow> nat \<Rightarrow> u8 list \<Rightarrow> bool" where
  "readable m s off bs \<longleftrightarrow>
     valid_block m s \<and> off + length bs \<le> length (cells (blocks m ! s)) \<and>
     (\<forall>j < length bs. cells (blocks m ! s) ! (off + j) = Some (bs ! j))"

lemma readable_drop:
  assumes "readable m s off bs"
  shows "take (length bs) (drop off (cells (blocks m ! s))) = map Some bs"
  using assms by (auto simp: readable_def intro!: nth_equalityI)

lemma copied_all:
  assumes "length ds = Suc n" "take n (drop off cs) = map Some bs" "length bs = n"
  shows "(copied ds cs off 0 n)[n := Some 0] = map Some bs @ [Some 0]"
proof -
  obtain d where "drop n ds = [d]"
    using assms(1) by (metis Cons_nth_drop_Suc drop_all le_refl lessI)
  then show ?thesis
    using assms by (simp add: copied_def list_update_append)
qed

lemma allocate_string_copies_aux:
  assumes src: "readable m s off bs" and len: "sint len = int (length bs)"
    and room: "Suc (length bs) \<le> avail m"
  shows "\<exists>m'. allocate_string m (Ptr s (int off)) len = Inr (Ptr (length (blocks m)) 0, m') \<and>
           blocks m' = blocks m @ [\<lparr>cells = map Some bs @ [Some 0], live = True\<rparr>] \<and>
           avail m' = avail m - Suc (length bs)"
proof -
  let ?n = "length bs" and ?d = "length (blocks m)" and ?cs = "cells (blocks m ! s)"
  define ds :: "u8 option list" where "ds = replicate (Suc ?n) None"
  define m1 where "m1 = m\<lparr>avail := avail m - Suc ?n, blocks := blocks m @ [\<lparr>cells = ds, live = True\<rparr>]\<rparr>"
  have lds: "length ds = Suc ?n" by (simp add: ds_def)
  have sz: "unat (alloc_size len) = Suc ?n"
    using alloc_size_value [of len] len by simp
  have mal: "malloc m (Suc ?n) = (Ptr ?d 0, m1)"
    using room by (simp add: malloc_def new_block_def m1_def ds_def)
  have s: "valid_block m s" "off + ?n \<le> length ?cs"
    using src by (auto simp: readable_def)
  then have sd: "?d \<noteq> s" by (simp add: valid_block_def)
  have s1: "blocks m1 ! s = blocks m ! s"
    using s by (simp add: valid_block_def nth_append m1_def)
  have d1: "cells (blocks m1 ! ?d) = ds" by (simp add: m1_def)
  have vs: "valid_block m1 s" and vd: "valid_block m1 ?d"
    using s s1 by (simp_all add: valid_block_def m1_def)
  let ?m2 = "set_cells m1 ?d (copied ds ?cs off 0 ?n)"
  have loop: "copy_loop m1 (Ptr ?d 0) (Ptr s (int off)) 0 (int ?n) = Inr ?m2"
    using copy_loop_copies [OF vd vs sd, of ?cs ?n 1 off 0] src s1
    by (simp add: readable_def d1 lds)
  have v2: "valid_block ?m2 ?d" using vd by simp
  have len2: "length (copied ds ?cs off 0 ?n) = Suc ?n"
    using s(2) by (simp add: copied_def lds)
  have "store ?m2 (Ptr ?d (int ?n)) 0 = Inr (set_cells m1 ?d (map Some bs @ [Some 0]))"
    using store_valid [OF v2, of "int ?n" 0] len2
      copied_all [OF lds readable_drop [OF src] refl]
    by (simp add: cells_set_cells [OF vd] set_cells_twice)
  then show ?thesis
    using mal loop by (simp add: allocate_string_def sz len set_cells_def m1_def)
qed

text \<open>
  C37: given a readable source of \<open>length\<close> characters and room on the heap, the result
  is a pointer to a new block that holds exactly these characters and the terminator; the
  blocks that existed before are as they were.
\<close>

theorem allocate_string_copies:
  assumes src: "readable m s off bs" and len: "sint len = int (length bs)"
    and room: "Suc (length bs) \<le> avail m"
  shows "\<exists>m'. allocate_string m (Ptr s (int off)) len = Inr (Ptr (length (blocks m)) 0, m') \<and>
           blocks m' = blocks m @ [\<lparr>cells = map Some bs @ [Some 0], live = True\<rparr>] \<and>
           avail m' = avail m - Suc (length bs)"
  using assms by (rule allocate_string_copies_aux)

theorem allocate_string_copies_witness:
  "\<exists>m'. allocate_string \<lparr>blocks = [\<lparr>cells = string_literal ''hi'', live = True\<rparr>], avail = 9\<rparr>
           (Ptr 0 0) 2 = Inr (Ptr 1 0, m') \<and>
        blocks m' = [\<lparr>cells = string_literal ''hi'', live = True\<rparr>,
                     \<lparr>cells = map Some (bytes_of ''hi'') @ [Some 0], live = True\<rparr>] \<and> avail m' = 6"
  using allocate_string_copies [of "\<lparr>blocks = [\<lparr>cells = string_literal ''hi'', live = True\<rparr>], avail = 9\<rparr>"
      0 0 "bytes_of ''hi''" 2]
  by (simp add: readable_def valid_block_def string_literal_def nth_append)

text \<open>The failure paths.  A null source, or a heap without room for \<open>length + 1\<close>
  bytes, gives the null pointer and leaves the memory as it was.
\<close>

theorem allocate_string_failure:
  assumes "str = Null \<or> avail m < unat (alloc_size len)"
  shows "allocate_string m str len = Inr (Null, m)"
  using assms by (auto simp: allocate_string_def malloc_def)

theorem allocate_string_failure_witness:
  "allocate_string \<lparr>blocks = [], avail = 5\<rparr> (Ptr 0 0) 5 = Inr (Null, \<lparr>blocks = [], avail = 5\<rparr>)"
  by (rule allocate_string_failure) (simp add: alloc_size_def)

text \<open>
  with \<open>length = -1\<close> the request is for zero bytes, the copy loop does not run,
  and the terminator is written one byte in front of the new block.
\<close>

theorem allocate_string_minus_one:
  assumes "str \<noteq> Null"
  shows "allocate_string m str (- 1) = Inl OutOfBounds"
proof -
  obtain d m1 where "malloc m 0 = (Ptr d 0, m1)" "valid_block m1 d"
    using new_block_props [of "m\<lparr>avail := avail m - 0\<rparr>" "replicate 0 None"]
    by (auto simp: malloc_def new_block_def)
  then show ?thesis
    using assms
    by (simp add: allocate_string_def alloc_size_minus_one copy_loop.simps store_def valid_block_def)
qed

theorem allocate_string_minus_one_witness:
  "allocate_string \<lparr>blocks = [\<lparr>cells = string_literal ''hi'', live = True\<rparr>], avail = 9\<rparr> (Ptr 0 0) (- 1)
   = Inl OutOfBounds"
  by (rule allocate_string_minus_one) simp

section \<open>Properties of main\<close>

lemma read_literal:
  assumes "valid_block m b" "cells (blocks m ! b) = map Some bs @ [Some 0]" "0 \<notin> set bs"
  shows "read_string m (Ptr b 0) = Inr bs"
proof -
  have "locate m (Ptr b 0) = Inr (b, 0)"
    using locate_valid [OF assms(1), of 0] assms(2) by simp
  then show ?thesis
    using until_nul_literal [OF assms(3), of "[]"] assms(2) by (simp add: read_string_def)
qed

lemma new_block_readable:
  "readable (m\<lparr>blocks := blocks m @ [\<lparr>cells = map Some bs @ rest, live = True\<rparr>]\<rparr>) (length (blocks m)) 0 bs"
  by (simp add: readable_def valid_block_def nth_append)

text \<open>For any test suite, and with 17 free bytes on the heap, \<open>main\<close> prints the
  greeting and the copied string, runs the tests in that state and returns 0.
\<close>

theorem exo1_main_prints:
  assumes room: "17 \<le> avail (mem st)"
  shows "\<exists>st2. exo1_main tests_exo1 st = bindE (tests_exo1 st2) (\<lambda>st3. Inr (0, st3)) \<and>
           out st2 = out st @ [''Welcome to ASM'' @ [CHR 0x0A],
             ''Received allocated message : Bonjour de main!'' @ [CHR 0x0A]]"
proof -
  define bs where "bs = bytes_of ''Bonjour de main!''"
  let ?s = "length (blocks (mem st))"
  define m1 where "m1 = (mem st)\<lparr>blocks := blocks (mem st) @ [\<lparr>cells = map Some bs @ [Some 0], live = True\<rparr>]\<rparr>"
  have nz: "0 \<notin> set bs" by (simp add: bs_def zero_in_bytes_of)
  have lbs: "length bs = 16" by (simp add: bs_def)
  have nb: "new_block (mem st) (string_literal ''Bonjour de main!'') = (Ptr ?s 0, m1)"
    by (simp add: new_block_def string_literal_def m1_def bs_def)
  have strlen: "c_strlen m1 (Ptr ?s 0) = Inr 16"
    using read_literal [of m1 ?s bs] nz lbs by (simp add: c_strlen_def m1_def valid_block_def)
  obtain m2 where al: "allocate_string m1 (Ptr ?s 0) 16 = Inr (Ptr (Suc ?s) 0, m2)"
    and b2: "blocks m2 = blocks m1 @ [\<lparr>cells = map Some bs @ [Some 0], live = True\<rparr>]"
    using allocate_string_copies_aux [OF new_block_readable [of "mem st" bs "[Some 0]"], of 16] room lbs
    by (auto simp: m1_def)
  have "read_string m2 (Ptr (Suc ?s) 0) = Inr bs"
    by (rule read_literal) (use nz b2 in \<open>simp_all add: valid_block_def m1_def nth_append\<close>)
  then show ?thesis
    using nb strlen al
    by (auto simp: exo1_main_def put_line_def printf_s_def bs_def Let_def)
qed

theorem exo1_main_prints_witness:
  "\<exists>st2. exo1_main Inr \<lparr>mem = \<lparr>blocks = [], avail = 17\<rparr>, out = []\<rparr> = bindE (Inr st2) (\<lambda>st3. Inr (0, st3)) \<and>
     out st2 = [''Welcome to ASM'' @ [CHR 0x0A],
       ''Received allocated message : Bonjour de main!'' @ [CHR 0x0A]]"
  using exo1_main_prints [of "\<lparr>mem = \<lparr>blocks = [], avail = 17\<rparr>, out = []\<rparr>" Inr] by simp

text \<open>\<open>main\<close> passes the result of \<open>allocate_string\<close> to \<open>printf\<close> without a check, so
  an exhausted heap is an undefined \<open>%s\<close> of a null pointer, whatever the tests do.
\<close>

theorem exo1_main_unchecked_null:
  assumes "avail (mem st) < 17"
  shows "exo1_main tests_exo1 st = Inl BadFormatArgument"
proof -
  define bs where "bs = bytes_of ''Bonjour de main!''"
  let ?s = "length (blocks (mem st))"
  define m1 where "m1 = (mem st)\<lparr>blocks := blocks (mem st) @ [\<lparr>cells = map Some bs @ [Some 0], live = True\<rparr>]\<rparr>"
  have nb: "new_block (mem st) (string_literal ''Bonjour de main!'') = (Ptr ?s 0, m1)"
    by (simp add: new_block_def string_literal_def m1_def bs_def)
  have "c_strlen m1 (Ptr ?s 0) = Inr 16"
    using read_literal [of m1 ?s bs]
    by (simp add: c_strlen_def m1_def valid_block_def bs_def zero_in_bytes_of)
  moreover have "allocate_string m1 (Ptr ?s 0) 16 = Inr (Null, m1)"
    using assms by (simp add: allocate_string_def malloc_def m1_def alloc_size_def)
  ultimately show ?thesis
    using nb by (simp add: exo1_main_def put_line_def printf_s_def)
qed

theorem exo1_main_unchecked_null_witness:
  "exo1_main Inr \<lparr>mem = \<lparr>blocks = [], avail = 16\<rparr>, out = []\<rparr> = Inl BadFormatArgument"
  by (rule exo1_main_unchecked_null) simp

end
