(* ===== verification/Exo2.thy ===== *)
theory Exo2
  imports Prelude
begin

text \<open>
  \<open>c/exo2.c\<close>: the LED register is read, its 24 LED bits are inverted with an exclusive
  or, and the result is written back.  The register access functions of
  \<open>include/libleds.h\<close> and \<open>tests_exo2\<close> come from binary archives: they are
  parameters over an unknown hardware state.
\<close>

definition inverse_leds :: "u32 \<Rightarrow> u32" where
  "inverse_leds v = v XOR 0xFFFFFF"

definition exo2_main ::
  "('hw \<Rightarrow> 'hw) \<Rightarrow> ('hw \<Rightarrow> u32 \<times> 'hw) \<Rightarrow> (u32 \<Rightarrow> 'hw \<Rightarrow> 'hw) \<Rightarrow> ('hw \<Rightarrow> 'hw) \<Rightarrow> 'hw \<Rightarrow> int \<times> 'hw" where
  "exo2_main init_reg_leds get_reg_leds set_reg_leds tests_exo2 hw =
     (let hw1 = init_reg_leds hw;
          (leds, hw2) = get_reg_leds hw1;
          leds' = inverse_leds leds;
          hw3 = set_reg_leds leds' hw2;
          hw4 = tests_exo2 hw3
      in (0, hw4))"

lemma led_mask: "(0xFFFFFF :: u32) = mask 24"
  by (simp add: mask_eq_exp_minus_1)

lemma bit_inverse_leds: "bit (inverse_leds v) n \<longleftrightarrow> (if n < 24 then \<not> bit v n else bit v n)"
  by (auto simp: inverse_leds_def led_mask word_bits)

lemma inverse_leds_fields:
  "take_bit 24 (inverse_leds v) = take_bit 24 (NOT v)"
  "drop_bit 24 (inverse_leds v) = drop_bit 24 v"
  by (auto intro!: bit_word_eqI simp: bit_inverse_leds bit_take_bit_iff word_bits)

lemma inverse_leds_twice: "inverse_leds (inverse_leds v) = v"
  by (rule bit_word_eqI) (simp add: bit_inverse_leds split: if_splits)

text \<open>
  \<open>inverse\<close> flips exactly the 24 LED bits, keeps the 8 reserved bits, and undoes
  itself.
\<close>

theorem inverse_leds_spec:
  "take_bit 24 (inverse_leds v) = take_bit 24 (NOT v) \<and>
   drop_bit 24 (inverse_leds v) = drop_bit 24 v \<and>
   inverse_leds (inverse_leds v) = v"
  by (simp only: inverse_leds_fields inverse_leds_twice)

text \<open>With a register that reads back what was written, the tests run in a state whose
  register is the inverse of the one found after initialisation.
\<close>

theorem exo2_main_inverts:
  assumes read_reg: "\<And>h. get_reg_leds h = (reg h, h)"
    and write_reg: "\<And>v h. reg (set_reg_leds v h) = v"
  shows "\<exists>hw3. exo2_main init_reg_leds get_reg_leds set_reg_leds tests_exo2 hw = (0, tests_exo2 hw3) \<and>
           take_bit 24 (reg hw3) = take_bit 24 (NOT (reg (init_reg_leds hw))) \<and>
           drop_bit 24 (reg hw3) = drop_bit 24 (reg (init_reg_leds hw))"
proof -
  let ?h = "init_reg_leds hw"
  have "exo2_main init_reg_leds get_reg_leds set_reg_leds tests_exo2 hw =
      (0, tests_exo2 (set_reg_leds (inverse_leds (reg ?h)) ?h))"
    by (simp add: exo2_main_def read_reg Let_def)
  then show ?thesis
    using write_reg inverse_leds_fields by metis
qed

theorem exo2_main_inverts_witness:
  "\<exists>hw3. exo2_main (\<lambda>_. 0xA5000001) (\<lambda>h. (id h, h)) (\<lambda>v h. v) id (7 :: u32) = (0, id hw3) \<and>
     take_bit 24 (id hw3) = take_bit 24 (NOT (id (0xA5000001 :: u32))) \<and>
     drop_bit 24 (id hw3) = drop_bit 24 (id (0xA5000001 :: u32))"
  by (rule exo2_main_inverts [of "\<lambda>h. (id h, h)" id "\<lambda>v h. v"]) simp_all

end
