(* ===== verification/Bytes.thy ===== *)
theory Bytes
  imports Prelude
begin

text \<open>
  Words as sequences of bytes: the \<open>k\<close>-th byte of a word, the byte list of a word in
  little-endian order, and the object representation of a word on a host of either byte
  order.  A word is determined by its bytes, which is how the byte-order, unaligned-access
  and endianness components are proved.
\<close>

datatype byte_order = LittleEndian | BigEndian

definition byte :: "'a::len word \<Rightarrow> nat \<Rightarrow> u8" where
  "byte x k = ucast (drop_bit (8 * k) x)"

definition le_bytes :: "nat \<Rightarrow> 'a::len word \<Rightarrow> u8 list" where
  "le_bytes n x = map (byte x) [0..<n]"

fun object_bytes :: "byte_order \<Rightarrow> nat \<Rightarrow> 'a::len word \<Rightarrow> u8 list" where
  "object_bytes LittleEndian n x = le_bytes n x"
| "object_bytes BigEndian n x = rev (le_bytes n x)"

section \<open>A word is determined by its bytes\<close>

lemma bit_byte [word_bits]: "bit (byte x k) n \<longleftrightarrow> n < 8 \<and> bit x (8 * k + n)"
  by (simp add: byte_def bit_unsigned_iff bit_drop_bit_eq)

lemma word_eq_by_bytes:
  fixes x y :: "'a::len word"
  assumes "LENGTH('a) \<le> 8 * n" "\<And>k. k < n \<Longrightarrow> byte x k = byte y k"
  shows "x = y"
proof (rule bit_word_eqI)
  fix i assume "i < LENGTH('a)"
  then have "i div 8 < n" using assms(1) by linarith
  from assms(2) [OF this] have "bit (byte x (i div 8)) (i mod 8) = bit (byte y (i div 8)) (i mod 8)"
    by simp
  then show "bit x i = bit y i" by (simp add: bit_byte)
qed

lemma le_bytes_eq_iff:
  fixes x y :: "'a::len word"
  assumes "LENGTH('a) \<le> 8 * n"
  shows "le_bytes n x = le_bytes n y \<longleftrightarrow> x = y"
  using word_eq_by_bytes [OF assms] by (auto simp: le_bytes_def)

lemma length_le_bytes [simp]: "length (le_bytes n x) = n"
  by (simp add: le_bytes_def)

lemma le_bytes_nth [simp]: "k < n \<Longrightarrow> le_bytes n x ! k = byte x k"
  by (simp add: le_bytes_def)

lemma length_object_bytes [simp]: "length (object_bytes ord n x) = n"
  by (cases ord) simp_all

lemma object_bytes_eq_iff:
  fixes x y :: "'a::len word"
  assumes "LENGTH('a) \<le> 8 * n"
  shows "object_bytes ord n x = object_bytes ord n y \<longleftrightarrow> x = y"
  using le_bytes_eq_iff [OF assms] by (cases ord) auto

section \<open>Single-byte masks\<close>

text \<open>
  The bits of the mask constants, as integers: the simplifier reduces a bit of a numeral
  of any word type to a bit of the integer numeral.
\<close>

lemma byte_mask_eqs:
  "(0xFF :: int) = push_bit 0 (mask 8)" "(0xFF00 :: int) = push_bit 8 (mask 8)"
  "(0xFF0000 :: int) = push_bit 16 (mask 8)" "(0xFF000000 :: int) = push_bit 24 (mask 8)"
  "(0xFF00000000 :: int) = push_bit 32 (mask 8)" "(0xFF0000000000 :: int) = push_bit 40 (mask 8)"
  "(0xFF000000000000 :: int) = push_bit 48 (mask 8)"
  "(0xFF00000000000000 :: int) = push_bit 56 (mask 8)"
  by (simp_all add: mask_eq_exp_minus_1 push_bit_eq_mult)

lemma byte_masks [word_bits]:
  "bit (0xFF :: int) n \<longleftrightarrow> n < 8" "bit (0xFF00 :: int) n \<longleftrightarrow> 8 \<le> n \<and> n < 16"
  "bit (0xFF0000 :: int) n \<longleftrightarrow> 16 \<le> n \<and> n < 24"
  "bit (0xFF000000 :: int) n \<longleftrightarrow> 24 \<le> n \<and> n < 32"
  "bit (0xFF00000000 :: int) n \<longleftrightarrow> 32 \<le> n \<and> n < 40"
  "bit (0xFF0000000000 :: int) n \<longleftrightarrow> 40 \<le> n \<and> n < 48"
  "bit (0xFF000000000000 :: int) n \<longleftrightarrow> 48 \<le> n \<and> n < 56"
  "bit (0xFF00000000000000 :: int) n \<longleftrightarrow> 56 \<le> n \<and> n < 64"
  unfolding byte_mask_eqs by (auto simp: word_bits)

text \<open>Contiguous masks from bit 0 upwards.\<close>

lemma low_mask_eqs:
  "(0x3 :: int) = mask 2" "(0xF :: int) = mask 4" "(0xFFFF :: int) = mask 16"
  "(0xFFFFFF :: int) = mask 24" "(0xFFFFFFFF :: int) = mask 32"
  by (simp_all add: mask_eq_exp_minus_1)

lemma low_masks [word_bits]:
  "bit (0x3 :: int) n \<longleftrightarrow> n < 2" "bit (0xF :: int) n \<longleftrightarrow> n < 4" "bit (0xFFFF :: int) n \<longleftrightarrow> n < 16"
  "bit (0xFFFFFF :: int) n \<longleftrightarrow> n < 24" "bit (0xFFFFFFFF :: int) n \<longleftrightarrow> n < 32"
  unfolding low_mask_eqs by (simp_all add: bit_mask_iff)

text \<open>No bits beyond the width.\<close>

lemma bits_beyond [word_bits]:
  "8 \<le> n \<Longrightarrow> \<not> bit (x :: u8) n" "16 \<le> n \<Longrightarrow> \<not> bit (y :: u16) n"
  "32 \<le> n \<Longrightarrow> \<not> bit (z :: u32) n" "64 \<le> n \<Longrightarrow> \<not> bit (w :: u64) n"
  by (auto dest: bit_imp_le_length)

text \<open>Narrowing conversions and shifts in terms of bytes.\<close>

lemma ucast_byte:
  "(ucast (x :: 'a::len word) :: u8) = byte x 0"
  "(ucast (drop_bit 8 x) :: u8) = byte x (Suc 0)"
  by (simp_all add: byte_def)

lemma byte_ucast_drop:
  fixes x :: "'a::len word"
  assumes "8 * Suc k \<le> LENGTH('b::len)"
  shows "byte (ucast (drop_bit (8 * j) x) :: 'b word) k = byte x (j + k)"
  using assms by (auto intro!: bit_word_eqI simp: word_bits algebra_simps)

lemma le_bytes_append:
  fixes x :: "'a::len word"
  assumes "8 * j \<le> LENGTH('b::len)" "8 * k \<le> LENGTH('c::len)"
  shows "le_bytes (j + k) x = le_bytes j (ucast x :: 'b word) @ le_bytes k (ucast (drop_bit (8 * j) x) :: 'c word)"
proof (rule nth_equalityI)
  fix i assume "i < length (le_bytes (j + k) x)"
  then show "le_bytes (j + k) x ! i =
      (le_bytes j (ucast x :: 'b word) @ le_bytes k (ucast (drop_bit (8 * j) x) :: 'c word)) ! i"
    using byte_ucast_drop [of i 0 x, where 'b = 'b] byte_ucast_drop [of "i - j" j x, where 'b = 'c] assms
    by (cases "i < j") (auto simp: nth_append)
qed simp

lemma le_bytes_join:
  fixes h l :: u32
  shows "le_bytes 8 (push_bit 32 (ucast h) OR ucast l :: u64) = le_bytes 4 l @ le_bytes 4 h"
proof (rule nth_equalityI)
  fix i assume "i < length (le_bytes 8 (push_bit 32 (ucast h) OR ucast l :: u64))"
  then show "le_bytes 8 (push_bit 32 (ucast h) OR ucast l :: u64) ! i = (le_bytes 4 l @ le_bytes 4 h) ! i"
    by (cases "i < 4") (auto intro!: bit_word_eqI simp: nth_append word_bits algebra_simps)
qed simp

end
