(* ===== verification/Exo3.thy ===== *)
theory Exo3
  imports CMemory Bytes
begin

text \<open>
  \<open>c/exo3.c\<close>: the byte order of the host is found by storing 0x1234 as a 16-bit object
  and reading its first byte.  The host's byte order is an argument of the model;
  \<open>tests_exo3\<close> is a parameter.
\<close>

definition check_endianness :: "byte_order \<Rightarrow> u8 cmem \<Rightarrow> ub + int" where
  "check_endianness ord m =
     (let checker = 0x1234 :: u16;
          (ptr, m1) = new_block m (map Some (object_bytes ord 2 checker))
      in bindE (load m1 ptr) (\<lambda>b. Inr (if b = 0x12 then 0 else 1)))"

definition exo3_main ::
  "byte_order \<Rightarrow> (u8 cmem \<Rightarrow> ub + u8 cmem) \<Rightarrow> u8 cmem \<Rightarrow> ub + (int \<times> string)" where
  "exo3_main ord tests_exo3 m =
     bindE (tests_exo3 m) (\<lambda>m1.
     bindE (check_endianness ord m1) (\<lambda>r.
     Inr (0, (if r \<noteq> 0 then ''This machine is little-endian.'' else ''This machine is big-endian.'')
             @ [CHR 0x0A])))"

lemma checker_bytes:
  "object_bytes LittleEndian 2 (0x1234 :: u16) = [0x34, 0x12]"
  "object_bytes BigEndian 2 (0x1234 :: u16) = [0x12, 0x34]"
  by code_simp+

lemma check_endianness_value:
  "check_endianness ord m = Inr (case ord of LittleEndian \<Rightarrow> 1 | BigEndian \<Rightarrow> 0)"
  by (cases ord) (simp_all add: check_endianness_def new_block_def load_def checker_bytes
      del: object_bytes.simps)

text \<open>
  whatever the memory, the check reads inside the object and its result is 1 exactly
  on a little-endian host; the program reports that byte order.
\<close>

theorem check_endianness_correct:
  "check_endianness ord m = Inr (if ord = LittleEndian then 1 else 0) \<and>
   exo3_main ord Inr m =
     Inr (0, (if ord = LittleEndian then ''This machine is little-endian.''
              else ''This machine is big-endian.'') @ [CHR 0x0A])"
  by (cases ord) (simp_all add: check_endianness_value exo3_main_def)

end
