(* ===== verification/Exo4.thy ===== *)
theory Exo4
  imports CMemory
begin

text \<open>
  \<open>c/exo4.c\<close>: the deliberately broken program.  The array \<open>buf\<close> is local to the
  \<open>if\<close> block, so its lifetime ends before the second loop reads it through \<open>p\<close>.
  The memory has one cell per \<open>int\<close>.
\<close>

text \<open>
  The first loop; \<open>p\<close> is \<open>None\<close> while it is uninitialised.  At \<open>i = 0\<close> the
  array is created, its address is stored in \<open>p\<close>, and leaving the block ends the lifetime
  of the array before \<open>break\<close> leaves the loop.
\<close>

function exo4_search :: "s32 cmem \<Rightarrow> ptr option \<Rightarrow> int \<Rightarrow> ptr option \<times> s32 cmem" where
  "exo4_search m p i =
     (if i < 2
      then if i = 0
           then let (buf, m1) = new_block m [Some 1, Some 2, Some 3, Some 4];
                    p' = Some buf;
                    m2 = end_lifetime m1 (length (blocks m))
                in (p', m2)
           else exo4_search m p (i + 1)
      else (p, m))"
  by pat_completeness auto
termination
  by (relation "measure (\<lambda>(m, p, i). nat (2 - i))") auto

definition print_cell :: "int \<Rightarrow> s32 \<Rightarrow> string" where
  "print_cell i v = ''p['' @ show_int i @ ''] = '' @ show_int (sint v) @ [CHR 0x0A]"

text \<open>The second loop, over the access \<open>rd\<close> that evaluates \<open>p[i]\<close>.\<close>

function exo4_print :: "(int \<Rightarrow> ub + s32) \<Rightarrow> int \<Rightarrow> string list \<Rightarrow> ub + string list" where
  "exo4_print rd i out =
     (if i < 4
      then bindE (rd i) (\<lambda>v. exo4_print rd (i + 1) (out @ [print_cell i v]))
      else Inr out)"
  by pat_completeness auto
termination
  by (relation "measure (\<lambda>(rd, i, out). nat (4 - i))") auto

declare exo4_search.simps [simp del] exo4_print.simps [simp del]

definition read_p :: "s32 cmem \<Rightarrow> ptr option \<Rightarrow> int \<Rightarrow> ub + s32" where
  "read_p m p i = (case p of None \<Rightarrow> Inl Uninitialised | Some q \<Rightarrow> load m (ptr_add q i))"

definition exo4_main :: "s32 cmem \<Rightarrow> string list \<Rightarrow> ub + (int \<times> string list)" where
  "exo4_main m out =
     (let (p, m') = exo4_search m None 0
      in bindE (exo4_print (read_p m' p) 0 out) (\<lambda>out'. Inr (0, out')))"

text \<open>
  What the unoptimised build does: it reads the storage of the dead array as if it were
  still alive.
\<close>

definition read_stale :: "s32 cmem \<Rightarrow> ptr option \<Rightarrow> int \<Rightarrow> ub + s32" where
  "read_stale m p i = (case p of
       Some (Ptr b off) \<Rightarrow>
         load (m\<lparr>blocks := (blocks m)[b := (blocks m ! b)\<lparr>live := True\<rparr>]\<rparr>) (Ptr b (off + i))
     | _ \<Rightarrow> Inl Uninitialised)"

lemma exo4_search_result:
  "exo4_search m None 0 =
     (Some (Ptr (length (blocks m)) 0),
      m\<lparr>blocks := blocks m @ [\<lparr>cells = [Some 1, Some 2, Some 3, Some 4], live = False\<rparr>]\<rparr>)"
  by (simp add: exo4_search.simps new_block_def end_lifetime_def)

text \<open>
  every execution of the program reads an object after the end of its lifetime, at the
  first iteration of the printing loop.
\<close>

theorem exo4_main_dangling: "exo4_main m out = Inl Dangling"
  by (simp add: exo4_main_def exo4_search_result exo4_print.simps read_p_def load_def)

text \<open>Yet the storage still holds the four values, so a build that does not reuse it
  prints \<open>p[0] = 1\<close> to \<open>p[3] = 4\<close>: the output observed without optimisation.
\<close>

theorem exo4_stale_storage:
  "exo4_print (read_stale (snd (exo4_search m None 0)) (fst (exo4_search m None 0))) 0 [] =
   Inr [''p[0] = 1'' @ [CHR 0x0A], ''p[1] = 2'' @ [CHR 0x0A],
        ''p[2] = 3'' @ [CHR 0x0A], ''p[3] = 4'' @ [CHR 0x0A]]"
  by (simp add: exo4_search_result exo4_print.simps read_stale_def load_def print_cell_def
      show_int_def show_nat.simps)

end
