(* ===== verification/ByteOrder.thy ===== *)
theory ByteOrder
  imports Bytes
begin

text \<open>
  Byte swapping and host/wire conversions: \<open>include/linux/byteorder/swab.h\<close>,
  \<open>little_endian.h\<close>, \<open>big_endian.h\<close> and \<open>generic.h\<close>.  The swaps are the
  mask-and-shift expressions of the source.  Each host header gives its own table of
  conversions; the contract they share (the object representation of the converted value
  has the named byte order) is the locale \<open>host_order\<close>, interpreted for both headers.
\<close>

section \<open>swab.h\<close>

definition swab16 :: "u16 \<Rightarrow> u16" where
  "swab16 x = push_bit 8 (x AND 0x00FF) OR drop_bit 8 (x AND 0xFF00)"

definition swab32 :: "u32 \<Rightarrow> u32" where
  "swab32 x =
     push_bit 24 (x AND 0x000000FF) OR push_bit 8 (x AND 0x0000FF00) OR
     drop_bit 8 (x AND 0x00FF0000) OR drop_bit 24 (x AND 0xFF000000)"

definition swab64 :: "u64 \<Rightarrow> u64" where
  "swab64 x =
     push_bit 56 (x AND 0x00000000000000FF) OR push_bit 40 (x AND 0x000000000000FF00) OR
     push_bit 24 (x AND 0x0000000000FF0000) OR push_bit 8 (x AND 0x00000000FF000000) OR
     drop_bit 8 (x AND 0x000000FF00000000) OR drop_bit 24 (x AND 0x0000FF0000000000) OR
     drop_bit 40 (x AND 0x00FF000000000000) OR drop_bit 56 (x AND 0xFF00000000000000)"

text \<open>The variant of \<open>__fswab64\<close> for \<open>__SWAB_64_THRU_32__\<close>: two 32-bit swaps.\<close>

definition fswab64_thru_32 :: "u64 \<Rightarrow> u64" where
  "fswab64_thru_32 x =
     (let h = ucast (drop_bit 32 x) :: u32;
          l = ucast (x AND (push_bit 32 1 - 1)) :: u32
      in push_bit 32 (ucast (swab32 l)) OR ucast (swab32 h))"

text \<open>
  The pointer variants read (\<open>p\<close>) or rewrite in place (\<open>s\<close>) the object an address
  designates; the store is a map from addresses to values.
\<close>

definition swab16p :: "('p \<Rightarrow> u16) \<Rightarrow> 'p \<Rightarrow> u16" where "swab16p m p = swab16 (m p)"
definition swab32p :: "('p \<Rightarrow> u32) \<Rightarrow> 'p \<Rightarrow> u32" where "swab32p m p = swab32 (m p)"
definition swab64p :: "('p \<Rightarrow> u64) \<Rightarrow> 'p \<Rightarrow> u64" where "swab64p m p = swab64 (m p)"
definition swab16s :: "('p \<Rightarrow> u16) \<Rightarrow> 'p \<Rightarrow> 'p \<Rightarrow> u16" where "swab16s m p = m(p := swab16p m p)"
definition swab32s :: "('p \<Rightarrow> u32) \<Rightarrow> 'p \<Rightarrow> 'p \<Rightarrow> u32" where "swab32s m p = m(p := swab32p m p)"
definition swab64s :: "('p \<Rightarrow> u64) \<Rightarrow> 'p \<Rightarrow> 'p \<Rightarrow> u64" where "swab64s m p = m(p := swab64p m p)"

subsection \<open>A swap reverses the bytes\<close>

lemma byte_swab16:
  "byte (swab16 x) 0 = byte x 1" "byte (swab16 x) (Suc 0) = byte x 0"
  by (auto intro!: bit_word_eqI simp: swab16_def word_bits)

lemma byte_swab32:
  "byte (swab32 x) 0 = byte x 3" "byte (swab32 x) (Suc 0) = byte x 2"
  "byte (swab32 x) 2 = byte x 1" "byte (swab32 x) 3 = byte x 0"
  by (auto intro!: bit_word_eqI simp: swab32_def word_bits)

lemma byte_swab64:
  "byte (swab64 x) 0 = byte x 7" "byte (swab64 x) (Suc 0) = byte x 6"
  "byte (swab64 x) 2 = byte x 5" "byte (swab64 x) 3 = byte x 4"
  "byte (swab64 x) 4 = byte x 3" "byte (swab64 x) 5 = byte x 2"
  "byte (swab64 x) 6 = byte x 1" "byte (swab64 x) 7 = byte x 0"
  by (auto intro!: bit_word_eqI simp: swab64_def word_bits)

lemma upt_bytes:
  "[0..<2] = [0, Suc 0]" "[0..<4] = [0, Suc 0, 2, 3]" "[0..<8] = [0, Suc 0, 2, 3, 4, 5, 6, 7]"
  by (simp_all add: upt_rec)

lemma le_bytes_swab:
  "le_bytes 2 (swab16 x) = rev (le_bytes 2 x)"
  "le_bytes 4 (swab32 y) = rev (le_bytes 4 y)"
  "le_bytes 8 (swab64 z) = rev (le_bytes 8 z)"
  by (simp_all add: le_bytes_def upt_bytes byte_swab16 byte_swab32 byte_swab64)

lemma swab_swab [simp]: "swab16 (swab16 x) = x" "swab32 (swab32 y) = y" "swab64 (swab64 z) = z"
  using le_bytes_eq_iff [of 2 "swab16 (swab16 x)" x] le_bytes_eq_iff [of 4 "swab32 (swab32 y)" y]
    le_bytes_eq_iff [of 8 "swab64 (swab64 z)" z]
  by (simp_all add: le_bytes_swab)

lemma fswab64_thru_32_eq: "fswab64_thru_32 x = swab64 x"
proof (rule word_eq_by_bytes [of 8])
  fix k :: nat assume "k < 8"
  then consider "k = 0" | "k = 1" | "k = 2" | "k = 3" | "k = 4" | "k = 5" | "k = 6" | "k = 7"
    by linarith
  then show "byte (fswab64_thru_32 x) k = byte (swab64 x) k"
  proof cases
  qed (auto intro!: bit_word_eqI
      simp: fswab64_thru_32_def swab64_def swab32_def Let_def word_bits)
qed simp

section \<open>The conversion tables of the two host headers\<close>

record conversions =
  cpu_to_le64 :: "u64 \<Rightarrow> u64"
  le64_to_cpu :: "u64 \<Rightarrow> u64"
  cpu_to_le32 :: "u32 \<Rightarrow> u32"
  le32_to_cpu :: "u32 \<Rightarrow> u32"
  cpu_to_le16 :: "u16 \<Rightarrow> u16"
  le16_to_cpu :: "u16 \<Rightarrow> u16"
  cpu_to_be64 :: "u64 \<Rightarrow> u64"
  be64_to_cpu :: "u64 \<Rightarrow> u64"
  cpu_to_be32 :: "u32 \<Rightarrow> u32"
  be32_to_cpu :: "u32 \<Rightarrow> u32"
  cpu_to_be16 :: "u16 \<Rightarrow> u16"
  be16_to_cpu :: "u16 \<Rightarrow> u16"

definition little_endian_h :: conversions where
  "little_endian_h = \<lparr>
     cpu_to_le64 = (\<lambda>x. x), le64_to_cpu = (\<lambda>x. x),
     cpu_to_le32 = (\<lambda>x. x), le32_to_cpu = (\<lambda>x. x),
     cpu_to_le16 = (\<lambda>x. x), le16_to_cpu = (\<lambda>x. x),
     cpu_to_be64 = swab64, be64_to_cpu = swab64,
     cpu_to_be32 = swab32, be32_to_cpu = swab32,
     cpu_to_be16 = swab16, be16_to_cpu = swab16\<rparr>"

definition big_endian_h :: conversions where
  "big_endian_h = \<lparr>
     cpu_to_le64 = swab64, le64_to_cpu = swab64,
     cpu_to_le32 = swab32, le32_to_cpu = swab32,
     cpu_to_le16 = swab16, le16_to_cpu = swab16,
     cpu_to_be64 = (\<lambda>x. x), be64_to_cpu = (\<lambda>x. x),
     cpu_to_be32 = (\<lambda>x. x), be32_to_cpu = (\<lambda>x. x),
     cpu_to_be16 = (\<lambda>x. x), be16_to_cpu = (\<lambda>x. x)\<rparr>"

text \<open>The functions that convert the object at an address, and those that do it in place.\<close>

record 'p ptr_conversions =
  cpu_to_le64p :: "('p \<Rightarrow> u64) \<Rightarrow> 'p \<Rightarrow> u64"
  le64_to_cpup :: "('p \<Rightarrow> u64) \<Rightarrow> 'p \<Rightarrow> u64"
  cpu_to_le32p :: "('p \<Rightarrow> u32) \<Rightarrow> 'p \<Rightarrow> u32"
  le32_to_cpup :: "('p \<Rightarrow> u32) \<Rightarrow> 'p \<Rightarrow> u32"
  cpu_to_le16p :: "('p \<Rightarrow> u16) \<Rightarrow> 'p \<Rightarrow> u16"
  le16_to_cpup :: "('p \<Rightarrow> u16) \<Rightarrow> 'p \<Rightarrow> u16"
  cpu_to_be64p :: "('p \<Rightarrow> u64) \<Rightarrow> 'p \<Rightarrow> u64"
  be64_to_cpup :: "('p \<Rightarrow> u64) \<Rightarrow> 'p \<Rightarrow> u64"
  cpu_to_be32p :: "('p \<Rightarrow> u32) \<Rightarrow> 'p \<Rightarrow> u32"
  be32_to_cpup :: "('p \<Rightarrow> u32) \<Rightarrow> 'p \<Rightarrow> u32"
  cpu_to_be16p :: "('p \<Rightarrow> u16) \<Rightarrow> 'p \<Rightarrow> u16"
  be16_to_cpup :: "('p \<Rightarrow> u16) \<Rightarrow> 'p \<Rightarrow> u16"

definition little_endian_p :: "'p ptr_conversions" where
  "little_endian_p = \<lparr>
     cpu_to_le64p = (\<lambda>m p. m p), le64_to_cpup = (\<lambda>m p. m p),
     cpu_to_le32p = (\<lambda>m p. m p), le32_to_cpup = (\<lambda>m p. m p),
     cpu_to_le16p = (\<lambda>m p. m p), le16_to_cpup = (\<lambda>m p. m p),
     cpu_to_be64p = swab64p, be64_to_cpup = swab64p,
     cpu_to_be32p = swab32p, be32_to_cpup = swab32p,
     cpu_to_be16p = swab16p, be16_to_cpup = swab16p\<rparr>"

definition big_endian_p :: "'p ptr_conversions" where
  "big_endian_p = \<lparr>
     cpu_to_le64p = swab64p, le64_to_cpup = swab64p,
     cpu_to_le32p = swab32p, le32_to_cpup = swab32p,
     cpu_to_le16p = swab16p, le16_to_cpup = swab16p,
     cpu_to_be64p = (\<lambda>m p. m p), be64_to_cpup = (\<lambda>m p. m p),
     cpu_to_be32p = (\<lambda>m p. m p), be32_to_cpup = (\<lambda>m p. m p),
     cpu_to_be16p = (\<lambda>m p. m p), be16_to_cpup = (\<lambda>m p. m p)\<rparr>"

record 'p in_situ =
  cpu_to_le64s :: "('p \<Rightarrow> u64) \<Rightarrow> 'p \<Rightarrow> 'p \<Rightarrow> u64"
  le64_to_cpus :: "('p \<Rightarrow> u64) \<Rightarrow> 'p \<Rightarrow> 'p \<Rightarrow> u64"
  cpu_to_le32s :: "('p \<Rightarrow> u32) \<Rightarrow> 'p \<Rightarrow> 'p \<Rightarrow> u32"
  le32_to_cpus :: "('p \<Rightarrow> u32) \<Rightarrow> 'p \<Rightarrow> 'p \<Rightarrow> u32"
  cpu_to_le16s :: "('p \<Rightarrow> u16) \<Rightarrow> 'p \<Rightarrow> 'p \<Rightarrow> u16"
  le16_to_cpus :: "('p \<Rightarrow> u16) \<Rightarrow> 'p \<Rightarrow> 'p \<Rightarrow> u16"
  cpu_to_be64s :: "('p \<Rightarrow> u64) \<Rightarrow> 'p \<Rightarrow> 'p \<Rightarrow> u64"
  be64_to_cpus :: "('p \<Rightarrow> u64) \<Rightarrow> 'p \<Rightarrow> 'p \<Rightarrow> u64"
  cpu_to_be32s :: "('p \<Rightarrow> u32) \<Rightarrow> 'p \<Rightarrow> 'p \<Rightarrow> u32"
  be32_to_cpus :: "('p \<Rightarrow> u32) \<Rightarrow> 'p \<Rightarrow> 'p \<Rightarrow> u32"
  cpu_to_be16s :: "('p \<Rightarrow> u16) \<Rightarrow> 'p \<Rightarrow> 'p \<Rightarrow> u16"
  be16_to_cpus :: "('p \<Rightarrow> u16) \<Rightarrow> 'p \<Rightarrow> 'p \<Rightarrow> u16"

definition little_endian_s :: "'p in_situ" where
  "little_endian_s = \<lparr>
     cpu_to_le64s = (\<lambda>m p. m), le64_to_cpus = (\<lambda>m p. m),
     cpu_to_le32s = (\<lambda>m p. m), le32_to_cpus = (\<lambda>m p. m),
     cpu_to_le16s = (\<lambda>m p. m), le16_to_cpus = (\<lambda>m p. m),
     cpu_to_be64s = swab64s, be64_to_cpus = swab64s,
     cpu_to_be32s = swab32s, be32_to_cpus = swab32s,
     cpu_to_be16s = swab16s, be16_to_cpus = swab16s\<rparr>"

definition big_endian_s :: "'p in_situ" where
  "big_endian_s = \<lparr>
     cpu_to_le64s = swab64s, le64_to_cpus = swab64s,
     cpu_to_le32s = swab32s, le32_to_cpus = swab32s,
     cpu_to_le16s = swab16s, le16_to_cpus = swab16s,
     cpu_to_be64s = (\<lambda>m p. m), be64_to_cpus = (\<lambda>m p. m),
     cpu_to_be32s = (\<lambda>m p. m), be32_to_cpus = (\<lambda>m p. m),
     cpu_to_be16s = (\<lambda>m p. m), be16_to_cpus = (\<lambda>m p. m)\<rparr>"

fun host_header :: "byte_order \<Rightarrow> conversions" where
  "host_header LittleEndian = little_endian_h"
| "host_header BigEndian = big_endian_h"

fun host_header_s :: "byte_order \<Rightarrow> 'p in_situ" where
  "host_header_s LittleEndian = little_endian_s"
| "host_header_s BigEndian = big_endian_s"

fun host_header_p :: "byte_order \<Rightarrow> 'p ptr_conversions" where
  "host_header_p LittleEndian = little_endian_p"
| "host_header_p BigEndian = big_endian_p"

lemmas host_tables =
  little_endian_h_def big_endian_h_def little_endian_p_def big_endian_p_def
  little_endian_s_def big_endian_s_def swab16p_def swab32p_def swab64p_def
  swab16s_def swab32s_def swab64s_def


section \<open>generic.h: conversions built on the host table\<close>

definition htonl :: "conversions \<Rightarrow> u32 \<Rightarrow> u32" where "htonl H x = cpu_to_be32 H x"
definition ntohl :: "conversions \<Rightarrow> u32 \<Rightarrow> u32" where "ntohl H x = be32_to_cpu H x"
definition htons :: "conversions \<Rightarrow> u16 \<Rightarrow> u16" where "htons H x = cpu_to_be16 H x"
definition ntohs :: "conversions \<Rightarrow> u16 \<Rightarrow> u16" where "ntohs H x = be16_to_cpu H x"

definition le16_add_cpu :: "conversions \<Rightarrow> ('p \<Rightarrow> u16) \<Rightarrow> 'p \<Rightarrow> u16 \<Rightarrow> 'p \<Rightarrow> u16" where
  "le16_add_cpu H m var v = m(var := cpu_to_le16 H (le16_to_cpu H (m var) + v))"

definition le32_add_cpu :: "conversions \<Rightarrow> ('p \<Rightarrow> u32) \<Rightarrow> 'p \<Rightarrow> u32 \<Rightarrow> 'p \<Rightarrow> u32" where
  "le32_add_cpu H m var v = m(var := cpu_to_le32 H (le32_to_cpu H (m var) + v))"

definition le64_add_cpu :: "conversions \<Rightarrow> ('p \<Rightarrow> u64) \<Rightarrow> 'p \<Rightarrow> u64 \<Rightarrow> 'p \<Rightarrow> u64" where
  "le64_add_cpu H m var v = m(var := cpu_to_le64 H (le64_to_cpu H (m var) + v))"

definition be16_add_cpu :: "conversions \<Rightarrow> ('p \<Rightarrow> u16) \<Rightarrow> 'p \<Rightarrow> u16 \<Rightarrow> 'p \<Rightarrow> u16" where
  "be16_add_cpu H m var v = m(var := cpu_to_be16 H (be16_to_cpu H (m var) + v))"

definition be32_add_cpu :: "conversions \<Rightarrow> ('p \<Rightarrow> u32) \<Rightarrow> 'p \<Rightarrow> u32 \<Rightarrow> 'p \<Rightarrow> u32" where
  "be32_add_cpu H m var v = m(var := cpu_to_be32 H (be32_to_cpu H (m var) + v))"

definition be64_add_cpu :: "conversions \<Rightarrow> ('p \<Rightarrow> u64) \<Rightarrow> 'p \<Rightarrow> u64 \<Rightarrow> 'p \<Rightarrow> u64" where
  "be64_add_cpu H m var v = m(var := cpu_to_be64 H (be64_to_cpu H (m var) + v))"

text \<open>
  The array conversions, over a store of 32-bit cells; addresses count cells.  The first
  two rewrite \<open>words\<close> cells in place (\<open>while (words--)\<close>), the last two copy from
  \<open>src\<close> to \<open>dst\<close> in increasing order.
\<close>

fun le32_to_cpu_array :: "nat in_situ \<Rightarrow> (nat \<Rightarrow> u32) \<Rightarrow> nat \<Rightarrow> nat \<Rightarrow> nat \<Rightarrow> u32" where
  "le32_to_cpu_array S m buf 0 = m"
| "le32_to_cpu_array S m buf (Suc words) = le32_to_cpu_array S (le32_to_cpus S m buf) (Suc buf) words"

fun cpu_to_le32_array :: "nat in_situ \<Rightarrow> (nat \<Rightarrow> u32) \<Rightarrow> nat \<Rightarrow> nat \<Rightarrow> nat \<Rightarrow> u32" where
  "cpu_to_le32_array S m buf 0 = m"
| "cpu_to_le32_array S m buf (Suc words) = cpu_to_le32_array S (cpu_to_le32s S m buf) (Suc buf) words"

function copy_conv :: "(u32 \<Rightarrow> u32) \<Rightarrow> (nat \<Rightarrow> u32) \<Rightarrow> nat \<Rightarrow> nat \<Rightarrow> nat \<Rightarrow> nat \<Rightarrow> nat \<Rightarrow> u32" where
  "copy_conv f m dst src i len =
     (if i < len then copy_conv f (m(dst + i := f (m (src + i)))) dst src (Suc i) len else m)"
  by pat_completeness auto
termination
  by (relation "measure (\<lambda>(f, m, dst, src, i, len). len - i)") auto

declare copy_conv.simps [simp del]

definition cpu_to_be32_array :: "conversions \<Rightarrow> (nat \<Rightarrow> u32) \<Rightarrow> nat \<Rightarrow> nat \<Rightarrow> nat \<Rightarrow> nat \<Rightarrow> u32" where
  "cpu_to_be32_array H m dst src len = copy_conv (cpu_to_be32 H) m dst src 0 len"

definition be32_to_cpu_array :: "conversions \<Rightarrow> (nat \<Rightarrow> u32) \<Rightarrow> nat \<Rightarrow> nat \<Rightarrow> nat \<Rightarrow> nat \<Rightarrow> u32" where
  "be32_to_cpu_array H m dst src len = copy_conv (be32_to_cpu H) m dst src 0 len"

text \<open>
  Copying upwards is safe when the destination does not start inside the source: every
  cell is read before it is overwritten.
\<close>

lemma copy_conv_range:
  assumes "dst \<le> src \<or> src + len \<le> dst"
  shows "copy_conv f m dst src i len a =
    (if dst + i \<le> a \<and> a < dst + len then f (m (src + (a - dst))) else m a)"
  using assms
proof (induction f m dst src i len rule: copy_conv.induct)
  case (1 f m dst src i len)
  show ?case
  proof (cases "i < len")
    case True
    let ?m = "m(dst + i := f (m (src + i)))"
    have unread: "i < j \<Longrightarrow> j < len \<Longrightarrow> ?m (src + j) = m (src + j)" for j
      using "1.prems" by auto
    have "copy_conv f m dst src i len a = copy_conv f ?m dst src (Suc i) len a"
      using True by (simp add: copy_conv.simps [of f m])
    also have "\<dots> = (if dst + Suc i \<le> a \<and> a < dst + len then f (?m (src + (a - dst))) else ?m a)"
      by (rule "1.IH" [OF True "1.prems"])
    also have "\<dots> = (if dst + i \<le> a \<and> a < dst + len then f (m (src + (a - dst))) else m a)"
      using True unread [of "a - dst"] by (cases "a = dst + i") auto
    finally show ?thesis .
  next
    case False
    then show ?thesis by (auto simp: copy_conv.simps [of f m])
  qed
qed

section \<open>The contract of a host header\<close>

text \<open>
  What both headers promise: storing a converted value leaves its bytes in the named
  order, and the two directions are inverse.
\<close>

locale host_order =
  fixes ord :: byte_order and H :: conversions
  assumes stores_le:
      "object_bytes ord 2 (cpu_to_le16 H x) = le_bytes 2 x"
      "object_bytes ord 4 (cpu_to_le32 H y) = le_bytes 4 y"
      "object_bytes ord 8 (cpu_to_le64 H z) = le_bytes 8 z"
    and stores_be:
      "object_bytes ord 2 (cpu_to_be16 H x) = rev (le_bytes 2 x)"
      "object_bytes ord 4 (cpu_to_be32 H y) = rev (le_bytes 4 y)"
      "object_bytes ord 8 (cpu_to_be64 H z) = rev (le_bytes 8 z)"
    and undo:
      "le16_to_cpu H (cpu_to_le16 H x) = x" "le32_to_cpu H (cpu_to_le32 H y) = y"
      "le64_to_cpu H (cpu_to_le64 H z) = z" "be16_to_cpu H (cpu_to_be16 H x) = x"
      "be32_to_cpu H (cpu_to_be32 H y) = y" "be64_to_cpu H (cpu_to_be64 H z) = z"
begin

lemma htonl_wire: "object_bytes ord 4 (htonl H y) = rev (le_bytes 4 y)"
  by (simp add: htonl_def stores_be)

lemma htons_wire: "object_bytes ord 2 (htons H x) = rev (le_bytes 2 x)"
  by (simp add: htons_def stores_be)

lemma ntoh_hton: "ntohl H (htonl H y) = y" "ntohs H (htons H x) = x"
  by (simp_all add: htonl_def ntohl_def htons_def ntohs_def undo)

lemma add_cpu_le:
  "object_bytes ord 2 (le16_add_cpu H m16 p v16 p) = le_bytes 2 (le16_to_cpu H (m16 p) + v16)"
  "object_bytes ord 4 (le32_add_cpu H m32 p v32 p) = le_bytes 4 (le32_to_cpu H (m32 p) + v32)"
  "object_bytes ord 8 (le64_add_cpu H m64 p v64 p) = le_bytes 8 (le64_to_cpu H (m64 p) + v64)"
  by (simp_all add: le16_add_cpu_def le32_add_cpu_def le64_add_cpu_def stores_le)

lemma add_cpu_be:
  "object_bytes ord 2 (be16_add_cpu H m16 p v16 p) = rev (le_bytes 2 (be16_to_cpu H (m16 p) + v16))"
  "object_bytes ord 4 (be32_add_cpu H m32 p v32 p) = rev (le_bytes 4 (be32_to_cpu H (m32 p) + v32))"
  "object_bytes ord 8 (be64_add_cpu H m64 p v64 p) = rev (le_bytes 8 (be64_to_cpu H (m64 p) + v64))"
  by (simp_all add: be16_add_cpu_def be32_add_cpu_def be64_add_cpu_def stores_be)

lemma cpu_to_be32_array_wire:
  assumes "dst \<le> src \<or> src + len \<le> dst" "k < len"
  shows "object_bytes ord 4 (cpu_to_be32_array H m dst src len (dst + k)) = rev (le_bytes 4 (m (src + k)))"
  using assms by (simp add: cpu_to_be32_array_def copy_conv_range stores_be)

lemma be32_array_round_trip:
  assumes "dst \<le> src \<or> src + len \<le> dst" "k < len"
  shows "be32_to_cpu_array H (cpu_to_be32_array H m dst src len) dst dst len (dst + k) = m (src + k)"
  using assms by (simp add: cpu_to_be32_array_def be32_to_cpu_array_def copy_conv_range undo)

end

interpretation le_host: host_order LittleEndian little_endian_h
  by unfold_locales (simp_all add: host_tables le_bytes_swab)

interpretation be_host: host_order BigEndian big_endian_h
  by unfold_locales (simp_all add: host_tables le_bytes_swab)

lemma host_order_header: "host_order ord (host_header ord)"
  using le_host.host_order_axioms be_host.host_order_axioms by (cases ord) simp_all

lemma ptr_tables:
  "le16_to_cpup (host_header_p ord) m16 p = le16_to_cpu (host_header ord) (m16 p)"
  "le32_to_cpup (host_header_p ord) m32 p = le32_to_cpu (host_header ord) (m32 p)"
  "le64_to_cpup (host_header_p ord) m64 p = le64_to_cpu (host_header ord) (m64 p)"
  "be16_to_cpup (host_header_p ord) m16 p = be16_to_cpu (host_header ord) (m16 p)"
  "be32_to_cpup (host_header_p ord) m32 p = be32_to_cpu (host_header ord) (m32 p)"
  "be64_to_cpup (host_header_p ord) m64 p = be64_to_cpu (host_header ord) (m64 p)"
  by (cases ord; simp add: host_tables)+

lemma in_situ_tables:
  "cpu_to_le32s (host_header_s ord) m p = m(p := cpu_to_le32 (host_header ord) (m p))"
  "le32_to_cpus (host_header_s ord) m p = m(p := le32_to_cpu (host_header ord) (m p))"
  by (cases ord; simp add: host_tables)+

lemma in_situ_array:
  "cpu_to_le32_array (host_header_s ord) m buf n a =
     (if buf \<le> a \<and> a < buf + n then cpu_to_le32 (host_header ord) (m a) else m a)"
  "le32_to_cpu_array (host_header_s ord) m buf n a =
     (if buf \<le> a \<and> a < buf + n then le32_to_cpu (host_header ord) (m a) else m a)"
  by (induction n arbitrary: m buf) (auto simp: in_situ_tables)

section \<open>Properties\<close>

text \<open>The mask-and-shift swaps reverse the byte sequence of a word, whatever the value,
  so each is its own inverse; and the 64-bit swap through two 32-bit swaps agrees with
  the direct one.
\<close>

theorem swab_reverses_bytes:
  "le_bytes 2 (swab16 x) = rev (le_bytes 2 x) \<and>
   le_bytes 4 (swab32 y) = rev (le_bytes 4 y) \<and>
   le_bytes 8 (swab64 z) = rev (le_bytes 8 z) \<and>
   fswab64_thru_32 z = swab64 z \<and>
   swab16 (swab16 x) = x \<and> swab32 (swab32 y) = y \<and> swab64 (swab64 z) = z"
  by (simp add: le_bytes_swab fswab64_thru_32_eq)

text \<open>
  on a host of either byte order, with the header for that order, what
  \<open>htonl\<close> and \<open>htons\<close> store has the most significant byte first, what
  \<open>cpu_to_le32\<close> stores has the least significant byte first, and the way back
  recovers the value.
\<close>

theorem host_conversions_wire_order:
  "object_bytes ord 4 (htonl (host_header ord) y) = rev (le_bytes 4 y) \<and>
   object_bytes ord 2 (htons (host_header ord) x) = rev (le_bytes 2 x) \<and>
   object_bytes ord 4 (cpu_to_le32 (host_header ord) y) = le_bytes 4 y \<and>
   ntohl (host_header ord) (htonl (host_header ord) y) = y \<and>
   ntohs (host_header ord) (htons (host_header ord) x) = x"
  using host_order.htonl_wire [OF host_order_header] host_order.htons_wire [OF host_order_header]
    host_order.stores_le [OF host_order_header] host_order.ntoh_hton [OF host_order_header]
  by simp

text \<open>Copying an array to big-endian form and back restores it, for overlapping ranges
  too as long as the destination does not start inside the source; the stored bytes are
  in network order and cells outside the destination keep their contents.
\<close>

theorem be32_array_copy:
  assumes "dst \<le> src \<or> src + len \<le> dst" and "k < len" and "a < dst \<or> dst + len \<le> a"
  shows "object_bytes ord 4 (cpu_to_be32_array (host_header ord) m dst src len (dst + k)) =
           rev (le_bytes 4 (m (src + k))) \<and>
         be32_to_cpu_array (host_header ord) (cpu_to_be32_array (host_header ord) m dst src len)
           dst dst len (dst + k) = m (src + k) \<and>
         cpu_to_be32_array (host_header ord) m dst src len a = m a"
proof -
  note arr = host_order.cpu_to_be32_array_wire [OF host_order_header assms(1,2)]
    host_order.be32_array_round_trip [OF host_order_header assms(1,2)]
  have "cpu_to_be32_array (host_header ord) m dst src len a = m a"
    using assms(1,3) by (auto simp: cpu_to_be32_array_def copy_conv_range)
  with arr show ?thesis by blast
qed

theorem be32_array_copy_witness:
  "object_bytes LittleEndian 4
     (cpu_to_be32_array (host_header LittleEndian) (\<lambda>a. of_nat a) 2 4 3 (2 + 1)) =
     rev (le_bytes 4 (of_nat (4 + 1) :: u32)) \<and>
   be32_to_cpu_array (host_header LittleEndian)
     (cpu_to_be32_array (host_header LittleEndian) (\<lambda>a. of_nat a) 2 4 3) 2 2 3 (2 + 1) = of_nat (4 + 1) \<and>
   cpu_to_be32_array (host_header LittleEndian) (\<lambda>a. of_nat a) 2 4 3 9 = of_nat 9"
  by (rule be32_array_copy) simp_all

end
