(* ===== verification/Unaligned.thy ===== *)
theory Unaligned
  imports ByteOrder
begin

text \<open>
  Unaligned access: the byte-shift accessors of \<open>include/linux/unaligned/\<close>
  (\<open>le_byteshift.h\<close>, \<open>be_byteshift.h\<close>), the native accessors of
  \<open>access_ok.h\<close> and the size dispatch of \<open>generic.h\<close>.  Memory is a map from byte
  addresses to bytes.  In an \<open>int\<close> expression a byte is promoted to 32 bits before it
  is shifted, which the models keep; shifting the top byte by 24 sets the sign bit, as the
  compilers of the source do.
\<close>

type_synonym bytemem = "nat \<Rightarrow> u8"

abbreviation promote :: "u8 \<Rightarrow> u32" where
  "promote b \<equiv> ucast b"

section \<open>le_byteshift.h\<close>

definition get_unaligned_le16 :: "bytemem \<Rightarrow> nat \<Rightarrow> u16" where
  "get_unaligned_le16 m p = ucast (promote (m p) OR push_bit 8 (promote (m (p + 1))))"

definition get_unaligned_le32 :: "bytemem \<Rightarrow> nat \<Rightarrow> u32" where
  "get_unaligned_le32 m p =
     promote (m p) OR push_bit 8 (promote (m (p + 1))) OR
     push_bit 16 (promote (m (p + 2))) OR push_bit 24 (promote (m (p + 3)))"

definition get_unaligned_le64 :: "bytemem \<Rightarrow> nat \<Rightarrow> u64" where
  "get_unaligned_le64 m p =
     push_bit 32 (ucast (get_unaligned_le32 m (p + 4))) OR ucast (get_unaligned_le32 m p)"

definition put_unaligned_le16 :: "u16 \<Rightarrow> nat \<Rightarrow> bytemem \<Rightarrow> bytemem" where
  "put_unaligned_le16 val p m = m(p := ucast val, p + 1 := ucast (drop_bit 8 val))"

definition put_unaligned_le32 :: "u32 \<Rightarrow> nat \<Rightarrow> bytemem \<Rightarrow> bytemem" where
  "put_unaligned_le32 val p m =
     (let m1 = put_unaligned_le16 (ucast (drop_bit 16 val)) (p + 2) m
      in put_unaligned_le16 (ucast val) p m1)"

definition put_unaligned_le64 :: "u64 \<Rightarrow> nat \<Rightarrow> bytemem \<Rightarrow> bytemem" where
  "put_unaligned_le64 val p m =
     (let m1 = put_unaligned_le32 (ucast (drop_bit 32 val)) (p + 4) m
      in put_unaligned_le32 (ucast val) p m1)"

section \<open>be_byteshift.h\<close>

definition get_unaligned_be16 :: "bytemem \<Rightarrow> nat \<Rightarrow> u16" where
  "get_unaligned_be16 m p = ucast (push_bit 8 (promote (m p)) OR promote (m (p + 1)))"

definition get_unaligned_be32 :: "bytemem \<Rightarrow> nat \<Rightarrow> u32" where
  "get_unaligned_be32 m p =
     push_bit 24 (promote (m p)) OR push_bit 16 (promote (m (p + 1))) OR
     push_bit 8 (promote (m (p + 2))) OR promote (m (p + 3))"

definition get_unaligned_be64 :: "bytemem \<Rightarrow> nat \<Rightarrow> u64" where
  "get_unaligned_be64 m p =
     push_bit 32 (ucast (get_unaligned_be32 m p)) OR ucast (get_unaligned_be32 m (p + 4))"

definition put_unaligned_be16 :: "u16 \<Rightarrow> nat \<Rightarrow> bytemem \<Rightarrow> bytemem" where
  "put_unaligned_be16 val p m = m(p := ucast (drop_bit 8 val), p + 1 := ucast val)"

definition put_unaligned_be32 :: "u32 \<Rightarrow> nat \<Rightarrow> bytemem \<Rightarrow> bytemem" where
  "put_unaligned_be32 val p m =
     (let m1 = put_unaligned_be16 (ucast (drop_bit 16 val)) p m
      in put_unaligned_be16 (ucast val) (p + 2) m1)"

definition put_unaligned_be64 :: "u64 \<Rightarrow> nat \<Rightarrow> bytemem \<Rightarrow> bytemem" where
  "put_unaligned_be64 val p m =
     (let m1 = put_unaligned_be32 (ucast (drop_bit 32 val)) p m
      in put_unaligned_be32 (ucast val) (p + 4) m1)"

lemmas accessor_defs =
  get_unaligned_le16_def get_unaligned_le32_def get_unaligned_le64_def
  get_unaligned_be16_def get_unaligned_be32_def get_unaligned_be64_def
  put_unaligned_le16_def put_unaligned_le32_def put_unaligned_le64_def
  put_unaligned_be16_def put_unaligned_be32_def put_unaligned_be64_def

section \<open>The contract of an accessor pair\<close>

text \<open>
  \<open>img\<close> is the byte image of a value; reading returns the value whose image is in
  memory, writing stores the image and nothing else.
\<close>

definition window :: "bytemem \<Rightarrow> nat \<Rightarrow> nat \<Rightarrow> u8 list" where
  "window m p n = map m [p..<p + n]"

lemma length_window [simp]: "length (window m p n) = n"
  by (simp add: window_def)

lemma window_nth [simp]: "k < n \<Longrightarrow> window m p n ! k = m (p + k)"
  by (simp add: window_def)

lemma window_eqI: "(\<And>k. k < n \<Longrightarrow> m (p + k) = bs ! k) \<Longrightarrow> length bs = n \<Longrightarrow> window m p n = bs"
  by (rule nth_equalityI) simp_all

locale byte_codec =
  fixes n :: nat
    and get :: "bytemem \<Rightarrow> nat \<Rightarrow> 'a::len word"
    and put :: "'a word \<Rightarrow> nat \<Rightarrow> bytemem \<Rightarrow> bytemem"
    and img :: "'a word \<Rightarrow> u8 list"
  assumes get_img: "img (get m p) = window m p n"
    and put_img: "window (put v p m) p n = img v"
    and put_frame: "a < p \<or> p + n \<le> a \<Longrightarrow> put v p m a = m a"
    and img_inj: "img v = img w \<longleftrightarrow> v = w"
begin

lemma get_put: "get (put v p m) p = v"
  using get_img put_img img_inj by metis

lemma get_frame:
  assumes "p + n \<le> q \<or> q + n \<le> p"
  shows "get (put v p m) q = get m q"
proof -
  have "window (put v p m) q n = window m q n"
    by (rule window_eqI) (use assms put_frame in auto)
  then show ?thesis using get_img img_inj by metis
qed

lemma put_get: "put (get m p) p m = m"
proof
  fix a
  show "put (get m p) p m a = m a"
  proof (cases "p \<le> a \<and> a < p + n")
    case True
    then have a: "a = p + (a - p)" "a - p < n" by auto
    have "window (put (get m p) p m) p n ! (a - p) = window m p n ! (a - p)"
      by (simp only: put_img get_img)
    with a show ?thesis by simp
  next
    case False
    then show ?thesis by (intro put_frame) auto
  qed
qed

lemma put_put: "put w p (put v p m) = put w p m"
proof
  fix a
  show "put w p (put v p m) a = put w p m a"
  proof (cases "p \<le> a \<and> a < p + n")
    case True
    then have a: "a = p + (a - p)" "a - p < n" by auto
    have "window (put w p (put v p m)) p n ! (a - p) = window (put w p m) p n ! (a - p)"
      by (simp only: put_img)
    with a show ?thesis by simp
  next
    case False
    then show ?thesis using put_frame by auto
  qed
qed

lemma put_commute:
  assumes "p + n \<le> q \<or> q + n \<le> p"
  shows "put v p (put w q m) = put w q (put v p m)"
proof
  fix a
  have in_window: "r \<le> a \<and> a < r + n \<Longrightarrow> put u r m' a = img u ! (a - r)" for u r m'
    using put_img [of u r m'] window_nth [of "a - r" n "put u r m'" r] by auto
  show "put v p (put w q m) a = put w q (put v p m) a"
    using assms in_window put_frame
    by (cases "p \<le> a \<and> a < p + n"; cases "q \<le> a \<and> a < q + n") (auto simp: not_le not_less)
qed

end

text \<open>The six byte-shift pairs; the bytes of a value read are decided bit by bit.\<close>

lemma get_bytes16:
  "byte (get_unaligned_le16 m p) 0 = m p" "byte (get_unaligned_le16 m p) (Suc 0) = m (Suc p)"
  "byte (get_unaligned_be16 m p) 0 = m (Suc p)" "byte (get_unaligned_be16 m p) (Suc 0) = m p"
  by (auto intro!: bit_word_eqI simp: accessor_defs word_bits)

lemma get_bytes32:
  "byte (get_unaligned_le32 m p) 0 = m p" "byte (get_unaligned_le32 m p) (Suc 0) = m (p + 1)"
  "byte (get_unaligned_le32 m p) 2 = m (p + 2)" "byte (get_unaligned_le32 m p) 3 = m (p + 3)"
  "byte (get_unaligned_be32 m p) 0 = m (p + 3)" "byte (get_unaligned_be32 m p) (Suc 0) = m (p + 2)"
  "byte (get_unaligned_be32 m p) 2 = m (p + 1)" "byte (get_unaligned_be32 m p) 3 = m p"
  by (auto intro!: bit_word_eqI simp: accessor_defs word_bits)

lemma window_append: "window m p (j + k) = window m p j @ window m (p + j) k"
  by (rule window_eqI) (auto simp: nth_append)

lemma window_expand:
  "window m p 2 = [m p, m (p + 1)]"
  "window m p 4 = [m p, m (p + 1), m (p + 2), m (p + 3)]"
  by (rule window_eqI; auto simp: less_Suc_eq numeral_eq_Suc)+

lemma get_window:
  "le_bytes 2 (get_unaligned_le16 m p) = window m p 2"
  "le_bytes 4 (get_unaligned_le32 m p) = window m p 4"
  "le_bytes 8 (get_unaligned_le64 m p) = window m p 8"
  "rev (le_bytes 2 (get_unaligned_be16 m p)) = window m p 2"
  "rev (le_bytes 4 (get_unaligned_be32 m p)) = window m p 4"
  "rev (le_bytes 8 (get_unaligned_be64 m p)) = window m p 8"
proof -
  have 32: "le_bytes 4 (get_unaligned_le32 m p) = window m p 4"
    "rev (le_bytes 4 (get_unaligned_be32 m p)) = window m p 4" for p
    by (simp_all add: le_bytes_def upt_bytes window_expand get_bytes32)
  then show "le_bytes 4 (get_unaligned_le32 m p) = window m p 4"
    "rev (le_bytes 4 (get_unaligned_be32 m p)) = window m p 4" by blast+
  show "le_bytes 8 (get_unaligned_le64 m p) = window m p 8"
    "rev (le_bytes 8 (get_unaligned_be64 m p)) = window m p 8"
    using window_append [of m p 4 4]
    by (simp_all add: get_unaligned_le64_def get_unaligned_be64_def le_bytes_join 32)
  show "le_bytes 2 (get_unaligned_le16 m p) = window m p 2"
    "rev (le_bytes 2 (get_unaligned_be16 m p)) = window m p 2"
    by (simp_all add: le_bytes_def upt_bytes window_expand get_bytes16)
qed

text \<open>Writing a list of bytes from an address on.\<close>

definition poke :: "u8 list \<Rightarrow> nat \<Rightarrow> bytemem \<Rightarrow> bytemem" where
  "poke bs p m = (\<lambda>a. if p \<le> a \<and> a < p + length bs then bs ! (a - p) else m a)"

lemma poke_append:
  "poke (xs @ ys) p m = poke xs p (poke ys (p + length xs) m)"
  "poke (xs @ ys) p m = poke ys (p + length xs) (poke xs p m)"
  by (auto simp: poke_def fun_eq_iff nth_append)

lemma window_poke: "window (poke bs p m) p (length bs) = bs"
  by (rule window_eqI) (auto simp: poke_def)

lemma poke_frame: "a < p \<or> p + length bs \<le> a \<Longrightarrow> poke bs p m a = m a"
  by (auto simp: poke_def)

lemma put_poke16:
  "put_unaligned_le16 v p m = poke (le_bytes 2 v) p m"
  "put_unaligned_be16 v p m = poke (rev (le_bytes 2 v)) p m"
  by (auto simp: put_unaligned_le16_def put_unaligned_be16_def poke_def fun_eq_iff
      le_bytes_def upt_bytes less_Suc_eq nth_Cons' byte_def)

lemma put_poke32:
  "put_unaligned_le32 v p m = poke (le_bytes 4 v) p m"
  "put_unaligned_be32 v p m = poke (rev (le_bytes 4 v)) p m"
proof -
  have "le_bytes (2 + 2) v = le_bytes 2 (ucast v :: u16) @ le_bytes 2 (ucast (drop_bit (8 * 2) v) :: u16)"
    by (rule le_bytes_append) simp_all
  then have v: "le_bytes 4 v = le_bytes 2 (ucast v :: u16) @ le_bytes 2 (ucast (drop_bit 16 v) :: u16)"
    by simp
  show "put_unaligned_le32 v p m = poke (le_bytes 4 v) p m"
    by (simp add: put_unaligned_le32_def put_poke16 v poke_append(1))
  show "put_unaligned_be32 v p m = poke (rev (le_bytes 4 v)) p m"
    by (simp add: put_unaligned_be32_def put_poke16 v poke_append(2))
qed

lemma put_poke64:
  "put_unaligned_le64 v p m = poke (le_bytes 8 v) p m"
  "put_unaligned_be64 v p m = poke (rev (le_bytes 8 v)) p m"
proof -
  have "le_bytes (4 + 4) v = le_bytes 4 (ucast v :: u32) @ le_bytes 4 (ucast (drop_bit (8 * 4) v) :: u32)"
    by (rule le_bytes_append) simp_all
  then have v: "le_bytes 8 v = le_bytes 4 (ucast v :: u32) @ le_bytes 4 (ucast (drop_bit 32 v) :: u32)"
    by simp
  show "put_unaligned_le64 v p m = poke (le_bytes 8 v) p m"
    by (simp add: put_unaligned_le64_def put_poke32 v poke_append(1))
  show "put_unaligned_be64 v p m = poke (rev (le_bytes 8 v)) p m"
    by (simp add: put_unaligned_be64_def put_poke32 v poke_append(2))
qed

lemmas put_poke = put_poke16 put_poke32 put_poke64

lemma codecI:
  fixes get :: "bytemem \<Rightarrow> nat \<Rightarrow> 'a::len word"
  assumes "\<And>m p. img (get m p) = window m p n" "\<And>v p m. put v p m = poke (img v) p m"
    and "\<And>v. length (img v) = n" "\<And>v w. img v = img w \<longleftrightarrow> v = w"
  shows "byte_codec n get put img"
proof
  fix v w :: "'a word" and p a :: nat and m
  show "img (get m p) = window m p n" by (rule assms)
  show "window (put v p m) p n = img v"
    using window_poke [of "img v" p m] by (simp add: assms)
  show "a < p \<or> p + n \<le> a \<Longrightarrow> put v p m a = m a"
    by (simp add: assms poke_frame)
  show "img v = img w \<longleftrightarrow> v = w" by (rule assms)
qed

interpretation le16: byte_codec 2 get_unaligned_le16 put_unaligned_le16 "le_bytes 2"
  by (rule codecI) (simp_all add: get_window put_poke le_bytes_eq_iff)

interpretation le32: byte_codec 4 get_unaligned_le32 put_unaligned_le32 "le_bytes 4"
  by (rule codecI) (simp_all add: get_window put_poke le_bytes_eq_iff)

interpretation le64: byte_codec 8 get_unaligned_le64 put_unaligned_le64 "le_bytes 8"
  by (rule codecI) (simp_all add: get_window put_poke le_bytes_eq_iff)

interpretation be16: byte_codec 2 get_unaligned_be16 put_unaligned_be16 "\<lambda>v. rev (le_bytes 2 v)"
  by (rule codecI) (simp_all add: get_window put_poke le_bytes_eq_iff)

interpretation be32: byte_codec 4 get_unaligned_be32 put_unaligned_be32 "\<lambda>v. rev (le_bytes 4 v)"
  by (rule codecI) (simp_all add: get_window put_poke le_bytes_eq_iff)

interpretation be64: byte_codec 8 get_unaligned_be64 put_unaligned_be64 "\<lambda>v. rev (le_bytes 8 v)"
  by (rule codecI) (simp_all add: get_window put_poke le_bytes_eq_iff)

section \<open>access_ok.h: native accesses with a conversion\<close>

text \<open>
  On machines that allow unaligned accesses the object itself is read or written in the
  host's byte order and converted with the tables of the host header.
\<close>

fun word_of_bytes :: "u8 list \<Rightarrow> 'a::len word" where
  "word_of_bytes [] = 0"
| "word_of_bytes (b # bs) = ucast b OR push_bit 8 (word_of_bytes bs)"

definition native_load :: "byte_order \<Rightarrow> nat \<Rightarrow> bytemem \<Rightarrow> nat \<Rightarrow> 'a::len word" where
  "native_load ord n m p =
     word_of_bytes (if ord = LittleEndian then window m p n else rev (window m p n))"

definition native_store :: "byte_order \<Rightarrow> nat \<Rightarrow> 'a::len word \<Rightarrow> nat \<Rightarrow> bytemem \<Rightarrow> bytemem" where
  "native_store ord n v p m = poke (object_bytes ord n v) p m"

definition aok_get_le16 :: "byte_order \<Rightarrow> bytemem \<Rightarrow> nat \<Rightarrow> u16" where
  "aok_get_le16 ord m p = le16_to_cpup (host_header_p ord) (native_load ord 2 m) p"

definition aok_get_le32 :: "byte_order \<Rightarrow> bytemem \<Rightarrow> nat \<Rightarrow> u32" where
  "aok_get_le32 ord m p = le32_to_cpup (host_header_p ord) (native_load ord 4 m) p"

definition aok_get_le64 :: "byte_order \<Rightarrow> bytemem \<Rightarrow> nat \<Rightarrow> u64" where
  "aok_get_le64 ord m p = le64_to_cpup (host_header_p ord) (native_load ord 8 m) p"

definition aok_get_be16 :: "byte_order \<Rightarrow> bytemem \<Rightarrow> nat \<Rightarrow> u16" where
  "aok_get_be16 ord m p = be16_to_cpup (host_header_p ord) (native_load ord 2 m) p"

definition aok_get_be32 :: "byte_order \<Rightarrow> bytemem \<Rightarrow> nat \<Rightarrow> u32" where
  "aok_get_be32 ord m p = be32_to_cpup (host_header_p ord) (native_load ord 4 m) p"

definition aok_get_be64 :: "byte_order \<Rightarrow> bytemem \<Rightarrow> nat \<Rightarrow> u64" where
  "aok_get_be64 ord m p = be64_to_cpup (host_header_p ord) (native_load ord 8 m) p"

definition aok_put_le16 :: "byte_order \<Rightarrow> u16 \<Rightarrow> nat \<Rightarrow> bytemem \<Rightarrow> bytemem" where
  "aok_put_le16 ord val p m = native_store ord 2 (cpu_to_le16 (host_header ord) val) p m"

definition aok_put_le32 :: "byte_order \<Rightarrow> u32 \<Rightarrow> nat \<Rightarrow> bytemem \<Rightarrow> bytemem" where
  "aok_put_le32 ord val p m = native_store ord 4 (cpu_to_le32 (host_header ord) val) p m"

definition aok_put_le64 :: "byte_order \<Rightarrow> u64 \<Rightarrow> nat \<Rightarrow> bytemem \<Rightarrow> bytemem" where
  "aok_put_le64 ord val p m = native_store ord 8 (cpu_to_le64 (host_header ord) val) p m"

definition aok_put_be16 :: "byte_order \<Rightarrow> u16 \<Rightarrow> nat \<Rightarrow> bytemem \<Rightarrow> bytemem" where
  "aok_put_be16 ord val p m = native_store ord 2 (cpu_to_be16 (host_header ord) val) p m"

definition aok_put_be32 :: "byte_order \<Rightarrow> u32 \<Rightarrow> nat \<Rightarrow> bytemem \<Rightarrow> bytemem" where
  "aok_put_be32 ord val p m = native_store ord 4 (cpu_to_be32 (host_header ord) val) p m"

definition aok_put_be64 :: "byte_order \<Rightarrow> u64 \<Rightarrow> nat \<Rightarrow> bytemem \<Rightarrow> bytemem" where
  "aok_put_be64 ord val p m = native_store ord 8 (cpu_to_be64 (host_header ord) val) p m"

lemmas access_ok_defs =
  aok_get_le16_def aok_get_le32_def aok_get_le64_def aok_get_be16_def
  aok_get_be32_def aok_get_be64_def aok_put_le16_def aok_put_le32_def
  aok_put_le64_def aok_put_be16_def aok_put_be32_def aok_put_be64_def

lemma byte_word_of_bytes:
  "k < length bs \<Longrightarrow> 8 * length bs \<le> LENGTH('a::len) \<Longrightarrow> byte (word_of_bytes bs :: 'a word) k = bs ! k"
proof (induction bs arbitrary: k)
  case Nil
  then show ?case by simp
next
  case (Cons b bs)
  show ?case
  proof (cases k)
    case 0
    then show ?thesis
      using Cons.prems by (auto intro!: bit_word_eqI simp: word_bits)
  next
    case (Suc j)
    have "byte (word_of_bytes (b # bs) :: 'a word) k = byte (word_of_bytes bs :: 'a word) j"
      using Suc Cons.prems by (auto intro!: bit_word_eqI simp: word_bits)
    with Cons Suc show ?thesis by simp
  qed
qed

lemma object_bytes_native_load:
  "8 * n \<le> LENGTH('a::len) \<Longrightarrow> object_bytes ord n (native_load ord n m p :: 'a word) = window m p n"
proof -
  assume len: "8 * n \<le> LENGTH('a)"
  have le: "le_bytes n (word_of_bytes bs :: 'a word) = bs" if "length bs = n" for bs
    using that len by (auto intro!: nth_equalityI simp: byte_word_of_bytes)
  show ?thesis by (cases ord) (simp_all add: native_load_def le)
qed

text \<open>A native object with the image of a converted value is the converted value.\<close>

lemma native_load_eq:
  assumes "LENGTH('a::len) = 8 * n" "object_bytes ord n (v :: 'a word) = window m p n"
  shows "native_load ord n m p = v"
  using assms object_bytes_native_load [of n ord m p, where 'a = 'a]
    object_bytes_eq_iff [of n ord "native_load ord n m p" v] by simp

lemma native_conversions:
  "native_load ord 2 m p = cpu_to_le16 (host_header ord) (get_unaligned_le16 m p)"
  "native_load ord 4 m p = cpu_to_le32 (host_header ord) (get_unaligned_le32 m p)"
  "native_load ord 8 m p = cpu_to_le64 (host_header ord) (get_unaligned_le64 m p)"
  "native_load ord 2 m p = cpu_to_be16 (host_header ord) (get_unaligned_be16 m p)"
  "native_load ord 4 m p = cpu_to_be32 (host_header ord) (get_unaligned_be32 m p)"
  "native_load ord 8 m p = cpu_to_be64 (host_header ord) (get_unaligned_be64 m p)"
  by (rule native_load_eq; simp add: get_window host_order.stores_le [OF host_order_header]
      host_order.stores_be [OF host_order_header])+

section \<open>generic.h: dispatch on the size of the object\<close>

text \<open>
  \<open>sizeof(*(ptr))\<close> other than 1, 2, 4 or 8 is a link-time error, here no result.  The
  value read is widened to 64 bits.
\<close>

definition get_unaligned_le :: "nat \<Rightarrow> bytemem \<Rightarrow> nat \<Rightarrow> u64 option" where
  "get_unaligned_le sz m p =
     (if sz = 1 then Some (ucast (m p))
      else if sz = 2 then Some (ucast (get_unaligned_le16 m p))
      else if sz = 4 then Some (ucast (get_unaligned_le32 m p))
      else if sz = 8 then Some (get_unaligned_le64 m p)
      else None)"

definition get_unaligned_be :: "nat \<Rightarrow> bytemem \<Rightarrow> nat \<Rightarrow> u64 option" where
  "get_unaligned_be sz m p =
     (if sz = 1 then Some (ucast (m p))
      else if sz = 2 then Some (ucast (get_unaligned_be16 m p))
      else if sz = 4 then Some (ucast (get_unaligned_be32 m p))
      else if sz = 8 then Some (get_unaligned_be64 m p)
      else None)"

definition put_unaligned_le :: "nat \<Rightarrow> u64 \<Rightarrow> nat \<Rightarrow> bytemem \<Rightarrow> bytemem option" where
  "put_unaligned_le sz val p m =
     (if sz = 1 then Some (m(p := ucast val))
      else if sz = 2 then Some (put_unaligned_le16 (ucast val) p m)
      else if sz = 4 then Some (put_unaligned_le32 (ucast val) p m)
      else if sz = 8 then Some (put_unaligned_le64 val p m)
      else None)"

definition put_unaligned_be :: "nat \<Rightarrow> u64 \<Rightarrow> nat \<Rightarrow> bytemem \<Rightarrow> bytemem option" where
  "put_unaligned_be sz val p m =
     (if sz = 1 then Some (m(p := ucast val))
      else if sz = 2 then Some (put_unaligned_be16 (ucast val) p m)
      else if sz = 4 then Some (put_unaligned_be32 (ucast val) p m)
      else if sz = 8 then Some (put_unaligned_be64 val p m)
      else None)"

lemma ucast_ucast_take:
  "(ucast (ucast (v :: u64) :: u8) :: u64) = take_bit 8 v"
  "(ucast (ucast v :: u16) :: u64) = take_bit 16 v"
  "(ucast (ucast v :: u32) :: u64) = take_bit 32 v"
  by (auto intro!: bit_word_eqI simp: word_bits bit_take_bit_iff)

section \<open>Properties\<close>

lemma unaligned_round_trip_cases:
  assumes "sz \<in> {1, 2, 4, 8}"
  shows "\<exists>m'. put_unaligned_le sz v p m = Some m' \<and>
              get_unaligned_le sz m' p = Some (take_bit (8 * sz) v) \<and>
              (\<forall>a. a < p \<or> p + sz \<le> a \<longrightarrow> m' a = m a)"
    and "\<exists>m'. put_unaligned_be sz v p m = Some m' \<and>
              get_unaligned_be sz m' p = Some (take_bit (8 * sz) v) \<and>
              (\<forall>a. a < p \<or> p + sz \<le> a \<longrightarrow> m' a = m a)"
proof -
  consider "sz = 1" | "sz = 2" | "sz = 4" | "sz = 8" using assms by auto
  note sizes = this
  show "\<exists>m'. put_unaligned_le sz v p m = Some m' \<and>
              get_unaligned_le sz m' p = Some (take_bit (8 * sz) v) \<and>
              (\<forall>a. a < p \<or> p + sz \<le> a \<longrightarrow> m' a = m a)"
    by (cases rule: sizes) (auto simp: put_unaligned_le_def get_unaligned_le_def ucast_ucast_take
        le16.get_put le32.get_put le64.get_put le16.put_frame le32.put_frame le64.put_frame
        take_bit_word_eq_self)
  show "\<exists>m'. put_unaligned_be sz v p m = Some m' \<and>
              get_unaligned_be sz m' p = Some (take_bit (8 * sz) v) \<and>
              (\<forall>a. a < p \<or> p + sz \<le> a \<longrightarrow> m' a = m a)"
    by (cases rule: sizes) (auto simp: put_unaligned_be_def get_unaligned_be_def ucast_ucast_take
        be16.get_put be32.get_put be64.get_put be16.put_frame be32.put_frame be64.put_frame
        take_bit_word_eq_self)
qed

text \<open>
  C19: what was written with an unaligned accessor is read back at any address and size,
  in either byte order, reduced to the size of the object; and a read elsewhere is
  unaffected.
\<close>

theorem unaligned_round_trip:
  assumes "sz \<in> {1, 2, 4, 8}"
  shows "(\<exists>m'. put_unaligned_le sz v p m = Some m' \<and>
              get_unaligned_le sz m' p = Some (take_bit (8 * sz) v) \<and>
              (\<forall>a. a < p \<or> p + sz \<le> a \<longrightarrow> m' a = m a)) \<and>
         (\<exists>m'. put_unaligned_be sz v p m = Some m' \<and>
              get_unaligned_be sz m' p = Some (take_bit (8 * sz) v) \<and>
              (\<forall>a. a < p \<or> p + sz \<le> a \<longrightarrow> m' a = m a))"
  using unaligned_round_trip_cases [OF assms] by blast

theorem unaligned_round_trip_witness:
  "\<exists>m'. put_unaligned_le 4 0x1122334455 3 (\<lambda>_. 0) = Some m' \<and>
        get_unaligned_le 4 m' 3 = Some (take_bit (8 * 4) 0x1122334455) \<and>
        (\<forall>a. a < 3 \<or> 3 + 4 \<le> a \<longrightarrow> m' a = (\<lambda>_. 0) a)"
  using unaligned_round_trip [of 4 "0x1122334455" 3 "\<lambda>_. 0"] by simp

text \<open>
  C25: the byte-shift accessors and the native accessors of \<open>access_ok.h\<close> are
  interchangeable on hosts of both byte orders.
\<close>

theorem access_ok_equivalent:
  "aok_get_le16 ord m p = get_unaligned_le16 m p \<and> aok_get_le32 ord m p = get_unaligned_le32 m p \<and>
   aok_get_le64 ord m p = get_unaligned_le64 m p \<and> aok_get_be16 ord m p = get_unaligned_be16 m p \<and>
   aok_get_be32 ord m p = get_unaligned_be32 m p \<and> aok_get_be64 ord m p = get_unaligned_be64 m p \<and>
   aok_put_le16 ord x p m = put_unaligned_le16 x p m \<and> aok_put_le32 ord y p m = put_unaligned_le32 y p m \<and>
   aok_put_le64 ord z p m = put_unaligned_le64 z p m \<and> aok_put_be16 ord x p m = put_unaligned_be16 x p m \<and>
   aok_put_be32 ord y p m = put_unaligned_be32 y p m \<and> aok_put_be64 ord z p m = put_unaligned_be64 z p m"
proof (intro conjI)
  note undo = host_order.undo [OF host_order_header]
  show "aok_get_le16 ord m p = get_unaligned_le16 m p"
    by (simp add: access_ok_defs ptr_tables native_conversions(1) undo)
  show "aok_get_le32 ord m p = get_unaligned_le32 m p"
    by (simp add: access_ok_defs ptr_tables native_conversions(2) undo)
  show "aok_get_le64 ord m p = get_unaligned_le64 m p"
    by (simp add: access_ok_defs ptr_tables native_conversions(3) undo)
  show "aok_get_be16 ord m p = get_unaligned_be16 m p"
    by (simp add: access_ok_defs ptr_tables native_conversions(4) undo)
  show "aok_get_be32 ord m p = get_unaligned_be32 m p"
    by (simp add: access_ok_defs ptr_tables native_conversions(5) undo)
  show "aok_get_be64 ord m p = get_unaligned_be64 m p"
    by (simp add: access_ok_defs ptr_tables native_conversions(6) undo)
qed (simp_all add: access_ok_defs native_store_def put_poke
    host_order.stores_le [OF host_order_header] host_order.stores_be [OF host_order_header])

end
