(* ===== verification/Intrusive.thy ===== *)
theory Intrusive
  imports Prelude
begin

text \<open>
  The contract that the intrusive lists of the library share: the nodes are linked in place
  behind a root, \<open>rep h r xs\<close> reads the heap as the sequence of nodes, and every
  operation acts on that sequence.  Both the circular lists (\<open>list_head\<close>) and the
  hash lists (\<open>hlist\<close>) satisfy it; its clients are sequences of operations.
\<close>

datatype 'n op = Push 'n | Append 'n | Remove 'n

text \<open>What an operation does to the sequence, and when it may be used.\<close>

fun op_spec :: "'n op \<Rightarrow> 'n list \<Rightarrow> 'n list" where
  "op_spec (Push n) xs = n # xs"
| "op_spec (Append n) xs = xs @ [n]"
| "op_spec (Remove n) xs = remove1 n xs"

fun op_ok :: "('n \<Rightarrow> bool) \<Rightarrow> 'n op \<Rightarrow> 'n list \<Rightarrow> bool" where
  "op_ok fresh (Push n) xs \<longleftrightarrow> fresh n \<and> n \<notin> set xs"
| "op_ok fresh (Append n) xs \<longleftrightarrow> fresh n \<and> n \<notin> set xs"
| "op_ok fresh (Remove n) xs \<longleftrightarrow> n \<in> set xs"

fun ops_ok :: "('n \<Rightarrow> bool) \<Rightarrow> 'n op list \<Rightarrow> 'n list \<Rightarrow> bool" where
  "ops_ok fresh [] xs \<longleftrightarrow> True"
| "ops_ok fresh (p # ps) xs \<longleftrightarrow> op_ok fresh p xs \<and> ops_ok fresh ps (op_spec p xs)"

primrec exec :: "('n \<Rightarrow> 'h \<Rightarrow> 'h) \<Rightarrow> ('n \<Rightarrow> 'h \<Rightarrow> 'h) \<Rightarrow> ('n \<Rightarrow> 'h \<Rightarrow> 'h) \<Rightarrow> 'n op \<Rightarrow> 'h \<Rightarrow> 'h" where
  "exec push enq del (Push n) h = push n h"
| "exec push enq del (Append n) h = enq n h"
| "exec push enq del (Remove n) h = del n h"

lemma remove1_split: "distinct xs \<Longrightarrow> xs = ys @ n # zs \<Longrightarrow> remove1 n xs = ys @ zs"
  by (auto simp: remove1_append)

locale intrusive_stack =
  fixes rep :: "'h \<Rightarrow> 'r \<Rightarrow> 'n list \<Rightarrow> bool"
    and free :: "'r \<Rightarrow> 'n \<Rightarrow> bool"
    and push :: "'n \<Rightarrow> 'r \<Rightarrow> 'h \<Rightarrow> 'h"
    and del :: "'n \<Rightarrow> 'h \<Rightarrow> 'h"
  assumes rep_distinct: "rep h r xs \<Longrightarrow> distinct xs"
    and rep_push: "rep h r xs \<Longrightarrow> free r n \<Longrightarrow> n \<notin> set xs \<Longrightarrow> rep (push n r h) r (n # xs)"
    and rep_del: "rep h r (xs @ n # ys) \<Longrightarrow> rep (del n h) r (xs @ ys)"
begin

lemma rep_remove1: "rep h r xs \<Longrightarrow> n \<in> set xs \<Longrightarrow> rep (del n h) r (remove1 n xs)"
  by (metis rep_del rep_distinct remove1_split split_list)

lemma rep_push_del: "rep h r xs \<Longrightarrow> free r n \<Longrightarrow> n \<notin> set xs \<Longrightarrow> rep (del n (push n r h)) r xs"
  using rep_push rep_del [of "push n r h" r "[]" n xs] by simp

text \<open>Pushing nodes one after another reverses them.\<close>

lemma rep_push_all:
  "rep h r xs \<Longrightarrow> distinct (ns @ xs) \<Longrightarrow> (\<And>n. n \<in> set ns \<Longrightarrow> free r n) \<Longrightarrow>
   rep (fold (\<lambda>n. push n r) ns h) r (rev ns @ xs)"
proof (induction ns arbitrary: h xs)
  case (Cons n ns)
  have "rep (push n r h) r (n # xs)" using Cons.prems by (intro rep_push) auto
  then show ?case using Cons.IH [of "push n r h" "n # xs"] Cons.prems by simp
qed simp

lemma rep_del_all: "rep h r (xs @ ys) \<Longrightarrow> rep (fold del xs h) r ys"
proof (induction xs arbitrary: h)
  case (Cons x xs)
  then show ?case using rep_del [of h r "[]" x "xs @ ys"] by simp
qed simp

end

locale intrusive_queue = intrusive_stack rep free push del
  for rep :: "'h \<Rightarrow> 'r \<Rightarrow> 'n list \<Rightarrow> bool"
    and free :: "'r \<Rightarrow> 'n \<Rightarrow> bool"
    and push :: "'n \<Rightarrow> 'r \<Rightarrow> 'h \<Rightarrow> 'h"
    and del :: "'n \<Rightarrow> 'h \<Rightarrow> 'h" +
  fixes enq :: "'n \<Rightarrow> 'r \<Rightarrow> 'h \<Rightarrow> 'h"
  assumes rep_enq: "rep h r xs \<Longrightarrow> free r n \<Longrightarrow> n \<notin> set xs \<Longrightarrow> rep (enq n r h) r (xs @ [n])"
begin

lemma exec_simulates:
  "rep h r xs \<Longrightarrow> op_ok (free r) p xs \<Longrightarrow>
   rep (exec (\<lambda>n. push n r) (\<lambda>n. enq n r) del p h) r (op_spec p xs)"
  by (cases p) (auto simp: rep_push rep_enq rep_remove1)

lemma run_simulates:
  "rep h r xs \<Longrightarrow> ops_ok (free r) ps xs \<Longrightarrow>
   rep (fold (exec (\<lambda>n. push n r) (\<lambda>n. enq n r) del) ps h) r (fold op_spec ps xs)"
  by (induction ps arbitrary: h xs) (auto dest: exec_simulates)

text \<open>First in, first out.\<close>

lemma rep_enq_all:
  "rep h r xs \<Longrightarrow> distinct (xs @ ns) \<Longrightarrow> (\<And>n. n \<in> set ns \<Longrightarrow> free r n) \<Longrightarrow>
   rep (fold (\<lambda>n. enq n r) ns h) r (xs @ ns)"
proof (induction ns arbitrary: h xs)
  case (Cons n ns)
  have "rep (enq n r h) r (xs @ [n])" using Cons.prems by (intro rep_enq) auto
  then show ?case using Cons.IH [of "enq n r h" "xs @ [n]"] Cons.prems by simp
qed simp

end

end
