(* ===== verification/ListHead.thy ===== *)
theory ListHead
  imports Intrusive
begin

text \<open>
  The circular doubly linked lists of \<open>include/linux/list.h\<close>.  A heap gives the
  \<open>next\<close> and \<open>prev\<close> fields of the list head at each 32-bit address, every operation is
  the sequence of field writes of the source, and the loop macros are \<open>for\<close> loops over
  the heap that may run forever on a damaged list (no result then).  The abstraction
  \<open>is_list h head xs\<close> says that the nodes \<open>xs\<close> are linked in this order
  behind \<open>head\<close>; every operation is proved against it.
\<close>

section \<open>Heaps of list heads\<close>

type_synonym addr = u32

record list_head =
  nxt :: "addr \<Rightarrow> addr"
  prv :: "addr \<Rightarrow> addr"

definition set_next :: "addr \<Rightarrow> addr \<Rightarrow> list_head \<Rightarrow> list_head" where
  "set_next a v h = h\<lparr>nxt := (nxt h)(a := v)\<rparr>"

definition set_prev :: "addr \<Rightarrow> addr \<Rightarrow> list_head \<Rightarrow> list_head" where
  "set_prev a v h = h\<lparr>prv := (prv h)(a := v)\<rparr>"

lemma field_simps_list [simp]:
  "nxt (set_next a v h) = (nxt h)(a := v)" "prv (set_next a v h) = prv h"
  "prv (set_prev a v h) = (prv h)(a := v)" "nxt (set_prev a v h) = nxt h"
  by (simp_all add: set_next_def set_prev_def)

definition LIST_POISON1 :: addr where "LIST_POISON1 = 0x0"
definition LIST_POISON2 :: addr where "LIST_POISON2 = 0x0"

section \<open>The operations\<close>

definition INIT_LIST_HEAD :: "addr \<Rightarrow> list_head \<Rightarrow> list_head" where
  "INIT_LIST_HEAD list h =
     (let h1 = set_next list list h
      in set_prev list list h1)"

definition list_add_between :: "addr \<Rightarrow> addr \<Rightarrow> addr \<Rightarrow> list_head \<Rightarrow> list_head" where
  "list_add_between new prev next h =
     (let h1 = set_prev next new h;
          h2 = set_next new next h1;
          h3 = set_prev new prev h2
      in set_next prev new h3)"

definition list_add :: "addr \<Rightarrow> addr \<Rightarrow> list_head \<Rightarrow> list_head" where
  "list_add new head h = list_add_between new head (nxt h head) h"

definition list_add_tail :: "addr \<Rightarrow> addr \<Rightarrow> list_head \<Rightarrow> list_head" where
  "list_add_tail new head h = list_add_between new (prv h head) head h"

definition list_del_between :: "addr \<Rightarrow> addr \<Rightarrow> list_head \<Rightarrow> list_head" where
  "list_del_between prev next h =
     (let h1 = set_prev next prev h
      in set_next prev next h1)"

definition list_del :: "addr \<Rightarrow> list_head \<Rightarrow> list_head" where
  "list_del entry h =
     (let h1 = list_del_between (prv h entry) (nxt h entry) h;
          h2 = set_next entry LIST_POISON1 h1
      in set_prev entry LIST_POISON2 h2)"

definition list_replace :: "addr \<Rightarrow> addr \<Rightarrow> list_head \<Rightarrow> list_head" where
  "list_replace old new h =
     (let h1 = set_next new (nxt h old) h;
          h2 = set_prev (nxt h1 new) new h1;
          h3 = set_prev new (prv h2 old) h2
      in set_next (prv h3 new) new h3)"

definition list_replace_init :: "addr \<Rightarrow> addr \<Rightarrow> list_head \<Rightarrow> list_head" where
  "list_replace_init old new h = INIT_LIST_HEAD old (list_replace old new h)"

definition list_del_init :: "addr \<Rightarrow> list_head \<Rightarrow> list_head" where
  "list_del_init entry h =
     (let h1 = list_del_between (prv h entry) (nxt h entry) h
      in INIT_LIST_HEAD entry h1)"

definition list_move :: "addr \<Rightarrow> addr \<Rightarrow> list_head \<Rightarrow> list_head" where
  "list_move list head h =
     (let h1 = list_del_between (prv h list) (nxt h list) h
      in list_add list head h1)"

definition list_move_tail :: "addr \<Rightarrow> addr \<Rightarrow> list_head \<Rightarrow> list_head" where
  "list_move_tail list head h =
     (let h1 = list_del_between (prv h list) (nxt h list) h
      in list_add_tail list head h1)"

definition list_is_last :: "addr \<Rightarrow> addr \<Rightarrow> list_head \<Rightarrow> bool" where
  "list_is_last list head h \<longleftrightarrow> nxt h list = head"

definition list_empty :: "addr \<Rightarrow> list_head \<Rightarrow> bool" where
  "list_empty head h \<longleftrightarrow> nxt h head = head"

definition list_empty_careful :: "addr \<Rightarrow> list_head \<Rightarrow> bool" where
  "list_empty_careful head h \<longleftrightarrow> (let next = nxt h head in next = head \<and> next = prv h head)"

definition list_is_singular :: "addr \<Rightarrow> list_head \<Rightarrow> bool" where
  "list_is_singular head h \<longleftrightarrow> \<not> list_empty head h \<and> nxt h head = prv h head"

definition list_cut_position_raw :: "addr \<Rightarrow> addr \<Rightarrow> addr \<Rightarrow> list_head \<Rightarrow> list_head" where
  "list_cut_position_raw list head entry h =
     (let new_first = nxt h entry;
          h1 = set_next list (nxt h head) h;
          h2 = set_prev (nxt h1 list) list h1;
          h3 = set_prev list entry h2;
          h4 = set_next entry list h3;
          h5 = set_next head new_first h4
      in set_prev new_first head h5)"

definition list_cut_position :: "addr \<Rightarrow> addr \<Rightarrow> addr \<Rightarrow> list_head \<Rightarrow> list_head" where
  "list_cut_position list head entry h =
     (if list_empty head h then h
      else if list_is_singular head h \<and> (nxt h head \<noteq> entry \<and> head \<noteq> entry) then h
      else if entry = head then INIT_LIST_HEAD list h
      else list_cut_position_raw list head entry h)"

definition list_splice_between :: "addr \<Rightarrow> addr \<Rightarrow> addr \<Rightarrow> list_head \<Rightarrow> list_head" where
  "list_splice_between list prev next h =
     (let first = nxt h list;
          last = prv h list;
          h1 = set_prev first prev h;
          h2 = set_next prev first h1;
          h3 = set_next last next h2
      in set_prev next last h3)"

definition list_splice :: "addr \<Rightarrow> addr \<Rightarrow> list_head \<Rightarrow> list_head" where
  "list_splice list head h =
     (if \<not> list_empty list h then list_splice_between list head (nxt h head) h else h)"

definition list_splice_tail :: "addr \<Rightarrow> addr \<Rightarrow> list_head \<Rightarrow> list_head" where
  "list_splice_tail list head h =
     (if \<not> list_empty list h then list_splice_between list (prv h head) head h else h)"

definition list_splice_init :: "addr \<Rightarrow> addr \<Rightarrow> list_head \<Rightarrow> list_head" where
  "list_splice_init list head h =
     (if \<not> list_empty list h
      then let h1 = list_splice_between list head (nxt h head) h in INIT_LIST_HEAD list h1
      else h)"

definition list_splice_tail_init :: "addr \<Rightarrow> addr \<Rightarrow> list_head \<Rightarrow> list_head" where
  "list_splice_tail_init list head h =
     (if \<not> list_empty list h
      then let h1 = list_splice_between list (prv h head) head h in INIT_LIST_HEAD list h1
      else h)"

section \<open>The abstraction\<close>

text \<open>\<open>links h zs\<close>: each node of \<open>zs\<close> and the one after it point to each other.
  A list behind \<open>head\<close> is the closed chain from \<open>head\<close> back to \<open>head\<close>.\<close>

definition links :: "list_head \<Rightarrow> addr list \<Rightarrow> bool" where
  "links h = successively (\<lambda>a b. nxt h a = b \<and> prv h b = a)"

definition is_list :: "list_head \<Rightarrow> addr \<Rightarrow> addr list \<Rightarrow> bool" where
  "is_list h head xs \<longleftrightarrow> distinct (head # xs) \<and> links h (head # xs @ [head])"

lemma links_simps [simp]:
  "links h []" "links h [a]"
  "links h (a # b # zs) \<longleftrightarrow> nxt h a = b \<and> prv h b = a \<and> links h (b # zs)"
  by (simp_all add: links_def)

lemma links_append:
  "links h (xs @ ys) \<longleftrightarrow> links h xs \<and> links h ys \<and>
     (xs = [] \<or> ys = [] \<or> nxt h (last xs) = hd ys \<and> prv h (hd ys) = last xs)"
  by (auto simp: links_def successively_append_iff)

text \<open>Every operation is a composition of one step, that makes two nodes neighbours.\<close>

definition connect :: "addr \<Rightarrow> addr \<Rightarrow> list_head \<Rightarrow> list_head" where
  "connect a b h = h\<lparr>nxt := (nxt h)(a := b), prv := (prv h)(b := a)\<rparr>"

lemma connect_fields [simp]:
  "nxt (connect a b h) = (nxt h)(a := b)" "prv (connect a b h) = (prv h)(b := a)"
  by (simp_all add: connect_def)

lemma links_frame:
  assumes "links h zs" "\<And>x. x \<in> set (butlast zs) \<Longrightarrow> nxt h' x = nxt h x"
    and "\<And>x. x \<in> set (tl zs) \<Longrightarrow> prv h' x = prv h x"
  shows "links h' zs"
  using assms
proof (induction zs rule: induct_list012)
  case (3 a b zs)
  then show ?case by (cases zs) auto
qed simp_all

lemma links_connect_frame:
  "links h zs \<Longrightarrow> a \<notin> set (butlast zs) \<Longrightarrow> b \<notin> set (tl zs) \<Longrightarrow> links (connect a b h) zs"
  by (rule links_frame) auto

lemma links_connect:
  assumes "links h xs" "links h ys" "xs \<noteq> []" "ys \<noteq> []" "a = last xs" "b = hd ys"
    and "a \<notin> set (butlast xs)" "a \<notin> set (butlast ys)" "b \<notin> set (tl xs)" "b \<notin> set (tl ys)"
  shows "links (connect a b h) (xs @ ys)"
  using assms by (auto simp: links_append intro!: links_connect_frame)

lemma not_in_butlast: "distinct xs \<Longrightarrow> xs \<noteq> [] \<Longrightarrow> last xs \<notin> set (butlast xs)"
  by (metis append_butlast_last_id distinct_append not_distinct_conv_prefix disjoint_iff
      list.set_intros(1))

text \<open>The operations as compositions of \<open>connect\<close>.\<close>

lemma INIT_LIST_HEAD_connect: "INIT_LIST_HEAD a h = connect a a h"
  by (simp add: INIT_LIST_HEAD_def connect_def set_next_def set_prev_def)

lemma list_add_between_connect:
  "list_add_between new p n h = connect p new (connect new n h)"
  by (simp add: list_add_between_def connect_def set_next_def set_prev_def Let_def)

lemma list_del_between_connect: "list_del_between p n h = connect p n h"
  by (simp add: list_del_between_def connect_def set_next_def set_prev_def Let_def)

lemma list_splice_between_connect:
  "list_splice_between list p n h = connect (prv h list) n (connect p (nxt h list) h)"
  by (simp add: list_splice_between_def connect_def set_next_def set_prev_def Let_def)

lemma list_replace_connect:
  "nxt h old \<noteq> old \<Longrightarrow>
   list_replace old new h = connect (prv h old) new (connect new (nxt h old) h)"
  by (simp add: list_replace_def connect_def set_next_def set_prev_def Let_def)

lemma list_cut_position_raw_connect:
  "nxt h entry = n \<Longrightarrow> nxt h head = f \<Longrightarrow>
   list_cut_position_raw list head entry h = connect head n (connect entry list (connect list f h))"
  by (simp add: list_cut_position_raw_def connect_def set_next_def set_prev_def Let_def)

section \<open>Every operation on its list\<close>

lemma is_list_init: "is_list (INIT_LIST_HEAD head h) head []"
  by (simp add: is_list_def INIT_LIST_HEAD_connect)

lemma is_list_fields:
  assumes "is_list h head xs"
  shows "nxt h head = hd (xs @ [head])" "prv h head = last (head # xs)"
proof -
  have "links h ((head # xs) @ [head])" using assms by (simp add: is_list_def)
  then show "prv h head = last (head # xs)" unfolding links_append by simp
  have "links h ([head] @ (xs @ [head]))" using assms by (simp add: is_list_def)
  then show "nxt h head = hd (xs @ [head])" unfolding links_append by simp
qed

lemma is_list_split:
  "is_list h head (xs @ ys) \<Longrightarrow> links h (head # xs) \<and> links h (ys @ [head])"
  using links_append [of h "head # xs" "ys @ [head]"] by (simp add: is_list_def)

lemma is_list_at:
  assumes "is_list h head (xs @ e # ys)"
  shows "prv h e = last (head # xs)" "nxt h e = hd (ys @ [head])"
proof -
  have "links h ((head # xs) @ ([e] @ (ys @ [head])))" using assms by (simp add: is_list_def)
  then show "prv h e = last (head # xs)" "nxt h e = hd (ys @ [head])"
    unfolding links_append by simp_all
qed

lemma is_list_add_between:
  assumes "is_list h head (xs @ ys)" "new \<notin> set (head # xs @ ys)"
  shows "is_list (list_add_between new (last (head # xs)) (hd (ys @ [head])) h) head (xs @ new # ys)"
proof -
  let ?p = "last (head # xs)" and ?n = "hd (ys @ [head])"
  have d: "distinct (head # xs)" "distinct (ys @ [head])" "distinct (head # xs @ new # ys)"
    using assms by (auto simp: is_list_def)
  have n: "?n \<notin> set xs" "?n \<in> set (ys @ [head])" using d(3) by (cases ys; auto)+
  have p: "?p \<notin> set ys" "?p \<in> set (head # xs)" using d(3) by (cases xs rule: rev_cases; auto)+
  have 1: "links (connect new ?n h) (new # ys @ [head])"
    using is_list_split [OF assms(1)] assms(2) d(2) n
      links_connect [of h "[new]" "ys @ [head]" new ?n] by (cases ys; auto)
  have 2: "links (connect new ?n h) (head # xs)"
    using is_list_split [OF assms(1)] assms(2) n(1) 
    by (intro links_connect_frame) (auto dest: in_set_butlastD split: if_splits)
  have "links (connect ?p new (connect new ?n h)) ((head # xs) @ (new # ys @ [head]))"
    using not_in_butlast [OF d(1)] p assms(2)
    by (intro links_connect 1 2) (auto split: if_splits)
  then show ?thesis using d(3) by (simp add: is_list_def list_add_between_connect)
qed

lemma is_list_add:
  assumes "is_list h head xs" "new \<notin> set (head # xs)"
  shows "is_list (list_add new head h) head (new # xs)"
  using is_list_add_between [of h head "[]" xs new] assms is_list_fields(1) [OF assms(1)]
  by (simp add: list_add_def)

lemma is_list_add_tail:
  assumes "is_list h head xs" "new \<notin> set (head # xs)"
  shows "is_list (list_add_tail new head h) head (xs @ [new])"
  using is_list_add_between [of h head xs "[]" new] assms is_list_fields(2) [OF assms(1)]
  by (simp add: list_add_tail_def)

lemma is_list_del_between:
  assumes "is_list h head (xs @ e # ys)"
  shows "is_list (list_del_between (prv h e) (nxt h e) h) head (xs @ ys)"
proof -
  let ?p = "last (head # xs)" and ?n = "hd (ys @ [head])"
  have d: "distinct (head # xs)" "distinct (head # xs @ e # ys)"
    using assms by (auto simp: is_list_def)
  have "links h ((head # xs) @ [e] @ (ys @ [head]))" using assms by (simp add: is_list_def)
  then have l: "links h (head # xs)" "links h (ys @ [head])" unfolding links_append by simp_all
  have n: "?n \<notin> set xs" "?n \<notin> set (tl (ys @ [head]))" using d(2) by (cases ys; auto)+
  have p: "?p \<notin> set ys" using d(2) by (cases xs rule: rev_cases; auto)
  have "links (connect ?p ?n h) ((head # xs) @ (ys @ [head]))"
    using not_in_butlast [OF d(1)] p n l
    by (intro links_connect) (auto split: if_splits)
  then show ?thesis using d(2) is_list_at [OF assms]
    by (simp add: is_list_def list_del_between_connect)
qed

text \<open>An operation leaves a list alone whose nodes it does not write.\<close>

lemma is_list_frame:
  "is_list h head xs \<Longrightarrow> (\<And>x. x \<in> set (head # xs) \<Longrightarrow> nxt h' x = nxt h x \<and> prv h' x = prv h x) \<Longrightarrow>
   is_list h' head xs"
  unfolding is_list_def by (auto elim!: links_frame dest!: in_set_butlastD)

lemma is_list_connect_frame:
  "is_list h head xs \<Longrightarrow> a \<notin> set (head # xs) \<Longrightarrow> b \<notin> set (head # xs) \<Longrightarrow>
   is_list (connect a b h) head xs"
  by (rule is_list_frame) auto

lemma is_list_ends:
  "is_list h head xs \<Longrightarrow> nxt h head \<in> set (head # xs) \<and> prv h head \<in> set (head # xs)"
  by (cases xs; cases xs rule: rev_cases) (auto simp: is_list_fields)

lemma is_list_neighbours:
  "is_list h head xs \<Longrightarrow> e \<in> set xs \<Longrightarrow> nxt h e \<in> set (head # xs) \<and> prv h e \<in> set (head # xs)"
proof -
  assume l: "is_list h head xs" and e: "e \<in> set xs"
  obtain ys zs where xs: "xs = ys @ e # zs" using split_list [OF e] by blast
  show ?thesis using is_list_at [OF l [unfolded xs]]
    by (cases zs; cases ys rule: rev_cases) (auto simp: xs)
qed

lemma add_frame:
  assumes "is_list h head xs" "is_list h other zs" "set (head # xs) \<inter> set (other # zs) = {}"
    and "new \<notin> set (other # zs)"
  shows "is_list (list_add new head h) other zs" "is_list (list_add_tail new head h) other zs"
proof -
  have "head \<notin> set (other # zs)" "nxt h head \<notin> set (other # zs)" "prv h head \<notin> set (other # zs)"
    using assms(3) is_list_ends [OF assms(1)] by (meson disjoint_iff list.set_intros(1))+
  then show "is_list (list_add new head h) other zs" "is_list (list_add_tail new head h) other zs"
    unfolding list_add_def list_add_tail_def list_add_between_connect
    by (simp_all add: is_list_connect_frame assms del: list.set)
qed

lemma del_frame:
  assumes "is_list h head xs" "is_list h other zs" "set (head # xs) \<inter> set (other # zs) = {}"
    and "e \<in> set xs"
  shows "is_list (list_del_between (prv h e) (nxt h e) h) other zs"
  unfolding list_del_between_connect using assms(3) is_list_neighbours [OF assms(1,4)]
  by (intro is_list_connect_frame assms(2)) blast+

lemma is_list_write:
  assumes "is_list h head xs" "e \<notin> set (head # xs)"
  shows "is_list (set_next e v h) head xs" "is_list (set_prev e v h) head xs"
  by (rule is_list_frame [OF assms(1)]; use assms(2) in auto)+

lemma is_list_distinct: "is_list h head xs \<Longrightarrow> distinct (head # xs)"
  by (simp add: is_list_def)

lemma is_list_del:
  assumes "is_list h head (xs @ e # ys)"
  shows "is_list (list_del e h) head (xs @ ys)"
  using is_list_del_between [OF assms] is_list_distinct [OF assms]
  by (auto simp: list_del_def Let_def intro!: is_list_write)

lemma is_list_del_init:
  assumes "is_list h head (xs @ e # ys)"
  shows "is_list (list_del_init e h) head (xs @ ys) \<and> is_list (list_del_init e h) e []"
  using is_list_del_between [OF assms] is_list_distinct [OF assms]
  by (auto simp: list_del_init_def Let_def INIT_LIST_HEAD_connect is_list_init
      intro!: is_list_connect_frame is_list_init [unfolded INIT_LIST_HEAD_connect])

text \<open>Moving an entry within its list or to another one.\<close>

lemma is_list_move:
  assumes "is_list h src (xs @ e # ys)" "is_list h dst zs"
    and "set (src # xs @ e # ys) \<inter> set (dst # zs) = {}"
  shows "is_list (list_move e dst h) dst (e # zs) \<and> is_list (list_move e dst h) src (xs @ ys)"
    and "is_list (list_move_tail e dst h) dst (zs @ [e]) \<and> is_list (list_move_tail e dst h) src (xs @ ys)"
proof -
  let ?h = "list_del_between (prv h e) (nxt h e) h"
  have s: "is_list ?h src (xs @ ys)" by (rule is_list_del_between [OF assms(1)])
  have d: "is_list ?h dst zs" using del_frame [OF assms(1,2,3), of e] by simp
  have e: "e \<notin> set (dst # zs)" "e \<notin> set (src # xs @ ys)"
    using assms(3) is_list_distinct [OF assms(1)] by auto
  have dis: "set (dst # zs) \<inter> set (src # xs @ ys) = {}" using assms(3) by auto
  show "is_list (list_move e dst h) dst (e # zs) \<and> is_list (list_move e dst h) src (xs @ ys)"
    using is_list_add [OF d e(1)] add_frame(1) [OF d s dis e(2)] by (simp add: list_move_def Let_def)
  show "is_list (list_move_tail e dst h) dst (zs @ [e]) \<and> is_list (list_move_tail e dst h) src (xs @ ys)"
    using is_list_add_tail [OF d e(1)] add_frame(2) [OF d s dis e(2)]
    by (simp add: list_move_tail_def Let_def)
qed

lemma is_list_move_same:
  assumes "is_list h head (xs @ e # ys)"
  shows "is_list (list_move e head h) head (e # xs @ ys)"
    and "is_list (list_move_tail e head h) head (xs @ ys @ [e])"
  using is_list_add [OF is_list_del_between [OF assms], of e] is_list_distinct [OF assms]
    is_list_add_tail [OF is_list_del_between [OF assms], of e]
  by (auto simp: list_move_def list_move_tail_def Let_def)

text \<open>Replacing an entry is deleting it and adding the other one in its place.\<close>

lemma list_replace_del_add:
  "nxt h old \<noteq> old \<Longrightarrow> list_replace old new h =
     list_add_between new (prv h old) (nxt h old) (list_del_between (prv h old) (nxt h old) h)"
  by (simp add: list_replace_connect list_add_between_connect list_del_between_connect connect_def
      fun_upd_def fun_eq_iff)

lemma is_list_not_self: "is_list h head xs \<Longrightarrow> e \<in> set xs \<Longrightarrow> nxt h e \<noteq> e"
proof -
  assume l: "is_list h head xs" and "e \<in> set xs"
  then obtain ys zs where xs: "xs = ys @ e # zs" using split_list by fast
  show "nxt h e \<noteq> e"
    using is_list_at(2) [OF l [unfolded xs]] is_list_distinct [OF l [unfolded xs]] by (cases zs) auto
qed

lemma is_list_replace:
  assumes "is_list h head (xs @ old # ys)" "new \<notin> set (head # xs @ old # ys)"
  shows "is_list (list_replace old new h) head (xs @ new # ys)"
  using is_list_add_between [OF is_list_del_between [OF assms(1)], of new] assms(2)
    is_list_at [OF assms(1)] is_list_not_self [OF assms(1), of old]
  by (simp add: list_replace_del_add)

lemma is_list_replace_head:
  assumes "is_list h old xs" "new \<notin> set (old # xs)"
  shows "is_list (list_replace old new h) new xs"
proof (cases "xs = []")
  case True
  then show ?thesis using assms by (simp add: is_list_def list_replace_def Let_def)
next
  case False
  have d: "distinct xs" "distinct (old # xs)" using assms(1) by (auto simp: is_list_def)
  have "links h ([old] @ xs @ [old])" using assms(1) by (simp add: is_list_def)
  then have l: "links h xs" unfolding links_append by simp
  have e: "nxt h old = hd xs" "prv h old = last xs" "hd xs \<noteq> old"
    using is_list_fields [OF assms(1)] False d by auto
  have n: "hd xs \<notin> set (tl xs)" using d False by (cases xs) auto
  have 1: "links (connect new (hd xs) h) ([new] @ xs)"
    using l False n assms(2) by (intro links_connect) (auto dest: in_set_butlastD)
  have "links (connect (last xs) new (connect new (hd xs) h)) ((new # xs) @ [new])"
    using 1 False not_in_butlast [OF d(1) False] assms(2) by (intro links_connect) auto
  then show ?thesis using assms(2) d e by (simp add: is_list_def list_replace_connect)
qed

text \<open>Cutting a list after an entry.\<close>

lemma is_list_cut_raw:
  assumes "is_list h head (xs @ entry # ys)" "list \<notin> set (head # xs @ entry # ys)"
  shows "is_list (list_cut_position_raw list head entry h) list (xs @ [entry]) \<and>
    is_list (list_cut_position_raw list head entry h) head ys"
proof -
  let ?f = "hd (xs @ [entry])" and ?n = "hd (ys @ [head])"
  let ?h1 = "connect list ?f h"
  let ?h2 = "connect entry list ?h1"
  have d: "distinct (head # xs @ entry # ys)" using assms(1) by (simp add: is_list_def)
  have "links h ([head] @ (xs @ [entry]) @ (ys @ [head]))" using assms(1) by (simp add: is_list_def)
  then have l: "links h (xs @ [entry])" "links h (ys @ [head])" unfolding links_append by simp_all
  have f: "?f \<notin> set (tl (xs @ [entry]))" "?f \<in> set (xs @ [entry])" using d by (cases xs; auto)+
  have n: "?n \<notin> set (tl (ys @ [head]))" "?n \<in> set (ys @ [head])" using d by (cases ys; auto)+
  have tl: "set (tl (ys @ [head])) \<subseteq> set (ys @ [head])" by (cases ys) auto
  have 1: "links ?h1 ([list] @ (xs @ [entry]))"
    using l f assms(2) by (intro links_connect) auto
  have r1: "links ?h1 (ys @ [head])"
    using l f assms(2) d tl by (intro links_connect_frame) (auto split: if_splits)
  have 2: "links ?h2 ((list # xs @ [entry]) @ [list])"
    using 1 d assms(2) by (intro links_connect) (auto simp: butlast_append)
  have r2: "links ?h2 (ys @ [head])"
    by (rule links_connect_frame [OF r1]) (use d assms(2) tl in auto)
  have "links (connect head ?n ?h2) ([head] @ (ys @ [head]))"
    by (rule links_connect [OF _ r2]) (use d n in auto)
  moreover have "links (connect head ?n ?h2) ((list # xs @ [entry]) @ [list])"
    by (rule links_connect_frame [OF 2]) (use d n assms(2) in \<open>auto simp: butlast_append\<close>)
  moreover have "nxt h entry = ?n" "nxt h head = ?f"
    using is_list_at(2) [OF assms(1)] is_list_fields(1) [OF assms(1)] by (cases xs; simp)+
  ultimately show ?thesis
    using d assms(2) by (simp add: is_list_def list_cut_position_raw_connect)
qed

lemma is_list_tests:
  assumes "is_list h head xs"
  shows "list_empty head h \<longleftrightarrow> xs = []" "list_empty_careful head h \<longleftrightarrow> xs = []"
    "list_is_singular head h \<longleftrightarrow> length xs = 1"
proof -
  have d: "distinct (head # xs)" using assms by (rule is_list_distinct)
  show "list_empty head h \<longleftrightarrow> xs = []" "list_empty_careful head h \<longleftrightarrow> xs = []"
    using d by (cases xs; cases xs rule: rev_cases;
        auto simp: list_empty_def list_empty_careful_def Let_def is_list_fields [OF assms])+
  show "list_is_singular head h \<longleftrightarrow> length xs = 1"
    using d
    by (cases xs; cases "tl xs" rule: rev_cases;
        auto simp: list_is_singular_def list_empty_def is_list_fields [OF assms] split: if_splits)
qed

lemma list_is_last_spec: "is_list h head (xs @ e # ys) \<Longrightarrow> list_is_last e head h \<longleftrightarrow> ys = []"
  using is_list_at(2) [of h head xs e ys] is_list_distinct [of h head "xs @ e # ys"]
  by (cases ys) (auto simp: list_is_last_def)

lemma is_list_cut:
  assumes "is_list h head (xs @ entry # ys)" "list \<notin> set (head # xs @ entry # ys)"
  shows "is_list (list_cut_position list head entry h) list (xs @ [entry]) \<and>
    is_list (list_cut_position list head entry h) head ys"
proof -
  have "entry \<noteq> head" using is_list_distinct [OF assms(1)] by auto
  moreover have "\<not> list_empty head h" using is_list_tests(1) [OF assms(1)] by simp
  moreover have "list_is_singular head h \<Longrightarrow> nxt h head = entry"
    using is_list_tests(3) [OF assms(1)] is_list_fields(1) [OF assms(1)] by auto
  ultimately have "list_cut_position list head entry h = list_cut_position_raw list head entry h"
    by (auto simp: list_cut_position_def)
  then show ?thesis using is_list_cut_raw [OF assms] by simp
qed

text \<open>Joining two lists: the entries of \<open>list\<close> go between \<open>xs\<close> and \<open>ys\<close>.\<close>

lemma is_list_splice_between:
  assumes "is_list h head (xs @ ys)" "is_list h list zs" "zs \<noteq> []"
    and "set (head # xs @ ys) \<inter> set (list # zs) = {}"
  shows "is_list (list_splice_between list (last (head # xs)) (hd (ys @ [head])) h) head (xs @ zs @ ys)"
proof -
  let ?p = "last (head # xs)" and ?n = "hd (ys @ [head])"
  let ?h1 = "connect ?p (hd zs) h"
  have d: "distinct (head # xs @ zs @ ys)" "distinct (head # xs)"
    using is_list_distinct [OF assms(1)] is_list_distinct [OF assms(2)] assms(4) by auto
  have "links h ([list] @ zs @ [list])" using assms(2) by (simp add: is_list_def)
  then have z: "links h zs" unfolding links_append by simp
  have p: "?p \<in> set (head # xs)" by (rule last_in_set) simp
  have n: "?n \<notin> set (tl (ys @ [head]))" "?n \<in> set (ys @ [head])" using d by (cases ys; auto)+
  have f: "hd zs \<in> set zs" "hd zs \<notin> set (tl zs)" using assms(3) d by (cases zs; auto)+
  have "last zs \<in> set zs" using assms(3) by simp
  then have l: "last zs \<notin> set xs" "last zs \<notin> set ys" "last zs \<noteq> head" using d by auto
  have l2: "last zs \<notin> set (butlast zs)" using assms(3) d not_in_butlast [of zs] by auto
  have tl: "set (tl (ys @ [head])) \<subseteq> set (ys @ [head])" by (cases ys) auto
  have sp: "links h (head # xs)" "links h (ys @ [head])" using is_list_split [OF assms(1)] by auto
  have 1: "links ?h1 ((head # xs) @ zs)"
    by (rule links_connect [OF sp(1) z])
      (use assms(3) not_in_butlast [OF d(2)] p f d in \<open>auto dest!: in_set_butlastD simp del: last.simps\<close>)
  have r1: "links ?h1 (ys @ [head])"
    by (rule links_connect_frame [OF sp(2)])
      (use p f d tl in \<open>auto simp del: last.simps\<close>)
  have "links (connect (last zs) ?n ?h1) ((head # xs @ zs) @ (ys @ [head]))"
    by (rule links_connect [OF 1 [unfolded append_Cons] r1])
      (use assms(3) l l2 n d in \<open>auto simp: butlast_append dest!: in_set_butlastD\<close>)
  moreover have "nxt h list = hd zs" "prv h list = last zs"
    using is_list_fields [OF assms(2)] assms(3) by auto
  ultimately show ?thesis
    using d by (simp add: is_list_def list_splice_between_connect)
qed

lemma is_list_splice:
  assumes "is_list h head xs" "is_list h list zs" "set (head # xs) \<inter> set (list # zs) = {}"
  shows "is_list (list_splice list head h) head (zs @ xs)"
    "is_list (list_splice_tail list head h) head (xs @ zs)"
proof -
  have "is_list (list_splice_between list head (nxt h head) h) head (zs @ xs)"
    "is_list (list_splice_between list (prv h head) head h) head (xs @ zs)" if "zs \<noteq> []"
    using is_list_splice_between [of h head "[]" xs list zs]
      is_list_splice_between [of h head xs "[]" list zs] that assms is_list_fields [OF assms(1)]
    by simp_all
  then show "is_list (list_splice list head h) head (zs @ xs)"
    "is_list (list_splice_tail list head h) head (xs @ zs)"
    using is_list_tests(1) [OF assms(2)] assms(1)
    by (cases "zs = []"; simp add: list_splice_def list_splice_tail_def)+
qed

lemma is_list_splice_init:
  assumes "is_list h head xs" "is_list h list zs" "set (head # xs) \<inter> set (list # zs) = {}"
  shows "is_list (list_splice_init list head h) head (zs @ xs) \<and>
      is_list (list_splice_init list head h) list []"
    "is_list (list_splice_tail_init list head h) head (xs @ zs) \<and>
      is_list (list_splice_tail_init list head h) list []"
proof -
  have n: "list \<notin> set (head # zs @ xs)" "list \<notin> set (head # xs @ zs)"
    using assms(3) is_list_distinct [OF assms(2)] by auto
  have init: "is_list (INIT_LIST_HEAD list h') head ys"
    if "is_list h' head ys" "list \<notin> set (head # ys)" for h' ys
    unfolding INIT_LIST_HEAD_connect by (intro is_list_connect_frame that)
  have e: "list_splice_init list head h =
      (if zs = [] then h else INIT_LIST_HEAD list (list_splice list head h))"
    "list_splice_tail_init list head h =
      (if zs = [] then h else INIT_LIST_HEAD list (list_splice_tail list head h))"
    using is_list_tests(1) [OF assms(2)]
    by (auto simp: list_splice_init_def list_splice_tail_init_def list_splice_def
        list_splice_tail_def Let_def)
  show "is_list (list_splice_init list head h) head (zs @ xs) \<and>
      is_list (list_splice_init list head h) list []"
    using init [OF is_list_splice(1) [OF assms] n(1)] assms by (cases "zs = []") (simp_all add: e is_list_init)
  show "is_list (list_splice_tail_init list head h) head (xs @ zs) \<and>
      is_list (list_splice_tail_init list head h) list []"
    using init [OF is_list_splice(2) [OF assms] n(2)] assms by (cases "zs = []") (simp_all add: e is_list_init)
qed

section \<open>The lists as intrusive queues\<close>

definition circular :: "list_head \<Rightarrow> addr \<Rightarrow> addr list \<Rightarrow> bool" where
  "circular h head xs \<longleftrightarrow> is_list h head xs"

definition off_head :: "addr \<Rightarrow> addr \<Rightarrow> bool" where
  "off_head head n \<longleftrightarrow> n \<noteq> head"

interpretation circ: intrusive_queue circular off_head list_add list_del list_add_tail
  by unfold_locales
    (auto simp: circular_def off_head_def is_list_add is_list_add_tail is_list_del
      dest: is_list_distinct)

section \<open>Properties\<close>

text \<open>C5: any sequence of \<open>list_add\<close>, \<open>list_add_tail\<close> and \<open>list_del\<close> (of entries that
  are off, or on, the list) acts on the linked structure as the sequence operations act on
  the list of its entries, and both tests for emptiness agree with the result.\<close>

theorem list_ops_refine:
  assumes "is_list h head xs" "ops_ok (off_head head) ps xs"
    and "h1 = fold (exec (\<lambda>n. list_add n head) (\<lambda>n. list_add_tail n head) list_del) ps h"
  shows "is_list h1 head (fold op_spec ps xs) \<and>
    (list_empty head h1 \<longleftrightarrow> fold op_spec ps xs = []) \<and>
    (list_is_singular head h1 \<longleftrightarrow> length (fold op_spec ps xs) = 1)"
  using circ.run_simulates [of h head xs ps] assms is_list_tests(1,3) [of h1 head]
  by (simp add: circular_def)

definition blank :: list_head where
  "blank = \<lparr>nxt = \<lambda>_. 0, prv = \<lambda>_. 0\<rparr>"

theorem list_ops_refine_witness:
  "list_empty (1 :: addr) (fold (exec (\<lambda>n. list_add n 1) (\<lambda>n. list_add_tail n 1) list_del)
     [Append 2, Push 3, Remove 2, Remove 3] (INIT_LIST_HEAD 1 blank))"
  using list_ops_refine [OF is_list_init [of 1 blank], of "[Append 2, Push 3, Remove 2, Remove 3]", OF _ refl]
  by (simp add: off_head_def del: exec.simps)

text \<open>\<open>list_move\<close> and \<open>list_move_tail\<close> take an entry out of one list and put it
  first or last in another one.\<close>

theorem list_move_spec:
  assumes "is_list h src (xs @ e # ys)" "is_list h dst zs"
    and "set (src # xs @ e # ys) \<inter> set (dst # zs) = {}"
  shows "is_list (list_move e dst h) dst (e # zs) \<and> is_list (list_move e dst h) src (xs @ ys) \<and>
    is_list (list_move_tail e dst h) dst (zs @ [e]) \<and> is_list (list_move_tail e dst h) src (xs @ ys)"
  using is_list_move [OF assms] by simp

definition two_lists :: list_head where
  "two_lists = list_add_tail 3 1 (list_add_tail 2 1 (INIT_LIST_HEAD 1
     (list_add_tail 12 11 (INIT_LIST_HEAD 11 blank))))"

lemma two_lists: "is_list two_lists 1 [2, 3]" "is_list two_lists 11 [12]"
  by (simp_all add: two_lists_def is_list_def list_add_tail_def list_add_between_connect
      INIT_LIST_HEAD_connect)

theorem list_move_spec_witness: "is_list (list_move 3 11 two_lists) 11 [3, 12]"
  using list_move_spec [of two_lists 1 "[2]" 3 "[]" 11 "[12]"] two_lists by simp

text \<open>cutting a list behind an entry leaves the entries up to it on the new list and the
  rest on the old one; splicing the new list back gives the original list and an empty one.\<close>

theorem list_cut_splice:
  assumes "is_list h head (xs @ e # ys)" "list \<notin> set (head # xs @ e # ys)"
    and "h1 = list_cut_position list head e h" "h2 = list_splice_init list head h1"
  shows "is_list h1 list (xs @ [e]) \<and> is_list h1 head ys \<and>
    is_list h2 head (xs @ e # ys) \<and> is_list h2 list []"
proof -
  have 1: "is_list h1 list (xs @ [e])" "is_list h1 head ys"
    using is_list_cut [OF assms(1,2)] assms(3) by simp_all
  have "set (head # ys) \<inter> set (list # xs @ [e]) = {}"
    using is_list_distinct [OF assms(1)] assms(2) by auto
  then show ?thesis using is_list_splice_init(1) [OF 1(2,1)] 1 assms(4) by simp
qed

theorem list_cut_splice_witness:
  "is_list (list_cut_position 11 1 2 two_lists) 11 [2] \<and> is_list (list_cut_position 11 1 2 two_lists) 1 [3]"
  using list_cut_splice [of two_lists 1 "[]" 2 "[3]" 11, OF _ _ refl refl] two_lists by simp

text \<open>splicing at the head or the tail joins the two lists in order, and the \<open>_init\<close>
  variants leave the emptied list initialised.\<close>

theorem list_splice_spec:
  assumes "is_list h head xs" "is_list h list zs" "set (head # xs) \<inter> set (list # zs) = {}"
  shows "is_list (list_splice list head h) head (zs @ xs) \<and>
    is_list (list_splice_tail list head h) head (xs @ zs) \<and>
    is_list (list_splice_init list head h) head (zs @ xs) \<and>
    is_list (list_splice_tail_init list head h) head (xs @ zs) \<and>
    is_list (list_splice_init list head h) list [] \<and>
    is_list (list_splice_tail_init list head h) list []"
  using is_list_splice [OF assms] is_list_splice_init [OF assms] by simp

theorem list_splice_spec_witness: "is_list (list_splice_tail_init 11 1 two_lists) 1 [2, 3, 12]"
  using list_splice_spec [of two_lists 1 "[2, 3]" 11 "[12]"] two_lists by simp

text \<open>\<open>list_replace\<close> puts a new entry in the place of an old one, and a new head in the
  place of an old head; \<open>list_replace_init\<close> leaves the old entry an empty list.\<close>

theorem list_replace_spec:
  assumes "is_list h head (xs @ old # ys)" "new \<notin> set (head # xs @ old # ys)"
  shows "is_list (list_replace old new h) head (xs @ new # ys) \<and>
    is_list (list_replace_init old new h) head (xs @ new # ys) \<and>
    is_list (list_replace_init old new h) old [] \<and>
    is_list (list_replace head new h) new (xs @ old # ys)"
proof -
  have r: "is_list (list_replace old new h) head (xs @ new # ys)" by (rule is_list_replace [OF assms])
  have "old \<notin> set (head # xs @ new # ys)" using is_list_distinct [OF assms(1)] assms(2) by auto
  then have "is_list (list_replace_init old new h) head (xs @ new # ys)"
    unfolding list_replace_init_def INIT_LIST_HEAD_connect by (intro is_list_connect_frame r)
  then show ?thesis
    using r is_list_replace_head [OF assms] by (simp add: list_replace_init_def is_list_init)
qed

theorem list_replace_spec_witness: "is_list (list_replace 2 7 two_lists) 1 [7, 3]"
  using list_replace_spec [of two_lists 1 "[]" 2 "[3]" 7] two_lists by simp

end
