(* ===== verification/ListLoops.thy ===== *)
theory ListLoops
  imports ListHead "HOL-Library.While_Combinator"
begin

text \<open>
  The loop macros of \<open>include/linux/list.h\<close>.  The body of a loop is a function on the
  loop's own state and the heap, so that it may change the list it runs over; a loop that
  never reaches its head again has no result (\<open>None\<close>).  An entry is the address of the
  structure around a list head, \<open>off\<close> bytes in front of it.
\<close>

type_synonym 's body = "addr \<Rightarrow> 's \<times> list_head \<Rightarrow> 's \<times> list_head"

definition list_entry :: "addr \<Rightarrow> addr \<Rightarrow> addr" where
  "list_entry ptr off = ptr - off"

definition list_first_entry :: "addr \<Rightarrow> addr \<Rightarrow> list_head \<Rightarrow> addr" where
  "list_first_entry ptr off h = list_entry (nxt h ptr) off"

definition list_last_entry :: "addr \<Rightarrow> addr \<Rightarrow> list_head \<Rightarrow> addr" where
  "list_last_entry ptr off h = list_entry (prv h ptr) off"

definition list_prepare_entry :: "addr \<Rightarrow> addr \<Rightarrow> addr \<Rightarrow> addr" where
  "list_prepare_entry pos head off = (if pos \<noteq> 0 then pos else list_entry head off)"

section \<open>The loops\<close>

definition walk ::
  "('h \<Rightarrow> addr \<Rightarrow> addr) \<Rightarrow> addr \<Rightarrow> (addr \<Rightarrow> 's \<times> 'h \<Rightarrow> 's \<times> 'h) \<Rightarrow> addr \<Rightarrow> 's \<times> 'h \<Rightarrow> ('s \<times> 'h) option"
where
  "walk step head body pos st = map_option snd (while_option (\<lambda>(pos, st). pos \<noteq> head)
     (\<lambda>(pos, st). let st1 = body pos st in (step (snd st1) pos, st1)) (pos, st))"

definition walk_safe ::
  "(list_head \<Rightarrow> addr \<Rightarrow> addr) \<Rightarrow> addr \<Rightarrow> 's body \<Rightarrow> addr \<Rightarrow> addr \<Rightarrow> 's \<times> list_head \<Rightarrow> ('s \<times> list_head) option"
where
  "walk_safe step head body pos n st = map_option (snd \<circ> snd) (while_option (\<lambda>(pos, n, st). pos \<noteq> head)
     (\<lambda>(pos, n, st). let st1 = body pos st in (n, step (snd st1) n, st1)) (pos, n, st))"

definition list_for_each :: "addr \<Rightarrow> 's body \<Rightarrow> 's \<times> list_head \<Rightarrow> ('s \<times> list_head) option" where
  "list_for_each head body st = walk nxt head body (nxt (snd st) head) st"

definition list_for_each_prev :: "addr \<Rightarrow> 's body \<Rightarrow> 's \<times> list_head \<Rightarrow> ('s \<times> list_head) option" where
  "list_for_each_prev head body st = walk prv head body (prv (snd st) head) st"

definition list_for_each_safe :: "addr \<Rightarrow> 's body \<Rightarrow> 's \<times> list_head \<Rightarrow> ('s \<times> list_head) option" where
  "list_for_each_safe head body st =
     (let pos = nxt (snd st) head; n = nxt (snd st) pos in walk_safe nxt head body pos n st)"

definition list_for_each_prev_safe :: "addr \<Rightarrow> 's body \<Rightarrow> 's \<times> list_head \<Rightarrow> ('s \<times> list_head) option" where
  "list_for_each_prev_safe head body st =
     (let pos = prv (snd st) head; n = prv (snd st) pos in walk_safe prv head body pos n st)"

text \<open>The loops over entries test \<open>&pos->member\<close> against the head.\<close>

definition entry_walk ::
  "(list_head \<Rightarrow> addr \<Rightarrow> addr) \<Rightarrow> addr \<Rightarrow> addr \<Rightarrow> 's body \<Rightarrow> addr \<Rightarrow> 's \<times> list_head \<Rightarrow> ('s \<times> list_head) option"
where
  "entry_walk step off head body pos st = map_option snd (while_option (\<lambda>(pos, st). pos + off \<noteq> head)
     (\<lambda>(pos, st). let st1 = body pos st in (list_entry (step (snd st1) (pos + off)) off, st1)) (pos, st))"

definition entry_walk_safe ::
  "(list_head \<Rightarrow> addr \<Rightarrow> addr) \<Rightarrow> addr \<Rightarrow> addr \<Rightarrow> 's body \<Rightarrow> addr \<Rightarrow> addr \<Rightarrow> 's \<times> list_head \<Rightarrow> ('s \<times> list_head) option"
where
  "entry_walk_safe step off head body pos n st =
     map_option (snd \<circ> snd) (while_option (\<lambda>(pos, n, st). pos + off \<noteq> head)
       (\<lambda>(pos, n, st). let st1 = body pos st
                      in (n, list_entry (step (snd st1) (n + off)) off, st1)) (pos, n, st))"

definition list_for_each_entry ::
  "addr \<Rightarrow> addr \<Rightarrow> 's body \<Rightarrow> 's \<times> list_head \<Rightarrow> ('s \<times> list_head) option" where
  "list_for_each_entry head off body st =
     entry_walk nxt off head body (list_entry (nxt (snd st) head) off) st"

definition list_for_each_entry_reverse ::
  "addr \<Rightarrow> addr \<Rightarrow> 's body \<Rightarrow> 's \<times> list_head \<Rightarrow> ('s \<times> list_head) option" where
  "list_for_each_entry_reverse head off body st =
     entry_walk prv off head body (list_entry (prv (snd st) head) off) st"

definition list_for_each_entry_continue ::
  "addr \<Rightarrow> addr \<Rightarrow> addr \<Rightarrow> 's body \<Rightarrow> 's \<times> list_head \<Rightarrow> ('s \<times> list_head) option" where
  "list_for_each_entry_continue pos head off body st =
     entry_walk nxt off head body (list_entry (nxt (snd st) (pos + off)) off) st"

definition list_for_each_entry_continue_reverse ::
  "addr \<Rightarrow> addr \<Rightarrow> addr \<Rightarrow> 's body \<Rightarrow> 's \<times> list_head \<Rightarrow> ('s \<times> list_head) option" where
  "list_for_each_entry_continue_reverse pos head off body st =
     entry_walk prv off head body (list_entry (prv (snd st) (pos + off)) off) st"

definition list_for_each_entry_from ::
  "addr \<Rightarrow> addr \<Rightarrow> addr \<Rightarrow> 's body \<Rightarrow> 's \<times> list_head \<Rightarrow> ('s \<times> list_head) option" where
  "list_for_each_entry_from pos head off body st = entry_walk nxt off head body pos st"

definition list_for_each_entry_safe ::
  "addr \<Rightarrow> addr \<Rightarrow> 's body \<Rightarrow> 's \<times> list_head \<Rightarrow> ('s \<times> list_head) option" where
  "list_for_each_entry_safe head off body st =
     (let pos = list_entry (nxt (snd st) head) off;
          n = list_entry (nxt (snd st) (pos + off)) off
      in entry_walk_safe nxt off head body pos n st)"

definition list_for_each_entry_safe_continue ::
  "addr \<Rightarrow> addr \<Rightarrow> addr \<Rightarrow> 's body \<Rightarrow> 's \<times> list_head \<Rightarrow> ('s \<times> list_head) option" where
  "list_for_each_entry_safe_continue pos head off body st =
     (let pos1 = list_entry (nxt (snd st) (pos + off)) off;
          n = list_entry (nxt (snd st) (pos1 + off)) off
      in entry_walk_safe nxt off head body pos1 n st)"

definition list_for_each_entry_safe_from ::
  "addr \<Rightarrow> addr \<Rightarrow> addr \<Rightarrow> 's body \<Rightarrow> 's \<times> list_head \<Rightarrow> ('s \<times> list_head) option" where
  "list_for_each_entry_safe_from pos head off body st =
     (let n = list_entry (nxt (snd st) (pos + off)) off
      in entry_walk_safe nxt off head body pos n st)"

definition list_for_each_entry_safe_reverse ::
  "addr \<Rightarrow> addr \<Rightarrow> 's body \<Rightarrow> 's \<times> list_head \<Rightarrow> ('s \<times> list_head) option" where
  "list_for_each_entry_safe_reverse head off body st =
     (let pos = list_entry (prv (snd st) head) off;
          n = list_entry (prv (snd st) (pos + off)) off
      in entry_walk_safe prv off head body pos n st)"

section \<open>Entry loops are node loops\<close>

lemma entry_offset [simp]: "list_entry p off + off = p" "list_entry (p + off) off = p"
  by (simp_all add: list_entry_def)

text \<open>The body of an entry loop as the body of the loop over its nodes.\<close>

definition at_entry :: "addr \<Rightarrow> 's body \<Rightarrow> 's body" where
  "at_entry off body p = body (list_entry p off)"

lemma entry_walk_eq:
  "entry_walk step off head body pos st = walk step head (at_entry off body) (pos + off) st"
proof -
  let ?f = "\<lambda>(p, st). (p + off, st)"
  have "map_option ?f (while_option (\<lambda>(pos, st). pos + off \<noteq> head)
       (\<lambda>(pos, st). let st1 = body pos st in (list_entry (step (snd st1) (pos + off)) off, st1)) (pos, st))
    = while_option (\<lambda>(pos, st). pos \<noteq> head)
       (\<lambda>(pos, st). let st1 = at_entry off body pos st in (step (snd st1) pos, st1)) (?f (pos, st))"
    by (rule while_option_commute) (auto simp: at_entry_def Let_def)
  from arg_cong [OF this, of "map_option snd"] show ?thesis
    by (simp add: entry_walk_def walk_def option.map_comp comp_def case_prod_beta)
qed

lemma entry_walk_safe_eq:
  "entry_walk_safe step off head body pos n st =
   walk_safe step head (at_entry off body) (pos + off) (n + off) st"
proof -
  let ?f = "\<lambda>(p, n, st). (p + off, n + off, st)"
  have "map_option ?f (while_option (\<lambda>(pos, n, st). pos + off \<noteq> head)
       (\<lambda>(pos, n, st). let st1 = body pos st
                      in (n, list_entry (step (snd st1) (n + off)) off, st1)) (pos, n, st))
    = while_option (\<lambda>(pos, n, st). pos \<noteq> head)
       (\<lambda>(pos, n, st). let st1 = at_entry off body pos st in (n, step (snd st1) n, st1)) (?f (pos, n, st))"
    by (rule while_option_commute) (auto simp: at_entry_def Let_def)
  from arg_cong [OF this, of "map_option (snd \<circ> snd)"] show ?thesis
    by (simp add: entry_walk_safe_def walk_safe_def option.map_comp comp_def case_prod_beta)
qed

text \<open>So every entry loop over a whole list is the node loop of the same direction.\<close>

lemma entry_loops:
  "list_for_each_entry head off body = list_for_each head (at_entry off body)"
  "list_for_each_entry_reverse head off body = list_for_each_prev head (at_entry off body)"
  "list_for_each_entry_safe head off body = list_for_each_safe head (at_entry off body)"
  "list_for_each_entry_safe_reverse head off body = list_for_each_prev_safe head (at_entry off body)"
  by (auto simp: list_for_each_entry_def list_for_each_def list_for_each_entry_reverse_def
      list_for_each_prev_def list_for_each_entry_safe_def list_for_each_safe_def
      list_for_each_entry_safe_reverse_def list_for_each_prev_safe_def entry_walk_eq
      entry_walk_safe_eq Let_def fun_eq_iff)

lemma walk_unfold:
  "walk step head body pos st =
     (if pos = head then Some st
      else let st1 = body pos st in walk step head body (step (snd st1) pos) st1)"
  by (simp add: walk_def Let_def while_option_unfold [of _ _ "(pos, st)"])

lemma walk_safe_unfold:
  "walk_safe step head body pos n st =
     (if pos = head then Some st
      else let st1 = body pos st in walk_safe step head body n (step (snd st1) n) st1)"
  by (simp add: walk_safe_def Let_def while_option_unfold [of _ _ "(pos, n, st)"])

section \<open>Rules for the loops\<close>

text \<open>\<open>I zs st\<close>: the nodes \<open>zs\<close> are still to be visited in the state \<open>st\<close>.\<close>

lemma walk_rule:
  assumes "I xs st" "pos = hd (xs @ [head])"
    and "\<And>x zs st. I (x # zs) st \<Longrightarrow>
      x \<noteq> head \<and> I zs (body x st) \<and> step (snd (body x st)) x = hd (zs @ [head])"
  shows "\<exists>st1. walk step head body pos st = Some st1 \<and> I [] st1"
  using assms(1,2)
proof (induction xs arbitrary: pos st)
  case Nil
  then show ?case by (simp add: walk_unfold)
next
  case (Cons x xs)
  then show ?case using assms(3) [OF Cons.prems(1)]
    by (subst walk_unfold) (simp add: Let_def)
qed

lemma walk_safe_rule:
  assumes "I xs st" "pos = hd (xs @ [head])" "xs \<noteq> [] \<Longrightarrow> n = hd (tl xs @ [head])"
    and "\<And>x zs st. I (x # zs) st \<Longrightarrow> x \<noteq> head \<and> I zs (body x st) \<and>
      (zs \<noteq> [] \<longrightarrow> step (snd (body x st)) (hd zs) = hd (tl zs @ [head]))"
  shows "\<exists>st1. walk_safe step head body pos n st = Some st1 \<and> I [] st1"
  using assms(1-3)
proof (induction xs arbitrary: pos n st)
  case Nil
  then show ?case by (simp add: walk_safe_unfold)
next
  case (Cons x xs)
  have "x \<noteq> head" "I xs (body x st)" "n = hd (xs @ [head])"
    "xs \<noteq> [] \<Longrightarrow> step (snd (body x st)) n = hd (tl xs @ [head])"
    using assms(4) [OF Cons.prems(1)] Cons.prems(3) by (auto split: if_splits)
  then show ?case using Cons.IH [of "body x st" n] Cons.prems(2)
    by (subst walk_safe_unfold) (simp add: Let_def)
qed

text \<open>The nodes in front of and behind a split point.\<close>

lemma is_list_next_of: "is_list h head (ks @ x # zs) \<Longrightarrow> nxt h x = hd (zs @ [head])"
  by (rule is_list_at(2))

lemma is_list_prev_of: "is_list h head (rev zs @ x # ks) \<Longrightarrow> prv h x = hd (zs @ [head])"
  using is_list_at(1) [of h head "rev zs" x ks] by (cases zs) auto

lemma is_list_first: "is_list h head xs \<Longrightarrow> nxt h head = hd (xs @ [head])"
  by (rule is_list_fields(1))

lemma is_list_last: "is_list h head xs \<Longrightarrow> prv h head = hd (rev xs @ [head])"
  by (cases xs rule: rev_cases) (auto dest: is_list_fields(2))

lemma is_list_head_notin: "is_list h head xs \<Longrightarrow> head \<notin> set xs"
  by (simp add: is_list_def)

lemma is_list_next_hd: "is_list h head (ks @ zs) \<Longrightarrow> zs \<noteq> [] \<Longrightarrow> nxt h (hd zs) = hd (tl zs @ [head])"
  by (cases zs) (auto simp: is_list_next_of)

lemma is_list_prev_hd: "is_list h head (rev zs @ ks) \<Longrightarrow> zs \<noteq> [] \<Longrightarrow> prv h (hd zs) = hd (tl zs @ [head])"
  by (cases zs) (auto simp: is_list_prev_of)

text \<open>Reading loops: a body that leaves the heap alone folds over the entries.\<close>

definition reading :: "(addr \<Rightarrow> 's \<Rightarrow> 's) \<Rightarrow> addr \<Rightarrow> 's \<times> 'h \<Rightarrow> 's \<times> 'h" where
  "reading f p st = (f p (fst st), snd st)"

lemma reading_loops:
  assumes l: "is_list h head xs"
  shows "list_for_each head (reading f) (s, h) = Some (fold f xs s, h)"
    and "list_for_each_prev head (reading f) (s, h) = Some (fold f (rev xs) s, h)"
proof -
  let ?I = "\<lambda>zs st. snd st = h \<and> (\<exists>ks. xs = ks @ zs \<and> fst st = fold f ks s)"
  have "\<exists>st1. walk nxt head (reading f) (nxt h head) (s, h) = Some st1 \<and> ?I [] st1"
  proof (rule walk_rule [where I = ?I])
    fix x zs st assume "?I (x # zs) st"
    then obtain ks where st: "st = (fold f ks s, h)" "xs = ks @ x # zs" by (cases st) auto
    show "x \<noteq> head \<and> ?I zs (reading f x st) \<and> nxt (snd (reading f x st)) x = hd (zs @ [head])"
      using is_list_head_notin [OF l] is_list_next_of [OF l [unfolded st(2)]]
      by (auto simp: st reading_def intro!: exI [of _ "ks @ [x]"])
  qed (use is_list_first [OF l] in auto)
  then show "list_for_each head (reading f) (s, h) = Some (fold f xs s, h)"
    by (auto simp: list_for_each_def)
  let ?J = "\<lambda>zs st. snd st = h \<and> (\<exists>ks. xs = rev zs @ ks \<and> fst st = fold f (rev ks) s)"
  have "\<exists>st1. walk prv head (reading f) (prv h head) (s, h) = Some st1 \<and> ?J [] st1"
  proof (rule walk_rule [where I = ?J and xs = "rev xs"])
    fix x zs st assume "?J (x # zs) st"
    then obtain ks where st: "st = (fold f (rev ks) s, h)" "xs = rev zs @ x # ks" by (cases st) auto
    show "x \<noteq> head \<and> ?J zs (reading f x st) \<and> prv (snd (reading f x st)) x = hd (zs @ [head])"
      using is_list_head_notin [OF l] is_list_prev_of [OF l [unfolded st(2)]]
      by (auto simp: st reading_def intro!: exI [of _ "x # ks"])
  qed (use is_list_last [OF l] in auto)
  then show "list_for_each_prev head (reading f) (s, h) = Some (fold f (rev xs) s, h)"
    by (auto simp: list_for_each_prev_def)
qed

text \<open>Deleting loops: the safe variants may delete the entry they stand on.\<close>

definition deleting :: "(addr \<Rightarrow> bool) \<Rightarrow> 's body" where
  "deleting P p st = (if P p then (fst st, list_del p (snd st)) else st)"

lemma deleting_step:
  assumes "is_list (snd st) head (ks @ x # zs)"
  shows "is_list (snd (deleting P x st)) head (ks @ (if P x then [] else [x]) @ zs)"
  using assms is_list_del [OF assms] by (simp add: deleting_def)

lemma deleting_loops:
  assumes l: "is_list h head xs"
  shows "\<exists>h1. list_for_each_safe head (deleting P) (s, h) = Some (s, h1) \<and>
      is_list h1 head (filter (\<lambda>x. \<not> P x) xs)"
    and "\<exists>h1. list_for_each_prev_safe head (deleting P) (s, h) = Some (s, h1) \<and>
      is_list h1 head (filter (\<lambda>x. \<not> P x) xs)"
proof -
  let ?F = "filter (\<lambda>x. \<not> P x)"
  let ?I = "\<lambda>zs st. fst st = s \<and> (\<exists>ks. xs = ks @ zs \<and> is_list (snd st) head (?F ks @ zs))"
  have "\<exists>st1. walk_safe nxt head (deleting P) (nxt h head) (nxt h (nxt h head)) (s, h) = Some st1
    \<and> ?I [] st1"
  proof (rule walk_safe_rule [where I = ?I])
    fix x zs st assume "?I (x # zs) st"
    then obtain ks where st: "fst st = s" "xs = ks @ x # zs" "is_list (snd st) head (?F ks @ x # zs)"
      by auto
    have "is_list (snd (deleting P x st)) head (?F (ks @ [x]) @ zs)"
      using deleting_step [OF st(3), of P] by (cases "P x") simp_all
    moreover from this have "nxt (snd (deleting P x st)) (hd zs) = hd (tl zs @ [head])" if "zs \<noteq> []"
      using that by (rule is_list_next_hd)
    ultimately show "x \<noteq> head \<and> ?I zs (deleting P x st) \<and>
        (zs \<noteq> [] \<longrightarrow> nxt (snd (deleting P x st)) (hd zs) = hd (tl zs @ [head]))"
      using is_list_head_notin [OF st(3)] st(1,2)
      by (auto simp: deleting_def intro!: exI [of _ "ks @ [x]"])
  qed (use is_list_first [OF l] is_list_next_hd [of h head "[]" xs] l in \<open>auto\<close>)
  then show "\<exists>h1. list_for_each_safe head (deleting P) (s, h) = Some (s, h1) \<and>
      is_list h1 head (?F xs)"
    by (auto simp: list_for_each_safe_def)
  let ?J = "\<lambda>zs st. fst st = s \<and> (\<exists>ks. xs = rev zs @ ks \<and> is_list (snd st) head (rev zs @ ?F ks))"
  have "\<exists>st1. walk_safe prv head (deleting P) (prv h head) (prv h (prv h head)) (s, h) = Some st1
    \<and> ?J [] st1"
  proof (rule walk_safe_rule [where I = ?J and xs = "rev xs"])
    fix x zs st assume "?J (x # zs) st"
    then obtain ks where st: "fst st = s" "xs = rev zs @ x # ks"
      "is_list (snd st) head (rev zs @ x # ?F ks)" by auto
    have "is_list (snd (deleting P x st)) head (rev zs @ ?F (x # ks))"
      using deleting_step [OF st(3), of P] by (simp split: if_splits)
    moreover from this have "prv (snd (deleting P x st)) (hd zs) = hd (tl zs @ [head])" if "zs \<noteq> []"
      using that by (rule is_list_prev_hd)
    ultimately show "x \<noteq> head \<and> ?J zs (deleting P x st) \<and>
        (zs \<noteq> [] \<longrightarrow> prv (snd (deleting P x st)) (hd zs) = hd (tl zs @ [head]))"
      using is_list_head_notin [OF st(3)] st(1,2)
      by (auto simp: deleting_def intro!: exI [of _ "x # ks"])
  qed (use is_list_last [OF l] is_list_prev_hd [of h head "rev xs" "[]"] l in \<open>auto\<close>)
  then show "\<exists>h1. list_for_each_prev_safe head (deleting P) (s, h) = Some (s, h1) \<and>
      is_list h1 head (?F xs)"
    by (auto simp: list_for_each_prev_safe_def)
qed

text \<open>The plain loop must not delete: after \<open>list_del\<close> its cursor is the poison
  pointer, and after \<open>list_del_init\<close> it never leaves the deleted entry.\<close>

lemma walk_stuck:
  assumes "x \<noteq> head" "I st" "\<And>st. I st \<Longrightarrow> I (body x st) \<and> step (snd (body x st)) x = x"
  shows "walk step head body x st = None"
proof -
  let ?w = "while_option (\<lambda>(pos, st). pos \<noteq> head)
     (\<lambda>(pos, st). let st1 = body pos st in (step (snd st1) pos, st1)) (x, st)"
  have False if w: "?w = Some t" for t
  proof -
    have "fst t = x \<and> I (snd t)"
      by (rule while_option_rule [OF _ w]) (use assms in \<open>auto simp: Let_def\<close>)
    moreover have "\<not> (\<lambda>(pos, st). pos \<noteq> head) t" by (rule while_option_stop [OF w])
    ultimately show False using assms(1) by (simp add: case_prod_beta)
  qed
  then have "?w = None" by (cases ?w) blast+
  then show ?thesis by (simp add: walk_def)
qed

lemma unsafe_loops:
  assumes l: "is_list h head (x # xs)"
  shows "list_for_each head (deleting (\<lambda>_. True)) (s, h) =
      walk nxt head (deleting (\<lambda>_. True)) LIST_POISON1 (s, list_del x h)"
    and "list_for_each head (\<lambda>p st. (fst st, list_del_init p (snd st))) (s, h) = None"
proof -
  have x: "nxt h head = x" "x \<noteq> head" using is_list_first [OF l] is_list_head_notin [OF l] by auto
  show "list_for_each head (deleting (\<lambda>_. True)) (s, h) =
      walk nxt head (deleting (\<lambda>_. True)) LIST_POISON1 (s, list_del x h)"
    by (simp add: list_for_each_def x walk_unfold [of _ _ _ x] deleting_def list_del_def Let_def)
  have "walk nxt head (\<lambda>p st. (fst st, list_del_init p (snd st))) x (s, h) = None"
    by (rule walk_stuck [where I = "\<lambda>_. True"])
      (simp_all add: x list_del_init_def INIT_LIST_HEAD_connect Let_def)
  then show "list_for_each head (\<lambda>p st. (fst st, list_del_init p (snd st))) (s, h) = None"
    by (simp add: list_for_each_def x)
qed

text \<open>Continuing a loop behind an entry of the list visits exactly the entries behind it.\<close>

lemma reading_suffix:
  assumes l: "is_list h head (ys @ zs)"
  shows "walk nxt head (reading f) (hd (zs @ [head])) (s, h) = Some (fold f zs s, h)"
proof -
  let ?I = "\<lambda>us st. snd st = h \<and> (\<exists>ks. zs = ks @ us \<and> fst st = fold f ks s)"
  have "\<exists>st1. walk nxt head (reading f) (hd (zs @ [head])) (s, h) = Some st1 \<and> ?I [] st1"
  proof (rule walk_rule [where I = ?I])
    fix x us st assume "?I (x # us) st"
    then obtain ks where st: "st = (fold f ks s, h)" "zs = ks @ x # us" by (cases st) auto
    have "is_list h head ((ys @ ks) @ x # us)" using l st(2) by simp
    then show "x \<noteq> head \<and> ?I us (reading f x st) \<and> nxt (snd (reading f x st)) x = hd (us @ [head])"
      using is_list_head_notin [OF l] is_list_next_of [of h head "ys @ ks" x us]
      by (auto simp: st reading_def intro!: exI [of _ "ks @ [x]"])
  qed auto
  then show ?thesis by auto
qed

lemma at_entry_reading: "at_entry off (reading f) = reading (\<lambda>p. f (list_entry p off))"
  by (simp add: at_entry_def reading_def fun_eq_iff)

lemma fold_entries: "fold (\<lambda>p. f (list_entry p off)) xs s = fold f (map (\<lambda>p. list_entry p off) xs) s"
  by (simp add: fold_map comp_def)

section \<open>Properties\<close>

text \<open>C15: a loop whose body leaves the list alone ends after visiting every entry once, in
  list order or backwards, as node addresses or as the structures around them; continued
  from an entry it visits the entries behind it.\<close>

theorem list_for_each_visits:
  assumes "is_list h head xs"
  shows "list_for_each head (reading f) (s, h) = Some (fold f xs s, h) \<and>
    list_for_each_prev head (reading f) (s, h) = Some (fold f (rev xs) s, h) \<and>
    list_for_each_entry head off (reading f) (s, h) =
      Some (fold f (map (\<lambda>p. list_entry p off) xs) s, h) \<and>
    list_for_each_entry_reverse head off (reading f) (s, h) =
      Some (fold f (map (\<lambda>p. list_entry p off) (rev xs)) s, h) \<and>
    (\<forall>ys e zs. xs = ys @ e # zs \<longrightarrow>
      list_for_each_entry_continue (list_entry e off) head off (reading f) (s, h) =
        Some (fold f (map (\<lambda>p. list_entry p off) zs) s, h) \<and>
      list_for_each_entry_from (list_entry e off) head off (reading f) (s, h) =
        Some (fold f (map (\<lambda>p. list_entry p off) (e # zs)) s, h))"
proof -
  have "list_for_each_entry_continue (list_entry e off) head off (reading f) (s, h) =
        Some (fold f (map (\<lambda>p. list_entry p off) zs) s, h) \<and>
      list_for_each_entry_from (list_entry e off) head off (reading f) (s, h) =
        Some (fold f (map (\<lambda>p. list_entry p off) (e # zs)) s, h)" if x: "xs = ys @ e # zs" for ys e zs
    using reading_suffix [of h head "ys @ [e]" zs "\<lambda>p. f (list_entry p off)" s]
      reading_suffix [of h head ys "e # zs" "\<lambda>p. f (list_entry p off)" s] assms x
      is_list_next_of [of h head ys e zs]
    by (simp add: list_for_each_entry_continue_def list_for_each_entry_from_def entry_walk_eq
        at_entry_reading fold_entries)
  then show ?thesis
    by (simp add: reading_loops [OF assms] entry_loops at_entry_reading fold_entries rev_map)
qed

theorem list_for_each_visits_witness:
  "list_for_each 1 (reading (\<lambda>p s. s @ [p])) ([], two_lists) = Some ([2, 3], two_lists)"
  using list_for_each_visits [OF two_lists(1), of "\<lambda>p s. s @ [p]" "[]"] by simp

text \<open>C31: the safe loops may delete the entry they stand on: deleting those with a property
  ends, and leaves the others on the list in their order, forwards and backwards.\<close>

theorem list_for_each_safe_deletes:
  assumes "is_list h head xs"
  shows "(\<exists>h1. list_for_each_safe head (deleting P) (s, h) = Some (s, h1) \<and>
      is_list h1 head (filter (\<lambda>x. \<not> P x) xs)) \<and>
    (\<exists>h1. list_for_each_prev_safe head (deleting P) (s, h) = Some (s, h1) \<and>
      is_list h1 head (filter (\<lambda>x. \<not> P x) xs))"
  by (intro conjI deleting_loops [OF assms])

theorem list_for_each_safe_deletes_witness:
  "\<exists>h1. list_for_each_safe 1 (deleting (\<lambda>x. x = 2)) ((), two_lists) = Some ((), h1) \<and> is_list h1 1 [3]"
  using list_for_each_safe_deletes [OF two_lists(1), of "\<lambda>x. x = 2" "()"] by simp

text \<open>C32: the plain loop is not safe against removal: after \<open>list_del\<close> of its entry it goes
  on at the poison pointer, and after \<open>list_del_init\<close> it never ends.\<close>

theorem list_for_each_unsafe:
  assumes "is_list h head (x # xs)"
  shows "list_for_each head (deleting (\<lambda>_. True)) (s, h) =
      walk nxt head (deleting (\<lambda>_. True)) LIST_POISON1 (s, list_del x h) \<and>
    list_for_each head (\<lambda>p st. (fst st, list_del_init p (snd st))) (s, h) = None"
  by (intro conjI unsafe_loops [OF assms])

theorem list_for_each_unsafe_witness:
  "list_for_each 1 (\<lambda>p st. (fst st, list_del_init p (snd st))) ((), two_lists) = None"
  using list_for_each_unsafe [OF two_lists(1), of "()"] by simp

end
