(* ===== verification/HList.thy ===== *)
theory HList
  imports ListLoops
begin

text \<open>
  The hash lists of \<open>include/linux/list.h\<close>: a head of one pointer, and nodes with a
  \<open>next\<close> pointer and the address \<open>pprev\<close> of the pointer that leads to them.  The
  pointer of a head (\<open>first\<close>) and that of a node (\<open>next\<close>) are the first field of their
  structure, so that \<open>&h->first\<close> is the address \<open>h\<close> and \<open>&n->next\<close> the address
  \<open>n\<close>; \<open>cell a\<close> is the pointer stored at \<open>a\<close>.
\<close>

record hlist_heap =
  cell :: "addr \<Rightarrow> addr"
  pprev :: "addr \<Rightarrow> addr"

definition set_cell :: "addr \<Rightarrow> addr \<Rightarrow> hlist_heap \<Rightarrow> hlist_heap" where
  "set_cell a v h = h\<lparr>cell := (cell h)(a := v)\<rparr>"

definition set_pprev :: "addr \<Rightarrow> addr \<Rightarrow> hlist_heap \<Rightarrow> hlist_heap" where
  "set_pprev a v h = h\<lparr>pprev := (pprev h)(a := v)\<rparr>"

lemma hlist_fields [simp]:
  "cell (set_cell a v h) = (cell h)(a := v)" "pprev (set_cell a v h) = pprev h"
  "pprev (set_pprev a v h) = (pprev h)(a := v)" "cell (set_pprev a v h) = cell h"
  by (simp_all add: set_cell_def set_pprev_def)

section \<open>The operations\<close>

definition INIT_HLIST_HEAD :: "addr \<Rightarrow> hlist_heap \<Rightarrow> hlist_heap" where
  "INIT_HLIST_HEAD ptr h = set_cell ptr 0 h"

definition INIT_HLIST_NODE :: "addr \<Rightarrow> hlist_heap \<Rightarrow> hlist_heap" where
  "INIT_HLIST_NODE n h =
     (let h1 = set_cell n 0 h
      in set_pprev n 0 h1)"

definition hlist_unhashed :: "addr \<Rightarrow> hlist_heap \<Rightarrow> bool" where
  "hlist_unhashed n h \<longleftrightarrow> pprev h n = 0"

definition hlist_empty :: "addr \<Rightarrow> hlist_heap \<Rightarrow> bool" where
  "hlist_empty head h \<longleftrightarrow> cell h head = 0"

definition hlist_del_raw :: "addr \<Rightarrow> hlist_heap \<Rightarrow> hlist_heap" where
  "hlist_del_raw n h =
     (let next = cell h n;
          pp = pprev h n;
          h1 = set_cell pp next h
      in if next \<noteq> 0 then set_pprev next pp h1 else h1)"

definition hlist_del :: "addr \<Rightarrow> hlist_heap \<Rightarrow> hlist_heap" where
  "hlist_del n h =
     (let h1 = hlist_del_raw n h;
          h2 = set_cell n LIST_POISON1 h1
      in set_pprev n LIST_POISON2 h2)"

definition hlist_del_init :: "addr \<Rightarrow> hlist_heap \<Rightarrow> hlist_heap" where
  "hlist_del_init n h =
     (if \<not> hlist_unhashed n h
      then let h1 = hlist_del_raw n h in INIT_HLIST_NODE n h1
      else h)"

definition hlist_add_head :: "addr \<Rightarrow> addr \<Rightarrow> hlist_heap \<Rightarrow> hlist_heap" where
  "hlist_add_head n head h =
     (let first = cell h head;
          h1 = set_cell n first h;
          h2 = (if first \<noteq> 0 then set_pprev first n h1 else h1);
          h3 = set_cell head n h2
      in set_pprev n head h3)"

definition hlist_add_before :: "addr \<Rightarrow> addr \<Rightarrow> hlist_heap \<Rightarrow> hlist_heap" where
  "hlist_add_before n next h =
     (let h1 = set_pprev n (pprev h next) h;
          h2 = set_cell n next h1;
          h3 = set_pprev next n h2
      in set_cell (pprev h3 n) n h3)"

definition hlist_add_after :: "addr \<Rightarrow> addr \<Rightarrow> hlist_heap \<Rightarrow> hlist_heap" where
  "hlist_add_after n next h =
     (let h1 = set_cell next (cell h n) h;
          h2 = set_cell n next h1;
          h3 = set_pprev next n h2
      in if cell h3 next \<noteq> 0 then set_pprev (cell h3 next) next h3 else h3)"

section \<open>The loops\<close>

type_synonym 's hbody = "addr \<Rightarrow> 's \<times> hlist_heap \<Rightarrow> 's \<times> hlist_heap"

definition hwalk :: "'s hbody \<Rightarrow> addr \<Rightarrow> 's \<times> hlist_heap \<Rightarrow> ('s \<times> hlist_heap) option" where
  "hwalk body pos st = walk cell 0 body pos st"

definition hwalk_safe :: "'s hbody \<Rightarrow> addr \<Rightarrow> 's \<times> hlist_heap \<Rightarrow> ('s \<times> hlist_heap) option" where
  "hwalk_safe body pos st = map_option snd (while_option (\<lambda>(pos, st). pos \<noteq> 0)
     (\<lambda>(pos, st). let n = cell (snd st) pos; st1 = body pos st in (n, st1)) (pos, st))"

definition hlist_for_each :: "addr \<Rightarrow> 's hbody \<Rightarrow> 's \<times> hlist_heap \<Rightarrow> ('s \<times> hlist_heap) option" where
  "hlist_for_each head body st = hwalk body (cell (snd st) head) st"

definition hlist_for_each_safe ::
  "addr \<Rightarrow> 's hbody \<Rightarrow> 's \<times> hlist_heap \<Rightarrow> ('s \<times> hlist_heap) option" where
  "hlist_for_each_safe head body st = hwalk_safe body (cell (snd st) head) st"

definition hlist_for_each_entry ::
  "addr \<Rightarrow> addr \<Rightarrow> 's hbody \<Rightarrow> 's \<times> hlist_heap \<Rightarrow> ('s \<times> hlist_heap) option" where
  "hlist_for_each_entry head off body st =
     hwalk (\<lambda>pos. let tpos = list_entry pos off in body tpos) (cell (snd st) head) st"

definition hlist_for_each_entry_continue ::
  "addr \<Rightarrow> addr \<Rightarrow> 's hbody \<Rightarrow> 's \<times> hlist_heap \<Rightarrow> ('s \<times> hlist_heap) option" where
  "hlist_for_each_entry_continue pos off body st =
     hwalk (\<lambda>pos. let tpos = list_entry pos off in body tpos) (cell (snd st) pos) st"

definition hlist_for_each_entry_from ::
  "addr \<Rightarrow> addr \<Rightarrow> 's hbody \<Rightarrow> 's \<times> hlist_heap \<Rightarrow> ('s \<times> hlist_heap) option" where
  "hlist_for_each_entry_from pos off body st =
     hwalk (\<lambda>pos. let tpos = list_entry pos off in body tpos) pos st"

definition hlist_for_each_entry_safe ::
  "addr \<Rightarrow> addr \<Rightarrow> 's hbody \<Rightarrow> 's \<times> hlist_heap \<Rightarrow> ('s \<times> hlist_heap) option" where
  "hlist_for_each_entry_safe head off body st =
     hwalk_safe (\<lambda>pos. let tpos = list_entry pos off in body tpos) (cell (snd st) head) st"

section \<open>The abstraction\<close>

text \<open>A hash list is a chain of neighbours, as in a circular list, that ends with a null
  pointer.\<close>

definition pairs :: "hlist_heap \<Rightarrow> list_head" where
  "pairs h = \<lparr>nxt = cell h, prv = pprev h\<rparr>"

definition is_hlist :: "hlist_heap \<Rightarrow> addr \<Rightarrow> addr list \<Rightarrow> bool" where
  "is_hlist h head xs \<longleftrightarrow> distinct (head # xs) \<and> 0 \<notin> set (head # xs) \<and>
     links (pairs h) (head # xs) \<and> cell h (last (head # xs)) = 0"

lemma pairs_fields [simp]: "nxt (pairs h) = cell h" "prv (pairs h) = pprev h"
  by (simp_all add: pairs_def)

lemma pairs_connect:
  "pairs (set_pprev b a (set_cell a b h)) = connect a b (pairs h)"
  "pairs (set_cell a b (set_pprev b a h)) = connect a b (pairs h)"
  by (simp_all add: pairs_def connect_def)

lemma links_insert:
  assumes "links g (as @ bs)" "as \<noteq> []" "bs \<noteq> []" "distinct (as @ bs)" "n \<notin> set (as @ bs)"
  shows "links (connect (last as) n (connect n (hd bs) g)) (as @ n # bs)"
proof -
  have l: "links g as" "links g bs" using assms(1) by (auto simp: links_append)
  have "last as \<in> set as" "hd bs \<in> set bs" using assms(2,3) by simp_all
  then have e: "last as \<notin> set bs" "last as \<noteq> n" "hd bs \<notin> set as" "hd bs \<noteq> n"
    using assms(4,5) by auto
  have t: "hd bs \<notin> set (tl bs)" using assms(3,4) by (cases bs) auto
  have "links (connect n (hd bs) g) ([n] @ bs)"
    by (rule links_connect [OF _ l(2)]) (use assms e t in \<open>auto dest: in_set_butlastD\<close>)
  then have 1: "links (connect n (hd bs) g) (n # bs)" by simp
  have 2: "links (connect n (hd bs) g) as"
    by (rule links_connect_frame [OF l(1)])
      (use assms e t in \<open>auto dest: in_set_butlastD list.set_sel(2)\<close>)
  show ?thesis
    by (rule links_connect [OF 2 1])
      (use assms e t not_in_butlast [of as] in \<open>auto dest: in_set_butlastD list.set_sel(2)\<close>)
qed

lemma links_delete:
  assumes "links g (as @ e # bs)" "as \<noteq> []" "bs \<noteq> []" "distinct (as @ e # bs)"
  shows "links (connect (last as) (hd bs) g) (as @ bs)"
proof -
  have "links g (as @ [e] @ bs)" using assms(1) by simp
  then have l: "links g as" "links g bs" unfolding links_append by simp_all
  have "last as \<in> set as" "hd bs \<in> set bs" using assms(2,3) by simp_all
  then have d: "last as \<notin> set bs" "last as \<noteq> e" "hd bs \<notin> set as" "hd bs \<noteq> e"
    using assms(4) by auto
  have t: "hd bs \<notin> set (tl bs)" using assms(3,4) by (cases bs) auto
  show ?thesis
    by (rule links_connect [OF l])
      (use assms d t not_in_butlast [of as] in \<open>auto dest: in_set_butlastD list.set_sel(2)\<close>)
qed

lemma is_hlist_distinct: "is_hlist h head xs \<Longrightarrow> distinct (head # xs) \<and> 0 \<notin> set (head # xs)"
  by (simp add: is_hlist_def)

lemma is_hlist_at:
  assumes "is_hlist h head (xs @ e # ys)"
  shows "pprev h e = last (head # xs)" "cell h e = hd (ys @ [0])"
proof -
  have "links (pairs h) ((head # xs) @ (e # ys))" using assms by (simp add: is_hlist_def)
  then show "pprev h e = last (head # xs)" unfolding links_append by simp
  have "links (pairs h) ((head # xs @ [e]) @ ys)" using assms by (simp add: is_hlist_def)
  then show "cell h e = hd (ys @ [0])"
    unfolding links_append using assms by (cases ys) (auto simp: is_hlist_def)
qed

lemma is_hlist_first: "is_hlist h head xs \<Longrightarrow> cell h head = hd (xs @ [0])"
  by (cases xs) (auto simp: is_hlist_def)

lemma is_hlist_frame:
  "is_hlist h head xs \<Longrightarrow>
   (\<And>x. x \<in> set (head # xs) \<Longrightarrow> cell h' x = cell h x) \<Longrightarrow>
   (\<And>x. x \<in> set xs \<Longrightarrow> pprev h' x = pprev h x) \<Longrightarrow>
   is_hlist h' head xs"
  unfolding is_hlist_def
  by (auto elim!: links_frame dest!: in_set_butlastD split: if_splits)

lemma is_hlist_init: "head \<noteq> 0 \<Longrightarrow> is_hlist (INIT_HLIST_HEAD head h) head []"
  by (simp add: is_hlist_def INIT_HLIST_HEAD_def)

lemma hlist_empty_spec: "is_hlist h head xs \<Longrightarrow> hlist_empty head h \<longleftrightarrow> xs = []"
  by (cases xs) (auto simp: hlist_empty_def is_hlist_def)

lemma is_hlist_add_head:
  assumes "is_hlist h head xs" "n \<notin> set (head # xs)" "n \<noteq> 0"
  shows "is_hlist (hlist_add_head n head h) head (n # xs)"
proof (cases xs)
  case Nil
  then show ?thesis using assms by (auto simp: is_hlist_def hlist_add_head_def Let_def)
next
  case (Cons x zs)
  let ?h = "hlist_add_head n head h"
  have x: "cell h head = x" "x \<noteq> 0" using assms(1) Cons by (auto simp: is_hlist_def)
  have p: "pairs ?h = connect head n (connect n (hd xs) (pairs h))"
    by (simp add: hlist_add_head_def Let_def x Cons pairs_def connect_def)
  have "links (pairs h) ([head] @ xs)" using assms(1) by (simp add: is_hlist_def)
  from links_insert [OF this, of n] have l: "links (pairs ?h) (head # n # xs)"
    unfolding p using is_hlist_distinct [OF assms(1)] assms(2) Cons by simp
  have "last xs \<in> set xs" using Cons by simp
  then have "last xs \<noteq> head" "last xs \<noteq> n"
    using is_hlist_distinct [OF assms(1)] assms(2) by auto
  then have "cell ?h (last xs) = 0"
    using assms(1) Cons
    by (simp add: is_hlist_def hlist_add_head_def Let_def x last_ConsR del: last.simps)
  then show ?thesis
    using l is_hlist_distinct [OF assms(1)] assms(2,3) Cons by (auto simp: is_hlist_def simp del: links_simps)
qed

lemma is_hlist_del_raw:
  assumes "is_hlist h head (xs @ e # ys)"
  shows "is_hlist (hlist_del_raw e h) head (xs @ ys)"
proof -
  let ?p = "last (head # xs)" and ?h = "hlist_del_raw e h"
  have d: "distinct (head # xs @ e # ys)" "0 \<notin> set (head # xs @ e # ys)"
    using is_hlist_distinct [OF assms] by auto
  have e: "pprev h e = ?p" "cell h e = hd (ys @ [0])" using is_hlist_at [OF assms] by auto
  show ?thesis
  proof (cases ys)
    case Nil
    then have h: "?h = set_cell ?p 0 h" by (simp add: hlist_del_raw_def e Let_def)
    have "links (pairs h) ((head # xs) @ [e])" using assms Nil by (simp add: is_hlist_def)
    then have "links (pairs h) (head # xs)" unfolding links_append by simp
    then have "links (pairs ?h) (head # xs)"
      by (rule links_frame) (use not_in_butlast [of "head # xs"] d in \<open>auto simp: h\<close>)
    then show ?thesis using d Nil by (simp add: is_hlist_def h del: links_simps)
  next
    case (Cons y zs)
    then have h: "pairs ?h = connect ?p (hd ys) (pairs h)" "cell ?h = (cell h)(?p := y)"
      using d by (auto simp: hlist_del_raw_def e Let_def pairs_def connect_def)
    have "links (pairs h) ((head # xs) @ e # ys)" using assms by (simp add: is_hlist_def)
    from links_delete [OF this] have l: "links (pairs ?h) (head # xs @ ys)"
      unfolding h using Cons d by simp
    have "last ys \<in> set ys" using Cons by simp
    then have "last ys \<noteq> ?p" using d by (cases xs rule: rev_cases) auto
    moreover have "cell h (last ys) = 0" using assms Cons by (simp add: is_hlist_def)
    ultimately have "cell ?h (last (head # xs @ ys)) = 0" using Cons by (simp add: h)
    then show ?thesis using d l by (simp add: is_hlist_def del: links_simps last.simps)
  qed
qed

lemma is_hlist_write:
  assumes "is_hlist h head xs" "e \<notin> set (head # xs)"
  shows "is_hlist (set_cell e v h) head xs" "is_hlist (set_pprev e v h) head xs"
  by (rule is_hlist_frame [OF assms(1)]; use assms(2) in auto)+

lemma is_hlist_del:
  assumes "is_hlist h head (xs @ e # ys)"
  shows "is_hlist (hlist_del e h) head (xs @ ys)"
    and "is_hlist (hlist_del_init e h) head (xs @ ys) \<and> hlist_unhashed e (hlist_del_init e h)"
proof -
  have n: "e \<notin> set (head # xs @ ys)" using is_hlist_distinct [OF assms] by auto
  have "last (head # xs) \<in> set (head # xs)" by (rule last_in_set) simp
  then have "\<not> hlist_unhashed e h"
    using is_hlist_at(1) [OF assms] is_hlist_distinct [OF assms]
    unfolding hlist_unhashed_def by auto
  then show "is_hlist (hlist_del e h) head (xs @ ys)"
    "is_hlist (hlist_del_init e h) head (xs @ ys) \<and> hlist_unhashed e (hlist_del_init e h)"
    using n is_hlist_del_raw [OF assms]
    by (simp_all add: hlist_del_def hlist_del_init_def INIT_HLIST_NODE_def Let_def is_hlist_write
        hlist_unhashed_def)
qed

lemma is_hlist_links: "is_hlist h head xs \<Longrightarrow> links (pairs h) (head # xs)"
  by (simp add: is_hlist_def)

lemma is_hlist_add_before:
  assumes "is_hlist h head (xs @ nx # ys)" "n \<notin> set (head # xs @ nx # ys)" "n \<noteq> 0"
  shows "is_hlist (hlist_add_before n nx h) head (xs @ n # nx # ys)"
proof -
  let ?p = "last (head # xs)" and ?h = "hlist_add_before n nx h"
  have d: "distinct (head # xs @ nx # ys)" "0 \<notin> set (head # xs @ nx # ys)"
    using is_hlist_distinct [OF assms(1)] by auto
  have n: "n \<noteq> nx" using assms(2) by auto
  have e: "pprev h nx = ?p" by (rule is_hlist_at(1) [OF assms(1)])
  have h: "pairs ?h = connect ?p n (connect n nx (pairs h))" "cell ?h = (cell h)(n := nx, ?p := n)"
    using n by (auto simp: hlist_add_before_def e Let_def pairs_def connect_def fun_upd_def)
  have "links (pairs h) ((head # xs) @ nx # ys)" using is_hlist_links [OF assms(1)] by simp
  from links_insert [OF this, of n] have l: "links (pairs ?h) (head # xs @ n # nx # ys)"
    unfolding h using d assms(2) by simp
  have "last (nx # ys) \<in> set (nx # ys)" by (rule last_in_set) simp
  then have "last (nx # ys) \<noteq> ?p" "last (nx # ys) \<noteq> n"
    using d assms(2) by (cases xs rule: rev_cases; auto)+
  moreover have l1: "last (head # xs @ n # nx # ys) = last (nx # ys)" by simp
  moreover have "cell h (last (nx # ys)) = 0" using assms(1) by (simp add: is_hlist_def)
  ultimately have "cell ?h (last (head # xs @ n # nx # ys)) = 0"
    unfolding h l1 by simp
  then show ?thesis using d l assms(2,3) by (auto simp: is_hlist_def simp del: links_simps last.simps)
qed

lemma is_hlist_add_after:
  assumes "is_hlist h head (xs @ n # ys)" "nx \<notin> set (head # xs @ n # ys)" "nx \<noteq> 0"
  shows "is_hlist (hlist_add_after n nx h) head (xs @ n # nx # ys)"
proof -
  let ?h = "hlist_add_after n nx h"
  have d: "distinct (head # xs @ n # ys)" "0 \<notin> set (head # xs @ n # ys)"
    using is_hlist_distinct [OF assms(1)] by auto
  have n: "n \<noteq> nx" "nx \<noteq> n" using assms(2) by auto
  have e: "cell h n = hd (ys @ [0])" by (rule is_hlist_at(2) [OF assms(1)])
  have l0: "links (pairs h) ((head # xs @ [n]) @ ys)" using is_hlist_links [OF assms(1)] by simp
  show ?thesis
  proof (cases ys)
    case Nil
    then have h: "pairs ?h = connect n nx (pairs (set_cell nx 0 h))" "cell ?h nx = 0"
      using n by (auto simp: hlist_add_after_def e Let_def pairs_def connect_def fun_upd_def)
    have "links (pairs (set_cell nx 0 h)) (head # xs @ [n])"
      by (rule links_frame [of "pairs h"])
        (use l0 Nil d assms(2) in \<open>auto dest: in_set_butlastD split: if_splits\<close>)
    from links_connect [OF this, of "[nx]" n nx]
    have "links (pairs ?h) ((head # xs @ [n]) @ [nx])"
      unfolding h using d assms(2) by (auto simp: butlast_append)
    then show ?thesis using d h(2) Nil assms(2,3)
      by (auto simp: is_hlist_def simp del: links_simps)
  next
    case (Cons y zs)
    then have y: "y \<noteq> 0" "y \<noteq> nx" using d assms(2) by auto
    have h: "pairs ?h = connect n nx (connect nx y (pairs h))" "cell ?h = (cell h)(nx := y, n := nx)"
      using n Cons y by (auto simp: hlist_add_after_def e Let_def pairs_def connect_def fun_upd_def fun_eq_iff)
    from links_insert [OF l0, of nx] have l: "links (pairs ?h) (head # xs @ n # nx # ys)"
      unfolding h using Cons d assms(2) by simp
    have "last ys \<in> set ys" using Cons by simp
    then have "last ys \<noteq> n" "last ys \<noteq> nx" using d assms(2) by auto
    moreover have "cell h (last ys) = 0" using assms(1) Cons by (simp add: is_hlist_def)
    ultimately have "cell ?h (last (head # xs @ n # nx # ys)) = 0" using Cons by (simp add: h)
    then show ?thesis using d l assms(2,3) by (auto simp: is_hlist_def simp del: links_simps last.simps)
  qed
qed

section \<open>The loops end\<close>

lemma is_hlist_next_of: "is_hlist h head (xs @ e # ys) \<Longrightarrow> cell h e = hd (ys @ [0])"
  by (rule is_hlist_at(2))

lemma hlist_reading_suffix:
  assumes l: "is_hlist h head (ys @ zs)"
  shows "hwalk (reading f) (hd (zs @ [0])) (s, h) = Some (fold f zs s, h)"
proof -
  let ?I = "\<lambda>us st. snd st = h \<and> (\<exists>ks. zs = ks @ us \<and> fst st = fold f ks s)"
  have "\<exists>st1. walk cell 0 (reading f) (hd (zs @ [0])) (s, h) = Some st1 \<and> ?I [] st1"
  proof (rule walk_rule [where I = ?I])
    fix x us st assume "?I (x # us) st"
    then obtain ks where st: "st = (fold f ks s, h)" "zs = ks @ x # us" by (cases st) auto
    have "is_hlist h head ((ys @ ks) @ x # us)" using l st(2) by simp
    then show "x \<noteq> 0 \<and> ?I us (reading f x st) \<and> cell (snd (reading f x st)) x = hd (us @ [0])"
      using is_hlist_distinct [OF l] is_hlist_next_of [of h head "ys @ ks" x us]
      by (auto simp: st reading_def intro!: exI [of _ "ks @ [x]"])
  qed auto
  then show ?thesis by (auto simp: hwalk_def)
qed

lemma hwalk_safe_unfold:
  "hwalk_safe body pos st =
     (if pos = 0 then Some st
      else let n = cell (snd st) pos; st1 = body pos st in hwalk_safe body n st1)"
  by (simp add: hwalk_safe_def Let_def while_option_unfold [of _ _ "(pos, st)"])

definition hdeleting :: "(addr \<Rightarrow> bool) \<Rightarrow> 's hbody" where
  "hdeleting P p st = (if P p then (fst st, hlist_del p (snd st)) else st)"

lemma hdeleting_step: "hdeleting P x (s, h) = (s, if P x then hlist_del x h else h)"
  by (simp add: hdeleting_def)

lemma hdeleting_loop:
  "is_hlist h head (ks @ zs) \<Longrightarrow>
   \<exists>h1. hwalk_safe (hdeleting P) (hd (zs @ [0])) (s, h) = Some (s, h1) \<and>
     is_hlist h1 head (ks @ filter (\<lambda>x. \<not> P x) zs)"
proof (induction zs arbitrary: ks h)
  case Nil
  then show ?case by (simp add: hwalk_safe_unfold)
next
  case (Cons x zs)
  have x: "x \<noteq> 0" "cell h x = hd (zs @ [0])"
    using is_hlist_distinct [OF Cons.prems] is_hlist_next_of [OF Cons.prems] by auto
  show ?case
  proof (cases "P x")
    case True
    then show ?thesis using Cons.IH [OF is_hlist_del(1) [OF Cons.prems]] x
      by (subst hwalk_safe_unfold) (simp add: hdeleting_step Let_def)
  next
    case False
    then show ?thesis using Cons.IH [of h "ks @ [x]"] Cons.prems x
      by (subst hwalk_safe_unfold) (simp add: hdeleting_step Let_def)
  qed
qed

section \<open>Hash lists as intrusive stacks\<close>

definition node_ok :: "addr \<Rightarrow> addr \<Rightarrow> bool" where
  "node_ok head n \<longleftrightarrow> n \<noteq> head \<and> n \<noteq> 0"

interpretation hash: intrusive_stack is_hlist node_ok hlist_add_head hlist_del
  by unfold_locales (auto simp: node_ok_def is_hlist_add_head is_hlist_del dest: is_hlist_distinct)

section \<open>Properties\<close>

text \<open>C33: nodes pushed on a hash list come out in reverse order, inserting before or after a
  node puts the new node there, and deleting nodes (with or without marking them unhashed)
  leaves the others in order, without the list's head being known.\<close>

theorem hlist_ops_spec:
  assumes "is_hlist h head (xs @ e # ys)" "distinct (ns @ xs @ e # ys)"
    and "\<forall>n\<in>set ns. node_ok head n" "n \<notin> set (xs @ e # ys)" "node_ok head n"
  shows "is_hlist (fold (\<lambda>n. hlist_add_head n head) ns h) head (rev ns @ xs @ e # ys) \<and>
    is_hlist (hlist_add_before n e h) head (xs @ n # e # ys) \<and>
    is_hlist (hlist_add_after e n h) head (xs @ e # n # ys) \<and>
    is_hlist (hlist_del e h) head (xs @ ys) \<and>
    is_hlist (hlist_del_init e h) head (xs @ ys) \<and> hlist_unhashed e (hlist_del_init e h) \<and>
    (hlist_empty head (hlist_del e h) \<longleftrightarrow> xs @ ys = [])"
proof -
  have n: "n \<notin> set (head # xs @ e # ys)" "n \<noteq> 0" using assms(4,5) by (auto simp: node_ok_def)
  show ?thesis
    using hash.rep_push_all [OF assms(1,2)] assms(3) is_hlist_add_before [OF assms(1) n]
      is_hlist_add_after [OF assms(1) n] is_hlist_del [OF assms(1)]
      hlist_empty_spec [OF is_hlist_del(1) [OF assms(1)]] by simp
qed

definition one_hlist :: hlist_heap where
  "one_hlist = hlist_add_head 3 1 (hlist_add_head 2 1 \<lparr>cell = \<lambda>_. 0, pprev = \<lambda>_. 0\<rparr>)"

lemma one_hlist: "is_hlist one_hlist 1 [3, 2]"
  by (simp add: one_hlist_def is_hlist_def hlist_add_head_def)

theorem hlist_ops_spec_witness: "is_hlist (hlist_add_after 3 7 one_hlist) 1 [3, 7, 2]"
  using hlist_ops_spec [of one_hlist 1 "[]" 3 "[2]" "[5]" 7] one_hlist by (simp add: node_ok_def)

text \<open>every loop over a hash list ends: reading loops visit the nodes (or the structures
  around them) in order, and the safe loop may delete the nodes it stands on.\<close>

theorem hlist_loops_spec:
  assumes "is_hlist h head xs"
  shows "hlist_for_each head (reading f) (s, h) = Some (fold f xs s, h) \<and>
    hlist_for_each_entry head off (reading f) (s, h) =
      Some (fold f (map (\<lambda>p. list_entry p off) xs) s, h) \<and>
    (\<exists>h1. hlist_for_each_safe head (hdeleting P) (s, h) = Some (s, h1) \<and>
      is_hlist h1 head (filter (\<lambda>x. \<not> P x) xs))"
proof -
  have "(\<lambda>pos. let tpos = list_entry pos off in reading f tpos) = reading (\<lambda>p. f (list_entry p off))"
    by (simp add: reading_def fun_eq_iff)
  from arg_cong [OF this, of "\<lambda>b. hwalk b (cell h head) (s, h)"]
  have e: "hlist_for_each_entry head off (reading f) (s, h) =
      hlist_for_each head (reading (\<lambda>p. f (list_entry p off))) (s, h)"
    by (simp add: hlist_for_each_entry_def hlist_for_each_def)
  show ?thesis
    using hlist_reading_suffix [of h head "[]" xs f s] hdeleting_loop [of h head "[]" xs P s]
      hlist_reading_suffix [of h head "[]" xs "\<lambda>p. f (list_entry p off)" s]
      is_hlist_first [OF assms] assms
    by (simp add: e hlist_for_each_def hlist_for_each_safe_def fold_entries)
qed

theorem hlist_loops_spec_witness:
  "\<exists>h1. hlist_for_each_safe 1 (hdeleting (\<lambda>x. x = 3)) ((), one_hlist) = Some ((), h1) \<and> is_hlist h1 1 [2]"
  using hlist_loops_spec [OF one_hlist, of "\<lambda>p s. s" "()" 0 "\<lambda>x. x = 3"] by simp

end
