(* ===== verification/Bits.thy ===== *)
theory Bits
  imports Bytes
begin

text \<open>
  Bit masks and bit searches: \<open>include/linux/bitops.h\<close>, the generic implementations
  under \<open>include/asm-generic/bitops/\<close> and the configuration of the ARM build, where
  \<open>long\<close> has 32 bits.  The searches halve the word step by step; each is proved against
  the position of the first or the last set bit.
\<close>

section \<open>Masks\<close>

definition BITS_PER_LONG :: nat where "BITS_PER_LONG = 32"
definition BITS_PER_LONG_LONG :: nat where "BITS_PER_LONG_LONG = 64"

definition BIT :: "nat \<Rightarrow> u32" where "BIT nr = push_bit nr 1"
definition BIT_ULL :: "nat \<Rightarrow> u64" where "BIT_ULL nr = push_bit nr 1"
definition BIT_MASK :: "nat \<Rightarrow> u32" where "BIT_MASK nr = push_bit (nr mod BITS_PER_LONG) 1"
definition BIT_WORD :: "nat \<Rightarrow> nat" where "BIT_WORD nr = nr div BITS_PER_LONG"

definition GENMASK :: "nat \<Rightarrow> nat \<Rightarrow> u32" where
  "GENMASK h l = push_bit l (NOT 0) AND drop_bit (BITS_PER_LONG - 1 - h) (NOT 0)"

definition GENMASK_ULL :: "nat \<Rightarrow> nat \<Rightarrow> u64" where
  "GENMASK_ULL h l = push_bit l (NOT 0) AND drop_bit (BITS_PER_LONG_LONG - 1 - h) (NOT 0)"

lemma bit_BIT [word_bits]: "bit (BIT k) n \<longleftrightarrow> n = k \<and> k < 32"
  by (auto simp: BIT_def bit_exp_iff)

lemma bit_GENMASK [word_bits]: "h < 32 \<Longrightarrow> bit (GENMASK h l) n \<longleftrightarrow> l \<le> n \<and> n \<le> h"
  by (auto simp: GENMASK_def BITS_PER_LONG_def bit_and_iff bit_not_iff bit_mask_iff)

lemma bit_GENMASK_ULL [word_bits]: "h < 64 \<Longrightarrow> bit (GENMASK_ULL h l) n \<longleftrightarrow> l \<le> n \<and> n \<le> h"
  by (auto simp: GENMASK_ULL_def BITS_PER_LONG_LONG_def bit_and_iff bit_not_iff bit_mask_iff)

lemma bit_BIT_MASK [word_bits]: "bit (BIT_MASK k) n \<longleftrightarrow> n = k mod 32"
  by (auto simp: BIT_MASK_def BITS_PER_LONG_def bit_exp_iff)

section \<open>Searching for a set bit\<close>

text \<open>One halving step: \<open>if (!(x & m)) { x >>= w; r += w; }\<close> for the lowest bit and
  \<open>if (!(x & m)) { x <<= w; r -= w; }\<close> for the highest.\<close>

definition ffs_step :: "(nat \<Rightarrow> u32 \<Rightarrow> u32) \<Rightarrow> u32 \<Rightarrow> nat \<Rightarrow> u32 \<times> int \<Rightarrow> u32 \<times> int" where
  "ffs_step shr m w s = (case s of (x, r) \<Rightarrow> if x AND m = 0 then (shr w x, r + int w) else (x, r))"

definition fls_step :: "u32 \<Rightarrow> nat \<Rightarrow> u32 \<times> int \<Rightarrow> u32 \<times> int" where
  "fls_step m w s = (case s of (x, r) \<Rightarrow> if x AND m = 0 then (push_bit w x, r - int w) else (x, r))"

definition generic_ffs :: "s32 \<Rightarrow> int" where
  "generic_ffs x =
     (if x = 0 then 0
      else let s1 = ffs_step signed_drop_bit 0xffff 16 (x, 1);
               s2 = ffs_step signed_drop_bit 0xff 8 s1;
               s3 = ffs_step signed_drop_bit 0xf 4 s2;
               s4 = ffs_step signed_drop_bit 3 2 s3;
               s5 = ffs_step signed_drop_bit 1 1 s4
           in snd s5)"

definition generic_fls :: "s32 \<Rightarrow> int" where
  "generic_fls x =
     (if x = 0 then 0
      else let s1 = fls_step 0xffff0000 16 (x, 32);
               s2 = fls_step 0xff000000 8 s1;
               s3 = fls_step 0xf0000000 4 s2;
               s4 = fls_step 0xc0000000 2 s3;
               s5 = fls_step 0x80000000 1 s4
           in snd s5)"

definition fls_int :: "s32 \<Rightarrow> int" where
  "fls_int x =
     (if x = 0 then 0
      else let s1 = fls_step 0xffff0000 16 (x, 32);
               s2 = fls_step 0xff000000 8 s1;
               s3 = fls_step 0xf0000000 4 s2;
               s4 = fls_step 0xc0000000 2 s3;
               s5 = fls_step 0x80000000 1 s4
           in snd s5)"

definition ffs_word :: "u32 \<Rightarrow> int" where
  "ffs_word word =
     (let s1 = ffs_step drop_bit 0xffff 16 (word, 0);
          s2 = ffs_step drop_bit 0xff 8 s1;
          s3 = ffs_step drop_bit 0xf 4 s2;
          s4 = ffs_step drop_bit 3 2 s3
      in if fst s4 AND 1 = 0 then snd s4 + 1 else snd s4)"

definition fls_word :: "u32 \<Rightarrow> int" where
  "fls_word word =
     (let s1 = fls_step (push_bit (BITS_PER_LONG - 16) (NOT 0)) 16 (word, int BITS_PER_LONG - 1);
          s2 = fls_step (push_bit (BITS_PER_LONG - 8) (NOT 0)) 8 s1;
          s3 = fls_step (push_bit (BITS_PER_LONG - 4) (NOT 0)) 4 s2;
          s4 = fls_step (push_bit (BITS_PER_LONG - 2) (NOT 0)) 2 s3
      in if fst s4 AND push_bit (BITS_PER_LONG - 1) (NOT 0) = 0 then snd s4 - 1 else snd s4)"

definition fls64 :: "u64 \<Rightarrow> int" where
  "fls64 x = (let h = ucast (drop_bit 32 x) :: u32 in if h \<noteq> 0 then fls_int h + 32 else fls_int (ucast x))"

definition fls_long :: "u32 \<Rightarrow> int" where
  "fls_long l = fls_int l"

definition ffs64 :: "u64 \<Rightarrow> int" where
  "ffs64 word =
     (if (ucast word :: u32) = 0 then ffs_word (ucast (drop_bit 32 word)) + 32
      else ffs_word (ucast word))"

definition ffz :: "u32 \<Rightarrow> int" where
  "ffz x = ffs_word (NOT x)"

section \<open>First and last set bit\<close>

definition first_bit :: "'a::len word \<Rightarrow> nat \<Rightarrow> bool" where
  "first_bit x n \<longleftrightarrow> bit x n \<and> (\<forall>i<n. \<not> bit x i)"

definition last_bit :: "'a::len word \<Rightarrow> nat \<Rightarrow> bool" where
  "last_bit x n \<longleftrightarrow> bit x n \<and> (\<forall>i\<in>{n<..<LENGTH('a)}. \<not> bit x i)"

lemma first_bit_exists:
  fixes x :: "'a::len word"
  assumes "x \<noteq> 0"
  obtains n where "first_bit x n" "n < LENGTH('a)"
proof -
  obtain k where k: "bit x k" using assms bit_eqI [of x 0] by auto
  define n where "n = (LEAST n. bit x n)"
  have "bit x n" unfolding n_def using k by (rule LeastI)
  moreover have "\<not> bit x i" if "i < n" for i using that not_less_Least unfolding n_def by blast
  ultimately show ?thesis using that [of n] bit_imp_le_length by (auto simp: first_bit_def)
qed

lemma last_bit_exists:
  fixes x :: "'a::len word"
  assumes "x \<noteq> 0"
  obtains n where "last_bit x n" "n < LENGTH('a)"
proof -
  obtain k where k: "bit x k" using assms bit_eqI [of x 0] by auto
  let ?S = "{n. bit x n}"
  have fin: "finite ?S" using bit_imp_le_length [of x] by (auto intro: finite_subset [of _ "{..<LENGTH('a)}"])
  define n where "n = Max ?S"
  have "n \<in> ?S" unfolding n_def using k fin by (intro Max_in) auto
  moreover have "\<not> bit x i" if "n < i" for i using that Max_ge [OF fin] unfolding n_def by fastforce
  ultimately show ?thesis using that [of n] bit_imp_le_length by (auto simp: last_bit_def)
qed

lemma first_bit_unique: "first_bit x m \<Longrightarrow> first_bit x n \<Longrightarrow> m = n"
  unfolding first_bit_def by (metis linorder_neqE_nat)

lemma last_bit_unique: "last_bit x m \<Longrightarrow> last_bit x n \<Longrightarrow> m = n"
  unfolding last_bit_def by (metis bit_imp_le_length greaterThanLessThan_iff linorder_neqE_nat)

section \<open>The halving steps\<close>

lemma and_zero_iff:
  fixes x m :: "'a::len word"
  shows "x AND m = 0 \<longleftrightarrow> (\<forall>i. bit m i \<longrightarrow> \<not> bit x i)"
  by (auto simp: bit_eq_iff bit_and_iff dest: bit_imp_le_length)

text \<open>The bits of the step masks.\<close>

lemma low_step_masks:
  "(0xffff :: u32) = mask 16" "(0xff :: u32) = mask 8" "(0xf :: u32) = mask 4" "(3 :: u32) = mask 2"
  "(1 :: u32) = mask 1"
  by (simp_all add: mask_eq_exp_minus_1)

lemma high_step_masks:
  "(0xffff0000 :: u32) = push_bit 16 (NOT 0)" "(0xff000000 :: u32) = push_bit 24 (NOT 0)"
  "(0xf0000000 :: u32) = push_bit 28 (NOT 0)" "(0xc0000000 :: u32) = push_bit 30 (NOT 0)"
  "(0x80000000 :: u32) = push_bit 31 (NOT 0)"
  by (simp_all only: push_bit_eq_mult) simp_all

lemma low_mask_zero: "(x :: u32) AND mask w = 0 \<longleftrightarrow> (\<forall>i<w. \<not> bit x i)"
  using bit_imp_le_length [of x] by (auto simp: and_zero_iff bit_mask_iff)

lemma bit_high_mask: "bit (push_bit k (NOT 0) :: u32) i \<longleftrightarrow> k \<le> i \<and> i < 32"
  by (auto simp: bit_push_bit_iff bit_not_iff bit_mask_iff)

lemma high_mask_zero: "(x :: u32) AND push_bit k (NOT 0) = 0 \<longleftrightarrow> (\<forall>i. k \<le> i \<longrightarrow> \<not> bit x i)"
  unfolding and_zero_iff bit_high_mask using bit_imp_le_length [of x] by auto

lemma not_mask_zero: "(x :: u32) AND NOT (mask k) = 0 \<longleftrightarrow> (\<forall>i. k \<le> i \<longrightarrow> \<not> bit x i)"
  using high_mask_zero [of x k] by simp

text \<open>A shift to the right may fill the top with zeros or with the sign bit.\<close>

definition shifts_right :: "(nat \<Rightarrow> u32 \<Rightarrow> u32) \<Rightarrow> bool" where
  "shifts_right shr \<longleftrightarrow> (\<forall>w x i. i + w < 32 \<longrightarrow> bit (shr w x) i = bit x (i + w))"

lemma shifts_right [simp]: "shifts_right drop_bit" "shifts_right signed_drop_bit"
  by (auto simp: shifts_right_def bit_drop_bit_eq bit_signed_drop_bit_iff add.commute)

text \<open>\<open>low w t s\<close>: the first set bit of the word lies below \<open>w\<close>, and its position
  and the count add up to \<open>t\<close>; likewise \<open>high w t s\<close> for the last bit and the top
  \<open>w\<close> positions.  A step halves the range.\<close>

definition low :: "nat \<Rightarrow> int \<Rightarrow> u32 \<times> int \<Rightarrow> bool" where
  "low w t s \<longleftrightarrow> (\<exists>n<w. first_bit (fst s) n \<and> snd s + int n = t)"

definition high :: "nat \<Rightarrow> int \<Rightarrow> u32 \<times> int \<Rightarrow> bool" where
  "high w t s \<longleftrightarrow> (\<exists>n<32. 32 - w \<le> n \<and> last_bit (fst s) n \<and> snd s + int n = t)"

lemma ffs_step_low:
  assumes "shifts_right shr" "low (2 * w) t s" "2 * w \<le> 32"
  shows "low w t (ffs_step shr (mask w) w s)"
proof -
  obtain n where n: "n < 2 * w" "first_bit (fst s) n" "snd s + int n = t"
    using assms(2) by (auto simp: low_def)
  show ?thesis
  proof (cases "\<forall>i<w. \<not> bit (fst s) i")
    case True
    have w: "w \<le> n" using True n(2) by (auto simp: first_bit_def not_less [symmetric])
    have e: "bit (shr w (fst s)) i = bit (fst s) (i + w)" if "i + w < 32" for i
      using assms(1) that by (simp add: shifts_right_def)
    have "first_bit (shr w (fst s)) (n - w)"
      using assms(3) n(1,2) w by (auto simp: first_bit_def e)
    then show ?thesis using True n w
      by (auto simp: low_def ffs_step_def case_prod_beta low_mask_zero intro!: exI [of _ "n - w"])
  next
    case False
    then obtain i where i: "i < w" "bit (fst s) i" by blast
    then have "\<not> i < n" using n(2) by (auto simp: first_bit_def)
    then have "n < w" using i by simp
    then show ?thesis using False n
      by (auto simp: low_def ffs_step_def case_prod_beta low_mask_zero)
  qed
qed

lemma fls_step_high:
  assumes "high (2 * w) t s" "2 * w \<le> 32"
  shows "high w t (fls_step (push_bit (32 - w) (NOT 0)) w s)"
proof -
  obtain n where n: "n < 32" "32 - 2 * w \<le> n" "last_bit (fst s) n" "snd s + int n = t"
    using assms(1) by (auto simp: high_def)
  show ?thesis
  proof (cases "\<forall>i. 32 - w \<le> i \<longrightarrow> \<not> bit (fst s) i")
    case True
    have w: "n < 32 - w" using True n(3) by (auto simp: last_bit_def not_less [symmetric])
    have "\<not> bit (fst s) (i - w)" if "n + w < i" "i < 32" for i
    proof -
      have "i - w \<in> {n<..<LENGTH(32)}" using that by auto
      then show ?thesis using n(3) unfolding last_bit_def by blast
    qed
    then have "last_bit (push_bit w (fst s)) (n + w)"
      using n w assms(2) by (auto simp: last_bit_def bit_push_bit_iff)
    then show ?thesis using True n w assms(2)
      by (auto simp: high_def fls_step_def case_prod_beta not_mask_zero intro!: exI [of _ "n + w"])
  next
    case False
    then obtain i where i: "32 - w \<le> i" "bit (fst s) i" by blast
    have "i \<le> n" using i(2) n(3) bit_imp_le_length [OF i(2)]
      by (auto simp: last_bit_def not_less [symmetric])
    then show ?thesis using i False n
      by (auto simp: high_def fls_step_def case_prod_beta not_mask_zero)
  qed
qed

lemma low_start: "first_bit x n \<Longrightarrow> low 32 (r + int n) (x, r)"
  using bit_imp_le_length [of x n] by (auto simp: low_def first_bit_def)

lemma high_start: "last_bit x n \<Longrightarrow> high 32 (r + int n) (x, r)"
  using bit_imp_le_length [of x n] by (auto simp: high_def last_bit_def)

lemma low_end: "low 1 t s \<Longrightarrow> snd s = t"
  by (auto simp: low_def)

lemma high_end: "high 1 t s \<Longrightarrow> snd s + 31 = t"
  by (auto simp: high_def)

section \<open>The searches are correct\<close>

lemma ffs_steps:
  assumes "shifts_right shr" "first_bit x n"
  shows "low 2 (r + int n) (ffs_step shr 3 2 (ffs_step shr 0xf 4 (ffs_step shr 0xff 8
    (ffs_step shr 0xffff 16 (x, r)))))"
  unfolding low_step_masks
  using ffs_step_low [OF assms(1), of 16] ffs_step_low [OF assms(1), of 8]
    ffs_step_low [OF assms(1), of 4] ffs_step_low [OF assms(1), of 2] low_start [OF assms(2)] by simp

lemma fls_steps:
  assumes "last_bit x n"
  shows "high 2 (r + int n) (fls_step 0xc0000000 2 (fls_step 0xf0000000 4 (fls_step 0xff000000 8
    (fls_step 0xffff0000 16 (x, r)))))"
  unfolding high_step_masks
  using fls_step_high [of 16] fls_step_high [of 8]
    fls_step_high [of 4] fls_step_high [of 2] high_start [OF assms] by simp

lemma ffs_last_step: "low 2 t s \<Longrightarrow> shifts_right shr \<Longrightarrow> snd (ffs_step shr 1 1 s) = t"
  unfolding low_step_masks using ffs_step_low [of shr 1 t s] low_end by (simp add: numeral_2_eq_2)

lemma fls_last_step: "high 2 t s \<Longrightarrow> snd (fls_step 0x80000000 1 s) + 31 = t"
  unfolding high_step_masks using fls_step_high [of 1 t s] high_end by (simp add: numeral_2_eq_2)

text \<open>The last step of \<open>__ffs\<close> and \<open>__fls\<close> only counts.\<close>

lemma ffs_count: "(if fst s AND 1 = 0 then snd s + 1 else snd s) = snd (ffs_step shr 1 1 s)"
  by (simp add: ffs_step_def case_prod_beta)

lemma fls_count: "(if fst s AND 0x80000000 = 0 then snd s - 1 else snd s) = snd (fls_step 0x80000000 1 s)"
  by (simp add: fls_step_def case_prod_beta)

lemma fls_word_steps:
  "fls_word word =
     (let s1 = fls_step 0xffff0000 16 (word, 31); s2 = fls_step 0xff000000 8 s1;
          s3 = fls_step 0xf0000000 4 s2; s4 = fls_step 0xc0000000 2 s3
      in if fst s4 AND 0x80000000 = 0 then snd s4 - 1 else snd s4)"
  by (simp add: fls_word_def BITS_PER_LONG_def high_step_masks)

lemma generic_ffs_first:
  assumes "first_bit x n"
  shows "generic_ffs x = int n + 1"
  using ffs_last_step [OF ffs_steps [OF shifts_right(2) assms, of 1] shifts_right(2)] assms
  by (auto simp: generic_ffs_def Let_def first_bit_def)

lemma ffs_word_first:
  assumes "first_bit x n"
  shows "ffs_word x = int n"
  using ffs_last_step [OF ffs_steps [OF shifts_right(1) assms, of 0] shifts_right(1)]
  by (simp only: ffs_word_def Let_def ffs_count [where shr = drop_bit] add_0)

lemma generic_fls_last:
  assumes "last_bit x n"
  shows "generic_fls x = int n + 1" "fls_int x = int n + 1"
  using fls_last_step [OF fls_steps [OF assms, of 32]] assms
  by (auto simp: generic_fls_def fls_int_def Let_def last_bit_def)

lemma fls_word_last:
  assumes "last_bit x n"
  shows "fls_word x = int n"
  using fls_last_step [OF fls_steps [OF assms, of 31]]
  unfolding fls_word_steps Let_def fls_count by linarith

text \<open>The 64-bit searches look at one half.\<close>

lemma word64_halves:
  fixes x :: u64
  shows "bit (ucast (drop_bit 32 x) :: u32) n \<longleftrightarrow> n < 32 \<and> bit x (n + 32)"
    and "bit (ucast x :: u32) n \<longleftrightarrow> n < 32 \<and> bit x n"
  by (auto simp: bit_unsigned_iff bit_drop_bit_eq add.commute)

lemma last_bit_halves:
  fixes x :: u64
  assumes "last_bit x n"
  shows "32 \<le> n \<Longrightarrow> last_bit (ucast (drop_bit 32 x) :: u32) (n - 32)"
    and "n < 32 \<Longrightarrow> (ucast (drop_bit 32 x) :: u32) = 0 \<and> last_bit (ucast x :: u32) n"
proof -
  have n: "bit x n" "\<And>i. n < i \<Longrightarrow> \<not> bit x i"
    using assms bit_imp_le_length [of x] by (auto simp: last_bit_def)
  have "n < 64" using bit_imp_le_length [OF n(1)] by simp
  then show "32 \<le> n \<Longrightarrow> last_bit (ucast (drop_bit 32 x) :: u32) (n - 32)"
    using n by (auto simp: last_bit_def word64_halves bit_drop_bit_eq)
  show "n < 32 \<Longrightarrow> (ucast (drop_bit 32 x) :: u32) = 0 \<and> last_bit (ucast x :: u32) n"
    using n by (auto simp: last_bit_def word64_halves bit_eq_iff bit_drop_bit_eq)
qed

lemma fls64_last:
  assumes "last_bit x n"
  shows "fls64 x = int n + 1"
proof (cases "n < 32")
  case True
  then show ?thesis using last_bit_halves(2) [OF assms] generic_fls_last(2)
    by (auto simp: fls64_def Let_def)
next
  case False
  then have l: "last_bit (ucast (drop_bit 32 x) :: u32) (n - 32)"
    using last_bit_halves(1) [OF assms] by simp
  moreover from l have "(ucast (drop_bit 32 x) :: u32) \<noteq> 0" by (auto simp: last_bit_def)
  ultimately show ?thesis using False generic_fls_last(2) [OF l] by (simp add: fls64_def)
qed

lemma ffs64_first:
  assumes "first_bit x n"
  shows "ffs64 x = int n"
proof -
  have n: "bit x n" "\<And>i. i < n \<Longrightarrow> \<not> bit x i" "n < 64"
    using assms bit_imp_le_length [of x n] by (auto simp: first_bit_def)
  show ?thesis
  proof (cases "n < 32")
    case True
    then have f: "first_bit (ucast x :: u32) n" using n by (auto simp: first_bit_def word64_halves bit_drop_bit_eq)
    moreover from f have "(ucast x :: u32) \<noteq> 0" by (auto simp: first_bit_def)
    ultimately show ?thesis using ffs_word_first [OF f] by (simp add: ffs64_def)
  next
    case False
    have f: "first_bit (ucast (drop_bit 32 x) :: u32) (n - 32)"
      using n False by (auto simp: first_bit_def word64_halves bit_drop_bit_eq)
    moreover have "(ucast x :: u32) = 0"
      using n False by (auto simp: bit_eq_iff word64_halves)
    ultimately show ?thesis using ffs_word_first [OF f] False by (simp add: ffs64_def)
  qed
qed

lemma searches_of_zero:
  "generic_ffs 0 = 0" "generic_fls 0 = 0" "fls_int 0 = 0" "fls64 0 = 0" "ffs_word 0 = 31" "fls_word 0 = 0"
  by (simp_all add: generic_ffs_def generic_fls_def fls_int_def fls64_def ffs_word_def fls_word_def
      ffs_step_def fls_step_def BITS_PER_LONG_def)

section \<open>The contract of a last-bit search\<close>

text \<open>What the logarithms of \<open>include/linux/log2.h\<close> rely on: 0 for 0 and otherwise one
  more than the position of the last set bit.\<close>

lemma last_bit_bounds:
  fixes x :: "'a::len word"
  assumes "last_bit x n"
  shows "2 ^ n \<le> unat x" "unat x < 2 ^ Suc n"
proof -
  have n: "bit x n" "\<And>i. n < i \<Longrightarrow> \<not> bit x i"
    using assms bit_imp_le_length [of x] by (auto simp: last_bit_def)
  have b: "bit (unat x) n" "\<And>i. n < i \<Longrightarrow> \<not> bit (unat x) i"
    using n by (auto simp: bit_unsigned_iff dest: bit_imp_le_length)
  have "unat x div 2 ^ n \<noteq> 0" using b(1) unfolding bit_iff_odd by (metis even_zero)
  then show "2 ^ n \<le> unat x" by (metis div_less not_less)
  have "take_bit (Suc n) (unat x) = unat x"
    by (rule bit_eqI) (metis b(2) bit_take_bit_iff not_less_eq)
  then show "unat x < 2 ^ Suc n" by (simp only: take_bit_nat_eq_self_iff)
qed

end
