(* ===== verification/Log2.thy ===== *)
theory Log2
  imports Bits
begin

text \<open>
  Integer logarithms and powers of two: \<open>include/linux/log2.h\<close> on the 32-bit target.
  The contract of \<open>fls\<close> is a locale, interpreted on every implementation the headers
  have; the logarithms are proved from it.  The macros choose a long conditional for
  compile-time constants (argument \<open>const\<close>) and the functions otherwise; a shift by 32
  or by -1 is undefined behaviour and a value of the model.
\<close>

section \<open>The contract of fls\<close>

locale find_last =
  fixes fls :: "'a::len word \<Rightarrow> int"
  assumes fls_0: "fls 0 = 0"
    and fls_last: "last_bit x n \<Longrightarrow> fls x = int n + 1"
begin

lemma fls_pos:
  assumes "x \<noteq> 0"
  obtains n where "fls x = int n + 1" "n < LENGTH('a)" "2 ^ n \<le> unat x" "unat x < 2 ^ Suc n"
proof -
  obtain n where n: "last_bit x n" "n < LENGTH('a)" using last_bit_exists [OF assms] .
  from that [OF fls_last [OF n(1)] n(2) last_bit_bounds [OF n(1)]] show ?thesis .
qed

lemma fls_range: "0 \<le> fls x \<and> fls x \<le> int LENGTH('a)"
proof (cases "x = 0")
  case False
  obtain n where "fls x = int n + 1" "n < LENGTH('a)" using fls_pos [OF False] by blast
  then show ?thesis by simp
qed (simp add: fls_0)

lemma fls_unique:
  assumes "2 ^ k \<le> unat x" "unat x < 2 ^ Suc k"
  shows "fls x = int k + 1"
proof -
  have "x \<noteq> 0" using assms(1) by (metis le_zero_eq power_not_zero unsigned_0 zero_neq_numeral)
  then obtain n where n: "fls x = int n + 1" "2 ^ n \<le> unat x" "unat x < 2 ^ Suc n" by (rule fls_pos)
  have "2 ^ n < (2 :: nat) ^ Suc k" "2 ^ k < (2 :: nat) ^ Suc n" using n assms by linarith+
  then have "n < Suc k" "k < Suc n" by (simp_all only: power_strict_increasing_iff one_less_numeral_iff semiring_norm)
  then show ?thesis using n(1) by simp
qed

lemma fls_less_pow: "unat x < 2 ^ nat (fls x)"
proof (cases "x = 0")
  case False
  then obtain n where "fls x = int n + 1" "unat x < 2 ^ Suc n" by (rule fls_pos)
  then show ?thesis by (simp add: nat_add_distrib)
qed simp

end

interpretation generic_fls: find_last generic_fls
  by unfold_locales (simp_all add: searches_of_zero generic_fls_last)

interpretation fls_int: find_last fls_int
  by unfold_locales (simp_all add: searches_of_zero generic_fls_last)

interpretation fls_long: find_last fls_long
  by unfold_locales (simp_all add: fls_long_def searches_of_zero generic_fls_last)

interpretation fls64: find_last fls64
  by unfold_locales (simp_all add: searches_of_zero fls64_last)

section \<open>The logarithms\<close>

definition ilog2_u32 :: "u32 \<Rightarrow> int" where
  "ilog2_u32 n = fls_int n - 1"

definition ilog2_u64 :: "u64 \<Rightarrow> int" where
  "ilog2_u64 n = fls64 n - 1"

definition arm_ilog2 :: "u32 \<Rightarrow> int" where
  "arm_ilog2 x = generic_fls x - 1"

definition is_power_of_2 :: "u32 \<Rightarrow> bool" where
  "is_power_of_2 n \<longleftrightarrow> n \<noteq> 0 \<and> n AND (n - 1) = 0"

text \<open>\<open>1UL << k\<close> is defined for \<open>k\<close> from 0 to 31.\<close>

definition shl_one :: "int \<Rightarrow> ub + u32" where
  "shl_one k = (if 0 \<le> k \<and> k < 32 then Inr (push_bit (nat k) 1) else Inl BadShift)"

definition roundup_pow_of_two_fn :: "u32 \<Rightarrow> ub + u32" where
  "roundup_pow_of_two_fn n = shl_one (fls_long (n - 1))"

definition rounddown_pow_of_two_fn :: "u32 \<Rightarrow> ub + u32" where
  "rounddown_pow_of_two_fn n = shl_one (fls_long n - 1)"

text \<open>The conditional for constants tests the bits from 63 down to 2.\<close>

fun ilog2_tests :: "nat list \<Rightarrow> u64 \<Rightarrow> int" where
  "ilog2_tests [] n = 1"
| "ilog2_tests (k # ks) n = (if n AND push_bit k 1 \<noteq> 0 then int k else ilog2_tests ks n)"

definition ilog2_const :: "u64 \<Rightarrow> int" where
  "ilog2_const n = (if n < 2 then 0 else ilog2_tests (rev [2..<64]) n)"

definition ilog2 :: "bool \<Rightarrow> u32 \<Rightarrow> int" where
  "ilog2 const n = (if const then ilog2_const (ucast n) else ilog2_u32 n)"

definition roundup_pow_of_two :: "bool \<Rightarrow> u32 \<Rightarrow> ub + u32" where
  "roundup_pow_of_two const n =
     (if const then (if n = 1 then Inr 1 else shl_one (ilog2 const (n - 1) + 1))
      else roundup_pow_of_two_fn n)"

definition rounddown_pow_of_two :: "bool \<Rightarrow> u32 \<Rightarrow> ub + u32" where
  "rounddown_pow_of_two const n =
     (if const then shl_one (ilog2 const n) else rounddown_pow_of_two_fn n)"

definition order_base_2_fn :: "u32 \<Rightarrow> int" where
  "order_base_2_fn n = (if n > 1 then ilog2 False (n - 1) + 1 else 0)"

definition order_base_2 :: "bool \<Rightarrow> u32 \<Rightarrow> int" where
  "order_base_2 const n =
     (if const then (if n = 0 \<or> n = 1 then 0 else ilog2 const (n - 1) + 1)
      else order_base_2_fn n)"

section \<open>Correctness\<close>

lemma and_single_bit: "(n :: 'a::len word) AND push_bit k 1 \<noteq> 0 \<longleftrightarrow> bit n k"
  unfolding and_zero_iff by (auto simp: bit_exp_iff dest: bit_imp_le_length)

lemma ilog2_tests_last:
  "(\<And>i. i \<in> {k..<64} \<Longrightarrow> \<not> bit n i) \<Longrightarrow> last_bit n m \<Longrightarrow> 2 \<le> m \<Longrightarrow>
   ilog2_tests (rev [2..<k]) n = int m"
proof (induction k)
  case 0
  have "m < 64" using 0(2) bit_imp_le_length [of n m] by (simp add: last_bit_def)
  then show ?case using 0(1) [of m] 0(2) by (simp add: last_bit_def)
next
  case (Suc k)
  have m: "m < 64" "bit n m" "\<And>i. m < i \<Longrightarrow> \<not> bit n i"
    using Suc.prems(2) bit_imp_le_length [of n] by (auto simp: last_bit_def)
  show ?case
  proof (cases "2 \<le> k")
    case True
    show ?thesis
    proof (cases "bit n k")
      case T: True
      have "m = k" using T Suc.prems(1) [of m] m by (metis Suc_leI atLeastLessThan_iff linorder_neqE_nat)
      then show ?thesis using T True and_single_bit [of n k] by simp
    next
      case F: False
      have "\<not> bit n i" if "i \<in> {k..<64}" for i using that F Suc.prems(1) [of i] by (cases "i = k") auto
      then show ?thesis using Suc F True and_single_bit [of n k] by simp
    qed
  next
    case False
    then have "\<not> bit n m" using Suc.prems(1) [of m] m(1) Suc.prems(3) by auto
    then show ?thesis using m by simp
  qed
qed

lemma unat_small: "k < 32 \<Longrightarrow> unat (push_bit k 1 :: u32) = 2 ^ k"
  using unat_push_bit [of k "1 :: u32"] power_strict_increasing [of k 32 "2 :: nat"] by simp

lemma bit_top:
  fixes x :: "'a::len word"
  assumes "2 ^ k \<le> unat x" "unat x < 2 ^ Suc k"
  shows "bit x k"
proof -
  have "unat x div 2 ^ k = 1" using assms by (simp add: div_nat_eqI)
  then have "bit (unat x) k" unfolding bit_iff_odd by simp
  then show ?thesis by (simp add: bit_unsigned_iff)
qed

lemma last_bit_of_bounds:
  fixes x :: "'a::len word"
  assumes "2 ^ k \<le> unat x" "unat x < 2 ^ Suc k"
  shows "last_bit x k"
proof -
  have "\<not> bit x i" if "k < i" for i
  proof -
    have "unat x < 2 ^ i" using assms(2) that
      by (meson Suc_leI less_le_trans one_le_numeral power_increasing)
    then have "\<not> bit (unat x) i" unfolding bit_iff_odd by simp
    then show ?thesis using bit_imp_le_length [of x i] by (auto simp: bit_unsigned_iff)
  qed
  then show ?thesis using bit_top [OF assms] by (simp add: last_bit_def)
qed

lemma ilog2_unique:
  assumes "2 ^ k \<le> unat n" "unat n < 2 ^ Suc k"
  shows "ilog2 const n = int k"
proof (cases const)
  case True
  have u: "unat (ucast n :: u64) = unat n"
    using unat_less_pow [of n] by (simp add: unsigned_ucast_eq take_bit_nat_eq_self_iff)
  have l: "last_bit (ucast n :: u64) k" using last_bit_of_bounds [of k "ucast n :: u64"] assms u by simp
  have c: "(ucast n :: u64) < 2 \<longleftrightarrow> unat n < 2" by (simp add: word_less_nat_alt u)
  show ?thesis
  proof (cases "k < 2")
    case True
    then consider "k = 0" | "k = 1" by linarith
    then show ?thesis
    proof cases
      case 1
      then show ?thesis using assms c \<open>const\<close> by (simp add: ilog2_def ilog2_const_def)
    next
      case 2
      have "\<not> bit (ucast n :: u64) i" if "i \<in> set (rev [2..<64])" for i
        using l that 2 by (auto simp: last_bit_def)
      then have "ilog2_tests ks (ucast n) = 1" if "set ks \<subseteq> set (rev [2..<64])" for ks
        using that and_single_bit [of "ucast n :: u64"] by (induction ks) auto
      from this [OF subset_refl] show ?thesis
        unfolding ilog2_def ilog2_const_def using 2 assms c \<open>const\<close> by simp
    qed
  next
    case False
    then have "4 \<le> unat n" using assms(1) power_increasing [of 2 k "2 :: nat"] by simp
    then show ?thesis using ilog2_tests_last [OF _ l, of 64] False c \<open>const\<close>
      by (simp add: ilog2_def ilog2_const_def del: upt_Suc)
  qed
next
  case False
  then show ?thesis using fls_int.fls_unique [OF assms] by (simp add: ilog2_def ilog2_u32_def)
qed

lemma fls_long_ilog2: "n \<noteq> 0 \<Longrightarrow> fls_long n = ilog2 const n + 1"
  using fls_long.fls_pos [of n] ilog2_unique [of _ n const] by metis

lemma ilog2_bounds:
  assumes "n \<noteq> 0"
  obtains k where "ilog2 const n = int k" "2 ^ k \<le> unat n" "unat n < 2 ^ Suc k" "k < 32"
proof -
  obtain k where "k < LENGTH(32)" "2 ^ k \<le> unat n" "unat n < 2 ^ Suc k"
    using fls_long.fls_pos [OF assms] by metis
  then show ?thesis using that ilog2_unique by simp
qed

text \<open>Functions and constant conditionals agree wherever the functions are defined.\<close>

lemma roundup_const: "roundup_pow_of_two const n = roundup_pow_of_two_fn n"
proof -
  have "n \<noteq> 1 \<Longrightarrow> n - 1 \<noteq> 0" by simp
  moreover have "n = 1 \<Longrightarrow> roundup_pow_of_two_fn n = Inr 1"
    by (simp add: roundup_pow_of_two_fn_def fls_long.fls_0 shl_one_def)
  ultimately show ?thesis
    using fls_long_ilog2 [of "n - 1" const] by (auto simp: roundup_pow_of_two_def roundup_pow_of_two_fn_def)
qed

lemma rounddown_const: "n \<noteq> 0 \<Longrightarrow> rounddown_pow_of_two const n = rounddown_pow_of_two_fn n"
  using fls_long_ilog2 [of n const] by (auto simp: rounddown_pow_of_two_def rounddown_pow_of_two_fn_def)

lemma order_base_2_const: "order_base_2 const n = order_base_2_fn n"
proof -
  have g: "1 < n \<longleftrightarrow> n \<noteq> 0 \<and> n \<noteq> 1" by (simp add: word_less_nat_alt) unat_arith
  then have "1 < n \<Longrightarrow> n - 1 \<noteq> 0" by auto
  then have "1 < n \<Longrightarrow> ilog2 const (n - 1) = ilog2 False (n - 1)"
    using fls_long_ilog2 [of "n - 1" const] fls_long_ilog2 [of "n - 1" False] by simp
  then show ?thesis using g by (auto simp: order_base_2_def order_base_2_fn_def)
qed

section \<open>Powers of two\<close>

lemma is_power_of_2_iff: "is_power_of_2 n \<longleftrightarrow> (\<exists>k<32. unat n = 2 ^ k)"
proof
  assume p: "is_power_of_2 n"
  then obtain k where k: "2 ^ k \<le> unat n" "unat n < 2 ^ Suc k" "k < 32"
    using ilog2_bounds [of n False] by (auto simp: is_power_of_2_def)
  have "unat n = 2 ^ k"
  proof (rule ccontr)
    assume "unat n \<noteq> 2 ^ k"
    then have "2 ^ k \<le> unat (n - 1)" "unat (n - 1) < 2 ^ Suc k"
      using k p by (auto simp: unat_sub_exact is_power_of_2_def word_le_nat_alt unat_gt_0)
    then have "bit (n AND (n - 1)) k" using k by (simp add: bit_and_iff bit_top)
    then show False using p by (simp add: is_power_of_2_def)
  qed
  then show "\<exists>k<32. unat n = 2 ^ k" using k(3) by blast
next
  assume "\<exists>k<32. unat n = 2 ^ k"
  then obtain k where k: "k < 32" "unat n = 2 ^ k" by blast
  then have n: "n = push_bit k 1" using unat_small [of k] by (metis word_unat_eq_iff)
  then have "n - 1 = mask k" by (simp add: mask_eq_exp_minus_1)
  then have "n AND (n - 1) = 0" using n by (simp add: and_zero_iff bit_mask_iff bit_exp_iff)
  moreover have "n \<noteq> 0" using k(2) by auto
  ultimately show "is_power_of_2 n" by (simp add: is_power_of_2_def)
qed

lemma shl_one_power: "k < 32 \<Longrightarrow> \<exists>r. shl_one (int k) = Inr r \<and> unat r = 2 ^ k \<and> is_power_of_2 r"
  using unat_small [of k] by (auto simp: shl_one_def is_power_of_2_iff)

section \<open>Properties\<close>

text \<open>the searches for the first or last set bit return its position (one more for the
  \<open>ffs\<close> and \<open>fls\<close> families, which give 0 for 0), for 32- and 64-bit words.\<close>

theorem bit_searches_spec:
  "(\<forall>n. first_bit (x :: u32) n \<longrightarrow> generic_ffs x = int n + 1 \<and> ffs_word x = int n) \<and>
   (\<forall>n. last_bit x n \<longrightarrow> generic_fls x = int n + 1 \<and> fls_int x = int n + 1 \<and> fls_word x = int n) \<and>
   (\<forall>n. first_bit (y :: u64) n \<longrightarrow> ffs64 y = int n) \<and> (\<forall>n. last_bit y n \<longrightarrow> fls64 y = int n + 1) \<and>
   generic_ffs 0 = 0 \<and> generic_fls 0 = 0 \<and> fls_int 0 = 0 \<and> fls64 0 = 0"
  by (simp add: generic_ffs_first ffs_word_first generic_fls_last fls_word_last ffs64_first fls64_last
      searches_of_zero)

theorem bit_searches_spec_witness: "generic_ffs 0x50 = 5 \<and> fls_word 0x50 = 6 \<and> fls64 0x100000000 = 33"
proof -
  have "first_bit (0x50 :: u32) 4" "last_bit (0x50 :: u32) 6" "last_bit (0x100000000 :: u64) 32"
    by (auto simp: first_bit_def last_bit_def less_Suc_eq numeral_eq_Suc)
  then show ?thesis using bit_searches_spec [of "0x50" "0x100000000"] by simp
qed

text \<open>for every non-zero word and either form of the macros, \<open>ilog2\<close> is the
  logarithm rounded down and \<open>order_base_2\<close> the logarithm rounded up.\<close>

theorem ilog2_spec:
  assumes "n \<noteq> 0"
  shows "\<exists>k j. ilog2 const n = int k \<and> 2 ^ k \<le> unat n \<and> unat n < 2 ^ Suc k \<and>
    order_base_2 const n = int j \<and> unat n \<le> 2 ^ j \<and> (n = 1 \<and> j = 0 \<or> 2 ^ j < 2 * unat n)"
proof -
  obtain k where k: "ilog2 const n = int k" "2 ^ k \<le> unat n" "unat n < 2 ^ Suc k"
    using ilog2_bounds [OF assms] by metis
  show ?thesis
  proof (cases "1 < n")
    case False
    then have "n = 1" using assms by (simp add: word_less_nat_alt) unat_arith
    then show ?thesis using k by (auto simp: order_base_2_const order_base_2_fn_def)
  next
    case True
    then have u: "1 < unat n" by (simp add: word_less_nat_alt)
    then have m: "unat (n - 1) = unat n - 1" "n - 1 \<noteq> 0" by (auto simp: unat_sub_exact word_le_nat_alt)
    obtain i where i: "ilog2 False (n - 1) = int i" "2 ^ i \<le> unat (n - 1)" "unat (n - 1) < 2 ^ Suc i"
      using ilog2_bounds [OF m(2)] by metis
    then have "order_base_2 const n = int (Suc i)" using True
      by (simp add: order_base_2_const order_base_2_fn_def)
    moreover have "unat n \<le> 2 ^ Suc i" using i(3) m(1) u by linarith
    moreover have "2 ^ i < unat n" using i(2) m(1) u by linarith
    then have "2 ^ Suc i < 2 * unat n" by simp
    ultimately show ?thesis using k by blast
  qed
qed

theorem ilog2_spec_witness: "\<exists>k j. ilog2 True 100 = int k \<and> 2 ^ k \<le> (100 :: nat) \<and> order_base_2 True 100 = int j"
  using ilog2_spec [of 100 True] by auto

text \<open>The word is a power of two exactly when \<open>is_power_of_2\<close> says so; rounding up gives
  the next power of two, and has undefined behaviour for 0 and above \<open>2^31\<close>; rounding down
  gives the previous one, and is undefined for 0 unless the argument is a constant.\<close>

theorem pow_of_two_spec:
  "(is_power_of_2 n \<longleftrightarrow> (\<exists>k<32. unat n = 2 ^ k)) \<and>
   (if n = 0 \<or> 2 ^ 31 < unat n then roundup_pow_of_two const n = Inl BadShift
    else \<exists>r. roundup_pow_of_two const n = Inr r \<and> is_power_of_2 r \<and> unat n \<le> unat r \<and> unat r < 2 * unat n) \<and>
   (if n = 0 then rounddown_pow_of_two const n = (if const then Inr 1 else Inl BadShift)
    else \<exists>r. rounddown_pow_of_two const n = Inr r \<and> is_power_of_2 r \<and> unat r \<le> unat n \<and> unat n < 2 * unat r)"
proof (intro conjI)
  show "is_power_of_2 n \<longleftrightarrow> (\<exists>k<32. unat n = 2 ^ k)" by (rule is_power_of_2_iff)
  show "if n = 0 \<or> 2 ^ 31 < unat n then roundup_pow_of_two const n = Inl BadShift
    else \<exists>r. roundup_pow_of_two const n = Inr r \<and> is_power_of_2 r \<and> unat n \<le> unat r \<and> unat r < 2 * unat n"
  proof (cases "n = 0 \<or> n = 1")
    case True
    have "n = 0 \<Longrightarrow> fls_long (n - 1) = 32" using fls_long.fls_unique [of 31 "n - 1"]
      by (simp add: unsigned_minus_1_eq_mask mask_eq_exp_minus_1)
    then show ?thesis using True
      by (auto simp: roundup_const roundup_pow_of_two_fn_def shl_one_def fls_long.fls_0 is_power_of_2_def)
  next
    case False
    then have m: "n - 1 \<noteq> 0" "unat (n - 1) = unat n - 1" "1 < unat n"
      by (auto simp: unat_sub_exact word_le_nat_alt) unat_arith+
    obtain i where i: "fls_long (n - 1) = int i + 1" "2 ^ i \<le> unat (n - 1)" "unat (n - 1) < 2 ^ Suc i" "i < 32"
      using fls_long.fls_pos [OF m(1)] by auto
    show ?thesis
    proof (cases "i = 31")
      case True
      then show ?thesis using i m by (auto simp: roundup_const roundup_pow_of_two_fn_def shl_one_def)
    next
      case F: False
      then obtain r where "shl_one (int i + 1) = Inr r" "unat r = 2 ^ Suc i" "is_power_of_2 r"
        using shl_one_power [of "Suc i"] i(4) by (auto simp: add.commute)
      moreover have "(2 :: nat) ^ Suc i \<le> 2 ^ 31" using F i(4) by (intro power_increasing) auto
      ultimately show ?thesis using i m False
        by (auto simp: roundup_const roundup_pow_of_two_fn_def)
    qed
  qed
  show "if n = 0 then rounddown_pow_of_two const n = (if const then Inr 1 else Inl BadShift)
    else \<exists>r. rounddown_pow_of_two const n = Inr r \<and> is_power_of_2 r \<and> unat r \<le> unat n \<and> unat n < 2 * unat r"
  proof (cases "n = 0")
    case True
    then show ?thesis
      by (simp add: rounddown_pow_of_two_def rounddown_pow_of_two_fn_def fls_long.fls_0 shl_one_def
          ilog2_def ilog2_const_def)
  next
    case False
    then obtain k where k: "ilog2 const n = int k" "2 ^ k \<le> unat n" "unat n < 2 ^ Suc k" "k < 32"
      using ilog2_bounds by metis
    then have "rounddown_pow_of_two const n = shl_one (int k)"
      using rounddown_const [OF False] fls_long_ilog2 [OF False, of const]
      by (simp add: rounddown_pow_of_two_fn_def)
    then show ?thesis using shl_one_power [OF k(4)] k False by auto
  qed
qed

end
