(* ===== verification/Bitmap.thy ===== *)
theory Bitmap
  imports Bits
begin

text \<open>
  Bits of arrays of \<open>unsigned long\<close>: the non-atomic operations of
  \<open>include/linux/bitops.h\<close> and \<open>arch/arm/include/asm/bitops.h\<close>.  An array is a
  function from word index to word; bit numbers and sizes are non-negative C integers below
  \<open>2^31\<close>, so that their arithmetic is that of the natural numbers.
\<close>

type_synonym bitmap = "nat \<Rightarrow> u32"

definition bitmap_bit :: "bitmap \<Rightarrow> nat \<Rightarrow> bool" where
  "bitmap_bit p i \<longleftrightarrow> bit (p (i div 32)) (i mod 32)"

section \<open>The operations\<close>

definition generic_set_bit :: "nat \<Rightarrow> bitmap \<Rightarrow> bitmap" where
  "generic_set_bit nr addr =
     (let mask = BIT_MASK nr; p = BIT_WORD nr in addr(p := addr p OR mask))"

definition generic_clear_bit :: "nat \<Rightarrow> bitmap \<Rightarrow> bitmap" where
  "generic_clear_bit nr addr =
     (let mask = BIT_MASK nr; p = BIT_WORD nr in addr(p := addr p AND NOT mask))"

definition arm_change_bit :: "nat \<Rightarrow> bitmap \<Rightarrow> bitmap" where
  "arm_change_bit nr addr =
     (let mask = BIT_MASK nr; p = BIT_WORD nr in addr(p := addr p XOR mask))"

definition arm_test_and_set_bit :: "nat \<Rightarrow> bitmap \<Rightarrow> int \<times> bitmap" where
  "arm_test_and_set_bit nr addr =
     (let mask = BIT_MASK nr; p = BIT_WORD nr; old = addr p
      in (c_bool (old AND mask \<noteq> 0), addr(p := old OR mask)))"

definition arm_test_and_clear_bit :: "nat \<Rightarrow> bitmap \<Rightarrow> int \<times> bitmap" where
  "arm_test_and_clear_bit nr addr =
     (let mask = BIT_MASK nr; p = BIT_WORD nr; old = addr p
      in (c_bool (old AND mask \<noteq> 0), addr(p := old AND NOT mask)))"

definition arm_test_and_change_bit :: "nat \<Rightarrow> bitmap \<Rightarrow> int \<times> bitmap" where
  "arm_test_and_change_bit nr addr =
     (let mask = BIT_MASK nr; p = BIT_WORD nr; old = addr p
      in (c_bool (old AND mask \<noteq> 0), addr(p := old XOR mask)))"

text \<open>\<open>test_bit\<close> reads the array as bytes: byte \<open>k\<close> of the array is byte \<open>k mod 4\<close> of
  the object representation of word \<open>k div 4\<close>.\<close>

definition char_at :: "byte_order \<Rightarrow> bitmap \<Rightarrow> nat \<Rightarrow> u8" where
  "char_at ord addr k = object_bytes ord 4 (addr (k div 4)) ! (k mod 4)"

definition arm_test_bit :: "byte_order \<Rightarrow> nat \<Rightarrow> bitmap \<Rightarrow> int" where
  "arm_test_bit ord nr addr =
     uint ((ucast (char_at ord addr (nr div 8)) :: u32) AND push_bit (nr mod 8) 1)"

text \<open>\<open>find_next_zero_bit\<close>: its labels as functions, its loop as a recursion.\<close>

definition found_middle :: "nat \<Rightarrow> u32 \<Rightarrow> nat" where
  "found_middle result tmp = result + nat (ffz tmp)"

definition found_first :: "nat \<Rightarrow> nat \<Rightarrow> u32 \<Rightarrow> nat" where
  "found_first result sz tmp =
     (let tmp = tmp OR push_bit sz (NOT 0) in found_middle result tmp)"

function scan_words :: "bitmap \<Rightarrow> nat \<Rightarrow> nat \<Rightarrow> nat \<Rightarrow> nat" where
  "scan_words addr p result sz =
     (if BITS_PER_LONG \<le> sz
      then let tmp = addr p; p = p + 1
           in if NOT tmp \<noteq> 0 then found_middle result tmp
              else scan_words addr p (result + BITS_PER_LONG) (sz - BITS_PER_LONG)
      else if sz = 0 then result
      else let tmp = addr p in found_first result sz tmp)"
  by pat_completeness auto
termination
  by (relation "measure (\<lambda>(addr, p, result, sz). sz)") (auto simp: BITS_PER_LONG_def)

declare scan_words.simps [simp del]

definition find_next_zero_bit :: "bitmap \<Rightarrow> nat \<Rightarrow> nat \<Rightarrow> nat" where
  "find_next_zero_bit addr sz offset =
     (let p = offset div BITS_PER_LONG;
          result = offset - offset mod BITS_PER_LONG
      in if sz \<le> offset then sz
         else let sz = sz - result; offset = offset mod BITS_PER_LONG
              in if offset \<noteq> 0
                 then let tmp = addr p OR drop_bit (BITS_PER_LONG - offset) (NOT 0); p = p + 1
                      in if sz < BITS_PER_LONG then found_first result sz tmp
                         else if NOT tmp \<noteq> 0 then found_middle result tmp
                         else scan_words addr p (result + BITS_PER_LONG) (sz - BITS_PER_LONG)
                 else scan_words addr p result sz)"

definition find_first_zero_bit :: "bitmap \<Rightarrow> nat \<Rightarrow> nat" where
  "find_first_zero_bit addr sz = find_next_zero_bit addr sz 0"

section \<open>Single bits\<close>

lemma mask_test: "(w :: u32) AND BIT_MASK nr \<noteq> 0 \<longleftrightarrow> bit w (nr mod 32)"
  unfolding and_zero_iff by (auto simp: word_bits)

lemma same_bit: "i div 32 = nr div 32 \<Longrightarrow> i mod 32 = nr mod 32 \<longleftrightarrow> i = (nr :: nat)"
  by (metis div_mod_decomp)

lemma set_clear_change:
  "bitmap_bit (generic_set_bit nr p) i \<longleftrightarrow> i = nr \<or> bitmap_bit p i"
  "bitmap_bit (generic_clear_bit nr p) i \<longleftrightarrow> i \<noteq> nr \<and> bitmap_bit p i"
  "bitmap_bit (arm_change_bit nr p) i \<longleftrightarrow> (i = nr) \<noteq> bitmap_bit p i"
  using same_bit [of i nr]
  by (auto simp: bitmap_bit_def generic_set_bit_def generic_clear_bit_def arm_change_bit_def
      BIT_WORD_def BITS_PER_LONG_def Let_def word_bits)

lemma test_and_modify:
  "arm_test_and_set_bit nr p = (c_bool (bitmap_bit p nr), generic_set_bit nr p)"
  "arm_test_and_clear_bit nr p = (c_bool (bitmap_bit p nr), generic_clear_bit nr p)"
  "arm_test_and_change_bit nr p = (c_bool (bitmap_bit p nr), arm_change_bit nr p)"
  using mask_test [of "p (nr div 32)" nr]
  by (simp_all add: arm_test_and_set_bit_def arm_test_and_clear_bit_def arm_test_and_change_bit_def
      generic_set_bit_def generic_clear_bit_def arm_change_bit_def BIT_WORD_def BITS_PER_LONG_def
      Let_def bitmap_bit_def)

lemma char_at_little: "char_at LittleEndian p k = byte (p (k div 4)) (k mod 4)"
  by (simp add: char_at_def)

lemma byte_test:
  "(ucast (b :: u8) :: u32) AND push_bit j 1 = (if j < 32 \<and> bit b j then push_bit j 1 else 0)"
  by (auto intro!: bit_word_eqI simp: word_bits bit_exp_iff)

lemma arm_test_bit_little:
  "arm_test_bit LittleEndian nr p = (if bitmap_bit p nr then 2 ^ (nr mod 8) else 0)"
proof -
  have e: "8 * (nr div 8 mod 4) + nr mod 8 = nr mod 32" "nr div 8 div 4 = nr div 32"
    using mod_mult2_eq [of nr 8 4] div_mult2_eq [of nr 8 4] by simp_all
  have l: "nr mod 8 < 8" by simp
  have "(2 :: nat) ^ (nr mod 8) < 2 ^ 32" using l by (intro power_strict_increasing) auto
  then have "unat (push_bit (nr mod 8) 1 :: u32) = 2 ^ (nr mod 8)"
    using unat_push_bit [of "nr mod 8" "1 :: u32"] by simp
  then have u: "uint (push_bit (nr mod 8) 1 :: u32) = 2 ^ (nr mod 8)"
    by (simp only: uint_nat of_nat_power of_nat_numeral)
  show ?thesis
    unfolding arm_test_bit_def char_at_little byte_test using e u l
    by (auto simp: bit_byte bitmap_bit_def)
qed

section \<open>The search for a zero bit\<close>

text \<open>\<open>next_zero p lo hi r\<close>: \<open>r\<close> is the first zero bit from \<open>lo\<close> on, or there is none below
  \<open>hi\<close> and \<open>r\<close> is at least \<open>hi\<close>.\<close>

definition next_zero :: "bitmap \<Rightarrow> nat \<Rightarrow> nat \<Rightarrow> nat \<Rightarrow> bool" where
  "next_zero p lo hi r \<longleftrightarrow>
     (if r < hi then lo \<le> r \<and> \<not> bitmap_bit p r \<and> (\<forall>i\<in>{lo..<r}. bitmap_bit p i)
      else \<forall>i\<in>{lo..<hi}. bitmap_bit p i)"

lemma next_zero_extend:
  assumes "\<forall>i\<in>{lo..<mid}. bitmap_bit p i" "next_zero p mid hi r" "lo \<le> mid"
  shows "next_zero p lo hi r"
proof -
  have "bitmap_bit p i" if "\<forall>i\<in>{mid..<b}. bitmap_bit p i" "lo \<le> i" "i < b" for i b
    using that assms(1) by (cases "i < mid") auto
  then show ?thesis using assms(2,3) by (auto simp: next_zero_def split: if_splits)
qed

text \<open>\<open>word_at p k d w\<close>: \<open>w\<close> is word \<open>k\<close> of the array with its first \<open>d\<close> bits set.\<close>

definition word_at :: "bitmap \<Rightarrow> nat \<Rightarrow> nat \<Rightarrow> u32 \<Rightarrow> bool" where
  "word_at p k d w \<longleftrightarrow> (\<forall>i<32. bit w i \<longleftrightarrow> i < d \<or> bitmap_bit p (32 * k + i))"

lemma word_at_0: "word_at p k 0 (p k)"
  by (simp add: word_at_def bitmap_bit_def)

lemma word_at_low: "0 < d \<Longrightarrow> d < 32 \<Longrightarrow> word_at p k d (p k OR drop_bit (32 - d) (NOT 0))"
  by (auto simp: word_at_def bitmap_bit_def bit_or_iff bit_mask_iff)

lemma found_middle_first:
  assumes "NOT tmp \<noteq> 0"
  obtains n where "found_middle result tmp = result + n" "n < 32" "\<not> bit tmp n" "\<forall>i<n. bit tmp i"
proof -
  obtain n where n: "first_bit (NOT tmp) n" "n < LENGTH(32)" using first_bit_exists [OF assms] .
  have "ffz tmp = int n" unfolding ffz_def by (rule ffs_word_first [OF n(1)])
  moreover have "\<forall>i<n. bit tmp i" using n by (auto simp: first_bit_def bit_not_iff)
  moreover have "\<not> bit tmp n" using n by (auto simp: first_bit_def bit_not_iff)
  ultimately show ?thesis using that [of n] n(2) by (simp add: found_middle_def)
qed

lemma not_zero_iff: "NOT (w :: u32) = 0 \<longleftrightarrow> (\<forall>i<32. bit w i)"
  by (auto simp: bit_eq_iff bit_not_iff)

lemma shift_range:
  fixes b :: nat
  assumes "\<And>j. d \<le> j \<Longrightarrow> j < n \<Longrightarrow> P (b + j)"
  shows "\<forall>i\<in>{b + d..<b + n}. P i"
proof
  fix i assume "i \<in> {b + d..<b + n}"
  then show "P i" using assms [of "i - b"] by auto
qed

lemma found_middle_next:
  assumes "word_at p k d tmp" "NOT tmp \<noteq> 0" "32 * k + 32 \<le> hi"
  shows "next_zero p (32 * k + d) hi (found_middle (32 * k) tmp)"
proof -
  obtain n where n: "found_middle (32 * k) tmp = 32 * k + n" "n < 32" "\<not> bit tmp n" "\<forall>i<n. bit tmp i"
    using found_middle_first [OF assms(2)] by metis
  have "\<forall>i\<in>{32 * k + d..<32 * k + n}. bitmap_bit p i"
  proof (rule shift_range)
    fix j assume j: "d \<le> j" "j < n"
    then have "bit tmp j" "j < 32" using n(2,4) by auto
    then show "bitmap_bit p (32 * k + j)" using assms(1) j(1) by (auto simp: word_at_def)
  qed
  moreover have "d \<le> n" "\<not> bitmap_bit p (32 * k + n)" using assms(1) n(2,3) by (auto simp: word_at_def)
  ultimately show ?thesis using n(1,2) assms(3) by (simp add: next_zero_def)
qed

lemma found_first_next:
  assumes "word_at p k d tmp" "0 < sz" "sz < 32"
  shows "next_zero p (32 * k + d) (32 * k + sz) (found_first (32 * k) sz tmp)"
proof -
  let ?t = "tmp OR push_bit sz (NOT 0)"
  have t: "bit ?t i \<longleftrightarrow> bit tmp i \<or> sz \<le> i \<and> i < 32" for i
    by (auto simp: bit_or_iff bit_not_iff bit_mask_iff)
  have tmp: "bit tmp i \<longleftrightarrow> i < d \<or> bitmap_bit p (32 * k + i)" if "i < 32" for i
    using assms(1) that by (simp add: word_at_def)
  show ?thesis
  proof (cases "NOT ?t = 0")
    case True
    have "ffz ?t = 31" unfolding ffz_def True by (rule searches_of_zero(5))
    then have r: "found_first (32 * k) sz tmp = 32 * k + 31"
      by (simp add: found_first_def found_middle_def del: push_bit_minus_one_eq_not_mask)
    have "bitmap_bit p (32 * k + i)" if "d \<le> i" "i < sz" for i
      using True [unfolded not_zero_iff] t [of i] tmp [of i] that assms(3) by auto
    then have "\<forall>i\<in>{32 * k + d..<32 * k + sz}. bitmap_bit p i"
      by (rule shift_range)
    then show ?thesis using r assms(3) by (simp add: next_zero_def)
  next
    case False
    obtain n where n: "found_middle (32 * k) ?t = 32 * k + n" "n < 32" "\<not> bit ?t n" "\<forall>i<n. bit ?t i"
      using found_middle_first [OF False] by metis
    have "n < sz" "d \<le> n" "\<not> bitmap_bit p (32 * k + n)" using n(2,3) t [of n] tmp [of n] by auto
    moreover have "bitmap_bit p (32 * k + i)" if "d \<le> i" "i < n" for i
      using n(4) that t [of i] tmp [of i] calculation assms(3) by auto
    then have "\<forall>i\<in>{32 * k + d..<32 * k + n}. bitmap_bit p i"
      by (rule shift_range)
    ultimately show ?thesis using n(1) by (simp add: next_zero_def found_first_def Let_def)
  qed
qed

lemma word_full:
  assumes "word_at p k d tmp" "NOT tmp = 0"
  shows "\<forall>i\<in>{32 * k + d..<32 * k + 32}. bitmap_bit p i"
  by (rule shift_range) (use assms in \<open>auto simp: word_at_def not_zero_iff\<close>)

lemma scan_words_next: "next_zero p (32 * k) (32 * k + sz) (scan_words p k (32 * k) sz)"
proof (induction sz arbitrary: k rule: less_induct)
  case (less sz)
  consider (zero) "sz = 0" | (part) "0 < sz" "sz < 32" | (word) "32 \<le> sz" by linarith
  then show ?case
  proof cases
    case zero
    then show ?thesis by (subst scan_words.simps) (simp add: BITS_PER_LONG_def next_zero_def)
  next
    case part
    then show ?thesis using found_first_next [OF word_at_0 [of p k] part]
      by (subst scan_words.simps) (simp add: BITS_PER_LONG_def Let_def)
  next
    case word
    show ?thesis
    proof (cases "NOT (p k) = 0")
      case False
      then show ?thesis using word found_middle_next [OF word_at_0 [of p k] False, of "32 * k + sz"]
        by (subst scan_words.simps) (simp add: BITS_PER_LONG_def Let_def)
    next
      case True
      have "next_zero p (32 * Suc k) (32 * Suc k + (sz - 32)) (scan_words p (Suc k) (32 * Suc k) (sz - 32))"
        using word by (intro less.IH) simp
      then have "next_zero p (32 * k + 32) (32 * k + sz) (scan_words p (Suc k) (32 * k + 32) (sz - 32))"
        using word by (simp add: add.commute)
      from next_zero_extend [OF _ this, of "32 * k"]
      have "next_zero p (32 * k) (32 * k + sz) (scan_words p (Suc k) (32 * k + 32) (sz - 32))"
        using word_full [OF word_at_0 [of p k] True] by simp
      then show ?thesis using word True
        by (subst scan_words.simps) (simp add: BITS_PER_LONG_def Let_def)
    qed
  qed
qed

lemma find_next_zero_bit_next:
  assumes "offset < sz"
  shows "next_zero p offset sz (find_next_zero_bit p sz offset)"
proof -
  define k d m where "k = offset div 32" and "d = offset mod 32" and "m = sz - 32 * k"
  have o: "offset = 32 * k + d" "d < 32" by (simp_all add: k_def d_def)
  have m: "sz = 32 * k + m" "d < m" using assms o(1) by (auto simp: m_def)
  have e: "offset div 32 = k" "offset mod 32 = d" "offset - d = 32 * k" "sz - 32 * k = m"
    using o by (simp_all add: m_def)
  show ?thesis
  proof (cases "d = 0")
    case True
    then show ?thesis using assms m scan_words_next [of p k m] o(1)
      by (simp add: find_next_zero_bit_def BITS_PER_LONG_def Let_def e)
  next
    case False
    define w where "w = (p k OR drop_bit (32 - d) (NOT 0))"
    have w: "word_at p k d w" unfolding w_def using False o(2) by (intro word_at_low) auto
    have f: "find_next_zero_bit p sz offset =
        (if m < 32 then found_first (32 * k) m w
         else if NOT w \<noteq> 0 then found_middle (32 * k) w
         else scan_words p (k + 1) (32 * k + 32) (m - 32))"
      using assms False unfolding find_next_zero_bit_def BITS_PER_LONG_def Let_def e w_def by simp
    consider "m < 32" | "32 \<le> m" "NOT w \<noteq> 0" | "32 \<le> m" "NOT w = 0" by linarith
    then show ?thesis
    proof cases
      case 1
      then show ?thesis using found_first_next [OF w, of m] m o(1) f by simp
    next
      case 2
      then show ?thesis using found_middle_next [OF w, of sz] m o(1) f by simp
    next
      case 3
      have "next_zero p (32 * k + 32) sz (scan_words p (k + 1) (32 * k + 32) (m - 32))"
        using scan_words_next [of p "Suc k" "m - 32"] 3 m(1) by (simp add: add.commute)
      from next_zero_extend [OF _ this, of offset]
      have "next_zero p offset sz (scan_words p (k + 1) (32 * k + 32) (m - 32))"
        using word_full [OF w] 3 o by simp
      then show ?thesis using f 3 by simp
    qed
  qed
qed

section \<open>Properties\<close>

text \<open>setting, clearing and changing a bit affects that bit alone, the testing variants
  return its old value, and \<open>test_bit\<close> on a little-endian host is non-zero exactly for the
  set bits.\<close>

theorem bitmap_ops_spec:
  "(\<forall>i. bitmap_bit (generic_set_bit nr p) i \<longleftrightarrow> i = nr \<or> bitmap_bit p i) \<and>
   (\<forall>i. bitmap_bit (generic_clear_bit nr p) i \<longleftrightarrow> i \<noteq> nr \<and> bitmap_bit p i) \<and>
   (\<forall>i. bitmap_bit (arm_change_bit nr p) i \<longleftrightarrow> (i = nr) \<noteq> bitmap_bit p i) \<and>
   arm_test_and_set_bit nr p = (c_bool (bitmap_bit p nr), generic_set_bit nr p) \<and>
   arm_test_and_clear_bit nr p = (c_bool (bitmap_bit p nr), generic_clear_bit nr p) \<and>
   arm_test_and_change_bit nr p = (c_bool (bitmap_bit p nr), arm_change_bit nr p) \<and>
   (arm_test_bit LittleEndian nr p \<noteq> 0 \<longleftrightarrow> bitmap_bit p nr)"
  by (simp add: set_clear_change test_and_modify arm_test_bit_little)

text \<open>\<open>find_next_zero_bit\<close> ends, and its result is below the size exactly when there is a
  zero bit from the offset on, of which it is the first.\<close>

theorem find_next_zero_bit_spec:
  assumes "offset < sz"
  shows "(find_next_zero_bit p sz offset < sz \<longleftrightarrow> (\<exists>i\<in>{offset..<sz}. \<not> bitmap_bit p i)) \<and>
    (find_next_zero_bit p sz offset < sz \<longrightarrow>
      offset \<le> find_next_zero_bit p sz offset \<and> \<not> bitmap_bit p (find_next_zero_bit p sz offset) \<and>
      (\<forall>i\<in>{offset..<find_next_zero_bit p sz offset}. bitmap_bit p i))"
  using find_next_zero_bit_next [OF assms, of p] by (auto simp: next_zero_def split: if_splits)

theorem find_next_zero_bit_spec_witness: "\<not> find_next_zero_bit (\<lambda>_. -1) 40 3 < 40"
  using find_next_zero_bit_spec [of 3 40 "\<lambda>_. -1"] by (simp add: bitmap_bit_def)

text \<open>When every bit of the last, partial word is set, the result is not the size but the
  number of the last bit of that word.\<close>

lemma find_next_zero_bit_overshoots: "find_next_zero_bit (\<lambda>_. -1) 40 0 = 63"
  by (simp add: find_next_zero_bit_def scan_words.simps BITS_PER_LONG_def found_first_def
      found_middle_def ffz_def searches_of_zero)

end
