(* ===== verification/Align.thy ===== *)
theory Align
  imports Bits
begin

text \<open>
  Rounding to powers of two: the macros \<open>ALIGN\<close>, \<open>round_up\<close> and their kin of
  \<open>include/linux/kernel.h\<close>, at \<open>unsigned int\<close>, with the facts that descriptors, rings
  and other layouts need.
\<close>

section \<open>Rounding to powers of two\<close>

definition ALIGN_MASK :: "u32 \<Rightarrow> u32 \<Rightarrow> u32" where
  "ALIGN_MASK x m = (x + m) AND NOT m"

definition ALIGN :: "u32 \<Rightarrow> u32 \<Rightarrow> u32" where
  "ALIGN x a = ALIGN_MASK x (a - 1)"

definition ALIGN_DOWN :: "u32 \<Rightarrow> u32 \<Rightarrow> u32" where
  "ALIGN_DOWN x a = ALIGN (x - (a - 1)) a"

definition PTR_ALIGN :: "u32 \<Rightarrow> u32 \<Rightarrow> u32" where
  "PTR_ALIGN p a = ALIGN p a"

definition IS_ALIGNED :: "u32 \<Rightarrow> u32 \<Rightarrow> bool" where
  "IS_ALIGNED x a \<longleftrightarrow> x AND (a - 1) = 0"

definition round_mask :: "u32 \<Rightarrow> u32 \<Rightarrow> u32" where
  "round_mask x y = y - 1"

definition round_up :: "u32 \<Rightarrow> u32 \<Rightarrow> u32" where
  "round_up x y = ((x - 1) OR round_mask x y) + 1"

definition round_down :: "u32 \<Rightarrow> u32 \<Rightarrow> u32" where
  "round_down x y = x AND NOT (round_mask x y)"

section \<open>Properties\<close>

lemma round_up_bounds:
  fixes x a :: nat
  assumes "0 < a"
  shows "x \<le> (x + a - 1) div a * a" "(x + a - 1) div a * a < x + a"
proof -
  define r where "r = (x + a - 1) mod a"
  have "(x + a - 1) div a * a + r = x + a - 1" "r < a"
    using assms by (simp_all add: r_def)
  then show "x \<le> (x + a - 1) div a * a" "(x + a - 1) div a * a < x + a" by linarith+
qed

text \<open>Rounding up a word to a power of two.\<close>

lemma unat_round_up:
  fixes x :: u32
  assumes "align = 2 ^ k" "k < 32" "unat x + 2 ^ k \<le> 2 ^ 32"
  shows "unat ((x + align - 1) AND NOT (align - 1)) = (unat x + 2 ^ k - 1) div 2 ^ k * 2 ^ k"
proof -
  have m: "align - 1 = mask k" by (simp add: assms(1) mask_eq_exp_minus_1)
  have "unat (mask k :: u32) = 2 ^ k - 1" using assms(2) by (simp add: unat_mask_le)
  moreover have "unat x + (2 ^ k - 1) < 2 ^ 32"
    using assms(3) zero_less_power [of "2 :: nat" k] by linarith
  ultimately have "unat (x + mask k) = unat x + (2 ^ k - 1)" by (simp add: unat_add_exact)
  moreover have "x + align - 1 = x + mask k" by (simp flip: m)
  ultimately show ?thesis
    using zero_less_power [of "2 :: nat" k] by (simp only: m unat_and_not_mask) simp
qed

lemma unat_ALIGN:
  assumes "a = 2 ^ k" "k < 32" "unat x + 2 ^ k \<le> 2 ^ 32"
  shows "unat (ALIGN x a) = (unat x + 2 ^ k - 1) div 2 ^ k * 2 ^ k"
  using unat_round_up [OF assms] by (simp add: ALIGN_def ALIGN_MASK_def add_diff_eq)

lemma power_mask: "a = (2 :: u32) ^ k \<Longrightarrow> a - 1 = mask k"
  by (simp add: mask_eq_exp_minus_1)

lemma or_mask_split: "x OR mask k = (x AND NOT (mask k)) + mask k" for x :: u32
proof -
  have "(x AND NOT (mask k)) + mask k = (x AND NOT (mask k)) OR mask k"
    by (rule disjunctive_add) (auto simp: word_bits bit_mask_iff)
  also have "\<dots> = x OR mask k" by (auto intro!: bit_word_eqI simp: word_bits bit_mask_iff)
  finally show ?thesis by simp
qed

text \<open>Masking forgets a multiple of the alignment.\<close>

lemma and_not_mask_add:
  fixes x m :: u32
  assumes "k < 32" "m AND mask k = 0"
  shows "(x + m) AND NOT (mask k) = (x AND NOT (mask k)) + m"
proof -
  have split: "y AND NOT (mask k) = y - (y AND mask k)" for y :: u32
  proof -
    have "(y AND NOT (mask k)) + (y AND mask k) = (y AND NOT (mask k)) OR (y AND mask k)"
      by (rule disjunctive_add) (auto simp: word_bits)
    also have "\<dots> = y" by (auto intro!: bit_word_eqI simp: word_bits)
    finally show ?thesis by (simp add: algebra_simps)
  qed
  have m: "unat m mod 2 ^ k = 0" using assms(2) by (metis unat_and_mask unat_0)
  have "(2 :: nat) ^ k dvd 2 ^ 32" using assms(1) by (intro le_imp_power_dvd) simp
  then have "unat ((x + m) AND mask k) = (unat x + unat m) mod 2 ^ k"
    unfolding unat_and_mask unat_word_ariths by (simp add: mod_mod_cancel)
  also have "\<dots> = unat x mod 2 ^ k" using m by (simp add: mod_add_eq [symmetric])
  finally have "(x + m) AND mask k = x AND mask k" by (simp flip: unat_and_mask add: word_unat_eq_iff)
  then show ?thesis by (simp add: split)
qed

lemma align_wraps:
  fixes x :: u32
  assumes "k < 32" "2 ^ 32 < unat x + 2 ^ k"
  shows "(x + mask k) AND NOT (mask k) = 0"
proof -
  have m: "unat (mask k :: u32) = 2 ^ k - 1" using assms(1) by (simp add: unat_mask_le)
  have "(2 :: nat) ^ k < 2 ^ 32" using power_strict_increasing [of k 32 "2 :: nat"] assms(1) by simp
  moreover have "unat x < 2 ^ 32" using unat_less_pow [of x] by simp
  ultimately have "unat (x + mask k) = unat x + (2 ^ k - 1) - 2 ^ 32"
    using assms(2) by (simp add: unat_word_ariths m le_mod_geq)
  then have "unat (x + mask k) < 2 ^ k" using \<open>unat x < 2 ^ 32\<close> assms(2) by linarith
  then have "unat ((x + mask k) AND NOT (mask k)) = 0" by (simp only: unat_and_not_mask div_less mult_zero_left)
  then show ?thesis by (simp only: unat_eq_0)
qed

text \<open>
  For a power of two all forms of rounding up agree, those of rounding down too, and they
  give the next or previous multiple; rounding up beyond the last multiple gives 0.
\<close>

theorem power_rounding:
  assumes "a = 2 ^ k" "k < 32"
  shows "round_up x a = ALIGN x a \<and> ALIGN_DOWN x a = round_down x a \<and>
    (IS_ALIGNED x a \<longleftrightarrow> 2 ^ k dvd unat x) \<and> unat (round_down x a) = unat x div 2 ^ k * 2 ^ k \<and>
    (if unat x + 2 ^ k \<le> 2 ^ 32 then unat (ALIGN x a) = (unat x + 2 ^ k - 1) div 2 ^ k * 2 ^ k
     else ALIGN x a = 0)"
proof (intro conjI)
  note m = power_mask [OF assms(1)]
  have "(2 ^ k :: u32) AND mask k = 0" by (auto simp: and_zero_iff bit_mask_iff bit_exp_iff)
  then have "(x - 1 + 2 ^ k) AND NOT (mask k) = ((x - 1) AND NOT (mask k)) + 2 ^ k"
    by (rule and_not_mask_add [OF assms(2)])
  then show "round_up x a = ALIGN x a"
    unfolding round_up_def round_mask_def ALIGN_def ALIGN_MASK_def m or_mask_split
    by (simp add: mask_eq_exp_minus_1 algebra_simps)
  show "ALIGN_DOWN x a = round_down x a"
    by (simp add: ALIGN_DOWN_def ALIGN_def ALIGN_MASK_def round_down_def round_mask_def)
  show "IS_ALIGNED x a \<longleftrightarrow> 2 ^ k dvd unat x"
    unfolding IS_ALIGNED_def m by (metis mod_0_imp_dvd mod_eq_0_iff_dvd unat_and_mask unat_eq_0)
  show "unat (round_down x a) = unat x div 2 ^ k * 2 ^ k"
    by (simp add: round_down_def round_mask_def m unat_and_not_mask)
  show "if unat x + 2 ^ k \<le> 2 ^ 32 then unat (ALIGN x a) = (unat x + 2 ^ k - 1) div 2 ^ k * 2 ^ k
     else ALIGN x a = 0"
    using unat_ALIGN [OF assms] align_wraps [OF assms(2)] by (simp add: ALIGN_def ALIGN_MASK_def m)
qed

lemma power_rounding_witness:
  "round_up 0xFFFFF001 4096 = 0 \<and> unat (round_down 0xFFFFF001 4096) = 0xFFFFF000"
  using power_rounding [of 4096 12 "0xFFFFF001"] by simp

end
