(* ===== verification/Cppi5.thy ===== *)
theory Cppi5
  imports Align
begin

text \<open>
  The descriptors of TI's packet DMA (\<open>include/linux/soc/ti/cppi5.h\<close>): host packet
  descriptors, transfer-request descriptors and transfer-request flags.  A descriptor is the
  record of its words; a field of a word is named by its mask and shift macros, which are two
  functions on one type of field names.  Descriptors are passed by value, so that the checks
  \<open>WARN_ON(!desc)\<close> are false; the other checks only print, and are returned as the list of
  their conditions beside the result.
\<close>

section \<open>Descriptors\<close>

record cppi5_desc_hdr =
  pkt_info0 :: u32
  pkt_info1 :: u32
  pkt_info2 :: u32
  src_dst_tag :: u32

record cppi5_host_desc =
  hdr :: cppi5_desc_hdr
  next_desc :: u64
  buf_ptr :: u64
  buf_info1 :: u32
  org_buf_len :: u32
  org_buf_ptr :: u64

record cppi5_desc_epib =
  timestamp :: u32
  sw_info0 :: u32
  sw_info1 :: u32
  sw_info2 :: u32

record cppi5_tr_type0 =
  tr_flags :: u32
  icnt0 :: u16
  unused :: u16
  tr_addr :: u64

record cppi5_tr_type1 =
  tr1_flags :: u32
  tr1_icnt0 :: u16
  tr1_icnt1 :: u16
  tr1_addr :: u64
  tr1_dim1 :: s32

record cppi5_tr_resp =
  resp_status :: u8
  resp_reserved :: u8
  resp_cmd_id :: u8
  resp_flags :: u8

definition sizeof_host_desc :: u32 where
  "sizeof_host_desc = 4 * 4 + 8 + 8 + 4 + 4 + 8"

definition sizeof_tr_resp :: u32 where
  "sizeof_tr_resp = 4"

definition CPPI5_DESC_MIN_ALIGN :: u32 where "CPPI5_DESC_MIN_ALIGN = 16"
definition EPIB_SIZE :: u32 where "EPIB_SIZE = 16"
definition PSDATA_MAX_SIZE :: u32 where "PSDATA_MAX_SIZE = 128"

datatype cppi5_field =
    INFO0_HDESC_TYPE | INFO0_HDESC_PSINFO_SIZE | INFO0_HDESC_PKTLEN
  | INFO1_DESC_PKTERROR | INFO1_HDESC_PSFLGS | INFO1_DESC_PKTID | INFO1_DESC_FLOWID
  | INFO2_HDESC_PKTTYPE | INFO2_DESC_RETQ
  | INFO3_DESC_SRCTAG | INFO3_DESC_DSTTAG
  | BUFINFO1_HDESC_DATA_LEN | OBUFINFO0_HDESC_BUF_LEN
  | INFO0_TRDESC_RLDCNT | INFO0_TRDESC_RLDIDX | INFO0_TRDESC_LASTIDX | INFO1_TRDESC_RECSIZE
  | TR_TYPE | TR_EVENT_SIZE | TR_TRIGGER0 | TR_TRIGGER0_TYPE | TR_TRIGGER1 | TR_TRIGGER1_TYPE
  | TR_CMD_ID | TR_CSF_FLAGS

fun SHIFT :: "cppi5_field \<Rightarrow> nat" where
  "SHIFT INFO0_HDESC_TYPE = 30"
| "SHIFT INFO0_HDESC_PSINFO_SIZE = 22"
| "SHIFT INFO0_HDESC_PKTLEN = 0"
| "SHIFT INFO1_DESC_PKTERROR = 28"
| "SHIFT INFO1_HDESC_PSFLGS = 24"
| "SHIFT INFO1_DESC_PKTID = 14"
| "SHIFT INFO1_DESC_FLOWID = 0"
| "SHIFT INFO2_HDESC_PKTTYPE = 27"
| "SHIFT INFO2_DESC_RETQ = 0"
| "SHIFT INFO3_DESC_SRCTAG = 16"
| "SHIFT INFO3_DESC_DSTTAG = 0"
| "SHIFT BUFINFO1_HDESC_DATA_LEN = 0"
| "SHIFT OBUFINFO0_HDESC_BUF_LEN = 0"
| "SHIFT INFO0_TRDESC_RLDCNT = 20"
| "SHIFT INFO0_TRDESC_RLDIDX = 14"
| "SHIFT INFO0_TRDESC_LASTIDX = 0"
| "SHIFT INFO1_TRDESC_RECSIZE = 24"
| "SHIFT TR_TYPE = 0"
| "SHIFT TR_EVENT_SIZE = 6"
| "SHIFT TR_TRIGGER0 = 8"
| "SHIFT TR_TRIGGER0_TYPE = 10"
| "SHIFT TR_TRIGGER1 = 12"
| "SHIFT TR_TRIGGER1_TYPE = 14"
| "SHIFT TR_CMD_ID = 16"
| "SHIFT TR_CSF_FLAGS = 24"

fun MASK :: "cppi5_field \<Rightarrow> u32" where
  "MASK INFO0_HDESC_TYPE = GENMASK 31 30"
| "MASK INFO0_HDESC_PSINFO_SIZE = GENMASK 27 22"
| "MASK INFO0_HDESC_PKTLEN = GENMASK 21 0"
| "MASK INFO1_DESC_PKTERROR = GENMASK 31 28"
| "MASK INFO1_HDESC_PSFLGS = GENMASK 27 24"
| "MASK INFO1_DESC_PKTID = GENMASK 23 14"
| "MASK INFO1_DESC_FLOWID = GENMASK 13 0"
| "MASK INFO2_HDESC_PKTTYPE = GENMASK 31 27"
| "MASK INFO2_DESC_RETQ = GENMASK 15 0"
| "MASK INFO3_DESC_SRCTAG = GENMASK 31 16"
| "MASK INFO3_DESC_DSTTAG = GENMASK 15 0"
| "MASK BUFINFO1_HDESC_DATA_LEN = GENMASK 27 0"
| "MASK OBUFINFO0_HDESC_BUF_LEN = GENMASK 27 0"
| "MASK INFO0_TRDESC_RLDCNT = GENMASK 28 20"
| "MASK INFO0_TRDESC_RLDIDX = GENMASK 19 14"
| "MASK INFO0_TRDESC_LASTIDX = GENMASK 13 0"
| "MASK INFO1_TRDESC_RECSIZE = GENMASK 26 24"
| "MASK TR_TYPE = GENMASK 3 0"
| "MASK TR_EVENT_SIZE = GENMASK 7 6"
| "MASK TR_TRIGGER0 = GENMASK 9 8"
| "MASK TR_TRIGGER0_TYPE = GENMASK 11 10"
| "MASK TR_TRIGGER1 = GENMASK 13 12"
| "MASK TR_TRIGGER1_TYPE = GENMASK 15 14"
| "MASK TR_CMD_ID = GENMASK 23 16"
| "MASK TR_CSF_FLAGS = GENMASK 31 24"

definition DESC_TYPE_VAL_HOST :: u32 where "DESC_TYPE_VAL_HOST = 1"
definition DESC_TYPE_VAL_MONO :: u32 where "DESC_TYPE_VAL_MONO = 2"
definition DESC_TYPE_VAL_TR :: u32 where "DESC_TYPE_VAL_TR = 3"

definition EPIB_PRESENT :: u32 where "EPIB_PRESENT = BIT 29"
definition PSINFO_LOCATION :: u32 where "PSINFO_LOCATION = BIT 28"
definition RETPOLICY :: u32 where "RETPOLICY = BIT 18"
definition EARLYRET :: u32 where "EARLYRET = BIT 17"
definition RETPUSHPOLICY :: u32 where "RETPUSHPOLICY = BIT 16"
definition TRDESC_RLDCNT_MAX :: u32 where "TRDESC_RLDCNT_MAX = 0x1ff"
definition TRDESC_RLDIDX_MAX :: u32 where "TRDESC_RLDIDX_MAX = 0x3f"
definition TR_STATIC :: u32 where "TR_STATIC = BIT 4"
definition TR_WAIT :: u32 where "TR_WAIT = BIT 5"

section \<open>Operations on every descriptor\<close>

definition desc_get_type :: "cppi5_desc_hdr \<Rightarrow> u32" where
  "desc_get_type h = drop_bit (SHIFT INFO0_HDESC_TYPE) (pkt_info0 h AND MASK INFO0_HDESC_TYPE)"

definition desc_get_errflags :: "cppi5_desc_hdr \<Rightarrow> u32" where
  "desc_get_errflags h = drop_bit (SHIFT INFO1_DESC_PKTERROR) (pkt_info1 h AND MASK INFO1_DESC_PKTERROR)"

definition desc_get_pktids :: "cppi5_desc_hdr \<Rightarrow> u32 \<times> u32" where
  "desc_get_pktids h =
     (drop_bit (SHIFT INFO1_DESC_PKTID) (pkt_info1 h AND MASK INFO1_DESC_PKTID),
      drop_bit (SHIFT INFO1_DESC_FLOWID) (pkt_info1 h AND MASK INFO1_DESC_FLOWID))"

definition desc_set_pktids :: "u32 \<Rightarrow> u32 \<Rightarrow> cppi5_desc_hdr \<Rightarrow> cppi5_desc_hdr" where
  "desc_set_pktids pkt_id flow_id h =
     (let h1 = h\<lparr>pkt_info1 := pkt_info1 h OR
            (push_bit (SHIFT INFO1_DESC_PKTID) pkt_id AND MASK INFO1_DESC_PKTID)\<rparr>
      in h1\<lparr>pkt_info1 := pkt_info1 h1 OR
            (push_bit (SHIFT INFO1_DESC_FLOWID) flow_id AND MASK INFO1_DESC_FLOWID)\<rparr>)"

definition desc_set_retpolicy :: "u32 \<Rightarrow> u32 \<Rightarrow> cppi5_desc_hdr \<Rightarrow> cppi5_desc_hdr" where
  "desc_set_retpolicy flags return_ring_id h =
     (let h1 = h\<lparr>pkt_info2 := pkt_info2 h OR flags\<rparr>
      in h1\<lparr>pkt_info2 := pkt_info2 h1 OR (return_ring_id AND MASK INFO2_DESC_RETQ)\<rparr>)"

text \<open>The two result pointers may be null; then nothing is stored.\<close>

definition desc_get_tags_ids :: "bool \<Rightarrow> bool \<Rightarrow> cppi5_desc_hdr \<Rightarrow> u32 option \<times> u32 option" where
  "desc_get_tags_ids src dst h =
     (if src then Some (drop_bit (SHIFT INFO3_DESC_SRCTAG) (src_dst_tag h AND MASK INFO3_DESC_SRCTAG))
      else None,
      if dst then Some (src_dst_tag h AND MASK INFO3_DESC_DSTTAG) else None)"

definition desc_set_tags_ids :: "u32 \<Rightarrow> u32 \<Rightarrow> cppi5_desc_hdr \<Rightarrow> cppi5_desc_hdr" where
  "desc_set_tags_ids src_tag_id dst_tag_id h =
     (let h1 = h\<lparr>src_dst_tag := push_bit (SHIFT INFO3_DESC_SRCTAG) src_tag_id AND MASK INFO3_DESC_SRCTAG\<rparr>
      in h1\<lparr>src_dst_tag := src_dst_tag h1 OR (dst_tag_id AND MASK INFO3_DESC_DSTTAG)\<rparr>)"

section \<open>Host descriptors\<close>

definition hdesc_calc_size :: "bool \<Rightarrow> u32 \<Rightarrow> u32 \<Rightarrow> u32" where
  "hdesc_calc_size epib psdata_size sw_data_size =
     (if psdata_size > PSDATA_MAX_SIZE then 0
      else let desc_size = sizeof_host_desc + psdata_size + sw_data_size;
               desc_size = (if epib then desc_size + EPIB_SIZE else desc_size)
           in ALIGN desc_size CPPI5_DESC_MIN_ALIGN)"

definition hdesc_init :: "u32 \<Rightarrow> u32 \<Rightarrow> cppi5_host_desc \<Rightarrow> bool list \<times> cppi5_host_desc" where
  "hdesc_init flags psdata_size d =
     (let w1 = psdata_size > PSDATA_MAX_SIZE;
          w2 = flags AND NOT (EPIB_PRESENT OR PSINFO_LOCATION) \<noteq> 0;
          info0 = push_bit (SHIFT INFO0_HDESC_TYPE) DESC_TYPE_VAL_HOST OR flags;
          d1 = d\<lparr>hdr := (hdr d)\<lparr>pkt_info0 := info0\<rparr>\<rparr>;
          info0 = pkt_info0 (hdr d1) OR
            (push_bit (SHIFT INFO0_HDESC_PSINFO_SIZE) (drop_bit 2 psdata_size)
               AND MASK INFO0_HDESC_PSINFO_SIZE);
          d2 = d1\<lparr>hdr := (hdr d1)\<lparr>pkt_info0 := info0\<rparr>\<rparr>
      in ([w1, w2], d2\<lparr>next_desc := 0\<rparr>))"

definition hdesc_update_flags :: "u32 \<Rightarrow> cppi5_host_desc \<Rightarrow> bool list \<times> cppi5_host_desc" where
  "hdesc_update_flags flags d =
     (let w = flags AND NOT (EPIB_PRESENT OR PSINFO_LOCATION) \<noteq> 0;
          info0 = pkt_info0 (hdr d) AND NOT (EPIB_PRESENT OR PSINFO_LOCATION);
          info0 = info0 OR flags
      in ([w], d\<lparr>hdr := (hdr d)\<lparr>pkt_info0 := info0\<rparr>\<rparr>))"

definition hdesc_update_psdata_size :: "u32 \<Rightarrow> cppi5_host_desc \<Rightarrow> bool list \<times> cppi5_host_desc" where
  "hdesc_update_psdata_size psdata_size d =
     (let w = psdata_size > PSDATA_MAX_SIZE;
          info0 = pkt_info0 (hdr d) AND NOT (MASK INFO0_HDESC_PSINFO_SIZE);
          info0 = info0 OR
            (push_bit (SHIFT INFO0_HDESC_PSINFO_SIZE) (drop_bit 2 psdata_size)
               AND MASK INFO0_HDESC_PSINFO_SIZE)
      in ([w], d\<lparr>hdr := (hdr d)\<lparr>pkt_info0 := info0\<rparr>\<rparr>))"

definition hdesc_get_psdata_size :: "cppi5_host_desc \<Rightarrow> u32" where
  "hdesc_get_psdata_size d =
     (let psdata_size =
            (if pkt_info0 (hdr d) AND PSINFO_LOCATION = 0
             then drop_bit (SHIFT INFO0_HDESC_PSINFO_SIZE)
                    (pkt_info0 (hdr d) AND MASK INFO0_HDESC_PSINFO_SIZE)
             else 0)
      in push_bit 2 psdata_size)"

definition hdesc_get_pktlen :: "cppi5_host_desc \<Rightarrow> u32" where
  "hdesc_get_pktlen d = pkt_info0 (hdr d) AND MASK INFO0_HDESC_PKTLEN"

definition hdesc_set_pktlen :: "u32 \<Rightarrow> cppi5_host_desc \<Rightarrow> cppi5_host_desc" where
  "hdesc_set_pktlen pkt_len d =
     d\<lparr>hdr := (hdr d)\<lparr>pkt_info0 := pkt_info0 (hdr d) OR (pkt_len AND MASK INFO0_HDESC_PKTLEN)\<rparr>\<rparr>"

definition hdesc_get_psflags :: "cppi5_host_desc \<Rightarrow> u32" where
  "hdesc_get_psflags d =
     drop_bit (SHIFT INFO1_HDESC_PSFLGS) (pkt_info1 (hdr d) AND MASK INFO1_HDESC_PSFLGS)"

definition hdesc_set_psflags :: "u32 \<Rightarrow> cppi5_host_desc \<Rightarrow> cppi5_host_desc" where
  "hdesc_set_psflags ps_flags d =
     d\<lparr>hdr := (hdr d)\<lparr>pkt_info1 := pkt_info1 (hdr d) OR
        (push_bit (SHIFT INFO1_HDESC_PSFLGS) ps_flags AND MASK INFO1_HDESC_PSFLGS)\<rparr>\<rparr>"

definition hdesc_get_pkttype :: "cppi5_host_desc \<Rightarrow> u32" where
  "hdesc_get_pkttype d =
     drop_bit (SHIFT INFO2_HDESC_PKTTYPE) (pkt_info2 (hdr d) AND MASK INFO2_HDESC_PKTTYPE)"

definition hdesc_set_pkttype :: "u32 \<Rightarrow> cppi5_host_desc \<Rightarrow> cppi5_host_desc" where
  "hdesc_set_pkttype pkt_type d =
     d\<lparr>hdr := (hdr d)\<lparr>pkt_info2 := pkt_info2 (hdr d) OR
        (push_bit (SHIFT INFO2_HDESC_PKTTYPE) pkt_type AND MASK INFO2_HDESC_PKTTYPE)\<rparr>\<rparr>"

text \<open>DMA addresses have 32 bits on the target and are widened when stored.\<close>

definition hdesc_attach_buf ::
  "u32 \<Rightarrow> u32 \<Rightarrow> u32 \<Rightarrow> u32 \<Rightarrow> cppi5_host_desc \<Rightarrow> bool list \<times> cppi5_host_desc" where
  "hdesc_attach_buf buf buf_data_len obuf obuf_len d =
     ([buf = 0 \<and> obuf = 0],
      d\<lparr>buf_ptr := ucast buf, buf_info1 := buf_data_len AND MASK BUFINFO1_HDESC_DATA_LEN,
        org_buf_ptr := ucast obuf, org_buf_len := obuf_len AND MASK OBUFINFO0_HDESC_BUF_LEN\<rparr>)"

definition hdesc_get_obuf :: "cppi5_host_desc \<Rightarrow> u32 \<times> u32" where
  "hdesc_get_obuf d = (ucast (org_buf_ptr d), org_buf_len d AND MASK OBUFINFO0_HDESC_BUF_LEN)"

definition hdesc_reset_to_original :: "cppi5_host_desc \<Rightarrow> cppi5_host_desc" where
  "hdesc_reset_to_original d = d\<lparr>buf_ptr := org_buf_ptr d, buf_info1 := org_buf_len d\<rparr>"

definition hdesc_link_hbdesc :: "u32 \<Rightarrow> cppi5_host_desc \<Rightarrow> bool list \<times> cppi5_host_desc" where
  "hdesc_link_hbdesc hbuf_desc d = ([hbuf_desc = 0], d\<lparr>next_desc := ucast hbuf_desc\<rparr>)"

definition hdesc_get_next_hbdesc :: "cppi5_host_desc \<Rightarrow> u32" where
  "hdesc_get_next_hbdesc d = ucast (next_desc d)"

definition hdesc_reset_hbdesc :: "cppi5_host_desc \<Rightarrow> cppi5_host_desc" where
  "hdesc_reset_hbdesc d =
     d\<lparr>hdr := \<lparr>pkt_info0 = 0, pkt_info1 = 0, pkt_info2 = 0, src_dst_tag = 0\<rparr>, next_desc := 0\<rparr>"

definition hdesc_epib_present :: "cppi5_desc_hdr \<Rightarrow> bool" where
  "hdesc_epib_present h \<longleftrightarrow> pkt_info0 h AND EPIB_PRESENT \<noteq> 0"

text \<open>Pointers into a descriptor at address \<open>at\<close>; the block \<open>epib\<close> follows its
  fixed part.\<close>

definition hdesc_get_psdata :: "u32 \<Rightarrow> cppi5_host_desc \<Rightarrow> u32" where
  "hdesc_get_psdata at d =
     (if pkt_info0 (hdr d) AND PSINFO_LOCATION \<noteq> 0 then 0
      else let psdata_size = drop_bit (SHIFT INFO0_HDESC_PSINFO_SIZE)
                 (pkt_info0 (hdr d) AND MASK INFO0_HDESC_PSINFO_SIZE)
           in if psdata_size = 0 then 0
              else let psdata = at + sizeof_host_desc
                   in if hdesc_epib_present (hdr d) then psdata + EPIB_SIZE else psdata)"

definition hdesc_get_psdata32 :: "u32 \<Rightarrow> cppi5_host_desc \<Rightarrow> u32" where
  "hdesc_get_psdata32 at d = hdesc_get_psdata at d"

definition hdesc_get_swdata :: "u32 \<Rightarrow> cppi5_host_desc \<Rightarrow> u32" where
  "hdesc_get_swdata at d =
     (let psdata_size =
            (if pkt_info0 (hdr d) AND PSINFO_LOCATION = 0
             then drop_bit (SHIFT INFO0_HDESC_PSINFO_SIZE)
                    (pkt_info0 (hdr d) AND MASK INFO0_HDESC_PSINFO_SIZE)
             else 0);
          swdata = at + sizeof_host_desc;
          swdata = (if hdesc_epib_present (hdr d) then swdata + EPIB_SIZE else swdata)
      in swdata + push_bit 2 psdata_size)"

section \<open>Transfer requests\<close>

datatype cppi5_tr_types =
    TR_TYPE0 | TR_TYPE1 | TR_TYPE2 | TR_TYPE3 | TR_TYPE4 | TR_TYPE5
  | TR_TYPE8 | TR_TYPE9 | TR_TYPE10 | TR_TYPE11 | TR_TYPE15

fun tr_type_val :: "cppi5_tr_types \<Rightarrow> u32" where
  "tr_type_val TR_TYPE0 = 0"
| "tr_type_val TR_TYPE1 = 1"
| "tr_type_val TR_TYPE2 = 2"
| "tr_type_val TR_TYPE3 = 3"
| "tr_type_val TR_TYPE4 = 4"
| "tr_type_val TR_TYPE5 = 5"
| "tr_type_val TR_TYPE8 = 8"
| "tr_type_val TR_TYPE9 = 9"
| "tr_type_val TR_TYPE10 = 10"
| "tr_type_val TR_TYPE11 = 11"
| "tr_type_val TR_TYPE15 = 15"

datatype cppi5_tr_event_size =
    EVENT_SIZE_COMPLETION | EVENT_SIZE_ICNT1_DEC | EVENT_SIZE_ICNT2_DEC | EVENT_SIZE_ICNT3_DEC

fun event_size_val :: "cppi5_tr_event_size \<Rightarrow> u32" where
  "event_size_val EVENT_SIZE_COMPLETION = 0"
| "event_size_val EVENT_SIZE_ICNT1_DEC = 1"
| "event_size_val EVENT_SIZE_ICNT2_DEC = 2"
| "event_size_val EVENT_SIZE_ICNT3_DEC = 3"

datatype cppi5_tr_trigger =
    TRIGGER_NONE | TRIGGER_GLOBAL0 | TRIGGER_GLOBAL1 | TRIGGER_LOCAL_EVENT

fun trigger_val :: "cppi5_tr_trigger \<Rightarrow> u32" where
  "trigger_val TRIGGER_NONE = 0"
| "trigger_val TRIGGER_GLOBAL0 = 1"
| "trigger_val TRIGGER_GLOBAL1 = 2"
| "trigger_val TRIGGER_LOCAL_EVENT = 3"

datatype cppi5_tr_trigger_type =
    TRIGGER_TYPE_ICNT1_DEC | TRIGGER_TYPE_ICNT2_DEC | TRIGGER_TYPE_ICNT3_DEC | TRIGGER_TYPE_ALL

fun trigger_type_val :: "cppi5_tr_trigger_type \<Rightarrow> u32" where
  "trigger_type_val TRIGGER_TYPE_ICNT1_DEC = 0"
| "trigger_type_val TRIGGER_TYPE_ICNT2_DEC = 1"
| "trigger_type_val TRIGGER_TYPE_ICNT3_DEC = 2"
| "trigger_type_val TRIGGER_TYPE_ALL = 3"

definition trdesc_calc_size :: "u32 \<Rightarrow> u32 \<Rightarrow> u32" where
  "trdesc_calc_size tr_count tr_size = tr_size * (tr_count + 1) + sizeof_tr_resp * tr_count"

definition trdesc_init ::
  "u32 \<Rightarrow> u32 \<Rightarrow> u32 \<Rightarrow> u32 \<Rightarrow> cppi5_desc_hdr \<Rightarrow> bool list \<times> cppi5_desc_hdr" where
  "trdesc_init tr_count tr_size reload_idx reload_count h =
     (let w1 = tr_count AND NOT (MASK INFO0_TRDESC_LASTIDX) \<noteq> 0;
          w2 = reload_idx > TRDESC_RLDIDX_MAX;
          w3 = reload_count > TRDESC_RLDCNT_MAX;
          info0 = push_bit (SHIFT INFO0_HDESC_TYPE) DESC_TYPE_VAL_TR;
          info0 = info0 OR (push_bit (SHIFT INFO0_TRDESC_RLDCNT) reload_count AND MASK INFO0_TRDESC_RLDCNT);
          info0 = info0 OR (push_bit (SHIFT INFO0_TRDESC_RLDIDX) reload_idx AND MASK INFO0_TRDESC_RLDIDX);
          info0 = info0 OR ((tr_count - 1) AND MASK INFO0_TRDESC_LASTIDX);
          info1 = pkt_info1 h OR
            (push_bit (SHIFT INFO1_TRDESC_RECSIZE) (word_of_int (generic_ffs (drop_bit 4 tr_size) - 1))
               AND MASK INFO1_TRDESC_RECSIZE)
      in ([w1, w2, w3], h\<lparr>pkt_info0 := info0, pkt_info1 := info1\<rparr>))"

definition tr_init ::
  "cppi5_tr_types \<Rightarrow> bool \<Rightarrow> bool \<Rightarrow> cppi5_tr_event_size \<Rightarrow> u32 \<Rightarrow> u32" where
  "tr_init ty static_tr wait event_size cmd_id =
     (let flags = tr_type_val ty;
          flags = flags OR (push_bit (SHIFT TR_EVENT_SIZE) (event_size_val event_size) AND MASK TR_EVENT_SIZE);
          flags = flags OR (push_bit (SHIFT TR_CMD_ID) cmd_id AND MASK TR_CMD_ID);
          flags = (if static_tr \<and> (ty = TR_TYPE8 \<or> ty = TR_TYPE9) then flags OR TR_STATIC else flags)
      in if wait then flags OR TR_WAIT else flags)"

definition tr_set_trigger ::
  "cppi5_tr_trigger \<Rightarrow> cppi5_tr_trigger_type \<Rightarrow> cppi5_tr_trigger \<Rightarrow> cppi5_tr_trigger_type \<Rightarrow> u32 \<Rightarrow> u32"
where
  "tr_set_trigger trigger0 trigger0_type trigger1 trigger1_type flags =
     (let flags = flags OR (push_bit (SHIFT TR_TRIGGER0) (trigger_val trigger0) AND MASK TR_TRIGGER0);
          flags = flags OR (push_bit (SHIFT TR_TRIGGER0_TYPE) (trigger_type_val trigger0_type)
                              AND MASK TR_TRIGGER0_TYPE);
          flags = flags OR (push_bit (SHIFT TR_TRIGGER1) (trigger_val trigger1) AND MASK TR_TRIGGER1)
      in flags OR (push_bit (SHIFT TR_TRIGGER1_TYPE) (trigger_type_val trigger1_type)
                     AND MASK TR_TRIGGER1_TYPE))"

definition tr_csf_set :: "u32 \<Rightarrow> u32 \<Rightarrow> u32" where
  "tr_csf_set csf flags = flags OR (push_bit (SHIFT TR_CSF_FLAGS) csf AND MASK TR_CSF_FLAGS)"

section \<open>Fields\<close>

text \<open>A field occupies the bits from its shift to its top bit; reading it shifts it down.\<close>

fun top_bit :: "cppi5_field \<Rightarrow> nat" where
  "top_bit INFO0_HDESC_TYPE = 31"
| "top_bit INFO0_HDESC_PSINFO_SIZE = 27"
| "top_bit INFO0_HDESC_PKTLEN = 21"
| "top_bit INFO1_DESC_PKTERROR = 31"
| "top_bit INFO1_HDESC_PSFLGS = 27"
| "top_bit INFO1_DESC_PKTID = 23"
| "top_bit INFO1_DESC_FLOWID = 13"
| "top_bit INFO2_HDESC_PKTTYPE = 31"
| "top_bit INFO2_DESC_RETQ = 15"
| "top_bit INFO3_DESC_SRCTAG = 31"
| "top_bit INFO3_DESC_DSTTAG = 15"
| "top_bit BUFINFO1_HDESC_DATA_LEN = 27"
| "top_bit OBUFINFO0_HDESC_BUF_LEN = 27"
| "top_bit INFO0_TRDESC_RLDCNT = 28"
| "top_bit INFO0_TRDESC_RLDIDX = 19"
| "top_bit INFO0_TRDESC_LASTIDX = 13"
| "top_bit INFO1_TRDESC_RECSIZE = 26"
| "top_bit TR_TYPE = 3"
| "top_bit TR_EVENT_SIZE = 7"
| "top_bit TR_TRIGGER0 = 9"
| "top_bit TR_TRIGGER0_TYPE = 11"
| "top_bit TR_TRIGGER1 = 13"
| "top_bit TR_TRIGGER1_TYPE = 15"
| "top_bit TR_CMD_ID = 23"
| "top_bit TR_CSF_FLAGS = 31"

lemma MASK_GENMASK: "MASK f = GENMASK (top_bit f) (SHIFT f)"
  by (cases f) simp_all

lemma top_bit_range: "SHIFT f \<le> top_bit f \<and> top_bit f < 32"
  by (cases f) simp_all

lemma bit_MASK [word_bits]: "bit (MASK f) n \<longleftrightarrow> SHIFT f \<le> n \<and> n \<le> top_bit f"
  using top_bit_range [of f] by (simp add: MASK_GENMASK bit_GENMASK)

definition width :: "cppi5_field \<Rightarrow> nat" where
  "width f = Suc (top_bit f) - SHIFT f"

definition getf :: "cppi5_field \<Rightarrow> u32 \<Rightarrow> u32" where
  "getf f w = drop_bit (SHIFT f) (w AND MASK f)"

definition putf :: "cppi5_field \<Rightarrow> u32 \<Rightarrow> u32" where
  "putf f v = push_bit (SHIFT f) v AND MASK f"

lemma bit_getf [word_bits]: "bit (getf f w) n \<longleftrightarrow> n < width f \<and> bit w (SHIFT f + n)"
  using top_bit_range [of f] by (auto simp: getf_def width_def bit_drop_bit_eq word_bits)

lemma bit_putf [word_bits]:
  "bit (putf f v) n \<longleftrightarrow> SHIFT f \<le> n \<and> n \<le> top_bit f \<and> bit v (n - SHIFT f)"
  using top_bit_range [of f] by (auto simp: putf_def word_bits)

definition disjoint :: "cppi5_field \<Rightarrow> cppi5_field \<Rightarrow> bool" where
  "disjoint f g \<longleftrightarrow> top_bit f < SHIFT g \<or> top_bit g < SHIFT f"

lemma getf_or: "getf f (x OR y) = getf f x OR getf f y"
  by (rule bit_word_eqI) (auto simp: word_bits)

lemma getf_putf: "getf f (putf f v) = take_bit (width f) v"
  using top_bit_range [of f]
  by (intro bit_word_eqI) (auto simp: word_bits bit_take_bit_iff width_def)

lemma getf_putf_other: "disjoint f g \<Longrightarrow> getf f (putf g v) = 0"
  using top_bit_range [of f] top_bit_range [of g]
  by (intro bit_word_eqI) (auto simp: word_bits disjoint_def width_def)

lemma getf_clear: "getf f (x AND NOT (MASK f)) = 0"
  using top_bit_range [of f] by (intro bit_word_eqI) (auto simp: word_bits width_def)

lemma getf_clear_other: "disjoint f g \<Longrightarrow> getf f (x AND NOT (MASK g)) = getf f x"
  using top_bit_range [of f] top_bit_range [of g]
  by (intro bit_word_eqI) (auto simp: word_bits disjoint_def width_def)

lemma getf_0: "getf f 0 = 0"
  by (simp add: getf_def)

lemma getf_BIT: "k < SHIFT f \<or> top_bit f < k \<Longrightarrow> getf f (BIT k) = 0"
  using top_bit_range [of f] by (intro bit_word_eqI) (auto simp: word_bits width_def)

section \<open>The operations as field accesses\<close>

lemma getters:
  "desc_get_type h = getf INFO0_HDESC_TYPE (pkt_info0 h)"
  "desc_get_errflags h = getf INFO1_DESC_PKTERROR (pkt_info1 h)"
  "desc_get_pktids h = (getf INFO1_DESC_PKTID (pkt_info1 h), getf INFO1_DESC_FLOWID (pkt_info1 h))"
  "hdesc_get_pktlen d = getf INFO0_HDESC_PKTLEN (pkt_info0 (hdr d))"
  "hdesc_get_psflags d = getf INFO1_HDESC_PSFLGS (pkt_info1 (hdr d))"
  "hdesc_get_pkttype d = getf INFO2_HDESC_PKTTYPE (pkt_info2 (hdr d))"
  by (simp_all add: getf_def desc_get_type_def desc_get_errflags_def desc_get_pktids_def
      hdesc_get_pktlen_def hdesc_get_psflags_def hdesc_get_pkttype_def)

lemma setters:
  "pkt_info1 (desc_set_pktids a b h) = (pkt_info1 h OR putf INFO1_DESC_PKTID a) OR putf INFO1_DESC_FLOWID b"
  "pkt_info0 (desc_set_pktids a b h) = pkt_info0 h" "pkt_info2 (desc_set_pktids a b h) = pkt_info2 h"
  "hdesc_set_pktlen l d = d\<lparr>hdr := (hdr d)\<lparr>pkt_info0 := pkt_info0 (hdr d) OR putf INFO0_HDESC_PKTLEN l\<rparr>\<rparr>"
  "hdesc_set_psflags f d = d\<lparr>hdr := (hdr d)\<lparr>pkt_info1 := pkt_info1 (hdr d) OR putf INFO1_HDESC_PSFLGS f\<rparr>\<rparr>"
  "hdesc_set_pkttype t d = d\<lparr>hdr := (hdr d)\<lparr>pkt_info2 := pkt_info2 (hdr d) OR putf INFO2_HDESC_PKTTYPE t\<rparr>\<rparr>"
  "src_dst_tag (desc_set_tags_ids a b h) = putf INFO3_DESC_SRCTAG a OR putf INFO3_DESC_DSTTAG b"
  by (simp_all add: putf_def desc_set_pktids_def Let_def hdesc_set_pktlen_def hdesc_set_psflags_def
      hdesc_set_pkttype_def desc_set_tags_ids_def)

lemma tags:
  "desc_get_tags_ids True True h =
     (Some (getf INFO3_DESC_SRCTAG (src_dst_tag h)), Some (getf INFO3_DESC_DSTTAG (src_dst_tag h)))"
  by (simp add: getf_def desc_get_tags_ids_def)

lemma disjoint_fields [simp]:
  "disjoint INFO1_DESC_PKTID INFO1_DESC_FLOWID" "disjoint INFO1_DESC_FLOWID INFO1_DESC_PKTID"
  "disjoint INFO1_DESC_PKTERROR INFO1_HDESC_PSFLGS" "disjoint INFO1_DESC_PKTERROR INFO1_DESC_PKTID"
  "disjoint INFO1_DESC_PKTERROR INFO1_DESC_FLOWID"
  "disjoint INFO1_DESC_PKTID INFO1_HDESC_PSFLGS" "disjoint INFO1_DESC_FLOWID INFO1_HDESC_PSFLGS"
  "disjoint INFO1_HDESC_PSFLGS INFO1_DESC_PKTID" "disjoint INFO1_HDESC_PSFLGS INFO1_DESC_FLOWID"
  "disjoint INFO0_HDESC_TYPE INFO0_HDESC_PKTLEN" "disjoint INFO0_HDESC_TYPE INFO0_HDESC_PSINFO_SIZE"
  "disjoint INFO0_HDESC_PSINFO_SIZE INFO0_HDESC_PKTLEN" "disjoint INFO0_HDESC_PKTLEN INFO0_HDESC_PSINFO_SIZE"
  "disjoint INFO3_DESC_SRCTAG INFO3_DESC_DSTTAG" "disjoint INFO3_DESC_DSTTAG INFO3_DESC_SRCTAG"
  "disjoint INFO0_HDESC_TYPE INFO0_TRDESC_RLDCNT" "disjoint INFO0_HDESC_TYPE INFO0_TRDESC_RLDIDX"
  "disjoint INFO0_HDESC_TYPE INFO0_TRDESC_LASTIDX"
  "disjoint INFO0_TRDESC_RLDCNT INFO0_TRDESC_RLDIDX" "disjoint INFO0_TRDESC_RLDCNT INFO0_TRDESC_LASTIDX"
  "disjoint INFO0_TRDESC_RLDIDX INFO0_TRDESC_RLDCNT" "disjoint INFO0_TRDESC_RLDIDX INFO0_TRDESC_LASTIDX"
  "disjoint INFO0_TRDESC_LASTIDX INFO0_TRDESC_RLDCNT" "disjoint INFO0_TRDESC_LASTIDX INFO0_TRDESC_RLDIDX"
  by (simp_all add: disjoint_def)

lemma take_bit_small: "unat (v :: u32) < 2 ^ n \<Longrightarrow> take_bit n v = v"
proof (rule bit_word_eqI)
  fix i assume v: "unat v < 2 ^ n"
  have "\<not> bit v i" if "n \<le> i"
  proof -
    have "unat v < 2 ^ i" using v power_increasing [OF that, of "2 :: nat"] by linarith
    then have "\<not> bit (unat v) i" unfolding bit_iff_odd by simp
    then show ?thesis using bit_imp_le_length [of v i] by (auto simp: bit_unsigned_iff)
  qed
  then show "bit (take_bit n v) i \<longleftrightarrow> bit v i" by (cases "i < n") (auto simp: bit_take_bit_iff)
qed

lemma getf_putf_small: "unat v < 2 ^ width f \<Longrightarrow> getf f (putf f v) = v"
  by (simp add: getf_putf take_bit_small)

lemma field_widths [simp]:
  "width INFO0_HDESC_PKTLEN = 22" "width INFO1_DESC_PKTID = 10" "width INFO1_DESC_FLOWID = 14"
  "width INFO1_HDESC_PSFLGS = 4" "width INFO2_HDESC_PKTTYPE = 5" "width INFO0_HDESC_PSINFO_SIZE = 6"
  "width INFO3_DESC_SRCTAG = 16" "width INFO3_DESC_DSTTAG = 16" "width INFO0_HDESC_TYPE = 2"
  "width INFO0_TRDESC_RLDCNT = 9" "width INFO0_TRDESC_RLDIDX = 6" "width INFO0_TRDESC_LASTIDX = 14"
  "width INFO1_TRDESC_RECSIZE = 3"
  by (simp_all add: width_def)

section \<open>Host descriptors: properties\<close>

text \<open>The two flags a host descriptor supports.\<close>

definition host_flags :: "bool \<Rightarrow> bool \<Rightarrow> u32" where
  "host_flags epib location =
     (if epib then EPIB_PRESENT else 0) OR (if location then PSINFO_LOCATION else 0)"

lemma bit_host_flags [word_bits]: "bit (host_flags e l) n \<longleftrightarrow> e \<and> n = 29 \<or> l \<and> n = 28"
  by (auto simp: host_flags_def EPIB_PRESENT_def PSINFO_LOCATION_def word_bits)

lemma and_BIT: "w AND BIT k \<noteq> 0 \<longleftrightarrow> bit w k"
  unfolding and_zero_iff by (auto simp: word_bits dest: bit_imp_le_length)

lemma flag_tests:
  "w AND EPIB_PRESENT \<noteq> 0 \<longleftrightarrow> bit w 29" "w AND PSINFO_LOCATION \<noteq> 0 \<longleftrightarrow> bit w 28"
  "w AND EPIB_PRESENT = 0 \<longleftrightarrow> \<not> bit w 29" "w AND PSINFO_LOCATION = 0 \<longleftrightarrow> \<not> bit w 28"
  using and_BIT [of w 29] and_BIT [of w 28] by (auto simp: EPIB_PRESENT_def PSINFO_LOCATION_def)

lemma host_flags_supported: "host_flags e l AND NOT (EPIB_PRESENT OR PSINFO_LOCATION) = 0"
  by (rule bit_word_eqI) (auto simp: word_bits EPIB_PRESENT_def PSINFO_LOCATION_def)

text \<open>The first word of an initialised descriptor.\<close>

lemma hdesc_init_info0:
  "pkt_info0 (hdr (snd (hdesc_init flags ps d))) =
     (BIT 30 OR flags) OR putf INFO0_HDESC_PSINFO_SIZE (drop_bit 2 ps)"
  "next_desc (snd (hdesc_init flags ps d)) = 0"
  by (simp_all add: hdesc_init_def Let_def putf_def BIT_def DESC_TYPE_VAL_HOST_def)

lemma getf_host_flags:
  "getf INFO0_HDESC_TYPE (host_flags e l) = 0" "getf INFO0_HDESC_PSINFO_SIZE (host_flags e l) = 0"
  "getf INFO0_HDESC_PKTLEN (host_flags e l) = 0"
  by (rule bit_word_eqI; auto simp: word_bits width_def)+

lemma getf_type_BIT: "getf INFO0_HDESC_TYPE (BIT 30) = 1"
  by (rule bit_word_eqI) (auto simp: word_bits width_def bit_1_iff)

lemma psdata_words:
  assumes "ps \<le> (128 :: u32)" "ps AND 3 = 0"
  shows "take_bit 6 (drop_bit 2 ps) = drop_bit 2 ps" "push_bit 2 (drop_bit 2 ps) = ps"
proof -
  have "unat ps \<le> 128" using assms(1) by (simp add: word_le_nat_alt)
  then have "unat (drop_bit 2 ps) < 2 ^ 6" by (simp add: unat_drop_bit)
  then show "take_bit 6 (drop_bit 2 ps) = drop_bit 2 ps" by (rule take_bit_small)
  have "\<not> bit ps i" if "i < 2" for i
    using assms(2) low_mask_zero [of ps 2] low_step_masks(4) that by metis
  then show "push_bit 2 (drop_bit 2 ps) = ps"
    by (intro bit_word_eqI) (metis bit_push_bit_iff bit_drop_bit_eq comp_apply le_add_diff_inverse
        not_less possible_bit_word)
qed

lemma host_desc_fields:
  assumes "ps \<le> (128 :: u32)" "ps AND 3 = 0"
    and "w = (BIT 30 OR host_flags e l) OR putf INFO0_HDESC_PSINFO_SIZE (drop_bit 2 ps)"
  shows "getf INFO0_HDESC_TYPE w = 1" "getf INFO0_HDESC_PSINFO_SIZE w = drop_bit 2 ps"
    "getf INFO0_HDESC_PKTLEN w = 0" "bit w 29 \<longleftrightarrow> e" "bit w 28 \<longleftrightarrow> l"
proof -
  show "getf INFO0_HDESC_TYPE w = 1" "getf INFO0_HDESC_PKTLEN w = 0"
    by (simp_all add: assms(3) getf_or getf_host_flags getf_type_BIT getf_putf_other getf_BIT)
  show "getf INFO0_HDESC_PSINFO_SIZE w = drop_bit 2 ps"
    using psdata_words(1) [OF assms(1,2)]
    by (simp add: assms(3) getf_or getf_host_flags getf_putf getf_BIT)
  show "bit w 29 \<longleftrightarrow> e" "bit w 28 \<longleftrightarrow> l"
    by (simp_all add: assms(3) word_bits)
qed

lemma drop_bit_zero_size: "ps AND 3 = (0 :: u32) \<Longrightarrow> ps \<le> 128 \<Longrightarrow> drop_bit 2 ps = 0 \<longleftrightarrow> ps = 0"
  using psdata_words(2) [of ps] by (metis drop_bit_of_0 push_bit_of_0)

text \<open>a host descriptor initialised with supported flags and a legal size of protocol data
  has the host type, no packet length and no linked buffer, gives back its flags and the size
  (0 when the data is in the buffer), and places protocol and software data behind the extended
  block.\<close>

theorem hdesc_init_spec:
  assumes "ps \<le> 128" "ps AND 3 = 0"
  shows "\<exists>d1. hdesc_init (host_flags e l) ps d = ([False, False], d1) \<and>
    desc_get_type (hdr d1) = DESC_TYPE_VAL_HOST \<and> (hdesc_epib_present (hdr d1) \<longleftrightarrow> e) \<and>
    hdesc_get_psdata_size d1 = (if l then 0 else ps) \<and>
    hdesc_get_pktlen d1 = 0 \<and> hdesc_get_next_hbdesc d1 = 0 \<and>
    hdesc_get_psdata at d1 = (if l \<or> ps = 0 then 0 else at + 48 + (if e then 16 else 0)) \<and>
    hdesc_get_swdata at d1 = at + 48 + (if e then 16 else 0) + (if l then 0 else ps)"
proof -
  define d1 where "d1 = snd (hdesc_init (host_flags e l) ps d)"
  note f = host_desc_fields [OF assms hdesc_init_info0(1) [of "host_flags e l" ps d], folded d1_def]
    and n = hdesc_init_info0(2) [of "host_flags e l" ps d, folded d1_def]
    and z = drop_bit_zero_size [OF assms(2,1)]
  have "hdesc_init (host_flags e l) ps d = ([False, False], d1)"
    unfolding d1_def using assms(1) host_flags_supported [of e l]
    by (simp add: hdesc_init_def Let_def PSDATA_MAX_SIZE_def not_less)
  moreover have "desc_get_type (hdr d1) = DESC_TYPE_VAL_HOST" "hdesc_get_pktlen d1 = 0"
    by (simp_all add: getters f DESC_TYPE_VAL_HOST_def)
  moreover have "hdesc_epib_present (hdr d1) \<longleftrightarrow> e"
    by (simp add: hdesc_epib_present_def flag_tests f)
  moreover have "hdesc_get_psdata_size d1 = (if l then 0 else ps)"
    unfolding hdesc_get_psdata_size_def getf_def [symmetric]
    using psdata_words(2) [OF assms] by (simp add: flag_tests f)
  moreover have "hdesc_get_next_hbdesc d1 = 0"
    by (simp add: hdesc_get_next_hbdesc_def n)
  moreover have "hdesc_get_psdata at d1 = (if l \<or> ps = 0 then 0 else at + 48 + (if e then 16 else 0))"
    unfolding hdesc_get_psdata_def getf_def [symmetric]
    by (simp add: flag_tests f z hdesc_epib_present_def Let_def EPIB_SIZE_def sizeof_host_desc_def)
  moreover have "hdesc_get_swdata at d1 = at + 48 + (if e then 16 else 0) + (if l then 0 else ps)"
    unfolding hdesc_get_swdata_def getf_def [symmetric] using psdata_words(2) [OF assms]
    by (simp add: flag_tests f hdesc_epib_present_def Let_def EPIB_SIZE_def sizeof_host_desc_def)
  ultimately show ?thesis by blast
qed

definition stale_desc :: cppi5_host_desc where
  "stale_desc = \<lparr>hdr = \<lparr>pkt_info0 = 7, pkt_info1 = 0, pkt_info2 = 0, src_dst_tag = 0\<rparr>,
     next_desc = 9, buf_ptr = 0, buf_info1 = 0, org_buf_len = 0, org_buf_ptr = 0\<rparr>"

theorem hdesc_init_spec_witness:
  "\<exists>d1. hdesc_init (host_flags True False) 64 stale_desc = ([False, False], d1) \<and>
     hdesc_get_psdata_size d1 = 64 \<and> hdesc_get_psdata 0x1000 d1 = 0x1040"
  using hdesc_init_spec [where ps = 64 and e = True and l = False and d = stale_desc and at = "0x1000"]
  by auto

section \<open>Sizes\<close>

lemma unat_ALIGN_16:
  assumes "unat x + 15 < 2 ^ 32"
  shows "unat (ALIGN x 16) = (unat x + 15) div 16 * 16"
  using unat_ALIGN [of 16 4 x] assms by simp

lemma round_up_16:
  fixes n :: nat
  shows "16 dvd (n + 15) div 16 * 16 \<and> n \<le> (n + 15) div 16 * 16 \<and> (n + 15) div 16 * 16 < n + 16"
  by presburger

text \<open>The computed size of a host descriptor is 0 when the protocol data is too long, and
  otherwise the smallest multiple of 16 that holds the fixed part, the optional extended block,
  the protocol data and the software data.\<close>

theorem hdesc_calc_size_spec:
  assumes "unat sw < 2 ^ 31"
  shows "if 128 < ps then hdesc_calc_size epib ps sw = 0
    else 16 dvd unat (hdesc_calc_size epib ps sw) \<and>
      48 + (if epib then 16 else 0) + unat ps + unat sw \<le> unat (hdesc_calc_size epib ps sw) \<and>
      unat (hdesc_calc_size epib ps sw) < 48 + (if epib then 16 else 0) + unat ps + unat sw + 16"
proof (cases "128 < ps")
  case False
  then have p: "unat ps \<le> 128" by (simp add: word_le_nat_alt not_less)
  let ?n = "48 + (if epib then 16 else 0) + unat ps + unat sw"
  have 1: "unat (sizeof_host_desc + ps) = 48 + unat ps"
    using unat_add_exact [of 48 ps] p by (simp add: sizeof_host_desc_def)
  then have 2: "unat (sizeof_host_desc + ps + sw) = 48 + unat ps + unat sw"
    using unat_add_exact [of "sizeof_host_desc + ps" sw] p assms by simp
  then have 3: "unat (sizeof_host_desc + ps + sw + EPIB_SIZE) = 48 + unat ps + unat sw + 16"
    using unat_add_exact [of "sizeof_host_desc + ps + sw" 16] p assms by (simp add: EPIB_SIZE_def)
  have "unat (hdesc_calc_size epib ps sw) = (?n + 15) div 16 * 16"
    using False 2 3 p assms unat_ALIGN_16 [of "sizeof_host_desc + ps + sw"]
      unat_ALIGN_16 [of "sizeof_host_desc + ps + sw + EPIB_SIZE"]
    by (simp add: hdesc_calc_size_def PSDATA_MAX_SIZE_def CPPI5_DESC_MIN_ALIGN_def add.commute)
  then show ?thesis using False round_up_16 [of ?n] by simp
next
  case True
  then show ?thesis by (simp add: hdesc_calc_size_def PSDATA_MAX_SIZE_def)
qed

theorem hdesc_calc_size_spec_witness: "16 dvd unat (hdesc_calc_size True 20 100)"
  using hdesc_calc_size_spec [of 100 20 True] by simp

section \<open>Setters only add bits\<close>

text \<open>the setters of a packet's ids, flags, type and length or their argument into the
  field and leave the other fields of the word alone: what is read back is the argument only
  if the field was 0, and setting a second time gives the union of both values.  The setter of
  the tags replaces them.\<close>

theorem field_setters_accumulate:
  "desc_get_pktids (desc_set_pktids p f h) =
     (fst (desc_get_pktids h) OR take_bit 10 p, snd (desc_get_pktids h) OR take_bit 14 f) \<and>
   desc_get_errflags (desc_set_pktids p f h) = desc_get_errflags h \<and>
   hdesc_get_pktlen (hdesc_set_pktlen l d) = hdesc_get_pktlen d OR take_bit 22 l \<and>
   desc_get_type (hdr (hdesc_set_pktlen l d)) = desc_get_type (hdr d) \<and>
   hdesc_get_psflags (hdesc_set_psflags s d) = hdesc_get_psflags d OR take_bit 4 s \<and>
   desc_get_pktids (hdr (hdesc_set_psflags s d)) = desc_get_pktids (hdr d) \<and>
   hdesc_get_pkttype (hdesc_set_pkttype t d) = hdesc_get_pkttype d OR take_bit 5 t \<and>
   desc_get_tags_ids True True (desc_set_tags_ids a b h) = (Some (take_bit 16 a), Some (take_bit 16 b))"
  by (simp add: getters setters tags getf_or getf_putf getf_putf_other)

text \<open>So a packet length that is set twice is wrong.\<close>

lemma set_pktlen_twice:
  "hdesc_get_pktlen d = 0 \<Longrightarrow> hdesc_get_pktlen (hdesc_set_pktlen 2 (hdesc_set_pktlen 1 d)) = 3"
  by (simp add: getters setters getf_or getf_putf)

text \<open>The two update operations do replace their field, and keep the others.\<close>

lemma psdata_size_updated:
  assumes "ps \<le> 128" "ps AND 3 = 0" "pkt_info0 (hdr d) AND PSINFO_LOCATION = 0"
  shows "\<exists>d1. hdesc_update_psdata_size ps d = ([False], d1) \<and> hdesc_get_psdata_size d1 = ps \<and>
    hdesc_get_pktlen d1 = hdesc_get_pktlen d \<and> desc_get_type (hdr d1) = desc_get_type (hdr d) \<and>
    hdesc_epib_present (hdr d1) = hdesc_epib_present (hdr d)"
proof -
  define d1 where "d1 = snd (hdesc_update_psdata_size ps d)"
  have w: "pkt_info0 (hdr d1) = (pkt_info0 (hdr d) AND NOT (MASK INFO0_HDESC_PSINFO_SIZE))
      OR putf INFO0_HDESC_PSINFO_SIZE (drop_bit 2 ps)"
    unfolding d1_def putf_def by (simp add: hdesc_update_psdata_size_def Let_def)
  have "\<not> bit (pkt_info0 (hdr d1)) 28" "bit (pkt_info0 (hdr d1)) 29 \<longleftrightarrow> bit (pkt_info0 (hdr d)) 29"
    using assms(3) unfolding w flag_tests by (auto simp: word_bits)
  moreover have "getf INFO0_HDESC_PSINFO_SIZE (pkt_info0 (hdr d1)) = drop_bit 2 ps"
    using psdata_words(1) [OF assms(1,2)] by (simp add: w getf_or getf_clear getf_putf del: MASK.simps)
  ultimately have "hdesc_get_psdata_size d1 = ps" "hdesc_epib_present (hdr d1) = hdesc_epib_present (hdr d)"
    unfolding hdesc_get_psdata_size_def getf_def [symmetric]
    using psdata_words(2) [OF assms(1,2)] by (simp_all add: flag_tests hdesc_epib_present_def)
  moreover have "hdesc_get_pktlen d1 = hdesc_get_pktlen d" "desc_get_type (hdr d1) = desc_get_type (hdr d)"
    by (simp_all add: getters w getf_or getf_clear_other getf_putf_other del: MASK.simps)
  moreover have "hdesc_update_psdata_size ps d = ([False], d1)"
    unfolding d1_def using assms(1) by (simp add: hdesc_update_psdata_size_def Let_def PSDATA_MAX_SIZE_def not_less)
  ultimately show ?thesis by blast
qed

section \<open>Transfer requests: properties\<close>

lemma recsize_code:
  assumes "k < 4"
  shows "word_of_int (generic_ffs (drop_bit 4 (push_bit (4 + k) 1)) - 1) = (of_nat k :: u32)"
proof -
  have "drop_bit 4 (push_bit (4 + k) 1 :: u32) = push_bit k 1"
    using assms by (intro bit_word_eqI) (auto simp: word_bits bit_exp_iff)
  moreover have "first_bit (push_bit k 1 :: u32) k"
    using assms by (auto simp: first_bit_def bit_exp_iff)
  ultimately show ?thesis using generic_ffs_first by simp
qed

lemma small_or_fields:
  assumes "w = ((BIT 30 OR BIT 31) OR putf INFO0_TRDESC_RLDCNT a OR putf INFO0_TRDESC_RLDIDX b)
      OR putf INFO0_TRDESC_LASTIDX c"
    and "unat a < 2 ^ 9" "unat b < 2 ^ 6" "unat c < 2 ^ 14"
  shows "getf INFO0_HDESC_TYPE w = 3" "getf INFO0_TRDESC_RLDCNT w = a" "getf INFO0_TRDESC_RLDIDX w = b"
    "getf INFO0_TRDESC_LASTIDX w = c"
proof -
  have "getf INFO0_HDESC_TYPE (BIT 31) = BIT 1"
    by (rule bit_word_eqI) (auto simp: word_bits width_def)
  then have "getf INFO0_HDESC_TYPE (BIT 31) = 2" by (simp add: BIT_def)
  then show "getf INFO0_HDESC_TYPE w = 3"
    using assms(1) by (simp add: getf_or getf_putf_other getf_type_BIT)
  show "getf INFO0_TRDESC_RLDCNT w = a" "getf INFO0_TRDESC_RLDIDX w = b" "getf INFO0_TRDESC_LASTIDX w = c"
    using assms by (simp_all add: getf_or getf_putf_other getf_putf_small getf_BIT)
qed

lemma trdesc_size_exact:
  assumes "unat n < 2 ^ 14" "k < 4"
  shows "unat (trdesc_calc_size n (push_bit (4 + k) 1)) = 2 ^ (4 + k) * (unat n + 1) + 4 * unat n"
proof -
  have p: "(2 :: nat) ^ (4 + k) \<le> 2 ^ 7" using assms(2) by (intro power_increasing) auto
  have s: "unat (push_bit (4 + k) 1 :: u32) = 2 ^ (4 + k)"
    using p unat_push_bit [of "4 + k" "1 :: u32"] by simp
  have n: "unat (n + 1) = unat n + 1" using unat_add_exact [of n 1] assms(1) by simp
  have m: "2 ^ (4 + k) * (unat n + 1) \<le> 2 ^ 7 * 2 ^ 14" using p assms(1) by (intro mult_le_mono) auto
  have 1: "unat (push_bit (4 + k) 1 * (n + 1)) = 2 ^ (4 + k) * (unat n + 1)"
    using unat_mult_exact [of "push_bit (4 + k) 1" "n + 1"] m s n by simp
  have 2: "unat (4 * n) = 4 * unat n" using unat_mult_exact [of 4 n] assms(1) by simp
  show ?thesis
    using unat_add_exact [of "push_bit (4 + k) 1 * (n + 1)" "4 * n"] 1 2 m assms(1)
    by (simp add: trdesc_calc_size_def sizeof_tr_resp_def)
qed

lemma trdesc_info0:
  "pkt_info0 (snd (trdesc_init n sz ridx rcnt h)) = ((BIT 30 OR BIT 31) OR putf INFO0_TRDESC_RLDCNT rcnt
      OR putf INFO0_TRDESC_RLDIDX ridx) OR putf INFO0_TRDESC_LASTIDX (n - 1)"
proof -
  have "push_bit 30 3 = (BIT 30 OR BIT 31 :: u32)" by (simp add: BIT_def)
  then show ?thesis by (simp add: trdesc_init_def Let_def putf_def DESC_TYPE_VAL_TR_def or.assoc)
qed

text \<open>a transfer-request descriptor initialised with legal arguments and a record size of
  16, 32, 64 or 128 bytes raises no warning and encodes its type, the reload count and index,
  the index of the last record and (in a cleared field) the logarithm of the size in units of
  16 bytes; its total size counts a header record and the responses.\<close>

theorem trdesc_init_spec:
  assumes "0 < unat n" "unat n < 2 ^ 14" "ridx \<le> 0x3f" "rcnt \<le> 0x1ff" "k < 4"
    and "getf INFO1_TRDESC_RECSIZE (pkt_info1 h) = 0"
  shows "\<exists>h1. trdesc_init n (push_bit (4 + k) 1) ridx rcnt h = ([False, False, False], h1) \<and>
    desc_get_type h1 = DESC_TYPE_VAL_TR \<and>
    getf INFO0_TRDESC_RLDCNT (pkt_info0 h1) = rcnt \<and> getf INFO0_TRDESC_RLDIDX (pkt_info0 h1) = ridx \<and>
    getf INFO0_TRDESC_LASTIDX (pkt_info0 h1) = n - 1 \<and>
    getf INFO1_TRDESC_RECSIZE (pkt_info1 h1) = of_nat k \<and>
    unat (trdesc_calc_size n (push_bit (4 + k) 1)) = 2 ^ (4 + k) * (unat n + 1) + 4 * unat n"
proof -
  define h1 where "h1 = snd (trdesc_init n (push_bit (4 + k) 1) ridx rcnt h)"
  note w0 = trdesc_info0 [of n "push_bit (4 + k) 1" ridx rcnt h, folded h1_def]
  have w1: "pkt_info1 h1 = pkt_info1 h OR putf INFO1_TRDESC_RECSIZE (of_nat k)"
    using recsize_code [OF assms(5)] by (simp add: h1_def trdesc_init_def Let_def putf_def)
  have "1 \<le> n" using assms(1) by (simp add: word_le_nat_alt)
  then have "unat (n - 1) < 2 ^ 14" using assms(2) by (simp add: unat_sub_exact)
  moreover have "unat rcnt < 2 ^ 9" "unat ridx < 2 ^ 6" using assms(3,4) by (simp_all add: word_le_nat_alt)
  ultimately have f: "getf INFO0_HDESC_TYPE (pkt_info0 h1) = 3" "getf INFO0_TRDESC_RLDCNT (pkt_info0 h1) = rcnt"
    "getf INFO0_TRDESC_RLDIDX (pkt_info0 h1) = ridx" "getf INFO0_TRDESC_LASTIDX (pkt_info0 h1) = n - 1"
    using small_or_fields [OF w0] by auto
  have "unat (of_nat k :: u32) = k" using assms(5) by (simp add: unat_of_nat)
  then have r: "getf INFO1_TRDESC_RECSIZE (pkt_info1 h1) = of_nat k"
    using assms(5,6) by (simp add: w1 getf_or getf_putf_small)
  have "take_bit 14 n = n" by (rule take_bit_small [OF assms(2)])
  then have "\<not> bit n i" if "14 \<le> i" for i using that by (metis bit_take_bit_iff not_less)
  then have "n AND NOT (MASK INFO0_TRDESC_LASTIDX) = 0"
    by (auto intro!: bit_word_eqI simp: word_bits not_le)
  then have "trdesc_init n (push_bit (4 + k) 1) ridx rcnt h = ([False, False, False], h1)"
    using assms(3,4) unfolding h1_def
    by (simp add: trdesc_init_def Let_def TRDESC_RLDIDX_MAX_def TRDESC_RLDCNT_MAX_def not_less
        del: MASK.simps SHIFT.simps)
  moreover have "unat (trdesc_calc_size n (push_bit (4 + k) 1)) = 2 ^ (4 + k) * (unat n + 1) + 4 * unat n"
    by (rule trdesc_size_exact [OF assms(2,5)])
  ultimately show ?thesis using f r by (auto simp: getters DESC_TYPE_VAL_TR_def)
qed

theorem trdesc_init_spec_witness:
  "\<exists>h1. trdesc_init 3 64 5 2 \<lparr>pkt_info0 = 0, pkt_info1 = 0, pkt_info2 = 0, src_dst_tag = 0\<rparr> = ([False, False, False], h1) \<and>
     getf INFO0_TRDESC_LASTIDX (pkt_info0 h1) = 2 \<and> getf INFO1_TRDESC_RECSIZE (pkt_info1 h1) = 2"
  using trdesc_init_spec [where n = 3 and k = 2 and ridx = 5 and rcnt = 2 and
      h = "\<lparr>pkt_info0 = 0, pkt_info1 = 0, pkt_info2 = 0, src_dst_tag = 0\<rparr>"]
  by (auto simp: getf_0)

text \<open>Without records the index of the last one wraps to the largest value.\<close>

lemma trdesc_init_no_records:
  "getf INFO0_TRDESC_LASTIDX (pkt_info0 (snd (trdesc_init 0 sz ridx rcnt h))) = 0x3fff"
  by (simp add: trdesc_info0 getf_or getf_putf_other getf_BIT getf_putf mask_eq_exp_minus_1)

section \<open>Transfer request flags\<close>

lemma enum_ranges:
  "unat (tr_type_val ty) < 16" "unat (event_size_val ev) < 4" "unat (trigger_val tg) < 4"
  "unat (trigger_type_val tt) < 4"
  by (cases ty; cases ev; cases tg; cases tt; simp)+

lemma putf_0: "SHIFT f = 0 \<Longrightarrow> unat v < 2 ^ width f \<Longrightarrow> putf f v = v"
  using top_bit_range [of f]
  by (intro bit_word_eqI) (metis bit_putf bit_take_bit_iff diff_zero le_eq_less_or_eq less_Suc_eq_le
      minus_nat.diff_0 take_bit_small width_def zero_le)

lemma type_field: "tr_type_val ty = putf TR_TYPE (tr_type_val ty)"
  using enum_ranges(1) [of ty] by (simp add: putf_0 width_def)

definition tr_flags_of ::
  "cppi5_tr_types \<Rightarrow> bool \<Rightarrow> bool \<Rightarrow> cppi5_tr_event_size \<Rightarrow> u32 \<Rightarrow> u32" where
  "tr_flags_of ty st wt ev cmd =
     (((putf TR_TYPE (tr_type_val ty) OR putf TR_EVENT_SIZE (event_size_val ev)) OR putf TR_CMD_ID cmd)
       OR (if st then BIT 4 else 0)) OR (if wt then BIT 5 else 0)"

lemma tr_init_flags:
  "tr_init ty st wt ev cmd = tr_flags_of ty (st \<and> (ty = TR_TYPE8 \<or> ty = TR_TYPE9)) wt ev cmd"
  unfolding tr_init_def tr_flags_of_def putf_def [symmetric] type_field [symmetric] Let_def
    TR_STATIC_def TR_WAIT_def
  by (cases "st \<and> (ty = TR_TYPE8 \<or> ty = TR_TYPE9)"; cases wt) (simp_all only: if_True if_False simp_thms or.right_neutral)

lemma getf_if: "getf f (if c then x else 0) = (if c then getf f x else 0)"
  by (simp add: getf_0)

text \<open>The flags of a transfer request give back the type, the event size, the command id
  (modulo 256), both triggers and the configuration flags (modulo 256) they were built from;
  the static bit is set only for the block moves of types 8 and 9 that ask for it.\<close>

theorem tr_flags_spec:
  assumes "w = tr_csf_set csf (tr_set_trigger g0 t0 g1 t1 (tr_init ty st wt ev cmd))"
  shows "getf TR_TYPE w = tr_type_val ty \<and> getf TR_EVENT_SIZE w = event_size_val ev \<and>
    getf TR_CMD_ID w = take_bit 8 cmd \<and> getf TR_TRIGGER0 w = trigger_val g0 \<and>
    getf TR_TRIGGER0_TYPE w = trigger_type_val t0 \<and> getf TR_TRIGGER1 w = trigger_val g1 \<and>
    getf TR_TRIGGER1_TYPE w = trigger_type_val t1 \<and> getf TR_CSF_FLAGS w = take_bit 8 csf \<and>
    (bit w 4 \<longleftrightarrow> st \<and> (ty = TR_TYPE8 \<or> ty = TR_TYPE9)) \<and> (bit w 5 \<longleftrightarrow> wt)"
proof -
  define s where "s = (st \<and> (ty = TR_TYPE8 \<or> ty = TR_TYPE9))"
  have w: "w = ((((tr_flags_of ty s wt ev cmd OR putf TR_TRIGGER0 (trigger_val g0))
      OR putf TR_TRIGGER0_TYPE (trigger_type_val t0)) OR putf TR_TRIGGER1 (trigger_val g1))
      OR putf TR_TRIGGER1_TYPE (trigger_type_val t1)) OR putf TR_CSF_FLAGS csf"
    unfolding assms tr_csf_set_def tr_set_trigger_def putf_def [symmetric] tr_init_flags s_def
    by (simp add: Let_def)
  have v: "getf TR_TYPE w = tr_type_val ty" "getf TR_EVENT_SIZE w = event_size_val ev"
    "getf TR_CMD_ID w = take_bit 8 cmd" "getf TR_TRIGGER0 w = trigger_val g0"
    "getf TR_TRIGGER0_TYPE w = trigger_type_val t0" "getf TR_TRIGGER1 w = trigger_val g1"
    "getf TR_TRIGGER1_TYPE w = trigger_type_val t1" "getf TR_CSF_FLAGS w = take_bit 8 csf"
    using enum_ranges(1) [of ty] enum_ranges(2) [of ev] enum_ranges(3) [of g0] enum_ranges(3) [of g1]
      enum_ranges(4) [of t0] enum_ranges(4) [of t1]
    by (simp_all add: w tr_flags_of_def getf_or getf_putf_other disjoint_def getf_if getf_BIT
        getf_putf_small width_def ) (simp_all add: getf_putf width_def)
  have "bit w 4 \<longleftrightarrow> s" "bit w 5 \<longleftrightarrow> wt"
    by (simp_all add: w tr_flags_of_def word_bits)
  then show ?thesis using v by (simp add: s_def)
qed

theorem tr_flags_spec_witness:
  "getf TR_CMD_ID (tr_csf_set 1 (tr_set_trigger TRIGGER_GLOBAL0 TRIGGER_TYPE_ALL TRIGGER_NONE
     TRIGGER_TYPE_ALL (tr_init TR_TYPE1 True True EVENT_SIZE_COMPLETION 0x125))) = 0x25"
  using tr_flags_spec [OF refl, of 1 TRIGGER_GLOBAL0 TRIGGER_TYPE_ALL TRIGGER_NONE TRIGGER_TYPE_ALL
      TR_TYPE1 True True EVENT_SIZE_COMPLETION "0x125"]
  by simp

end
