(* ===== verification/McCmd.thy ===== *)
theory McCmd
  imports ByteOrder
begin

text \<open>
  Commands of the Management Complex (\<open>include/fsl-mc/fsl_mc_cmd.h\<close>): a header and seven
  64-bit parameter words, into which the macros pack arguments at given offsets and widths
  and from which they unpack responses.  A macro of the object headers is the list of its
  packing operations; an operation names its argument by the C expression it was given.
\<close>

section \<open>Fields of 64-bit words\<close>

definition MC_CMD_NUM_OF_PARAMS :: nat where "MC_CMD_NUM_OF_PARAMS = 7"

definition MAKE_UMASK64 :: "nat \<Rightarrow> u64" where
  "MAKE_UMASK64 width = (if width < 64 then push_bit width 1 - 1 else -1)"

definition mc_enc :: "nat \<Rightarrow> nat \<Rightarrow> u64 \<Rightarrow> u64" where
  "mc_enc lsoffset width val = push_bit lsoffset (val AND MAKE_UMASK64 width)"

definition mc_dec :: "u64 \<Rightarrow> nat \<Rightarrow> nat \<Rightarrow> u64" where
  "mc_dec val lsoffset width = drop_bit lsoffset val AND MAKE_UMASK64 width"

record mc_command =
  header :: u64
  params :: "u64 list"

lemma bit_MAKE_UMASK64 [word_bits]: "bit (MAKE_UMASK64 w) n \<longleftrightarrow> n < w \<and> n < 64"
proof (cases "w < 64")
  case True
  then have "MAKE_UMASK64 w = mask w" by (simp add: MAKE_UMASK64_def mask_eq_exp_minus_1)
  then show ?thesis by (auto simp: bit_mask_iff)
next
  case False
  then show ?thesis by (auto simp: MAKE_UMASK64_def)
qed

lemma bit_mc_enc [word_bits]:
  "bit (mc_enc off w v) n \<longleftrightarrow> off \<le> n \<and> n < off + w \<and> n < 64 \<and> bit v (n - off)"
  by (auto simp: mc_enc_def word_bits)

lemma bit_mc_dec [word_bits]: "bit (mc_dec v off w) n \<longleftrightarrow> n < w \<and> bit v (off + n)"
  using bit_imp_le_length [of v "off + n"] by (auto simp: mc_dec_def word_bits)

lemma mc_dec_enc: "off + w \<le> 64 \<Longrightarrow> mc_dec (mc_enc off w v) off w = take_bit w v"
  by (rule bit_word_eqI) (auto simp: word_bits bit_take_bit_iff)

lemma mc_dec_enc_other:
  "off + w \<le> off' \<or> off' + w' \<le> off \<Longrightarrow> mc_dec (mc_enc off' w' v) off w = 0"
  by (rule bit_word_eqI) (auto simp: word_bits)

lemma mc_dec_or: "mc_dec (x OR y) off w = mc_dec x off w OR mc_dec y off w"
  by (rule bit_word_eqI) (auto simp: word_bits)

lemma mc_dec_0: "mc_dec 0 off w = 0"
  by (simp add: mc_dec_def)

section \<open>The command header\<close>

datatype mc_cmd_status =
    STATUS_OK | STATUS_READY | STATUS_AUTH_ERR | STATUS_NO_PRIVILEGE | STATUS_DMA_ERR
  | STATUS_CONFIG_ERR | STATUS_TIMEOUT | STATUS_NO_RESOURCE | STATUS_NO_MEMORY | STATUS_BUSY
  | STATUS_UNSUPPORTED_OP | STATUS_INVALID_STATE

fun status_code :: "mc_cmd_status \<Rightarrow> u64" where
  "status_code STATUS_OK = 0x0"
| "status_code STATUS_READY = 0x1"
| "status_code STATUS_AUTH_ERR = 0x3"
| "status_code STATUS_NO_PRIVILEGE = 0x4"
| "status_code STATUS_DMA_ERR = 0x5"
| "status_code STATUS_CONFIG_ERR = 0x6"
| "status_code STATUS_TIMEOUT = 0x7"
| "status_code STATUS_NO_RESOURCE = 0x8"
| "status_code STATUS_NO_MEMORY = 0x9"
| "status_code STATUS_BUSY = 0xA"
| "status_code STATUS_UNSUPPORTED_OP = 0xB"
| "status_code STATUS_INVALID_STATE = 0xC"

definition MC_CMD_HDR_FLAGS_MASK :: u32 where "MC_CMD_HDR_FLAGS_MASK = 0x0000FFFF"

definition HDR_READ_STATUS :: "u64 \<Rightarrow> u64" where
  "HDR_READ_STATUS hdr = mc_dec hdr 16 8"

definition HDR_READ_TOKEN :: "u64 \<Rightarrow> u16" where
  "HDR_READ_TOKEN hdr = ucast (mc_dec hdr 32 16)"

definition mc_encode_cmd_header :: "u16 \<Rightarrow> u32 \<Rightarrow> u16 \<Rightarrow> u64" where
  "mc_encode_cmd_header cmd_id cmd_flags token =
     (let hdr = mc_enc 48 16 (ucast cmd_id);
          hdr = hdr OR mc_enc 0 32 (ucast (cmd_flags AND MC_CMD_HDR_FLAGS_MASK));
          hdr = hdr OR mc_enc 32 16 (ucast token);
          hdr = hdr OR mc_enc 16 8 (status_code STATUS_READY)
      in hdr)"

section \<open>The portal\<close>

text \<open>The portal is memory-mapped: the header at offset 0, parameter \<open>i\<close> at \<open>8 + 8 * i\<close>.
  A write is an event, in the order the code issues them; a read asks the device.\<close>

datatype portal_event = Writeq nat u64

definition param_at :: "nat \<Rightarrow> nat" where
  "param_at i = 8 + 8 * i"

definition mc_write_command :: "mc_command \<Rightarrow> portal_event list" where
  "mc_write_command cmd =
     map (\<lambda>i. Writeq (param_at i) (params cmd ! i)) [0..<MC_CMD_NUM_OF_PARAMS] @ [Writeq 0 (header cmd)]"

definition mc_read_response :: "(nat \<Rightarrow> u64) \<Rightarrow> mc_command \<Rightarrow> u64 \<times> mc_command" where
  "mc_read_response readq resp =
     (let resp = resp\<lparr>header := readq 0\<rparr>;
          status = HDR_READ_STATUS (header resp)
      in if status \<noteq> status_code STATUS_OK then (status, resp)
         else (status, resp\<lparr>params := map (\<lambda>i. readq (param_at i)) [0..<MC_CMD_NUM_OF_PARAMS]\<rparr>))"

text \<open>The version is read from the first two little-endian halfwords of the parameters.\<close>

definition mc_cmd_read_api_version :: "byte_order \<Rightarrow> mc_command \<Rightarrow> u16 \<times> u16" where
  "mc_cmd_read_api_version ord cmd =
     (let bs = object_bytes ord 8 (params cmd ! 0);
          half = (\<lambda>k. ucast (bs ! k) OR push_bit 8 (ucast (bs ! (k + 1))) :: u16)
      in (half 0, half 2))"

section \<open>Packing operations\<close>

datatype ctype = C_int | C_uint8 | C_uint16 | C_uint32 | C_uint64 | C_char | C_enum

record mc_op =
  op_param :: nat
  op_offset :: nat
  op_width :: nat
  op_type :: ctype
  op_arg :: string

definition op :: "nat \<Rightarrow> nat \<Rightarrow> nat \<Rightarrow> ctype \<Rightarrow> string \<Rightarrow> mc_op" where
  "op p off w ty arg = \<lparr>op_param = p, op_offset = off, op_width = w, op_type = ty, op_arg = arg\<rparr>"

text \<open>The conversion \<open>(type)\<close> of a 64-bit value; \<open>char\<close> is unsigned on ARM.\<close>

fun cast :: "ctype \<Rightarrow> u64 \<Rightarrow> int" where
  "cast C_int v = sint (ucast v :: u32)"
| "cast C_uint8 v = uint (ucast v :: u8)"
| "cast C_uint16 v = uint (ucast v :: u16)"
| "cast C_uint32 v = uint (ucast v :: u32)"
| "cast C_uint64 v = uint v"
| "cast C_char v = uint (ucast v :: u8)"
| "cast C_enum v = uint (ucast v :: u32)"

type_synonym args = "string \<Rightarrow> int"

definition MC_CMD_OP :: "mc_op \<Rightarrow> args \<Rightarrow> mc_command \<Rightarrow> mc_command" where
  "MC_CMD_OP p a cmd = cmd\<lparr>params := (params cmd)[op_param p :=
     (params cmd ! op_param p) OR mc_enc (op_offset p) (op_width p) (word_of_int (a (op_arg p)))]\<rparr>"

definition MC_RSP_OP :: "mc_op \<Rightarrow> mc_command \<Rightarrow> args \<Rightarrow> args" where
  "MC_RSP_OP p cmd a = a(op_arg p :=
     cast (op_type p) (mc_dec (params cmd ! op_param p) (op_offset p) (op_width p)))"

text \<open>The variants for extended parameters keep them in little-endian order.\<close>

definition MC_PREP_OP :: "conversions \<Rightarrow> mc_op \<Rightarrow> args \<Rightarrow> u64 list \<Rightarrow> u64 list" where
  "MC_PREP_OP host p a ext = ext[op_param p := (ext ! op_param p) OR
     cpu_to_le64 host (mc_enc (op_offset p) (op_width p) (word_of_int (a (op_arg p))))]"

definition MC_EXT_OP :: "conversions \<Rightarrow> mc_op \<Rightarrow> u64 list \<Rightarrow> args \<Rightarrow> args" where
  "MC_EXT_OP host p ext a = a(op_arg p :=
     cast (op_type p) (mc_dec (cpu_to_le64 host (ext ! op_param p)) (op_offset p) (op_width p)))"

text \<open>A macro runs its operations in order.\<close>

definition cmd_macro :: "mc_op list \<Rightarrow> args \<Rightarrow> mc_command \<Rightarrow> mc_command" where
  "cmd_macro ops a cmd = fold (\<lambda>p. MC_CMD_OP p a) ops cmd"

definition rsp_macro :: "mc_op list \<Rightarrow> mc_command \<Rightarrow> args \<Rightarrow> args" where
  "rsp_macro ops cmd a = fold (\<lambda>p. MC_RSP_OP p cmd) ops a"

definition prep_macro :: "conversions \<Rightarrow> mc_op list \<Rightarrow> args \<Rightarrow> u64 list \<Rightarrow> u64 list" where
  "prep_macro host ops a ext = fold (\<lambda>p. MC_PREP_OP host p a) ops ext"

definition ext_macro :: "conversions \<Rightarrow> mc_op list \<Rightarrow> u64 list \<Rightarrow> args \<Rightarrow> args" where
  "ext_macro host ops ext a = fold (\<lambda>p. MC_EXT_OP host p ext) ops a"

section \<open>Layouts\<close>

text \<open>A layout is sound when its fields lie inside the seven words and two different
  operations use disjoint fields and different arguments; the same operation may be repeated.\<close>

definition in_word :: "mc_op \<Rightarrow> bool" where
  "in_word p \<longleftrightarrow> op_param p < MC_CMD_NUM_OF_PARAMS \<and> op_offset p + op_width p \<le> 64"

definition disjoint_ops :: "mc_op \<Rightarrow> mc_op \<Rightarrow> bool" where
  "disjoint_ops p q \<longleftrightarrow> op_param p \<noteq> op_param q \<or> op_offset p + op_width p \<le> op_offset q
     \<or> op_offset q + op_width q \<le> op_offset p"

definition compatible :: "mc_op \<Rightarrow> mc_op \<Rightarrow> bool" where
  "compatible p q \<longleftrightarrow> p = q \<or> disjoint_ops p q \<and> op_arg p \<noteq> op_arg q"

fun layout_ok :: "mc_op list \<Rightarrow> bool" where
  "layout_ok [] \<longleftrightarrow> True"
| "layout_ok (p # ps) \<longleftrightarrow> in_word p \<and> list_all (compatible p) ps \<and> layout_ok ps"

lemma compatible_sym: "compatible p q \<longleftrightarrow> compatible q p"
  by (auto simp: compatible_def disjoint_ops_def)

lemma layout_in_word: "layout_ok ps \<Longrightarrow> p \<in> set ps \<Longrightarrow> in_word p"
  by (induction ps) auto

lemma layout_compatible:
  "layout_ok ps \<Longrightarrow> p \<in> set ps \<Longrightarrow> q \<in> set ps \<Longrightarrow> compatible p q"
proof (induction ps)
  case (Cons a ps)
  have "compatible a r \<and> compatible r a" if "r \<in> set ps" for r
    using Cons.prems(1) that compatible_sym [of r a] by (simp add: list_all_iff)
  moreover have "compatible a a" by (simp add: compatible_def)
  ultimately show ?case using Cons by auto
qed simp

section \<open>Packing and unpacking\<close>

text \<open>The field of an operation in a list of words.\<close>

definition field_of :: "mc_op \<Rightarrow> u64 list \<Rightarrow> u64" where
  "field_of p ws = mc_dec (ws ! op_param p) (op_offset p) (op_width p)"

definition packed :: "mc_op \<Rightarrow> args \<Rightarrow> u64" where
  "packed p a = take_bit (op_width p) (word_of_int (a (op_arg p)))"

lemma MC_CMD_OP_same:
  "length (params cmd) = 7 \<Longrightarrow> in_word q \<Longrightarrow>
   field_of q (params (MC_CMD_OP q a cmd)) = field_of q (params cmd) OR packed q a"
  by (simp add: MC_CMD_OP_def field_of_def packed_def mc_dec_or mc_dec_enc in_word_def
      MC_CMD_NUM_OF_PARAMS_def)

lemma MC_CMD_OP_other:
  assumes "length (params cmd) = 7" "in_word q" "disjoint_ops q p"
  shows "field_of q (params (MC_CMD_OP p a cmd)) = field_of q (params cmd)"
proof (cases "op_param p = op_param q")
  case True
  then have "op_offset q + op_width q \<le> op_offset p \<or> op_offset p + op_width p \<le> op_offset q"
    using assms(3) by (auto simp: disjoint_ops_def)
  then show ?thesis using True assms(1,2) mc_dec_enc_other
    by (simp add: MC_CMD_OP_def field_of_def mc_dec_or in_word_def MC_CMD_NUM_OF_PARAMS_def)
next
  case False
  then show ?thesis by (simp add: MC_CMD_OP_def field_of_def)
qed

lemma MC_CMD_OP_field:
  assumes "length (params cmd) = 7" "in_word q" "compatible q p"
  shows "field_of q (params (MC_CMD_OP p a cmd)) =
    field_of q (params cmd) OR (if q = p then packed q a else 0)"
proof (cases "q = p")
  case True
  then show ?thesis using MC_CMD_OP_same [OF assms(1,2)] by simp
next
  case False
  then have "disjoint_ops q p" using assms(3) by (simp add: compatible_def)
  then show ?thesis using MC_CMD_OP_other [OF assms(1,2)] False by simp
qed

lemma length_MC_CMD_OP [simp]: "length (params (MC_CMD_OP p a cmd)) = length (params cmd)"
  by (simp add: MC_CMD_OP_def)

lemma cmd_macro_field:
  assumes "length (params cmd) = 7" "in_word q" "\<forall>p\<in>set ops. compatible q p"
  shows "field_of q (params (cmd_macro ops a cmd)) =
    field_of q (params cmd) OR (if q \<in> set ops then packed q a else 0)"
  using assms
proof (induction ops arbitrary: cmd)
  case Nil
  then show ?case by (simp add: cmd_macro_def)
next
  case (Cons p ops)
  have "field_of q (params (cmd_macro (p # ops) a cmd)) =
      field_of q (params (MC_CMD_OP p a cmd)) OR (if q \<in> set ops then packed q a else 0)"
    using Cons.IH [of "MC_CMD_OP p a cmd"] Cons.prems by (simp add: cmd_macro_def)
  then show ?case using MC_CMD_OP_field [of cmd q p a] Cons.prems by (auto simp: or.assoc)
qed

lemma length_cmd_macro [simp]: "length (params (cmd_macro ops a cmd)) = length (params cmd)"
  by (induction ops arbitrary: cmd) (simp_all add: cmd_macro_def)

lemma MC_RSP_OP_arg:
  "compatible q p \<Longrightarrow> MC_RSP_OP p cmd b (op_arg q) =
     (if q = p then cast (op_type q) (field_of q (params cmd)) else b (op_arg q))"
  by (cases "q = p") (simp_all add: MC_RSP_OP_def field_of_def compatible_def)

lemma rsp_macro_arg:
  "\<forall>p\<in>set ops. compatible q p \<Longrightarrow> rsp_macro ops cmd b (op_arg q) =
     (if q \<in> set ops then cast (op_type q) (field_of q (params cmd)) else b (op_arg q))"
proof (induction ops arbitrary: b)
  case Nil
  then show ?case by (simp add: rsp_macro_def)
next
  case (Cons p ops)
  have "rsp_macro (p # ops) cmd b = rsp_macro ops cmd (MC_RSP_OP p cmd b)"
    by (simp add: rsp_macro_def)
  then show ?case
    using Cons.IH [of "MC_RSP_OP p cmd b"] Cons.prems MC_RSP_OP_arg [of q p cmd b]
    by (cases "q = p") simp_all
qed

lemma field_of_zero: "in_word q \<Longrightarrow> field_of q (replicate 7 0) = 0"
  by (simp add: field_of_def mc_dec_0 in_word_def MC_CMD_NUM_OF_PARAMS_def)

lemma macro_round_trip:
  assumes "layout_ok ops" "q \<in> set ops" "params cmd = replicate 7 0"
  shows "rsp_macro ops (cmd_macro ops a cmd) b (op_arg q) = cast (op_type q) (packed q a)"
proof -
  have c: "in_word q" "\<forall>p\<in>set ops. compatible q p" using layout_in_word layout_compatible assms(1,2) by auto
  have "field_of q (params (cmd_macro ops a cmd)) = packed q a"
    using cmd_macro_field [of cmd q ops a] c assms(2,3) field_of_zero [OF c(1)] by simp
  then show ?thesis using rsp_macro_arg [OF c(2)] assms(2) by simp
qed

text \<open>The bits of a type, and the values that a conversion to it leaves alone.\<close>

fun type_width :: "ctype \<Rightarrow> nat" where
  "type_width C_int = 32"
| "type_width C_uint8 = 8"
| "type_width C_uint16 = 16"
| "type_width C_uint32 = 32"
| "type_width C_uint64 = 64"
| "type_width C_char = 8"
| "type_width C_enum = 32"

lemma uint_ucast_small:
  fixes v :: u64
  shows "unat v < 2 ^ LENGTH('a::len) \<Longrightarrow> uint (ucast v :: 'a word) = uint v"
  by (simp only: uint_nat unsigned_ucast_eq take_bit_nat_eq_self_iff of_nat_eq_iff)

lemma sint_small:
  fixes w :: u32
  assumes "unat w < 2 ^ 31"
  shows "sint w = uint w"
proof -
  have "uint w = int (unat w)" by (rule uint_nat)
  also have "\<dots> < int (2 ^ 31)" using assms by (simp only: of_nat_less_iff)
  finally have "uint w < 2 ^ 31" by simp
  then have "signed_take_bit 31 (uint w) = uint w"
    using uint_nonnegative [of w] by (intro signed_take_bit_int_eq_self) linarith+
  then show ?thesis by (simp only: sint_uint) simp
qed

lemma cast_small:
  assumes "unat v < 2 ^ (if ty = C_int then 31 else type_width ty)"
  shows "cast ty v = uint v"
proof (cases ty)
  case C_int
  then have v: "unat v < 2 ^ 31" using assms by simp
  then have u: "uint (ucast v :: u32) = uint v" by (intro uint_ucast_small) simp
  then have "unat (ucast v :: u32) = unat v" by (metis unat_eq_nat_uint)
  then show ?thesis using sint_small [of "ucast v"] v u C_int by simp
qed (use assms uint_ucast_small [of v, where 'a = 8] uint_ucast_small [of v, where 'a = 16]
    uint_ucast_small [of v, where 'a = 32] in simp_all)

lemma packed_small:
  assumes "0 \<le> a (op_arg q)" "a (op_arg q) < 2 ^ op_width q" "op_width q \<le> 64"
  shows "uint (packed q a) = a (op_arg q)"
proof -
  have "(2 :: int) ^ op_width q \<le> 2 ^ 64" using assms(3) by (intro power_increasing) auto
  then have "uint (word_of_int (a (op_arg q)) :: u64) = a (op_arg q)"
    using assms by (simp add: uint_word_of_int_eq take_bit_int_eq_self_iff)
  then show ?thesis using assms
    by (simp add: packed_def unsigned_take_bit_eq take_bit_int_eq_self_iff)
qed

lemma cast_packed_int:
  assumes "op_width q = 32" "- (2 ^ 31) \<le> a (op_arg q)" "a (op_arg q) < 2 ^ 31"
  shows "cast C_int (packed q a) = a (op_arg q)"
proof -
  have "(ucast (packed q a) :: u32) = word_of_int (a (op_arg q))"
    by (rule bit_word_eqI) (auto simp: packed_def assms(1) bit_ucast_iff bit_take_bit_iff bit_word_of_int_iff)
  then show ?thesis
    using assms(2,3) by (simp add: sint_sbintrunc' signed_take_bit_int_eq_self)
qed

lemma cast_cut:
  assumes "ty \<noteq> C_int"
  shows "cast ty v = uint v mod 2 ^ type_width ty"
  using assms uint_lt2p [of v]
  by (cases ty) (simp_all add: unsigned_ucast_eq take_bit_eq_mod)

section \<open>Extended parameters\<close>

lemma byte_or: "byte (x OR y) k = byte x k OR byte y k"
  by (rule bit_word_eqI) (auto simp: word_bits)

lemma byte_swab64_nth: "k < 8 \<Longrightarrow> byte (swab64 x) k = byte x (7 - k)"
proof -
  assume k: "k < 8"
  then have "le_bytes 8 (swab64 x) ! k = rev (le_bytes 8 x) ! k" by (simp only: le_bytes_swab)
  then show ?thesis using k by (simp add: rev_nth)
qed

lemma swab64_or: "swab64 (x OR y) = swab64 x OR swab64 y"
  by (rule word_eq_by_bytes [of 8]) (simp_all add: byte_or byte_swab64_nth)

text \<open>What the packing of extended parameters needs from the host: the conversion undoes itself
  and distributes over \<open>OR\<close>.\<close>

locale le64_codec =
  fixes conv :: "u64 \<Rightarrow> u64"
  assumes conv_conv: "conv (conv x) = x"
    and conv_or: "conv (x OR y) = conv x OR conv y"
begin

lemma conv_0: "conv 0 = 0"
  by (metis conv_conv conv_or or.right_neutral or_eq_0_iff)

lemma map_conv_conv: "map conv (map conv ws) = ws"
  by (simp add: conv_conv comp_def)

lemma prep_op_converted:
  "cpu_to_le64 host = conv \<Longrightarrow> op_param p < length ws \<Longrightarrow>
   MC_PREP_OP host p a (map conv ws) = map conv (params (MC_CMD_OP p a \<lparr>header = h, params = ws\<rparr>))"
  by (simp add: MC_PREP_OP_def MC_CMD_OP_def map_update conv_or)

lemma prep_macro_converted:
  "cpu_to_le64 host = conv \<Longrightarrow> \<forall>p\<in>set ops. op_param p < length ws \<Longrightarrow>
   prep_macro host ops a (map conv ws) = map conv (params (cmd_macro ops a \<lparr>header = h, params = ws\<rparr>))"
proof (induction ops arbitrary: ws)
  case Nil
  then show ?case by (simp add: prep_macro_def cmd_macro_def)
next
  case (Cons p ops)
  define ws1 where "ws1 = params (MC_CMD_OP p a \<lparr>header = h, params = ws\<rparr>)"
  have c: "MC_CMD_OP p a \<lparr>header = h, params = ws\<rparr> = \<lparr>header = h, params = ws1\<rparr>"
    by (simp add: ws1_def MC_CMD_OP_def)
  have "length ws1 = length ws" by (simp add: ws1_def)
  then show ?case
    using Cons.IH [of ws1] Cons.prems prep_op_converted [of host p ws a h]
    by (simp add: prep_macro_def cmd_macro_def c flip: ws1_def)
qed

lemma ext_macro_converted:
  "cpu_to_le64 host = conv \<Longrightarrow> \<forall>p\<in>set ops. op_param p < length ws \<Longrightarrow>
   ext_macro host ops (map conv ws) b = rsp_macro ops \<lparr>header = h, params = ws\<rparr> b"
proof (induction ops arbitrary: b)
  case Nil
  then show ?case by (simp add: ext_macro_def rsp_macro_def)
next
  case (Cons p ops)
  then have "MC_EXT_OP host p (map conv ws) b = MC_RSP_OP p \<lparr>header = h, params = ws\<rparr> b"
    by (simp add: MC_EXT_OP_def MC_RSP_OP_def conv_conv)
  then show ?case using Cons by (simp add: ext_macro_def rsp_macro_def)
qed

end

interpretation le_codec: le64_codec "cpu_to_le64 little_endian_h"
  by unfold_locales (simp_all add: little_endian_h_def)

interpretation be_codec: le64_codec "cpu_to_le64 big_endian_h"
  by unfold_locales (simp_all add: big_endian_h_def swab64_or)

lemma host_codec: "host = little_endian_h \<or> host = big_endian_h \<Longrightarrow> le64_codec (cpu_to_le64 host)"
  using le_codec.le64_codec_axioms be_codec.le64_codec_axioms by blast

section \<open>The header\<close>

lemma bit_flags_mask [word_bits]: "bit MC_CMD_HDR_FLAGS_MASK n \<longleftrightarrow> n < 16"
  by (auto simp: MC_CMD_HDR_FLAGS_MASK_def word_bits)

lemma bit_header:
  "bit (mc_encode_cmd_header cid f tok) n \<longleftrightarrow>
     n < 16 \<and> bit f n \<or> n = 16 \<or> 32 \<le> n \<and> n < 48 \<and> bit tok (n - 32) \<or> 48 \<le> n \<and> n < 64 \<and> bit cid (n - 48)"
  by (auto simp: mc_encode_cmd_header_def Let_def word_bits bit_1_iff)

lemma header_fields:
  "mc_dec (mc_encode_cmd_header cid f tok) 48 16 = ucast cid"
  "HDR_READ_TOKEN (mc_encode_cmd_header cid f tok) = tok"
  "HDR_READ_STATUS (mc_encode_cmd_header cid f tok) = status_code STATUS_READY"
  "mc_dec (mc_encode_cmd_header cid f tok) 0 16 = ucast (f AND MC_CMD_HDR_FLAGS_MASK)"
  unfolding HDR_READ_TOKEN_def HDR_READ_STATUS_def status_code.simps
  by (rule bit_word_eqI, auto simp: bit_header word_bits bit_1_iff dest: bit_imp_le_length)+

section \<open>The portal\<close>

text \<open>Memory after a sequence of writes.\<close>

primrec write_event :: "portal_event \<Rightarrow> (nat \<Rightarrow> u64) \<Rightarrow> nat \<Rightarrow> u64" where
  "write_event (Writeq at v) m = m(at := v)"

definition portal_after :: "portal_event list \<Rightarrow> (nat \<Rightarrow> u64) \<Rightarrow> nat \<Rightarrow> u64" where
  "portal_after es m = fold write_event es m"

lemma write_params:
  "j < n \<Longrightarrow> fold write_event (map (\<lambda>i. Writeq (param_at i) (ws ! i)) [0..<n]) m (param_at j) = ws ! j"
  by (induction n) (auto simp: param_at_def less_Suc_eq)

lemma portal_after_write:
  "portal_after (mc_write_command cmd) m 0 = header cmd"
  "i < 7 \<Longrightarrow> portal_after (mc_write_command cmd) m (param_at i) = params cmd ! i"
  using write_params [of i 7 "params cmd" m]
  by (simp_all add: portal_after_def mc_write_command_def MC_CMD_NUM_OF_PARAMS_def param_at_def
      del: upt_rec_numeral)

end
