(* ===== verification/McNet.thy ===== *)
theory McNet
  imports McCmd
begin

text \<open>
  The packing macros of the network interface object (\<open>include/fsl-mc/fsl_dpni.h\<close>): parameter
  word, offset, width, type and argument of every operation, in the order of the source.
\<close>

definition DPNI_CMD_OPEN :: "mc_op list" where
  "DPNI_CMD_OPEN =
     [op 0 0 32 C_int ''dpni_id'']"

definition DPNI_PREP_CFG :: "mc_op list" where
  "DPNI_PREP_CFG =
     [op 0 0 32 C_uint16 ''cfg->adv.options'',
      op 0 32 8 C_uint16 ''cfg->adv.num_queues'',
      op 0 40 8 C_uint16 ''cfg->adv.num_tcs'',
      op 0 48 8 C_uint16 ''cfg->adv.mac_entries'',
      op 1 0 8 C_uint16 ''cfg->adv.vlan_entries'',
      op 1 16 8 C_uint16 ''cfg->adv.qos_entries'',
      op 1 32 16 C_uint16 ''cfg->adv.fs_entries'']"

definition DPNI_EXT_CFG :: "mc_op list" where
  "DPNI_EXT_CFG =
     [op 0 0 32 C_uint16 ''cfg->adv.options'',
      op 0 32 8 C_uint16 ''cfg->adv.num_queues'',
      op 0 40 8 C_uint16 ''cfg->adv.num_tcs'',
      op 0 48 8 C_uint16 ''cfg->adv.mac_entries'',
      op 1 0 8 C_uint16 ''cfg->adv.vlan_entries'',
      op 1 16 8 C_uint16 ''cfg->adv.qos_entries'',
      op 1 32 16 C_uint16 ''cfg->adv.fs_entries'']"

definition DPNI_CMD_CREATE :: "mc_op list" where
  "DPNI_CMD_CREATE =
     [op 0 0 32 C_uint32 ''cfg->adv.options'',
      op 0 32 8 C_uint8 ''cfg->adv.num_queues'',
      op 0 40 8 C_uint8 ''cfg->adv.num_tcs'',
      op 0 48 8 C_uint8 ''cfg->adv.mac_entries'',
      op 1 0 8 C_uint8 ''cfg->adv.vlan_entries'',
      op 1 16 8 C_uint8 ''cfg->adv.qos_entries'',
      op 1 32 16 C_uint8 ''cfg->adv.fs_entries'']"

definition DPNI_CMD_SET_POOLS :: "mc_op list" where
  "DPNI_CMD_SET_POOLS =
     [op 0 0 8 C_uint8 ''cfg->num_dpbp'',
      op 0 8 1 C_int ''cfg->pools[0].backup_pool'',
      op 0 9 1 C_int ''cfg->pools[1].backup_pool'',
      op 0 10 1 C_int ''cfg->pools[2].backup_pool'',
      op 0 11 1 C_int ''cfg->pools[3].backup_pool'',
      op 0 12 1 C_int ''cfg->pools[4].backup_pool'',
      op 0 13 1 C_int ''cfg->pools[5].backup_pool'',
      op 0 14 1 C_int ''cfg->pools[6].backup_pool'',
      op 0 15 1 C_int ''cfg->pools[7].backup_pool'',
      op 0 32 32 C_int ''cfg->pools[0].dpbp_id'',
      op 4 32 16 C_uint16 ''cfg->pools[0].buffer_size'',
      op 1 0 32 C_int ''cfg->pools[1].dpbp_id'',
      op 4 48 16 C_uint16 ''cfg->pools[1].buffer_size'',
      op 1 32 32 C_int ''cfg->pools[2].dpbp_id'',
      op 5 0 16 C_uint16 ''cfg->pools[2].buffer_size'',
      op 2 0 32 C_int ''cfg->pools[3].dpbp_id'',
      op 5 16 16 C_uint16 ''cfg->pools[3].buffer_size'',
      op 2 32 32 C_int ''cfg->pools[4].dpbp_id'',
      op 5 32 16 C_uint16 ''cfg->pools[4].buffer_size'',
      op 3 0 32 C_int ''cfg->pools[5].dpbp_id'',
      op 5 48 16 C_uint16 ''cfg->pools[5].buffer_size'',
      op 3 32 32 C_int ''cfg->pools[6].dpbp_id'',
      op 6 0 16 C_uint16 ''cfg->pools[6].buffer_size'',
      op 4 0 32 C_int ''cfg->pools[7].dpbp_id'',
      op 6 16 16 C_uint16 ''cfg->pools[7].buffer_size'']"

definition DPNI_RSP_GET_ATTR :: "mc_op list" where
  "DPNI_RSP_GET_ATTR =
     [op 0 0 32 C_int ''attr->options'',
      op 0 32 8 C_uint8 ''attr->max_num_queues'',
      op 0 40 8 C_uint8 ''attr->max_num_tcs'',
      op 0 48 8 C_uint8 ''attr->max_mac_entries'',
      op 1 0 8 C_uint8 ''attr->max_vlan_entries'',
      op 1 16 8 C_uint8 ''attr->max_qos_entries'',
      op 1 32 16 C_uint16 ''attr->max_fs_entries'',
      op 2 0 8 C_uint8 ''attr->max_qos_key_size'',
      op 2 8 8 C_uint8 ''attr->max_fs_key_size'',
      op 2 16 16 C_uint16 ''attr->wriop_version'']"

definition DPNI_CMD_SET_ERRORS_BEHAVIOR :: "mc_op list" where
  "DPNI_CMD_SET_ERRORS_BEHAVIOR =
     [op 0 0 32 C_uint32 ''cfg->errors'',
      op 0 32 4 C_enum ''cfg->error_action'',
      op 0 36 1 C_int ''cfg->set_frame_annotation'']"

definition DPNI_CMD_SET_BUFFER_LAYOUT :: "mc_op list" where
  "DPNI_CMD_SET_BUFFER_LAYOUT =
     [op 0 0 8 C_enum ''queue'',
      op 1 0 16 C_uint16 ''layout->private_data_size'',
      op 1 16 16 C_uint16 ''layout->data_align'',
      op 0 32 16 C_uint16 ''layout->options'',
      op 0 48 1 C_int ''layout->pass_timestamp'',
      op 0 49 1 C_int ''layout->pass_parser_result'',
      op 0 50 1 C_int ''layout->pass_frame_status'',
      op 1 32 16 C_uint16 ''layout->data_head_room'',
      op 1 48 16 C_uint16 ''layout->data_tail_room'']"

definition DPNI_RSP_GET_QDID :: "mc_op list" where
  "DPNI_RSP_GET_QDID =
     [op 0 0 16 C_uint16 ''qdid'']"

definition DPNI_RSP_GET_TX_DATA_OFFSET :: "mc_op list" where
  "DPNI_RSP_GET_TX_DATA_OFFSET =
     [op 0 0 16 C_uint16 ''data_offset'']"

definition DPNI_CMD_SET_LINK_CFG :: "mc_op list" where
  "DPNI_CMD_SET_LINK_CFG =
     [op 1 0 32 C_uint32 ''cfg->rate'',
      op 2 0 64 C_uint64 ''cfg->options'']"

definition DPNI_RSP_GET_LINK_STATE :: "mc_op list" where
  "DPNI_RSP_GET_LINK_STATE =
     [op 0 32 1 C_int ''state->up'',
      op 1 0 32 C_uint32 ''state->rate'',
      op 2 0 64 C_uint64 ''state->options'']"

definition DPNI_CMD_SET_PRIMARY_MAC_ADDR :: "mc_op list" where
  "DPNI_CMD_SET_PRIMARY_MAC_ADDR =
     [op 0 16 8 C_uint8 ''mac_addr[5]'',
      op 0 24 8 C_uint8 ''mac_addr[4]'',
      op 0 32 8 C_uint8 ''mac_addr[3]'',
      op 0 40 8 C_uint8 ''mac_addr[2]'',
      op 0 48 8 C_uint8 ''mac_addr[1]'',
      op 0 56 8 C_uint8 ''mac_addr[0]'']"

definition DPNI_RSP_GET_PRIMARY_MAC_ADDR :: "mc_op list" where
  "DPNI_RSP_GET_PRIMARY_MAC_ADDR =
     [op 0 16 8 C_uint8 ''mac_addr[5]'',
      op 0 24 8 C_uint8 ''mac_addr[4]'',
      op 0 32 8 C_uint8 ''mac_addr[3]'',
      op 0 40 8 C_uint8 ''mac_addr[2]'',
      op 0 48 8 C_uint8 ''mac_addr[1]'',
      op 0 56 8 C_uint8 ''mac_addr[0]'']"

definition DPNI_CMD_ADD_MAC_ADDR :: "mc_op list" where
  "DPNI_CMD_ADD_MAC_ADDR =
     [op 0 16 8 C_uint8 ''mac_addr[5]'',
      op 0 24 8 C_uint8 ''mac_addr[4]'',
      op 0 32 8 C_uint8 ''mac_addr[3]'',
      op 0 40 8 C_uint8 ''mac_addr[2]'',
      op 0 48 8 C_uint8 ''mac_addr[1]'',
      op 0 56 8 C_uint8 ''mac_addr[0]'']"

definition DPNI_CMD_REMOVE_MAC_ADDR :: "mc_op list" where
  "DPNI_CMD_REMOVE_MAC_ADDR =
     [op 0 16 8 C_uint8 ''mac_addr[5]'',
      op 0 24 8 C_uint8 ''mac_addr[4]'',
      op 0 32 8 C_uint8 ''mac_addr[3]'',
      op 0 40 8 C_uint8 ''mac_addr[2]'',
      op 0 48 8 C_uint8 ''mac_addr[1]'',
      op 0 56 8 C_uint8 ''mac_addr[0]'']"

definition DPNI_CMD_GET_QUEUE :: "mc_op list" where
  "DPNI_CMD_GET_QUEUE =
     [op 0 0 8 C_enum ''type'',
      op 0 8 8 C_uint8 ''tc'',
      op 0 16 8 C_uint8 ''index'']"

definition DPNI_RSP_GET_QUEUE :: "mc_op list" where
  "DPNI_RSP_GET_QUEUE =
     [op 1 0 32 C_uint32 ''(queue)->destination.id'',
      op 1 56 4 C_enum ''(queue)->destination.type'',
      op 1 62 1 C_char ''(queue)->destination.stash_ctrl'',
      op 1 63 1 C_char ''(queue)->destination.hold_active'',
      op 2 0 64 C_uint64 ''(queue)->flc'',
      op 3 0 64 C_uint64 ''(queue)->user_context'',
      op 4 0 32 C_uint32 ''(queue)->fqid'',
      op 4 32 16 C_uint16 ''(queue)->qdbin'']"

definition DPNI_CMD_SET_QUEUE :: "mc_op list" where
  "DPNI_CMD_SET_QUEUE =
     [op 0 0 8 C_enum ''type'',
      op 0 8 8 C_uint8 ''tc'',
      op 0 16 8 C_uint8 ''index'',
      op 0 24 8 C_uint8 ''(queue)->options'',
      op 1 0 32 C_uint32 ''(queue)->destination.id'',
      op 1 56 4 C_enum ''(queue)->destination.type'',
      op 1 62 1 C_char ''(queue)->destination.stash_ctrl'',
      op 1 63 1 C_char ''(queue)->destination.hold_active'',
      op 1 0 32 C_uint32 ''(queue)->destination.id'',
      op 2 0 64 C_uint64 ''(queue)->flc'',
      op 3 0 64 C_uint64 ''(queue)->user_context'']"

definition DPNI_CMD_GET_STATISTICS :: "mc_op list" where
  "DPNI_CMD_GET_STATISTICS =
     [op 0 0 8 C_uint8 ''page'']"

definition DPNI_RSP_GET_STATISTICS :: "mc_op list" where
  "DPNI_RSP_GET_STATISTICS =
     [op 0 0 64 C_uint64 ''(stat)->counter0'',
      op 1 0 64 C_uint64 ''(stat)->counter1'',
      op 2 0 64 C_uint64 ''(stat)->counter2'',
      op 3 0 64 C_uint64 ''(stat)->counter3'',
      op 4 0 64 C_uint64 ''(stat)->counter4'',
      op 5 0 64 C_uint64 ''(stat)->counter5'',
      op 6 0 64 C_uint64 ''(stat)->counter6'']"

text \<open>All layouts of the object, and the check that each is sound.\<close>

definition dpni_layouts :: "mc_op list list" where
  "dpni_layouts =
     [DPNI_CMD_OPEN, DPNI_PREP_CFG, DPNI_EXT_CFG, DPNI_CMD_CREATE, DPNI_CMD_SET_POOLS,
      DPNI_RSP_GET_ATTR, DPNI_CMD_SET_ERRORS_BEHAVIOR, DPNI_CMD_SET_BUFFER_LAYOUT,
      DPNI_RSP_GET_QDID, DPNI_RSP_GET_TX_DATA_OFFSET, DPNI_CMD_SET_LINK_CFG,
      DPNI_RSP_GET_LINK_STATE, DPNI_CMD_SET_PRIMARY_MAC_ADDR, DPNI_RSP_GET_PRIMARY_MAC_ADDR,
      DPNI_CMD_ADD_MAC_ADDR, DPNI_CMD_REMOVE_MAC_ADDR, DPNI_CMD_GET_QUEUE, DPNI_RSP_GET_QUEUE,
      DPNI_CMD_SET_QUEUE, DPNI_CMD_GET_STATISTICS, DPNI_RSP_GET_STATISTICS]"

lemma dpni_layouts_ok: "list_all layout_ok dpni_layouts"
  by code_simp

end
