(* ===== verification/McPorts.thy ===== *)
theory McPorts
  imports McCmd
begin

text \<open>
  The packing macros of the MAC, I/O portal and buffer pool objects
  (\<open>include/fsl-mc/fsl_dpmac.h\<close>, \<open>fsl_dpio.h\<close>, \<open>fsl_dpbp.h\<close>).
\<close>

definition DPMAC_CMD_CREATE :: "mc_op list" where
  "DPMAC_CMD_CREATE =
     [op 0 0 16 C_uint16 ''cfg->mac_id'']"

definition DPMAC_CMD_OPEN :: "mc_op list" where
  "DPMAC_CMD_OPEN =
     [op 0 0 32 C_int ''dpmac_id'']"

definition DPMAC_RSP_GET_ATTRIBUTES :: "mc_op list" where
  "DPMAC_RSP_GET_ATTRIBUTES =
     [op 0 0 32 C_int ''attr->phy_id'',
      op 0 32 32 C_int ''attr->id'',
      op 1 32 8 C_enum ''attr->link_type'',
      op 1 40 8 C_enum ''attr->eth_if'',
      op 2 0 32 C_uint32 ''attr->max_rate'']"

definition DPMAC_CMD_MDIO_READ :: "mc_op list" where
  "DPMAC_CMD_MDIO_READ =
     [op 0 0 8 C_uint8 ''cfg->phy_addr'',
      op 0 8 8 C_uint8 ''cfg->reg'']"

definition DPMAC_RSP_MDIO_READ :: "mc_op list" where
  "DPMAC_RSP_MDIO_READ =
     [op 0 16 16 C_uint16 ''data'']"

definition DPMAC_CMD_MDIO_WRITE :: "mc_op list" where
  "DPMAC_CMD_MDIO_WRITE =
     [op 0 0 8 C_uint8 ''cfg->phy_addr'',
      op 0 8 8 C_uint8 ''cfg->reg'',
      op 0 16 16 C_uint16 ''cfg->data'']"

definition DPMAC_RSP_GET_LINK_CFG :: "mc_op list" where
  "DPMAC_RSP_GET_LINK_CFG =
     [op 0 0 64 C_uint64 ''cfg->options'',
      op 1 0 32 C_uint32 ''cfg->rate'']"

definition DPMAC_CMD_SET_LINK_STATE :: "mc_op list" where
  "DPMAC_CMD_SET_LINK_STATE =
     [op 0 0 64 C_uint64 ''cfg->options'',
      op 1 0 32 C_uint32 ''cfg->rate'',
      op 2 0 1 C_int ''cfg->up'']"

definition DPMAC_CMD_GET_COUNTER :: "mc_op list" where
  "DPMAC_CMD_GET_COUNTER =
     [op 1 0 64 C_enum ''type'']"

definition DPMAC_RSP_GET_COUNTER :: "mc_op list" where
  "DPMAC_RSP_GET_COUNTER =
     [op 1 0 64 C_uint64 ''counter'']"

definition DPIO_CMD_OPEN :: "mc_op list" where
  "DPIO_CMD_OPEN =
     [op 0 0 32 C_int ''dpio_id'']"

definition DPIO_CMD_CREATE :: "mc_op list" where
  "DPIO_CMD_CREATE =
     [op 0 16 2 C_enum ''cfg->channel_mode'',
      op 0 32 8 C_uint8 ''cfg->num_priorities'']"

definition DPIO_RSP_GET_ATTR :: "mc_op list" where
  "DPIO_RSP_GET_ATTR =
     [op 0 0 32 C_int ''attr->id'',
      op 0 32 16 C_uint16 ''attr->qbman_portal_id'',
      op 0 48 8 C_uint8 ''attr->num_priorities'',
      op 0 56 4 C_enum ''attr->channel_mode'',
      op 1 0 64 C_uint64 ''attr->qbman_portal_ce_offset'',
      op 2 0 64 C_uint64 ''attr->qbman_portal_ci_offset'',
      op 3 32 32 C_uint32 ''attr->qbman_version'']"

definition DPBP_CMD_OPEN :: "mc_op list" where
  "DPBP_CMD_OPEN =
     [op 0 0 32 C_int ''dpbp_id'']"

definition DPBP_RSP_GET_ATTRIBUTES :: "mc_op list" where
  "DPBP_RSP_GET_ATTRIBUTES =
     [op 0 16 16 C_uint16 ''attr->bpid'',
      op 0 32 32 C_int ''attr->id'']"

text \<open>All layouts of the object, and the check that each is sound.\<close>

definition port_layouts :: "mc_op list list" where
  "port_layouts =
     [DPMAC_CMD_CREATE, DPMAC_CMD_OPEN, DPMAC_RSP_GET_ATTRIBUTES, DPMAC_CMD_MDIO_READ,
      DPMAC_RSP_MDIO_READ, DPMAC_CMD_MDIO_WRITE, DPMAC_RSP_GET_LINK_CFG,
      DPMAC_CMD_SET_LINK_STATE, DPMAC_CMD_GET_COUNTER, DPMAC_RSP_GET_COUNTER, DPIO_CMD_OPEN,
      DPIO_CMD_CREATE, DPIO_RSP_GET_ATTR, DPBP_CMD_OPEN, DPBP_RSP_GET_ATTRIBUTES]"

lemma port_layouts_ok: "list_all layout_ok port_layouts"
  by code_simp

end
