(* ===== verification/McContainer.thy ===== *)
theory McContainer
  imports McCmd
begin

text \<open>
  The packing macros of the resource container object (\<open>include/fsl-mc/fsl_dprc.h\<close>).
\<close>

definition DPRC_RSP_GET_CONTAINER_ID :: "mc_op list" where
  "DPRC_RSP_GET_CONTAINER_ID =
     [op 0 0 32 C_int ''container_id'']"

definition DPRC_CMD_OPEN :: "mc_op list" where
  "DPRC_CMD_OPEN =
     [op 0 0 32 C_int ''container_id'']"

definition DPRC_CMD_CREATE_CONTAINER :: "mc_op list" where
  "DPRC_CMD_CREATE_CONTAINER =
     [op 0 32 16 C_uint16 ''cfg->icid'',
      op 0 0 32 C_uint32 ''cfg->options'',
      op 1 32 32 C_int ''cfg->portal_id'',
      op 2 0 8 C_char ''cfg->label[0]'',
      op 2 8 8 C_char ''cfg->label[1]'',
      op 2 16 8 C_char ''cfg->label[2]'',
      op 2 24 8 C_char ''cfg->label[3]'',
      op 2 32 8 C_char ''cfg->label[4]'',
      op 2 40 8 C_char ''cfg->label[5]'',
      op 2 48 8 C_char ''cfg->label[6]'',
      op 2 56 8 C_char ''cfg->label[7]'',
      op 3 0 8 C_char ''cfg->label[8]'',
      op 3 8 8 C_char ''cfg->label[9]'',
      op 3 16 8 C_char ''cfg->label[10]'',
      op 3 24 8 C_char ''cfg->label[11]'',
      op 3 32 8 C_char ''cfg->label[12]'',
      op 3 40 8 C_char ''cfg->label[13]'',
      op 3 48 8 C_char ''cfg->label[14]'',
      op 3 56 8 C_char ''cfg->label[15]'']"

definition DPRC_RSP_CREATE_CONTAINER :: "mc_op list" where
  "DPRC_RSP_CREATE_CONTAINER =
     [op 1 0 32 C_int ''child_container_id'',
      op 2 0 64 C_uint64 ''child_portal_offset'']"

definition DPRC_CMD_DESTROY_CONTAINER :: "mc_op list" where
  "DPRC_CMD_DESTROY_CONTAINER =
     [op 0 0 32 C_int ''child_container_id'']"

definition DPRC_CMD_RESET_CONTAINER :: "mc_op list" where
  "DPRC_CMD_RESET_CONTAINER =
     [op 0 0 32 C_int ''child_container_id'']"

definition DPRC_RSP_GET_ATTRIBUTES :: "mc_op list" where
  "DPRC_RSP_GET_ATTRIBUTES =
     [op 0 0 32 C_int ''attr->container_id'',
      op 0 32 16 C_uint16 ''attr->icid'',
      op 1 0 32 C_uint32 ''attr->options'',
      op 1 32 32 C_int ''attr->portal_id'']"

definition DPRC_RSP_GET_OBJ_COUNT :: "mc_op list" where
  "DPRC_RSP_GET_OBJ_COUNT =
     [op 0 32 32 C_int ''obj_count'']"

definition DPRC_CMD_GET_OBJ :: "mc_op list" where
  "DPRC_CMD_GET_OBJ =
     [op 0 0 32 C_int ''obj_index'']"

definition DPRC_RSP_GET_OBJ :: "mc_op list" where
  "DPRC_RSP_GET_OBJ =
     [op 0 32 32 C_int ''obj_desc->id'',
      op 1 0 16 C_uint16 ''obj_desc->vendor'',
      op 1 16 8 C_uint8 ''obj_desc->irq_count'',
      op 1 24 8 C_uint8 ''obj_desc->region_count'',
      op 1 32 32 C_uint32 ''obj_desc->state'',
      op 2 0 16 C_uint16 ''obj_desc->ver_major'',
      op 2 16 16 C_uint16 ''obj_desc->ver_minor'',
      op 2 32 16 C_uint16 ''obj_desc->flags'',
      op 3 0 8 C_char ''obj_desc->type[0]'',
      op 3 8 8 C_char ''obj_desc->type[1]'',
      op 3 16 8 C_char ''obj_desc->type[2]'',
      op 3 24 8 C_char ''obj_desc->type[3]'',
      op 3 32 8 C_char ''obj_desc->type[4]'',
      op 3 40 8 C_char ''obj_desc->type[5]'',
      op 3 48 8 C_char ''obj_desc->type[6]'',
      op 3 56 8 C_char ''obj_desc->type[7]'',
      op 4 0 8 C_char ''obj_desc->type[8]'',
      op 4 8 8 C_char ''obj_desc->type[9]'',
      op 4 16 8 C_char ''obj_desc->type[10]'',
      op 4 24 8 C_char ''obj_desc->type[11]'',
      op 4 32 8 C_char ''obj_desc->type[12]'',
      op 4 40 8 C_char ''obj_desc->type[13]'',
      op 4 48 8 C_char ''obj_desc->type[14]'',
      op 4 56 8 C_char ''obj_desc->type[15]'',
      op 5 0 8 C_char ''obj_desc->label[0]'',
      op 5 8 8 C_char ''obj_desc->label[1]'',
      op 5 16 8 C_char ''obj_desc->label[2]'',
      op 5 24 8 C_char ''obj_desc->label[3]'',
      op 5 32 8 C_char ''obj_desc->label[4]'',
      op 5 40 8 C_char ''obj_desc->label[5]'',
      op 5 48 8 C_char ''obj_desc->label[6]'',
      op 5 56 8 C_char ''obj_desc->label[7]'',
      op 6 0 8 C_char ''obj_desc->label[8]'',
      op 6 8 8 C_char ''obj_desc->label[9]'',
      op 6 16 8 C_char ''obj_desc->label[10]'',
      op 6 24 8 C_char ''obj_desc->label[11]'',
      op 6 32 8 C_char ''obj_desc->label[12]'',
      op 6 40 8 C_char ''obj_desc->label[13]'',
      op 6 48 8 C_char ''obj_desc->label[14]'',
      op 6 56 8 C_char ''obj_desc->label[15]'']"

definition DPRC_CMD_GET_OBJ_DESC :: "mc_op list" where
  "DPRC_CMD_GET_OBJ_DESC =
     [op 0 0 32 C_int ''obj_id'',
      op 1 0 8 C_char ''obj_type[0]'',
      op 1 8 8 C_char ''obj_type[1]'',
      op 1 16 8 C_char ''obj_type[2]'',
      op 1 24 8 C_char ''obj_type[3]'',
      op 1 32 8 C_char ''obj_type[4]'',
      op 1 40 8 C_char ''obj_type[5]'',
      op 1 48 8 C_char ''obj_type[6]'',
      op 1 56 8 C_char ''obj_type[7]'',
      op 2 0 8 C_char ''obj_type[8]'',
      op 2 8 8 C_char ''obj_type[9]'',
      op 2 16 8 C_char ''obj_type[10]'',
      op 2 24 8 C_char ''obj_type[11]'',
      op 2 32 8 C_char ''obj_type[12]'',
      op 2 40 8 C_char ''obj_type[13]'',
      op 2 48 8 C_char ''obj_type[14]'',
      op 2 56 8 C_char ''obj_type[15]'']"

definition DPRC_RSP_GET_OBJ_DESC :: "mc_op list" where
  "DPRC_RSP_GET_OBJ_DESC =
     [op 0 32 32 C_int ''obj_desc->id'',
      op 1 0 16 C_uint16 ''obj_desc->vendor'',
      op 1 16 8 C_uint8 ''obj_desc->irq_count'',
      op 1 24 8 C_uint8 ''obj_desc->region_count'',
      op 1 32 32 C_uint32 ''obj_desc->state'',
      op 2 0 16 C_uint16 ''obj_desc->ver_major'',
      op 2 16 16 C_uint16 ''obj_desc->ver_minor'',
      op 2 32 16 C_uint16 ''obj_desc->flags'',
      op 3 0 8 C_char ''obj_desc->type[0]'',
      op 3 8 8 C_char ''obj_desc->type[1]'',
      op 3 16 8 C_char ''obj_desc->type[2]'',
      op 3 24 8 C_char ''obj_desc->type[3]'',
      op 3 32 8 C_char ''obj_desc->type[4]'',
      op 3 40 8 C_char ''obj_desc->type[5]'',
      op 3 48 8 C_char ''obj_desc->type[6]'',
      op 3 56 8 C_char ''obj_desc->type[7]'',
      op 4 0 8 C_char ''obj_desc->type[8]'',
      op 4 8 8 C_char ''obj_desc->type[9]'',
      op 4 16 8 C_char ''obj_desc->type[10]'',
      op 4 24 8 C_char ''obj_desc->type[11]'',
      op 4 32 8 C_char ''obj_desc->type[12]'',
      op 4 40 8 C_char ''obj_desc->type[13]'',
      op 4 48 8 C_char ''obj_desc->type[14]'',
      op 4 56 8 C_char ''obj_desc->type[15]'',
      op 5 0 8 C_char ''obj_desc->label[0]'',
      op 5 8 8 C_char ''obj_desc->label[1]'',
      op 5 16 8 C_char ''obj_desc->label[2]'',
      op 5 24 8 C_char ''obj_desc->label[3]'',
      op 5 32 8 C_char ''obj_desc->label[4]'',
      op 5 40 8 C_char ''obj_desc->label[5]'',
      op 5 48 8 C_char ''obj_desc->label[6]'',
      op 5 56 8 C_char ''obj_desc->label[7]'',
      op 6 0 8 C_char ''obj_desc->label[8]'',
      op 6 8 8 C_char ''obj_desc->label[9]'',
      op 6 16 8 C_char ''obj_desc->label[10]'',
      op 6 24 8 C_char ''obj_desc->label[11]'',
      op 6 32 8 C_char ''obj_desc->label[12]'',
      op 6 40 8 C_char ''obj_desc->label[13]'',
      op 6 48 8 C_char ''obj_desc->label[14]'',
      op 6 56 8 C_char ''obj_desc->label[15]'']"

definition DPRC_CMD_GET_RES_COUNT :: "mc_op list" where
  "DPRC_CMD_GET_RES_COUNT =
     [op 1 0 8 C_char ''type[0]'',
      op 1 8 8 C_char ''type[1]'',
      op 1 16 8 C_char ''type[2]'',
      op 1 24 8 C_char ''type[3]'',
      op 1 32 8 C_char ''type[4]'',
      op 1 40 8 C_char ''type[5]'',
      op 1 48 8 C_char ''type[6]'',
      op 1 56 8 C_char ''type[7]'',
      op 2 0 8 C_char ''type[8]'',
      op 2 8 8 C_char ''type[9]'',
      op 2 16 8 C_char ''type[10]'',
      op 2 24 8 C_char ''type[11]'',
      op 2 32 8 C_char ''type[12]'',
      op 2 40 8 C_char ''type[13]'',
      op 2 48 8 C_char ''type[14]'',
      op 2 56 8 C_char ''type[15]'']"

definition DPRC_RSP_GET_RES_COUNT :: "mc_op list" where
  "DPRC_RSP_GET_RES_COUNT =
     [op 0 0 32 C_int ''res_count'']"

definition DPRC_CMD_GET_RES_IDS :: "mc_op list" where
  "DPRC_CMD_GET_RES_IDS =
     [op 0 42 7 C_enum ''range_desc->iter_status'',
      op 1 0 32 C_int ''range_desc->base_id'',
      op 1 32 32 C_int ''range_desc->last_id'',
      op 2 0 8 C_char ''type[0]'',
      op 2 8 8 C_char ''type[1]'',
      op 2 16 8 C_char ''type[2]'',
      op 2 24 8 C_char ''type[3]'',
      op 2 32 8 C_char ''type[4]'',
      op 2 40 8 C_char ''type[5]'',
      op 2 48 8 C_char ''type[6]'',
      op 2 56 8 C_char ''type[7]'',
      op 3 0 8 C_char ''type[8]'',
      op 3 8 8 C_char ''type[9]'',
      op 3 16 8 C_char ''type[10]'',
      op 3 24 8 C_char ''type[11]'',
      op 3 32 8 C_char ''type[12]'',
      op 3 40 8 C_char ''type[13]'',
      op 3 48 8 C_char ''type[14]'',
      op 3 56 8 C_char ''type[15]'']"

definition DPRC_RSP_GET_RES_IDS :: "mc_op list" where
  "DPRC_RSP_GET_RES_IDS =
     [op 0 42 7 C_enum ''range_desc->iter_status'',
      op 1 0 32 C_int ''range_desc->base_id'',
      op 1 32 32 C_int ''range_desc->last_id'']"

definition DPRC_CMD_GET_OBJ_REGION :: "mc_op list" where
  "DPRC_CMD_GET_OBJ_REGION =
     [op 0 0 32 C_int ''obj_id'',
      op 0 48 8 C_uint8 ''region_index'',
      op 3 0 8 C_char ''obj_type[0]'',
      op 3 8 8 C_char ''obj_type[1]'',
      op 3 16 8 C_char ''obj_type[2]'',
      op 3 24 8 C_char ''obj_type[3]'',
      op 3 32 8 C_char ''obj_type[4]'',
      op 3 40 8 C_char ''obj_type[5]'',
      op 3 48 8 C_char ''obj_type[6]'',
      op 3 56 8 C_char ''obj_type[7]'',
      op 4 0 8 C_char ''obj_type[8]'',
      op 4 8 8 C_char ''obj_type[9]'',
      op 4 16 8 C_char ''obj_type[10]'',
      op 4 24 8 C_char ''obj_type[11]'',
      op 4 32 8 C_char ''obj_type[12]'',
      op 4 40 8 C_char ''obj_type[13]'',
      op 4 48 8 C_char ''obj_type[14]'',
      op 4 56 8 C_char ''obj_type[15]'']"

definition DPRC_RSP_GET_OBJ_REGION :: "mc_op list" where
  "DPRC_RSP_GET_OBJ_REGION =
     [op 1 0 32 C_uint32 ''region_desc->base_offset'',
      op 2 0 32 C_uint32 ''region_desc->size'',
      op 2 32 4 C_enum ''region_desc->type'',
      op 3 0 32 C_uint32 ''region_desc->flags'']"

definition DPRC_CMD_SET_OBJ_LABEL :: "mc_op list" where
  "DPRC_CMD_SET_OBJ_LABEL =
     [op 0 0 32 C_int ''obj_id'',
      op 1 0 8 C_char ''label[0]'',
      op 1 8 8 C_char ''label[1]'',
      op 1 16 8 C_char ''label[2]'',
      op 1 24 8 C_char ''label[3]'',
      op 1 32 8 C_char ''label[4]'',
      op 1 40 8 C_char ''label[5]'',
      op 1 48 8 C_char ''label[6]'',
      op 1 56 8 C_char ''label[7]'',
      op 2 0 8 C_char ''label[8]'',
      op 2 8 8 C_char ''label[9]'',
      op 2 16 8 C_char ''label[10]'',
      op 2 24 8 C_char ''label[11]'',
      op 2 32 8 C_char ''label[12]'',
      op 2 40 8 C_char ''label[13]'',
      op 2 48 8 C_char ''label[14]'',
      op 2 56 8 C_char ''label[15]'',
      op 3 0 8 C_char ''obj_type[0]'',
      op 3 8 8 C_char ''obj_type[1]'',
      op 3 16 8 C_char ''obj_type[2]'',
      op 3 24 8 C_char ''obj_type[3]'',
      op 3 32 8 C_char ''obj_type[4]'',
      op 3 40 8 C_char ''obj_type[5]'',
      op 3 48 8 C_char ''obj_type[6]'',
      op 3 56 8 C_char ''obj_type[7]'',
      op 4 0 8 C_char ''obj_type[8]'',
      op 4 8 8 C_char ''obj_type[9]'',
      op 4 16 8 C_char ''obj_type[10]'',
      op 4 24 8 C_char ''obj_type[11]'',
      op 4 32 8 C_char ''obj_type[12]'',
      op 4 40 8 C_char ''obj_type[13]'',
      op 4 48 8 C_char ''obj_type[14]'',
      op 4 56 8 C_char ''obj_type[15]'']"

definition DPRC_CMD_CONNECT :: "mc_op list" where
  "DPRC_CMD_CONNECT =
     [op 0 0 32 C_int ''endpoint1->id'',
      op 0 32 32 C_int ''endpoint1->if_id'',
      op 1 0 32 C_int ''endpoint2->id'',
      op 1 32 32 C_int ''endpoint2->if_id'',
      op 2 0 8 C_char ''endpoint1->type[0]'',
      op 2 8 8 C_char ''endpoint1->type[1]'',
      op 2 16 8 C_char ''endpoint1->type[2]'',
      op 2 24 8 C_char ''endpoint1->type[3]'',
      op 2 32 8 C_char ''endpoint1->type[4]'',
      op 2 40 8 C_char ''endpoint1->type[5]'',
      op 2 48 8 C_char ''endpoint1->type[6]'',
      op 2 56 8 C_char ''endpoint1->type[7]'',
      op 3 0 8 C_char ''endpoint1->type[8]'',
      op 3 8 8 C_char ''endpoint1->type[9]'',
      op 3 16 8 C_char ''endpoint1->type[10]'',
      op 3 24 8 C_char ''endpoint1->type[11]'',
      op 3 32 8 C_char ''endpoint1->type[12]'',
      op 3 40 8 C_char ''endpoint1->type[13]'',
      op 3 48 8 C_char ''endpoint1->type[14]'',
      op 3 56 8 C_char ''endpoint1->type[15]'',
      op 4 0 32 C_uint32 ''cfg->max_rate'',
      op 4 32 32 C_uint32 ''cfg->committed_rate'',
      op 5 0 8 C_char ''endpoint2->type[0]'',
      op 5 8 8 C_char ''endpoint2->type[1]'',
      op 5 16 8 C_char ''endpoint2->type[2]'',
      op 5 24 8 C_char ''endpoint2->type[3]'',
      op 5 32 8 C_char ''endpoint2->type[4]'',
      op 5 40 8 C_char ''endpoint2->type[5]'',
      op 5 48 8 C_char ''endpoint2->type[6]'',
      op 5 56 8 C_char ''endpoint2->type[7]'',
      op 6 0 8 C_char ''endpoint2->type[8]'',
      op 6 8 8 C_char ''endpoint2->type[9]'',
      op 6 16 8 C_char ''endpoint2->type[10]'',
      op 6 24 8 C_char ''endpoint2->type[11]'',
      op 6 32 8 C_char ''endpoint2->type[12]'',
      op 6 40 8 C_char ''endpoint2->type[13]'',
      op 6 48 8 C_char ''endpoint2->type[14]'',
      op 6 56 8 C_char ''endpoint2->type[15]'']"

definition DPRC_CMD_DISCONNECT :: "mc_op list" where
  "DPRC_CMD_DISCONNECT =
     [op 0 0 32 C_int ''endpoint->id'',
      op 0 32 16 C_uint16 ''endpoint->if_id'',
      op 1 0 8 C_char ''endpoint->type[0]'',
      op 1 8 8 C_char ''endpoint->type[1]'',
      op 1 16 8 C_char ''endpoint->type[2]'',
      op 1 24 8 C_char ''endpoint->type[3]'',
      op 1 32 8 C_char ''endpoint->type[4]'',
      op 1 40 8 C_char ''endpoint->type[5]'',
      op 1 48 8 C_char ''endpoint->type[6]'',
      op 1 56 8 C_char ''endpoint->type[7]'',
      op 2 0 8 C_char ''endpoint->type[8]'',
      op 2 8 8 C_char ''endpoint->type[9]'',
      op 2 16 8 C_char ''endpoint->type[10]'',
      op 2 24 8 C_char ''endpoint->type[11]'',
      op 2 32 8 C_char ''endpoint->type[12]'',
      op 2 40 8 C_char ''endpoint->type[13]'',
      op 2 48 8 C_char ''endpoint->type[14]'',
      op 2 56 8 C_char ''endpoint->type[15]'']"

definition DPRC_CMD_GET_CONNECTION :: "mc_op list" where
  "DPRC_CMD_GET_CONNECTION =
     [op 0 0 32 C_int ''endpoint1->id'',
      op 0 32 32 C_int ''endpoint1->if_id'',
      op 1 0 8 C_char ''endpoint1->type[0]'',
      op 1 8 8 C_char ''endpoint1->type[1]'',
      op 1 16 8 C_char ''endpoint1->type[2]'',
      op 1 24 8 C_char ''endpoint1->type[3]'',
      op 1 32 8 C_char ''endpoint1->type[4]'',
      op 1 40 8 C_char ''endpoint1->type[5]'',
      op 1 48 8 C_char ''endpoint1->type[6]'',
      op 1 56 8 C_char ''endpoint1->type[7]'',
      op 2 0 8 C_char ''endpoint1->type[8]'',
      op 2 8 8 C_char ''endpoint1->type[9]'',
      op 2 16 8 C_char ''endpoint1->type[10]'',
      op 2 24 8 C_char ''endpoint1->type[11]'',
      op 2 32 8 C_char ''endpoint1->type[12]'',
      op 2 40 8 C_char ''endpoint1->type[13]'',
      op 2 48 8 C_char ''endpoint1->type[14]'',
      op 2 56 8 C_char ''endpoint1->type[15]'']"

definition DPRC_RSP_GET_CONNECTION :: "mc_op list" where
  "DPRC_RSP_GET_CONNECTION =
     [op 3 0 32 C_int ''endpoint2->id'',
      op 3 32 16 C_uint16 ''endpoint2->if_id'',
      op 4 0 8 C_char ''endpoint2->type[0]'',
      op 4 8 8 C_char ''endpoint2->type[1]'',
      op 4 16 8 C_char ''endpoint2->type[2]'',
      op 4 24 8 C_char ''endpoint2->type[3]'',
      op 4 32 8 C_char ''endpoint2->type[4]'',
      op 4 40 8 C_char ''endpoint2->type[5]'',
      op 4 48 8 C_char ''endpoint2->type[6]'',
      op 4 56 8 C_char ''endpoint2->type[7]'',
      op 5 0 8 C_char ''endpoint2->type[8]'',
      op 5 8 8 C_char ''endpoint2->type[9]'',
      op 5 16 8 C_char ''endpoint2->type[10]'',
      op 5 24 8 C_char ''endpoint2->type[11]'',
      op 5 32 8 C_char ''endpoint2->type[12]'',
      op 5 40 8 C_char ''endpoint2->type[13]'',
      op 5 48 8 C_char ''endpoint2->type[14]'',
      op 5 56 8 C_char ''endpoint2->type[15]'',
      op 6 0 32 C_int ''state'']"

text \<open>All layouts of the object, and the check that each is sound.\<close>

definition dprc_layouts :: "mc_op list list" where
  "dprc_layouts =
     [DPRC_RSP_GET_CONTAINER_ID, DPRC_CMD_OPEN, DPRC_CMD_CREATE_CONTAINER,
      DPRC_RSP_CREATE_CONTAINER, DPRC_CMD_DESTROY_CONTAINER, DPRC_CMD_RESET_CONTAINER,
      DPRC_RSP_GET_ATTRIBUTES, DPRC_RSP_GET_OBJ_COUNT, DPRC_CMD_GET_OBJ, DPRC_RSP_GET_OBJ,
      DPRC_CMD_GET_OBJ_DESC, DPRC_RSP_GET_OBJ_DESC, DPRC_CMD_GET_RES_COUNT,
      DPRC_RSP_GET_RES_COUNT, DPRC_CMD_GET_RES_IDS, DPRC_RSP_GET_RES_IDS,
      DPRC_CMD_GET_OBJ_REGION, DPRC_RSP_GET_OBJ_REGION, DPRC_CMD_SET_OBJ_LABEL, DPRC_CMD_CONNECT,
      DPRC_CMD_DISCONNECT, DPRC_CMD_GET_CONNECTION, DPRC_RSP_GET_CONNECTION]"

lemma dprc_layouts_ok: "list_all layout_ok dprc_layouts"
  by code_simp

end
