(* ===== verification/McObjects.thy ===== *)
theory McObjects
  imports McNet McPorts McContainer
begin

text \<open>
  What the packing macros of all objects have in common: no layout has overlapping fields, so
  that arguments survive a command and its response, but for three fields whose macro names too
  narrow a type; and the order in which a command reaches its portal.
\<close>

section \<open>Properties of the layouts\<close>

definition mc_layouts :: "mc_op list list" where
  "mc_layouts = dpni_layouts @ port_layouts @ dprc_layouts"

lemma mc_layouts_sound: "list_all layout_ok mc_layouts"
  using dpni_layouts_ok port_layouts_ok dprc_layouts_ok by (simp add: mc_layouts_def)

text \<open>The values that a field can hold: those of its bits, and for an \<open>int\<close> in 32 bits the
  negative ones too.\<close>

definition field_holds :: "mc_op \<Rightarrow> int \<Rightarrow> bool" where
  "field_holds q v \<longleftrightarrow>
     (if op_type q = C_int \<and> op_width q = 32 then - (2 ^ 31) \<le> v \<and> v < 2 ^ 31 else 0 \<le> v \<and> v < 2 ^ op_width q)"

text \<open>The fields whose macro names a type that has fewer bits than they have.\<close>

definition narrow_fields :: "mc_op list" where
  "narrow_fields =
     [op 0 0 32 C_uint16 ''cfg->adv.options'',
      op 1 32 16 C_uint8 ''cfg->adv.fs_entries'',
      op 1 0 64 C_enum ''type'']"

lemma other_fields_fit:
  "list_all (list_all (\<lambda>q. op_width q \<le> type_width (op_type q) \<or> q \<in> set narrow_fields)) mc_layouts"
  by code_simp

lemma narrow_types: "q \<in> set narrow_fields \<Longrightarrow> op_type q \<noteq> C_int"
  by (auto simp: narrow_fields_def op_def)

lemma cast_field:
  assumes "op_width q \<le> 64" "field_holds q (a (op_arg q))"
    and "op_width q \<le> type_width (op_type q) \<or> q \<in> set narrow_fields"
  shows "cast (op_type q) (packed q a) =
    (if q \<in> set narrow_fields then a (op_arg q) mod 2 ^ type_width (op_type q) else a (op_arg q))"
proof (cases "op_type q = C_int \<and> op_width q = 32")
  case True
  then have "q \<notin> set narrow_fields" using narrow_types by blast
  then show ?thesis using True cast_packed_int [of q a] assms(2) by (simp add: field_holds_def del: cast.simps)
next
  case False
  then have f: "0 \<le> a (op_arg q)" "a (op_arg q) < 2 ^ op_width q" using assms(2) by (auto simp: field_holds_def)
  have u: "uint (packed q a) = a (op_arg q)" by (rule packed_small [where a = a and q = q, OF f assms(1)])
  show ?thesis
  proof (cases "q \<in> set narrow_fields")
    case True
    then show ?thesis using cast_cut [OF narrow_types [OF True], of "packed q a"] u by simp
  next
    case wide: False
    let ?n = "if op_type q = C_int then 31 else type_width (op_type q)"
    have "op_width q \<le> ?n" using assms(3) wide False by auto
    then have "(2 :: int) ^ op_width q \<le> 2 ^ ?n" by (intro power_increasing) auto
    then have "uint (packed q a) < 2 ^ ?n" using u f(2) by linarith
    then have "unat (packed q a) < 2 ^ ?n" by (metis of_nat_less_iff of_nat_numeral of_nat_power uint_nat)
    then show ?thesis using cast_small u wide by simp
  qed
qed

text \<open>C34: reading a command back with its own layout returns every argument that its field can
  hold, negative object numbers included; for three fields, whose macro names a type that is too
  narrow for them, it returns the low bits that the type has room for.\<close>

theorem mc_round_trip:
  assumes "t \<in> set mc_layouts" "q \<in> set t" "params cmd = replicate 7 0" "field_holds q (a (op_arg q))"
  shows "rsp_macro t (cmd_macro t a cmd) b (op_arg q) =
    (if q \<in> set narrow_fields then a (op_arg q) mod 2 ^ type_width (op_type q) else a (op_arg q))"
proof -
  have ok: "layout_ok t" using mc_layouts_sound assms(1) by (simp add: list_all_iff)
  have w: "op_width q \<le> 64" using layout_in_word [OF ok assms(2)] by (simp add: in_word_def)
  have "op_width q \<le> type_width (op_type q) \<or> q \<in> set narrow_fields"
    using other_fields_fit assms(1,2) by (auto simp: list_all_iff)
  then show ?thesis using macro_round_trip [OF ok assms(2,3)] cast_field [of q a] w assms(4) by simp
qed

theorem mc_round_trip_witness:
  "rsp_macro DPMAC_CMD_OPEN (cmd_macro DPMAC_CMD_OPEN (\<lambda>_. - 7) \<lparr>header = 0, params = replicate 7 0\<rparr>)
     (\<lambda>_. 0) ''dpmac_id'' = - 7"
  using mc_round_trip [of DPMAC_CMD_OPEN "op 0 0 32 C_int ''dpmac_id''"
      "\<lparr>header = 0, params = replicate 7 0\<rparr>" "\<lambda>_. - 7" "\<lambda>_. 0"]
  by (simp add: mc_layouts_def port_layouts_def DPMAC_CMD_OPEN_def op_def field_holds_def narrow_fields_def)

section \<open>The extended configuration of a network interface\<close>

text \<open>\<open>DPNI_PREP_CFG\<close> and \<open>DPNI_EXT_CFG\<close> list the same fields, so that reading
  returns what writing packed, cast to the type that the macro names.\<close>

lemma ext_is_prep: "DPNI_EXT_CFG = DPNI_PREP_CFG"
  by (simp add: DPNI_EXT_CFG_def DPNI_PREP_CFG_def)

lemma prep_cfg_layout: "layout_ok DPNI_PREP_CFG"
  using dpni_layouts_ok by (simp add: dpni_layouts_def)

lemma prep_cfg_params: "p \<in> set DPNI_PREP_CFG \<Longrightarrow> op_param p < 7"
  using layout_in_word [OF prep_cfg_layout] by (auto simp: in_word_def MC_CMD_NUM_OF_PARAMS_def)

lemma ext_prep_field:
  assumes host: "host = little_endian_h \<or> host = big_endian_h" and q: "q \<in> set DPNI_PREP_CFG"
  shows "ext_macro host DPNI_EXT_CFG (prep_macro host DPNI_PREP_CFG a (replicate 7 0)) b (op_arg q) =
    cast (op_type q) (packed q a)"
proof -
  let ?conv = "cpu_to_le64 host" and ?cmd = "\<lparr>header = 0, params = replicate 7 0\<rparr>"
  have codec: "le64_codec ?conv" by (rule host_codec [OF host])
  have z: "replicate 7 0 = map ?conv (replicate 7 0)"
    by (simp add: map_replicate_const le64_codec.conv_0 [OF codec])
  have "prep_macro host DPNI_PREP_CFG a (replicate 7 0) = map ?conv (params (cmd_macro DPNI_PREP_CFG a ?cmd))"
    by (subst z, rule le64_codec.prep_macro_converted [OF codec refl]) (simp add: prep_cfg_params)
  moreover have "ext_macro host DPNI_PREP_CFG (map ?conv (params (cmd_macro DPNI_PREP_CFG a ?cmd))) b =
      rsp_macro DPNI_PREP_CFG \<lparr>header = 0, params = params (cmd_macro DPNI_PREP_CFG a ?cmd)\<rparr> b"
    by (rule le64_codec.ext_macro_converted [OF codec refl]) (simp add: prep_cfg_params)
  moreover have "rsp_macro DPNI_PREP_CFG \<lparr>header = 0, params = params (cmd_macro DPNI_PREP_CFG a ?cmd)\<rparr> b (op_arg q) =
      rsp_macro DPNI_PREP_CFG (cmd_macro DPNI_PREP_CFG a ?cmd) b (op_arg q)"
    using rsp_macro_arg layout_compatible [OF prep_cfg_layout q] by simp
  ultimately show ?thesis
    using macro_round_trip [OF prep_cfg_layout q, of ?cmd a b] by (simp add: ext_is_prep)
qed

lemma cast16_packed:
  "cast C_uint16 (take_bit w (word_of_int v)) = v mod 2 ^ min 16 w" if "w \<le> 64"
proof -
  have "cast C_uint16 (take_bit w (word_of_int v)) = take_bit (min 16 w) v"
    by (simp add: unsigned_ucast_eq unsigned_take_bit_eq uint_word_of_int_eq
        min.absorb1 [OF that] min.commute [of w])
  then show ?thesis by (simp only: take_bit_eq_mod)
qed

definition cfg_back :: "conversions \<Rightarrow> args \<Rightarrow> args \<Rightarrow> args" where
  "cfg_back host a b = ext_macro host DPNI_EXT_CFG (prep_macro host DPNI_PREP_CFG a (replicate 7 0)) b"

lemma cfg_back_field:
  assumes "host = little_endian_h \<or> host = big_endian_h" "op p off w C_uint16 arg \<in> set DPNI_PREP_CFG" "n = min 16 w"
  shows "cfg_back host a b arg = a arg mod 2 ^ n"
proof -
  have "w \<le> 64" using layout_in_word [OF prep_cfg_layout assms(2)] by (simp add: in_word_def op_def)
  then show ?thesis using ext_prep_field [OF assms(1,2), of a b] cast16_packed [of w]
    by (simp add: assms(3) cfg_back_def packed_def op_def del: cast.simps)
qed

lemma prep_cfg_ops:
  "op 0 0 32 C_uint16 ''cfg->adv.options'' \<in> set DPNI_PREP_CFG"
  "op 0 32 8 C_uint16 ''cfg->adv.num_queues'' \<in> set DPNI_PREP_CFG"
  "op 0 40 8 C_uint16 ''cfg->adv.num_tcs'' \<in> set DPNI_PREP_CFG"
  "op 0 48 8 C_uint16 ''cfg->adv.mac_entries'' \<in> set DPNI_PREP_CFG"
  "op 1 0 8 C_uint16 ''cfg->adv.vlan_entries'' \<in> set DPNI_PREP_CFG"
  "op 1 16 8 C_uint16 ''cfg->adv.qos_entries'' \<in> set DPNI_PREP_CFG"
  "op 1 32 16 C_uint16 ''cfg->adv.fs_entries'' \<in> set DPNI_PREP_CFG"
  unfolding DPNI_PREP_CFG_def by (intro list.set_intros)+

text \<open>on either host, what \<open>DPNI_EXT_CFG\<close> reads back from \<open>DPNI_PREP_CFG\<close> is the
  low byte of each of the five counters and the low 16 bits of the filter entries; of the
  32-bit \<open>options\<close> it is only the low 16 bits, because the macro casts to \<open>uint16_t\<close>.\<close>

theorem dpni_cfg_round_trip:
  assumes "host = little_endian_h \<or> host = big_endian_h"
  shows "cfg_back host a b ''cfg->adv.options'' = a ''cfg->adv.options'' mod 2 ^ 16
    \<and> cfg_back host a b ''cfg->adv.fs_entries'' = a ''cfg->adv.fs_entries'' mod 2 ^ 16
    \<and> cfg_back host a b ''cfg->adv.num_queues'' = a ''cfg->adv.num_queues'' mod 2 ^ 8
    \<and> cfg_back host a b ''cfg->adv.num_tcs'' = a ''cfg->adv.num_tcs'' mod 2 ^ 8
    \<and> cfg_back host a b ''cfg->adv.mac_entries'' = a ''cfg->adv.mac_entries'' mod 2 ^ 8
    \<and> cfg_back host a b ''cfg->adv.vlan_entries'' = a ''cfg->adv.vlan_entries'' mod 2 ^ 8
    \<and> cfg_back host a b ''cfg->adv.qos_entries'' = a ''cfg->adv.qos_entries'' mod 2 ^ 8"
  by (intro conjI prep_cfg_ops [THEN cfg_back_field [OF assms]]) simp_all

theorem dpni_cfg_round_trip_witness:
  "cfg_back big_endian_h (\<lambda>_. 0x20010) (\<lambda>_. 0) ''cfg->adv.options'' = 0x10"
  using dpni_cfg_round_trip [of big_endian_h "\<lambda>_. 0x20010" "\<lambda>_. 0"] by simp

section \<open>Submitting a command\<close>

text \<open>the words that \<open>mc_write_command\<close> stores are the parameters and, as its very
  last store, the header that submits them; the header of \<open>mc_encode_cmd_header\<close> gives back
  command, token and the low half of the flags and says ready, so that the flag that disables
  the interrupt, bit 24, never reaches the device.\<close>

theorem mc_command_submitted:
  "(\<forall>m. portal_after (mc_write_command cmd) m 0 = header cmd \<and>
      list_all (\<lambda>i. portal_after (mc_write_command cmd) m (param_at i) = params cmd ! i) [0..<7])
   \<and> last (mc_write_command cmd) = Writeq 0 (header cmd)
   \<and> mc_dec (mc_encode_cmd_header cid f tok) 48 16 = ucast cid
   \<and> HDR_READ_TOKEN (mc_encode_cmd_header cid f tok) = tok
   \<and> HDR_READ_STATUS (mc_encode_cmd_header cid f tok) = status_code STATUS_READY
   \<and> mc_encode_cmd_header cid (f OR 0x01000000) tok = mc_encode_cmd_header cid f tok"
proof -
  have "(f OR 0x01000000) AND MC_CMD_HDR_FLAGS_MASK = f AND MC_CMD_HDR_FLAGS_MASK"
    by (simp add: MC_CMD_HDR_FLAGS_MASK_def bit.conj_disj_distrib2)
  then have "mc_encode_cmd_header cid (f OR 0x01000000) tok = mc_encode_cmd_header cid f tok"
    by (simp add: mc_encode_cmd_header_def)
  then show ?thesis
    using portal_after_write header_fields
    by (simp add: list_all_iff mc_write_command_def del: upt_rec_numeral)
qed

end
