(* ===== verification/Division.thy ===== *)
theory Division
  imports Log2
begin

text \<open>
  64-bit division on a 32-bit target (\<open>include/div64.h\<close>): the macro \<open>do_div\<close>, which divides
  its first argument in place and yields the remainder, its multiplication by a reciprocal for
  constant divisors, and the 64-bit variant.  \<open>__div64_32\<close> is not part of the repository:
  it is the argument \<open>ext\<close>.
\<close>

section \<open>The code\<close>

text \<open>High half of a product, \<open>((bias ? m : 0) + m * n) >> 64\<close>, from 32-bit halves.\<close>

definition arch_xprod_64 :: "u64 \<Rightarrow> u64 \<Rightarrow> bool \<Rightarrow> u64" where
  "arch_xprod_64 m n bias =
     (let m_lo = ucast (ucast m :: u32); m_hi = ucast (ucast (drop_bit 32 m) :: u32);
          n_lo = ucast (ucast n :: u32); n_hi = ucast (ucast (drop_bit 32 n) :: u32);
          overflow = m AND (push_bit 63 1 OR push_bit 31 1) \<noteq> 0;
          res = (if \<not> bias then drop_bit 32 (m_lo * n_lo)
                 else if \<not> overflow then drop_bit 32 (m + m_lo * n_lo)
                 else let res = m + m_lo * n_lo;
                          tmp = (if res < m then push_bit 32 1 else 0)
                      in drop_bit 32 res + tmp);
          res = (if \<not> overflow then drop_bit 32 (res + m_lo * n_hi + m_hi * n_lo)
                 else let res = res + m_lo * n_hi; tmp = res;
                          res = res + m_hi * n_lo;
                          tmp = (if res < tmp then push_bit 32 1 else 0)
                      in drop_bit 32 res + tmp)
      in res + m_hi * n_hi)"

text \<open>The reciprocal \<open>m\<close> of a constant \<open>b\<close>, scaled by \<open>p\<close>, rounded up or down.  The shift
  \<open>1 << ilog2(b)\<close> is one of an \<open>int\<close>: for a divisor of at least \<open>2^31\<close> it sets the sign
  bit, which the conversion to \<open>u32\<close> keeps.\<close>

definition const_p :: "u32 \<Rightarrow> u32" where
  "const_p b = push_bit (nat (ilog2 True b)) 1"

definition const_m_up :: "u32 \<Rightarrow> u32 \<Rightarrow> u64" where
  "const_m_up b p = (NOT 0 div ucast b) * ucast p +
     (((NOT 0 mod ucast b + 1) * ucast p) + ucast b - 1) div ucast b"

definition const_m_down :: "u32 \<Rightarrow> u32 \<Rightarrow> u64" where
  "const_m_down b p = (NOT 0 div ucast b) * ucast p + ((NOT 0 mod ucast b + 1) * ucast p) div ucast b"

text \<open>The test value: one less than the dividend with the highest result.\<close>

definition const_x :: "u32 \<Rightarrow> u64" where
  "const_x b = NOT 0 div ucast b * ucast b - 1"

definition const_test :: "u64 \<Rightarrow> u64 \<Rightarrow> u32 \<Rightarrow> u64" where
  "const_test m x p =
     (let lo = 0xffffffff;
          res = drop_bit 32 ((m AND lo) * (x AND lo));
          res = res + (m AND lo) * drop_bit 32 x; t = res;
          res = res + (x AND lo) * drop_bit 32 m;
          t = (if res < t then push_bit 32 1 else 0);
          res = drop_bit 32 res + t;
          res = res + drop_bit 32 m * drop_bit 32 x
      in res div ucast p)"

text \<open>Reducing \<open>m / p\<close>, clearing bit 31 of \<open>m\<close> where possible.\<close>

definition const_reduce :: "u64 \<Rightarrow> u32 \<Rightarrow> u64 \<times> u32" where
  "const_reduce m p =
     (let bits = ucast (- (m AND - m)) :: u32;
          bits = bits OR ucast (drop_bit 32 m);
          bits = push_bit 1 (NOT bits)
      in if bits = 0 then (m div (m AND - m), ucast (ucast p div (m AND - m)))
         else (drop_bit (nat (ilog2 True bits)) m, drop_bit (nat (ilog2 True bits)) p))"

definition div64_const32 :: "u64 \<Rightarrow> u32 \<Rightarrow> u64" where
  "div64_const32 n b =
     (let p = const_p b; m = const_m_up b p; x = const_x b;
          res = const_test m x p;
          odd_part = b div (b AND - b)
      in if NOT 0 mod (ucast odd_part :: u64) = 0 then
           arch_xprod_64 (NOT 0 div ucast odd_part) (n div ucast (b AND - b)) True div ucast (1 :: u32)
         else if res \<noteq> x div ucast b then arch_xprod_64 (const_m_down b p) n True div ucast p
         else case const_reduce m p of (m, p) \<Rightarrow> arch_xprod_64 m n False div ucast p)"

text \<open>The macro \<open>do_div\<close> of a 32-bit target: the new value of its argument and the
  remainder.  The flag says whether the compiler takes the divisor for a constant.\<close>

type_synonym long_div = "u64 \<Rightarrow> u32 \<Rightarrow> u64 \<times> u32"

definition do_div32 :: "long_div \<Rightarrow> bool \<Rightarrow> u64 \<Rightarrow> u32 \<Rightarrow> ub + u64 \<times> u32" where
  "do_div32 ext const n base =
     (if const \<and> is_power_of_2 base then
        Inr (drop_bit (nat (ilog2 True base)) n, ucast (n AND ucast (base - 1)))
      else if const \<and> base \<noteq> 0 then
        let n_lo = ucast n; n = div64_const32 n base; res_lo = ucast n
        in Inr (n, n_lo - res_lo * base)
      else if drop_bit 32 n = 0 then
        if base = 0 then Inl DivByZero
        else Inr (ucast (ucast n div base), ucast n mod base)
      else Inr (ext n base))"

text \<open>The macro of a 64-bit target.\<close>

definition do_div64 :: "u64 \<Rightarrow> u32 \<Rightarrow> ub + u64 \<times> u32" where
  "do_div64 n base =
     (if base = 0 then Inl DivByZero else Inr (n div ucast base, ucast (n mod ucast base)))"

text \<open>The wrapper that returns the quotient; the macro of the target is its first argument.\<close>

definition lldiv :: "(u64 \<Rightarrow> u32 \<Rightarrow> ub + u64 \<times> u32) \<Rightarrow> u64 \<Rightarrow> u32 \<Rightarrow> ub + u64" where
  "lldiv do_div dividend divisor = bindE (do_div dividend divisor) (\<lambda>(res, rem). Inr res)"

section \<open>The high half of a product\<close>

text \<open>Adding with the carry that the comparison detects.\<close>

lemma unat_drop_add_carry:
  fixes a b :: u64
  shows "unat (drop_bit 32 (a + b) + (if a + b < a then push_bit 32 1 else 0)) =
    (unat a + unat b) div 2 ^ 32"
proof (cases "unat a + unat b < 2 ^ 64")
  case True
  then have "unat (a + b) = unat a + unat b" by (intro unat_add_exact) simp
  then show ?thesis by (simp add: word_less_nat_alt unat_drop_bit)
next
  case False
  define s where "s = unat a + unat b - 2 ^ 64"
  have l: "unat a < 2 ^ 64" "unat b < 2 ^ 64" using unat_less_pow [of a] unat_less_pow [of b] by simp_all
  then have s: "unat a + unat b = s + 2 ^ 64" "s < unat a" "s < 2 ^ 64" using False by (simp_all add: s_def)
  then have ab: "unat (a + b) = s" by (simp add: unat_word_ariths)
  have "unat (drop_bit 32 (a + b) + push_bit 32 1 :: u64) = s div 2 ^ 32 + 2 ^ 32"
    using ab s(3) by (subst unat_add_exact) (simp_all add: unat_drop_bit unat_push_bit)
  also have "\<dots> = (unat a + unat b) div 2 ^ 32" by (simp add: s(1))
  finally show ?thesis using ab s(2) by (simp add: word_less_nat_alt)
qed

text \<open>Halves and products of halves.\<close>

lemma unat_ucast_down:
  fixes x :: "'a::len word"
  shows "LENGTH('b::len) \<le> LENGTH('a) \<Longrightarrow> unat (ucast x :: 'b word) = unat x mod 2 ^ LENGTH('b)"
  by (simp only: unsigned_ucast_eq take_bit_eq_mod)

lemma unat_ucast_up:
  fixes x :: "'a::len word"
  assumes "LENGTH('a) \<le> LENGTH('b::len)"
  shows "unat (ucast x :: 'b word) = unat x"
proof -
  have "unat x < 2 ^ LENGTH('b)"
    using unat_less_pow [of x] power_increasing [OF assms, of "2 :: nat"] by linarith
  then show ?thesis by (simp only: unsigned_ucast_eq take_bit_eq_mod mod_less)
qed

lemma unat_low: "unat (ucast (ucast (x :: u64) :: u32) :: u64) = unat x mod 2 ^ 32"
  by (subst unat_ucast_up, simp, subst unat_ucast_down, simp_all only: len_num1 len_bit0 mult_1_right)
     simp

lemma unat_high: "unat (ucast (ucast (drop_bit 32 (x :: u64)) :: u32) :: u64) = unat x div 2 ^ 32"
proof -
  have "unat x div 2 ^ 32 < 2 ^ 32" using unat_less_pow [of x] by simp
  then show ?thesis by (simp only: unat_low unat_drop_bit mod_less)
qed

lemma half_bounds: "unat (x :: u64) mod 2 ^ 32 < 2 ^ 32" "unat (x :: u64) div 2 ^ 32 < 2 ^ 32"
  using unat_less_pow [of x] by simp_all

lemma unat_mult_halves:
  fixes a b :: u64
  assumes "unat a < 2 ^ 32" "unat b < 2 ^ 32"
  shows "unat (a * b) = unat a * unat b" "unat a * unat b \<le> (2 ^ 32 - 1) * (2 ^ 32 - 1)"
proof -
  show l: "unat a * unat b \<le> (2 ^ 32 - 1) * (2 ^ 32 - 1)" using assms by (intro mult_mono) auto
  show "unat (a * b) = unat a * unat b"
    using l by (intro unat_mult_exact) simp
qed

text \<open>Without bits 31 and 63 set, both halves are below \<open>2 ^ 31\<close>.\<close>

lemma overflow_test: "(m :: u64) AND (push_bit 63 1 OR push_bit 31 1) \<noteq> 0 \<longleftrightarrow> bit m 63 \<or> bit m 31"
  using and_single_bit [of m 63] and_single_bit [of m 31] by (simp only: bit.conj_disj_distrib or_eq_0_iff) blast

lemma bit_by_unat: "bit (m :: 'a::len word) k \<longleftrightarrow> odd (unat m div 2 ^ k)"
proof -
  have "bit m k = bit (unat m) k" by (auto simp: bit_unsigned_iff dest: bit_imp_le_length)
  then show ?thesis by (simp only: bit_iff_odd [of "unat m"])
qed

lemma halves_small:
  fixes m :: u64
  shows "\<not> bit m 31 \<Longrightarrow> unat m mod 2 ^ 32 < 2 ^ 31" "\<not> bit m 63 \<Longrightarrow> unat m div 2 ^ 32 < 2 ^ 31"
proof -
  assume "\<not> bit m 31"
  then have "unat m div 2 ^ 31 mod 2 = 0" by (simp only: bit_by_unat not_not even_iff_mod_2_eq_zero)
  then have "unat m mod (2 ^ 31 * 2) = unat m mod 2 ^ 31" by (simp only: mod_mult2_eq mult_0_right add_0)
  then show "unat m mod 2 ^ 32 < 2 ^ 31" by simp
next
  assume "\<not> bit m 63"
  then have "even (unat m div 2 ^ 63)" by (simp only: bit_by_unat not_not)
  moreover have "unat m div 2 ^ 63 < 2" using unat_less_pow [of m] by (intro less_mult_imp_div_less) simp
  ultimately have "unat m div 2 ^ 63 = 0" by (metis One_nat_def less_2_cases odd_one)
  then show "unat m div 2 ^ 32 < 2 ^ 31" by (intro less_mult_imp_div_less) (simp add: div_eq_0_iff)
qed

text \<open>The three steps of the schoolbook product.\<close>

lemma schoolbook:
  fixes B ml mh nl nh M :: nat
  assumes "0 < M"
  shows "(B + (mh * M + ml) * (nh * M + nl)) div (M * M) =
    ((B + ml * nl) div M + ml * nh + mh * nl) div M + mh * nh"
proof -
  define K where "K = ml * nh + mh * nl + mh * nh * M"
  have "B + (mh * M + ml) * (nh * M + nl) = (B + ml * nl) + K * M"
    by (simp add: K_def algebra_simps)
  then have "(B + (mh * M + ml) * (nh * M + nl)) div M = K + (B + ml * nl) div M"
    using assms by (metis div_mult_self1 less_irrefl)
  also have "\<dots> = ((B + ml * nl) div M + ml * nh + mh * nl) + (mh * nh) * M" by (simp add: K_def)
  finally show ?thesis using assms by (simp add: div_mult2_eq)
qed

lemma first_step:
  fixes m mn :: u64
  assumes "unat mn \<le> (2 ^ 32 - 1) * (2 ^ 32 - 1)" "\<not> ovf \<Longrightarrow> unat m + unat mn < 2 ^ 64"
  shows "unat (if \<not> bias then drop_bit 32 mn else if \<not> ovf then drop_bit 32 (m + mn)
       else drop_bit 32 (m + mn) + (if m + mn < m then push_bit 32 1 else 0)) =
    ((if bias then unat m else 0) + unat mn) div 2 ^ 32"
  using assms(2) unat_add_exact [of m mn] unat_drop_add_carry [of m mn]
  by (auto simp: unat_drop_bit simp del: push_bit_of_1)

lemma second_step:
  fixes r a b :: u64
  assumes "unat r + unat a < 2 ^ 64" "\<not> ovf \<Longrightarrow> unat r + unat a + unat b < 2 ^ 64"
  shows "unat (if \<not> ovf then drop_bit 32 (r + a + b)
       else drop_bit 32 (r + a + b) + (if r + a + b < r + a then push_bit 32 1 else 0)) =
    (unat r + unat a + unat b) div 2 ^ 32"
proof -
  have "unat (r + a) = unat r + unat a" using assms(1) by (intro unat_add_exact) simp
  then show ?thesis
    using assms(2) unat_add_exact [of "r + a" b] unat_drop_add_carry [of "r + a" b]
    by (auto simp: unat_drop_bit simp del: push_bit_of_1)
qed

lemma arch_xprod_64_unat:
  "unat (arch_xprod_64 m n bias) = ((if bias then unat m else 0) + unat m * unat n) div 2 ^ 64"
proof -
  define ml mh nl nh :: u64 where "ml = ucast (ucast m :: u32)" and "mh = ucast (ucast (drop_bit 32 m) :: u32)"
    and "nl = ucast (ucast n :: u32)" and "nh = ucast (ucast (drop_bit 32 n) :: u32)"
  define ovf where "ovf \<longleftrightarrow> m AND (push_bit 63 1 OR push_bit 31 1) \<noteq> 0"
  define r0 where "r0 = (if \<not> bias then drop_bit 32 (ml * nl) else if \<not> ovf then drop_bit 32 (m + ml * nl)
       else drop_bit 32 (m + ml * nl) + (if m + ml * nl < m then push_bit 32 1 else 0))"
  define r1 where "r1 = (if \<not> ovf then drop_bit 32 (r0 + ml * nh + mh * nl)
       else drop_bit 32 (r0 + ml * nh + mh * nl) + (if r0 + ml * nh + mh * nl < r0 + ml * nh then push_bit 32 1 else 0))"
  define B where "B = (if bias then unat m else 0)"
  have u: "unat ml = unat m mod 2 ^ 32" "unat mh = unat m div 2 ^ 32" "unat nl = unat n mod 2 ^ 32" "unat nh = unat n div 2 ^ 32"
    unfolding ml_def mh_def nl_def nh_def by (rule unat_high unat_low)+
  have lt: "unat ml < 2 ^ 32" "unat mh < 2 ^ 32" "unat nl < 2 ^ 32" "unat nh < 2 ^ 32"
    by (simp_all only: u half_bounds)
  note mul = unat_mult_halves [OF lt(1,3)] unat_mult_halves [OF lt(1,4)] unat_mult_halves [OF lt(2,3)] unat_mult_halves [OF lt(2,4)]
  have small: "unat ml < 2 ^ 31 \<and> unat mh < 2 ^ 31" if "\<not> ovf"
    using that halves_small [of m] overflow_test [of m] by (simp only: ovf_def u) blast
  have m: "unat m = unat mh * 2 ^ 32 + unat ml" and n: "unat n = unat nh * 2 ^ 32 + unat nl"
    by (simp_all only: u div_mult_mod_eq)
  have small_mul: "unat ml * unat nl \<le> (2 ^ 31 - 1) * (2 ^ 32 - 1)" "unat ml * unat nh \<le> (2 ^ 31 - 1) * (2 ^ 32 - 1)"
      "unat mh * unat nl \<le> (2 ^ 31 - 1) * (2 ^ 32 - 1)" if "\<not> ovf"
    using small [OF that] lt by (intro mult_mono; simp)+
  have r0: "unat r0 = (B + unat ml * unat nl) div 2 ^ 32"
    unfolding r0_def B_def mul(1) [symmetric]
  proof (rule first_step)
    show "unat m + unat (ml * nl) < 2 ^ 64" if "\<not> ovf"
      using small [OF that] small_mul(1) [OF that] m by (simp only: mul(1,3,5,7)) simp
  qed (simp only: mul(1,2))
  have "B \<le> 2 ^ 64 - 1" using unat_less_pow [of m] by (simp add: B_def)
  then have r0_le: "unat r0 \<le> 2 ^ 33 - 2" using mul(2) by (simp add: r0)
  have r1: "unat r1 = (unat r0 + unat ml * unat nh + unat mh * unat nl) div 2 ^ 32"
    unfolding r1_def mul(3,5) [symmetric]
  proof (rule second_step)
    show "unat r0 + unat (ml * nh) < 2 ^ 64" using r0_le mul(4) by (simp only: mul(1,3,5,7)) simp
    show "unat r0 + unat (ml * nh) + unat (mh * nl) < 2 ^ 64" if "\<not> ovf"
      using r0_le small_mul(2,3) [OF that] by (simp only: mul(1,3,5,7)) simp
  qed
  have total: "(B + unat m * unat n) div 2 ^ 64 = unat r1 + unat mh * unat nh"
    unfolding m n r1 r0 using schoolbook [of "2 ^ 32" B "unat mh" "unat ml" "unat nh" "unat nl"] by simp
  have "B + unat m * unat n \<le> (2 ^ 64 - 1) * 2 ^ 64"
  proof -
    have "unat m * Suc (unat n) \<le> (2 ^ 64 - 1) * 2 ^ 64"
      using unat_less_pow [of m] unat_less_pow [of n] by (intro mult_mono) simp_all
    then show ?thesis by (simp add: B_def)
  qed
  then have "(B + unat m * unat n) div 2 ^ 64 < 2 ^ 64" by simp
  then have "unat (r1 + mh * nh) = unat r1 + unat (mh * nh)"
    using total by (intro unat_add_exact) (simp only: mul(1,3,5,7) len_bit0 len_num1, simp)
  then have "unat (r1 + mh * nh) = (B + unat m * unat n) div 2 ^ 64" by (simp only: total mul(1,3,5,7))
  moreover have "arch_xprod_64 m n bias = r1 + mh * nh"
    by (simp only: arch_xprod_64_def Let_def r1_def r0_def ovf_def ml_def mh_def nl_def nh_def)
  ultimately show ?thesis by (simp only: B_def)
qed

section \<open>Reciprocals\<close>

text \<open>With \<open>P = p * W\<close> and a rounded-down reciprocal, adding \<open>m\<close> once compensates.\<close>

lemma recip_down:
  fixes m f P b n :: nat
  assumes "m * b + f = P" "0 < f" "(n + 1) * f \<le> P" and b: "0 < b"
  shows "(m + m * n) div P = n div b"
proof -
  define q r where "q = n div b" and "r = n mod b"
  have n: "n = q * b + r" "r < b" using b by (simp_all add: q_def r_def)
  have "b * (m + m * n) + (n + 1) * f = (n + 1) * P" unfolding assms(1) [symmetric] by (simp add: algebra_simps)
  then have e: "b * (m + m * n) + (n + 1) * f = b * (q * P) + (r + 1) * P" by (simp add: n(1) algebra_simps)
  have "1 * P \<le> (r + 1) * P" "(r + 1) * P \<le> b * P" using n(2) by (intro mult_le_mono1; simp)+
  moreover have "0 < (n + 1) * f" using assms(2) by simp
  ultimately have "b * (q * P) \<le> b * (m + m * n)" "b * (m + m * n) < b * (q * P + P)"
    using e assms(3) unfolding distrib_left by linarith+
  then have "q * P \<le> m + m * n" "m + m * n < q * P + P" using b by simp_all
  then have "(m + m * n) div P = q" by (intro div_nat_eqI) (simp_all add: mult.commute)
  then show ?thesis by (simp add: q_def)
qed

text \<open>A rounded-up reciprocal is good for every dividend if it is good for the test value
  \<open>q * b - 1\<close>, where \<open>W = q * b + r\<close>.\<close>

lemma test_value_exceeds:
  fixes m e P b q :: nat
  assumes "m * b = P + e" "0 < b" "0 < P" "0 < q"
  shows "(m * (q * b - 1)) div P = q - 1 \<longleftrightarrow> e * (q * b - 1) < P"
proof -
  define x where "x = q * b - 1"
  have x: "x + 1 = q * b" using assms(2,4) by (simp add: x_def)
  have "b * (m * x) = P * x + e * x" using assms(1) by (metis add_mult_distrib mult.assoc mult.commute)
  moreover have "P * x + P = b * (q * P)" using x by (metis add_mult_distrib2 mult.assoc mult.commute mult_1_right)
  ultimately have e: "b * (m * x) + P = b * (q * P) + e * x" by linarith
  have low: "(q - 1) * P \<le> m * x"
  proof -
    have "b * ((q - 1) * P) + b * P = b * (q * P)" using assms(4) by (cases q) (simp_all add: algebra_simps)
    moreover have "P \<le> b * P" using assms(2) by simp
    ultimately have "b * ((q - 1) * P) \<le> b * (m * x)" using e by linarith
    then show ?thesis using assms(2) by simp
  qed
  have "e * x < P \<longleftrightarrow> b * (m * x) < b * (q * P)" using e by linarith
  also have "\<dots> \<longleftrightarrow> m * x < q * P" using assms(2) by simp
  also have "\<dots> \<longleftrightarrow> (m * x) div P = q - 1"
  proof
    assume "m * x < q * P"
    then show "(m * x) div P = q - 1" using low assms(3,4) by (intro div_nat_eqI) (cases q; simp add: algebra_simps)+
  next
    assume "(m * x) div P = q - 1"
    then have "m * x < Suc (q - 1) * P" using assms(3) by (metis div_less_iff_less_mult lessI)
    then show "m * x < q * P" using assms(4) by simp
  qed
  finally show ?thesis by (simp add: x_def)
qed

lemma recip_up:
  fixes m e P W b q r n p :: nat
  assumes "m * b = P + e" "P = p * W" "e < b" "b < 2 * p" "W = q * b + r" "0 < r" "r < b" "n < W"
    and test: "e * (q * b - 1) < P"
  shows "(m * n) div P = n div b"
proof -
  define a c where "a = n div b" and "c = n mod b"
  have n: "n = a * b + c" "c < b" using assms(3) by (simp_all add: a_def c_def)
  have "c * P + n * e < b * P"
  proof (cases "n \<le> q * b - 1")
    case True
    then have "n * e \<le> e * (q * b - 1)" by (simp add: mult.commute)
    moreover have "(c + 1) * P \<le> b * P" using n(2) by (intro mult_le_mono1) simp
    ultimately show ?thesis using test unfolding distrib_right by linarith
  next
    case False
    then have qb: "q * b \<le> n" by simp
    then have "q \<le> a" using assms(3) by (simp add: a_def less_eq_div_iff_mult_less_eq)
    moreover have "a \<le> q" using assms(5,7,8) assms(3) unfolding a_def
      by (metis add_lessD1 div_le_mono div_mult_self3 less_imp_le_nat add.right_neutral div_less gr_implies_not0)
    ultimately have "c < r" using n(1) assms(5,8) by simp
    then have "c + 2 \<le> b" using assms(7) by simp
    then have "(c + 2) * P \<le> b * P" by (rule mult_le_mono1)
    moreover have "n * e < 2 * P"
    proof -
      have "n * e \<le> n * b" using assms(3) by simp
      also have "\<dots> \<le> W * b" using assms(8) by simp
      also have "\<dots> < W * (2 * p)" using assms(4,8) by simp
      finally show ?thesis by (simp add: assms(2) mult.commute)
    qed
    ultimately show ?thesis by simp
  qed
  moreover have "b * (m * n) = b * (a * P) + (c * P + n * e)"
  proof -
    have "b * (m * n) = (P + e) * n" using assms(1) by (metis mult.assoc mult.commute)
    then show ?thesis by (simp add: n(1) algebra_simps)
  qed
  ultimately have "b * (a * P) \<le> b * (m * n)" "b * (m * n) < b * (a * P + P)"
    unfolding distrib_left by simp_all
  then have "a * P \<le> m * n" "m * n < a * P + P" using assms(3) by simp_all
  then have "(m * n) div P = a" by (intro div_nat_eqI) (simp_all add: mult.commute)
  then show ?thesis by (simp add: a_def)
qed

section \<open>Constant divisors\<close>

lemma dvd_power_of_2: "(d :: nat) dvd 2 ^ k \<Longrightarrow> \<exists>i\<le>k. d = 2 ^ i"
proof (induction k arbitrary: d)
  case (Suc k)
  show ?case
  proof (cases "even d")
    case True
    then obtain d' where d: "d = 2 * d'" by blast
    then have "d' dvd 2 ^ k" using Suc.prems by simp
    then obtain i where "i \<le> k" "d' = 2 ^ i" using Suc.IH by blast
    then show ?thesis using d by (intro exI [of _ "Suc i"]) simp
  next
    case False
    then have "coprime d 2" by (simp add: coprime_commute)
    then have "d dvd 2 ^ k" using Suc.prems by (simp add: coprime_dvd_mult_right_iff)
    then show ?thesis using Suc.IH le_SucI by blast
  qed
qed simp

text \<open>What is known of a divisor that is neither zero nor a power of two.\<close>

lemma const_divisor:
  assumes "b \<noteq> 0" "\<not> is_power_of_2 b"
  obtains l where "unat (const_p b) = 2 ^ l" "2 ^ l < unat b" "unat b < 2 ^ Suc l" "l < 32"
    and "\<forall>k. 0 < 2 ^ k mod unat b"
proof -
  obtain l where l: "ilog2 True b = int l" "2 ^ l \<le> unat b" "unat b < 2 ^ Suc l" "l < 32"
    by (rule ilog2_bounds [OF assms(1), of True])
  have "unat (const_p b) = 2 ^ l" using unat_small [OF l(4)] l(1) by (simp add: const_p_def)
  moreover have "2 ^ l \<noteq> unat b" using assms(2) l(4) by (auto simp: is_power_of_2_iff)
  moreover have "0 < 2 ^ k mod unat b" for k
  proof (rule ccontr)
    assume "\<not> 0 < 2 ^ k mod unat b"
    then have "unat b dvd 2 ^ k" by auto
    then obtain i where i: "unat b = 2 ^ i" using dvd_power_of_2 by blast
    then have "(2 :: nat) ^ i < 2 ^ 32" using unat_less_pow [of b] by simp
    then have "i < 32" by (rule power_less_imp_less_exp [rotated]) simp
    then show False using i assms(2) by (auto simp: is_power_of_2_iff)
  qed
  ultimately show ?thesis using that l by simp
qed

text \<open>Division of \<open>~0\<close>.\<close>

lemma unat_max64: "unat (NOT 0 :: u64) = 2 ^ 64 - 1"
  by (simp add: unsigned_minus_1_eq_mask mask_eq_exp_minus_1)

lemma div_max:
  fixes W b :: nat
  assumes "0 < W mod b" "0 < b"
  shows "(W - 1) div b = W div b" "(W - 1) mod b = W mod b - 1"
proof -
  have "W - 1 = W div b * b + (W mod b - 1)" using assms(1) div_mult_mod_eq [of W b] by linarith
  moreover have "W mod b - 1 < b" using assms(2) mod_less_divisor [of b W] by linarith
  ultimately show "(W - 1) div b = W div b" "(W - 1) mod b = W mod b - 1"
    using assms(2) by (metis div_mult_self3 div_less add.right_neutral less_imp_neq, metis mod_mult_self3 mod_less)
qed

lemma unat_ucast32: "unat (ucast (b :: u32) :: u64) = unat b"
  by (simp add: unat_ucast_up)

text \<open>The values of the parts, for a divisor \<open>b\<close> and a scale \<open>p\<close> below it.\<close>

lemma const_values:
  fixes b p :: u32
  assumes r: "0 < 2 ^ 64 mod unat b" and p: "unat p < unat b" "unat b < 2 * unat p"
  shows "unat (const_m_up b p) = (unat p * 2 ^ 64 + unat b - 1) div unat b"
    and "unat (const_m_down b p) = (unat p * 2 ^ 64) div unat b"
    and "unat (const_x b) = 2 ^ 64 div unat b * unat b - 1"
proof -
  define \<beta> \<pi> q r where "\<beta> = unat b" and "\<pi> = unat p" and "q = 2 ^ 64 div unat b" and "r = 2 ^ 64 mod unat b"
  have b: "0 < \<beta>" "\<beta> < 2 ^ 32" "\<pi> < 2 ^ 32" "\<pi> < \<beta>" "0 < \<pi>"
    using p unat_less_pow [of b] unat_less_pow [of p] by (simp_all add: \<beta>_def \<pi>_def)
  have W: "2 ^ 64 = q * \<beta> + r" "0 < r" "r < \<beta>" using r b(1) by (simp_all add: q_def r_def \<beta>_def)
  have q: "unat (NOT 0 div ucast b :: u64) = q" and r1: "unat (NOT 0 mod ucast b :: u64) = r - 1"
    using div_max [OF r] b(1) by (simp_all only: unat_div_distrib unat_mod_distrib unat_max64 unat_ucast32 q_def r_def \<beta>_def)
  have r2: "unat (NOT 0 mod ucast b + 1 :: u64) = r"
    using W(2,3) b(2) by (subst unat_add_exact) (simp_all only: r1 unat_1 len_bit0 len_num1, simp_all)
  have rp: "r * \<pi> \<le> 2 ^ 32 * 2 ^ 32 - 2 ^ 33"
  proof -
    have "r * \<pi> \<le> (2 ^ 32 - 2) * (2 ^ 32 - 1)" using W(3) b by (intro mult_mono) simp_all
    then show ?thesis by simp
  qed
  have rp_word: "unat ((NOT 0 mod ucast b + 1) * ucast p :: u64) = r * \<pi>"
    using rp by (subst unat_mult_exact) (simp_all only: r2 unat_ucast32 \<pi>_def [symmetric] len_bit0 len_num1, simp)
  have "q * \<pi> + q \<le> q * \<beta>" using b(4) by (metis Suc_leI mult_Suc_right add.commute mult_le_mono2)
  then have qp: "q * \<pi> + q + r \<le> 2 ^ 64" using W by simp
  have "2 ^ 32 < q * \<beta> + \<beta>" using W by simp
  have qb: "1 \<le> q" using W(1,3) b(2) by (cases q) simp_all
  have qp_word: "unat ((NOT 0 div ucast b) * ucast p :: u64) = q * \<pi>"
    using qp qb by (subst unat_mult_exact) (simp_all only: q unat_ucast32 \<pi>_def [symmetric] len_bit0 len_num1, simp)
  have total: "\<pi> * 2 ^ 64 = q * \<pi> * \<beta> + r * \<pi>" unfolding W(1) by (simp add: algebra_simps)
  have lt: "(r * \<pi> + c) div \<beta> < r + 1" if "c < \<beta>" for c
  proof -
    have "r * \<pi> + r \<le> r * \<beta>" using b(4) by (metis Suc_leI mult_Suc_right add.commute mult_le_mono2)
    then have "r * \<pi> + c < (r + 1) * \<beta>" using that W(2) by simp
    then show ?thesis by (simp add: div_less_iff_less_mult b(1))
  qed
  show "unat (const_m_down b p) = (unat p * 2 ^ 64) div unat b"
  proof -
    have "unat (((NOT 0 mod ucast b + 1) * ucast p) div ucast b :: u64) = r * \<pi> div \<beta>"
      by (simp only: unat_div_distrib rp_word unat_ucast32 \<beta>_def)
    moreover have "q * \<pi> + r * \<pi> div \<beta> < 2 ^ 64" using lt [of 0] qp qb b(1) by simp
    ultimately have "unat (const_m_down b p) = q * \<pi> + r * \<pi> div \<beta>"
      unfolding const_m_down_def by (subst unat_add_exact) (simp_all only: qp_word len_bit0 len_num1, simp)
    then show ?thesis using b(1) total by (simp add: \<beta>_def \<pi>_def)
  qed
  show "unat (const_m_up b p) = (unat p * 2 ^ 64 + unat b - 1) div unat b"
  proof -
    have s: "r * \<pi> + \<beta> - 1 = r * \<pi> + (\<beta> - 1)" using b(1) by simp
    have a: "unat ((NOT 0 mod ucast b + 1) * ucast p + ucast b :: u64) = r * \<pi> + \<beta>"
      using rp b(2) by (subst unat_add_exact) (simp_all only: rp_word unat_ucast32 \<beta>_def [symmetric] len_bit0 len_num1, simp)
    have minus_1: "unat (y - 1) = unat y - 1" if "0 < unat y" for y :: u64
      using that by (intro unat_minus_one) auto
    have "unat ((NOT 0 mod ucast b + 1) * ucast p + ucast b - 1 :: u64) = r * \<pi> + (\<beta> - 1)"
      using b(1) by (subst minus_1) (simp_all only: a)
    then have "unat (((NOT 0 mod ucast b + 1) * ucast p + ucast b - 1) div ucast b :: u64) = (r * \<pi> + (\<beta> - 1)) div \<beta>"
      by (simp only: unat_div_distrib unat_ucast32 \<beta>_def)
    moreover have "q * \<pi> + (r * \<pi> + (\<beta> - 1)) div \<beta> < 2 ^ 64" using lt [of "\<beta> - 1"] qp qb b(1) by simp
    ultimately have "unat (const_m_up b p) = q * \<pi> + (r * \<pi> + (\<beta> - 1)) div \<beta>"
      unfolding const_m_up_def by (subst unat_add_exact) (simp_all only: qp_word len_bit0 len_num1, simp)
    also have "\<dots> = (q * \<pi> * \<beta> + (r * \<pi> + (\<beta> - 1))) div \<beta>"
      using b(1) by (metis div_mult_self3 less_irrefl)
    also have "q * \<pi> * \<beta> + (r * \<pi> + (\<beta> - 1)) = \<pi> * 2 ^ 64 + \<beta> - 1" using total b(1) by simp
    finally show ?thesis by (simp add: \<beta>_def \<pi>_def)
  qed
  show "unat (const_x b) = 2 ^ 64 div unat b * unat b - 1"
  proof -
    have "unat (NOT 0 div ucast b * ucast b :: u64) = q * \<beta>"
      using W by (subst unat_mult_exact) (simp_all only: q unat_ucast32 \<beta>_def [symmetric] len_bit0 len_num1, simp)
    then show ?thesis unfolding const_x_def using qb b(1)
      by (subst unat_sub_exact) (simp_all add: word_le_nat_alt q_def \<beta>_def)
  qed
qed

text \<open>The test computes the high half of a product and divides it by \<open>p\<close>.\<close>

lemma unat_and_low: "unat ((x :: u64) AND 0xffffffff) = unat x mod 2 ^ 32"
proof -
  have "(0xffffffff :: u64) = mask 32" by (simp add: mask_eq_exp_minus_1)
  then show ?thesis by (simp only: unat_and_mask)
qed

lemma const_test_unat: "unat (const_test m x p) = (unat m * unat x) div (unat p * 2 ^ 64)"
proof -
  define ml mh xl xh :: u64 where "ml = m AND 0xffffffff" and "mh = drop_bit 32 m"
    and "xl = x AND 0xffffffff" and "xh = drop_bit 32 x"
  define r0 where "r0 = drop_bit 32 (ml * xl)"
  define r1 where "r1 = drop_bit 32 (r0 + ml * xh + xl * mh) +
    (if r0 + ml * xh + xl * mh < r0 + ml * xh then push_bit 32 1 else 0)"
  have u: "unat ml = unat m mod 2 ^ 32" "unat mh = unat m div 2 ^ 32" "unat xl = unat x mod 2 ^ 32" "unat xh = unat x div 2 ^ 32"
    by (simp_all only: ml_def mh_def xl_def xh_def unat_and_low unat_drop_bit)
  have lt: "unat ml < 2 ^ 32" "unat mh < 2 ^ 32" "unat xl < 2 ^ 32" "unat xh < 2 ^ 32"
    by (simp_all only: u half_bounds)
  note mul = unat_mult_halves [OF lt(1,3)] unat_mult_halves [OF lt(1,4)] unat_mult_halves [OF lt(3,2)] unat_mult_halves [OF lt(2,4)]
  have m: "unat m = unat mh * 2 ^ 32 + unat ml" and x: "unat x = unat xh * 2 ^ 32 + unat xl"
    by (simp_all only: u div_mult_mod_eq)
  have r0: "unat r0 = (0 + unat ml * unat xl) div 2 ^ 32" by (simp only: r0_def unat_drop_bit mul(1) add_0)
  have "unat r0 + unat (ml * xh) < 2 ^ 64" using mul(2,4) unfolding r0 by (simp only: mul(3)) simp
  then have r1: "unat r1 = (unat r0 + unat ml * unat xh + unat mh * unat xl) div 2 ^ 32"
    using second_step [of r0 "ml * xh" True "xl * mh"]
    by (simp only: r1_def mul(3,5) not_True_eq_False if_False simp_thms mult.commute [of "unat mh" "unat xl"])
  have total: "(unat m * unat x) div 2 ^ 64 = unat r1 + unat mh * unat xh"
    unfolding m x r1 r0 using schoolbook [of "2 ^ 32" 0 "unat mh" "unat ml" "unat xh" "unat xl"] by simp
  have "unat m * unat x \<le> (2 ^ 64 - 1) * 2 ^ 64"
    using unat_less_pow [of m] unat_less_pow [of x] by (intro mult_mono) simp_all
  then have "(unat m * unat x) div 2 ^ 64 < 2 ^ 64" by simp
  then have "unat (r1 + mh * xh) = (unat m * unat x) div 2 ^ 64"
    using total by (subst unat_add_exact) (simp_all only: mul(7) len_bit0 len_num1, simp)
  moreover have "const_test m x p = (r1 + mh * xh) div ucast p"
    by (simp only: const_test_def Let_def r1_def r0_def ml_def mh_def xl_def xh_def)
  ultimately show ?thesis by (simp only: unat_div_distrib unat_ucast32 div_mult2_eq mult.commute [of "unat p"])
qed

text \<open>The lowest set bit.\<close>

lemma lowest_bit:
  fixes b :: "'a::len word"
  assumes "b \<noteq> 0"
  obtains t where "t < LENGTH('a)" "b AND - b = push_bit t 1" "2 ^ t dvd unat b" "bit b t"
    and "unat (b AND - b) = 2 ^ t"
proof -
  define t where "t = (LEAST k. bit b k)"
  have "\<exists>k. bit b k" using assms by (metis bit_eqI bit_0_eq bot_apply bot_bool_def)
  then have t: "bit b t" "\<And>k. k < t \<Longrightarrow> \<not> bit b k" by (auto simp: t_def intro: LeastI dest: not_less_Least)
  then have l: "t < LENGTH('a)" using bit_imp_le_length by blast
  have d: "2 ^ t dvd unat b"
  proof -
    have "take_bit t b = 0" by (rule bit_word_eqI) (use t(2) in \<open>simp add: bit_take_bit_iff\<close>)
    then have "take_bit t (unat b) = 0" by (metis unsigned_take_bit_eq unsigned_0)
    then show ?thesis by (simp only: take_bit_eq_0_iff)
  qed
  define hi where "hi = b AND NOT (mask (Suc t))"
  have hi: "bit hi n \<longleftrightarrow> t < n \<and> bit b n" for n
    by (auto simp: hi_def bit_and_iff bit_not_iff bit_mask_iff dest: bit_imp_le_length)
  have "bit b n \<longleftrightarrow> n = t \<or> t < n \<and> bit b n" for n using t by (metis nat_neq_iff)
  then have "b = hi OR push_bit t 1"
    using l by (intro bit_word_eqI) (simp add: hi bit_or_iff bit_exp_iff, blast)
  moreover have "hi AND push_bit t 1 = 0" "hi AND mask t = 0"
    by (rule bit_word_eqI, auto simp: hi bit_and_iff bit_exp_iff bit_mask_iff)+
  ultimately have "b = hi + push_bit t 1" and m: "hi OR mask t = hi + mask t"
    by (simp_all only: disjunctive_add_eq_or)
  then have "b - 1 = hi OR mask t" by (simp add: m mask_eq_exp_minus_1)
  then have "- b = NOT (hi OR mask t)" by (simp only: minus_eq_not_minus_1)
  then have a: "b AND - b = push_bit t 1"
    by (intro bit_word_eqI) (use t in \<open>auto simp: hi bit_and_iff bit_not_iff bit_or_iff bit_exp_iff bit_mask_iff not_less_iff_gr_or_eq\<close>)
  have "unat (push_bit t 1 :: 'a word) = 2 ^ t" using l by (simp only: unat_push_bit) simp
  then show ?thesis using that l d t(1) a by simp
qed

section \<open>Reduction\<close>

text \<open>The reduction divides \<open>m\<close> and \<open>p\<close> by the same power of two.\<close>

lemma unat_div_pow: "unat (x div y :: 'a::len word) = unat x div unat y"
  by (simp only: unat_div_distrib)

lemma const_reduce_values:
  assumes "m \<noteq> 0" "unat p = 2 ^ l" "\<And>t. 2 ^ t dvd unat m \<Longrightarrow> t \<le> l"
  obtains s where "2 ^ s dvd unat m" "s \<le> l"
    and "unat (fst (const_reduce m p)) = unat m div 2 ^ s"
    and "unat (snd (const_reduce m p)) = unat p div 2 ^ s"
proof -
  obtain t where t: "t < LENGTH(64)" "m AND - m = push_bit t 1" "2 ^ t dvd unat m" "bit m t" "unat (m AND - m) = 2 ^ t"
    by (rule lowest_bit [OF assms(1)])
  define low where "low = m AND - m"
  define bits where "bits = push_bit 1 (NOT (ucast (- low) OR ucast (drop_bit 32 m)) :: u32)"
  have r: "const_reduce m p = (if bits = 0 then (m div low, ucast (ucast p div low))
      else (drop_bit (nat (ilog2 True bits)) m, drop_bit (nat (ilog2 True bits)) p))"
    by (simp only: const_reduce_def Let_def bits_def low_def)
  show thesis
  proof (cases "bits = 0")
    case True
    have "unat (ucast p div low) < 2 ^ 32"
      using unat_less_pow [of p] by (simp add: unat_div_pow unat_ucast32 low_def t(5) div_le_dividend [THEN le_less_trans])
    then have "unat (ucast (ucast p div low) :: u32) = unat p div 2 ^ t"
      by (simp add: unat_ucast_down unat_div_pow unat_ucast32 low_def t(5))
    moreover have "unat (m div low) = unat m div 2 ^ t" by (simp only: unat_div_pow low_def t(5))
    ultimately show thesis using that [of t] t(3) assms(3) True by (simp add: r)
  next
    case False
    obtain k where k: "ilog2 True bits = int k" "2 ^ k \<le> unat bits" "unat bits < 2 ^ Suc k" "k < 32"
      by (rule ilog2_bounds [OF False, of True])
    then have "unat bits div 2 ^ k = 1" by (intro div_nat_eqI) simp_all
    then have "bit bits k" by (simp add: bit_by_unat)
    then have "0 < k" "\<not> bit (ucast (- low) :: u32) (k - 1)"
      unfolding bits_def bit_push_bit_iff bit_not_iff bit_or_iff by (simp_all add: Suc_le_eq)
    then have "0 < k" "\<not> bit (- low) (k - 1)" using k(4) by (simp_all add: bit_unsigned_iff)
    moreover have "bit (- low) (k - 1) \<longleftrightarrow> t \<le> k - 1"
      using k(4) by (simp add: low_def t(2) bit_not_iff bit_mask_iff minus_exp_eq_not_mask, auto)
    ultimately have "k \<le> t" by simp
    then have "2 ^ k dvd unat m" "k \<le> l" using t(3) assms(3) by (auto intro: power_le_dvd dest: power_le_dvd)
    then show thesis using that [of k] False k(1) by (simp add: r unat_drop_bit)
  qed
qed

section \<open>Division by a constant\<close>

text \<open>The special case: the odd part of the divisor divides \<open>2 ^ 64 - 1\<close>.\<close>

lemma const32_special:
  fixes b :: u32 and n :: u64
  assumes "b \<noteq> 0" "NOT 0 mod (ucast (b div (b AND - b)) :: u64) = 0"
  shows "unat (arch_xprod_64 (NOT 0 div ucast (b div (b AND - b))) (n div ucast (b AND - b)) True) = unat n div unat b"
proof -
  define low od m where "low = b AND - b" and "od = unat b div unat low"
    and "m = unat (NOT 0 div ucast (b div low) :: u64)"
  obtain t where t: "2 ^ t dvd unat b" "unat low = 2 ^ t"
    using lowest_bit [OF assms(1)] unfolding low_def by metis
  then have b: "unat b = 2 ^ t * od" by (simp add: od_def)
  moreover have "0 < unat b" using assms(1) by (simp add: unat_gt_0)
  ultimately have od: "0 < od" by (cases od) simp_all
  have uo: "unat (ucast (b div low) :: u64) = od" by (simp only: unat_ucast32 unat_div_pow od_def)
  have "(2 ^ 64 - 1) mod od = 0" using assms(2) uo by (metis low_def unat_max64 unat_mod_distrib unsigned_0)
  then have "m * od + 1 = 2 ^ 64"
    by (simp only: m_def unat_div_pow unat_max64 uo) (simp add: dvd_div_mult_self mod_eq_0_iff_dvd)
  moreover have "unat n div unat low + 1 \<le> 2 ^ 64"
    using le_less_trans [OF div_le_dividend [of "unat n" "unat low"] unat_less_pow] by simp
  ultimately have "(m + m * (unat n div unat low)) div 2 ^ 64 = unat n div unat low div od"
    using recip_down [of m od 1 "2 ^ 64" "unat n div unat low"] od by simp
  also have "\<dots> = unat n div unat b" by (simp only: b t(2) div_mult2_eq)
  finally show ?thesis
    by (simp only: arch_xprod_64_unat if_True unat_div_pow unat_ucast32 flip: low_def)
       (simp only: m_def unat_div_pow unat_ucast32)
qed

lemma div64_const32_unat:
  assumes "b \<noteq> 0" "\<not> is_power_of_2 b"
  shows "unat (div64_const32 n b) = unat n div unat b"
proof -
  define W :: nat where "W = 2 ^ 64"
  obtain l where p: "unat (const_p b) = 2 ^ l" "2 ^ l < unat b" "unat b < 2 ^ Suc l" "l < 32"
    and dvd: "\<forall>k. 0 < 2 ^ k mod unat b"
    by (rule const_divisor [OF assms])
  define P q r where "P = 2 ^ l * W" and "q = W div unat b" and "r = W mod unat b"
  have b: "0 < unat b" "unat b < 2 * 2 ^ l" "unat b < 2 ^ 32" using p unat_less_pow [of b] by simp_all
  have W: "W = q * unat b + r" "0 < r" "r < unat b" using spec [OF dvd, of 64] b(1) by (simp_all add: q_def r_def W_def)
  have q: "0 < q" using W b(3) by (cases q) (simp_all add: W_def)
  define up where "up = const_m_up b (const_p b)"
  have vals: "unat up = (P + unat b - 1) div unat b" "unat (const_m_down b (const_p b)) = P div unat b"
      "unat (const_x b) = q * unat b - 1"
    using const_values [of b "const_p b"] spec [OF dvd, of 64] b p(1,2) by (simp_all add: P_def q_def W_def up_def)
  have P: "P = 2 ^ (l + 64)" by (simp add: P_def W_def power_add)
  define f where "f = P mod unat b"
  have f: "0 < f" "f < unat b" "P div unat b * unat b + f = P" using spec [OF dvd, of "l + 64"] b(1) by (simp_all add: f_def P)
  define e where "e = unat b - f"
  have e: "0 < e" "e < unat b" using f by (simp_all add: e_def)
  have "P + unat b - 1 = (P div unat b + 1) * unat b + (f - 1)" using f(1,3) b(1) by (simp add: algebra_simps)
  then have up1: "unat up = P div unat b + 1"
    using f(2) b(1) by (simp only: vals(1)) (metis add.right_neutral div_less div_mult_self3 less_imp_diff_less not_less_zero)
  then have up: "unat up * unat b = P + e" using f by (simp add: e_def algebra_simps)
  have nW: "unat n < W" using unat_less_pow [of n] by (simp add: W_def)
  have test: "const_test up (const_x b) (const_p b) = const_x b div ucast b \<longleftrightarrow> e * (q * unat b - 1) < P"
  proof -
    have "unat (const_x b div ucast b) = q - 1"
      using q b(1) by (simp only: unat_div_pow vals(3) unat_ucast32)
        (intro div_nat_eqI; cases q; simp add: algebra_simps)
    moreover have "unat (const_test up (const_x b) (const_p b)) = (unat up * (q * unat b - 1)) div P"
      by (simp only: const_test_unat vals(3) p(1) P_def W_def)
    moreover have "0 < P" by (simp add: P)
    ultimately show ?thesis using test_value_exceeds [OF up b(1) _ q] by (metis word_unat_eq_iff)
  qed
  consider (special) "NOT 0 mod (ucast (b div (b AND - b)) :: u64) = 0"
    | (bias) "NOT 0 mod (ucast (b div (b AND - b)) :: u64) \<noteq> 0" "P \<le> e * (q * unat b - 1)"
    | (fits) "NOT 0 mod (ucast (b div (b AND - b)) :: u64) \<noteq> 0" "e * (q * unat b - 1) < P"
    by linarith
  then show ?thesis
  proof cases
    case special
    then have "div64_const32 n b = arch_xprod_64 (NOT 0 div ucast (b div (b AND - b))) (n div ucast (b AND - b)) True div 1"
      by (simp add: div64_const32_def Let_def)
    then show ?thesis using const32_special [OF assms(1) special] by (simp add: unat_div_pow)
  next
    case bias
    then have d: "div64_const32 n b = arch_xprod_64 (const_m_down b (const_p b)) n True div ucast (const_p b)"
      using test by (simp add: div64_const32_def Let_def up_def)
    have "e * (q * unat b - 1) < e * W" using e(1) W q b(1) by simp
    then have "2 ^ l * W < e * W" using bias(2) unfolding P_def by (rule le_less_trans [rotated])
    then have "2 ^ l < e" by simp
    then have "f \<le> 2 ^ l" using b(2) f(2) by (simp add: e_def)
    then have "(unat n + 1) * f \<le> P" using nW mult_le_mono [of "unat n + 1" W f "2 ^ l"] by (simp add: P_def mult.commute)
    then have "(P div unat b + P div unat b * unat n) div P = unat n div unat b"
      using recip_down f(1,3) b(1) by blast
    then show ?thesis
      by (simp only: d unat_div_pow arch_xprod_64_unat if_True vals(2) unat_ucast32 p(1) P_def W_def div_mult2_eq mult.commute [of "2 ^ l"])
  next
    case fits
    have nz: "up \<noteq> 0" using up1 by auto
    have tl: "t \<le> l" if "2 ^ t dvd unat up" for t
    proof (rule ccontr)
      assume "\<not> t \<le> l"
      then have "2 ^ Suc l dvd unat up" using that power_le_dvd not_less_eq_eq by blast
      then have "2 ^ Suc l dvd P + e" using up by (metis dvd_mult2)
      moreover have "2 ^ Suc l dvd P" unfolding P by (intro le_imp_power_dvd) simp
      ultimately have "2 ^ Suc l dvd e" by (simp add: dvd_add_right_iff)
      then have "2 ^ Suc l \<le> e" using e(1) dvd_imp_le by blast
      then show False using e(2) p(3) by simp
    qed
    obtain s where s: "2 ^ s dvd unat up" "s \<le> l" "unat (fst (const_reduce up (const_p b))) = unat up div 2 ^ s"
        "unat (snd (const_reduce up (const_p b))) = unat (const_p b) div 2 ^ s"
      by (rule const_reduce_values [OF nz p(1) tl])
    have "div64_const32 n b =
        arch_xprod_64 (fst (const_reduce up (const_p b))) n False div ucast (snd (const_reduce up (const_p b)))"
      using fits test by (simp add: div64_const32_def Let_def up_def split_beta)
    then have "unat (div64_const32 n b) = (unat up div 2 ^ s * unat n) div W div (2 ^ l div 2 ^ s)"
      by (simp only: unat_div_pow arch_xprod_64_unat if_False add_0 s(3,4) unat_ucast32 p(1) W_def)
    also have "\<dots> = (2 ^ s * (unat up div 2 ^ s * unat n)) div (2 ^ s * (W * (2 ^ l div 2 ^ s)))"
      by (simp add: div_mult2_eq)
    also have "\<dots> = (unat up * unat n) div P"
    proof -
      have "2 ^ s * (W * (2 ^ l div 2 ^ s)) = P"
        using s(2) by (simp add: P_def le_imp_power_dvd mult.left_commute [of _ W] mult.commute)
      moreover have "2 ^ s * (unat up div 2 ^ s * unat n) = unat up * unat n"
        using s(1) by (metis dvd_mult_div_cancel mult.assoc)
      ultimately show ?thesis by (simp only:)
    qed
    also have "\<dots> = unat n div unat b"
      by (rule recip_up [OF up _ e(2) b(2) W nW fits(2)]) (simp add: P_def)
    finally show ?thesis .
  qed
qed

text \<open>C10: for every 32-bit constant that is neither zero nor a power of two and every 64-bit
  dividend, the multiplication by a reciprocal computes the quotient, whichever of its three
  cases (divisor of \<open>2 ^ 64 - 1\<close>, bias, reduced fraction) the macro selects.\<close>

theorem reciprocal_division:
  assumes "b \<noteq> 0" "\<not> is_power_of_2 b"
  shows "div64_const32 n b = n div ucast b"
  using div64_const32_unat [OF assms, of n] by (simp only: word_unat_eq_iff unat_div_pow unat_ucast32)

theorem reciprocal_division_witness: "div64_const32 1000000000007 10 = 1000000000007 div 10"
proof -
  have "(10 :: u32) AND (10 - 1) = 8" by simp
  then show ?thesis using reciprocal_division [of 10 1000000000007] by (simp add: is_power_of_2_def)
qed

section \<open>The macro\<close>

text \<open>What the callers of \<open>do_div\<close> rely on.\<close>

locale long_division =
  fixes dv :: "u64 \<Rightarrow> u32 \<Rightarrow> ub + u64 \<times> u32"
  assumes divides: "base \<noteq> 0 \<Longrightarrow> dv n base = Inr (n div ucast base, ucast (n mod ucast base))"
begin

lemma remainder_fits: "base \<noteq> 0 \<Longrightarrow> unat (ucast (n mod ucast base :: u64) :: u32) = unat n mod unat (base :: u32)"
proof -
  assume "base \<noteq> 0"
  then have "unat n mod unat base < unat base" by (simp add: unat_gt_0)
  also have "\<dots> < 2 ^ 32" using unat_less_pow [of base] by simp
  finally show ?thesis by (simp add: unat_ucast_down unat_mod_distrib unat_ucast32)
qed

lemma quotient_remainder:
  assumes "base \<noteq> 0"
  obtains q r where "dv n base = Inr (q, r)" "unat q = unat n div unat base" "unat r = unat n mod unat base"
  using that [OF divides [OF assms]] remainder_fits [OF assms]
  by (simp add: unat_div_pow unat_ucast32)

lemma lldiv_quotient: "base \<noteq> 0 \<Longrightarrow> lldiv dv n base = Inr (n div ucast base)"
  by (simp add: lldiv_def divides)

end

interpretation target64: long_division do_div64
  by unfold_locales (simp add: do_div64_def)

lemma do_div32_power:
  assumes "is_power_of_2 b"
  shows "do_div32 ext True n b = do_div64 n b"
proof -
  obtain k where k: "k < 32" "unat b = 2 ^ k" using assms by (auto simp: is_power_of_2_iff)
  have b: "b \<noteq> 0" using assms by (simp add: is_power_of_2_def)
  have "ilog2 True b = int k" using k by (intro ilog2_unique) simp_all
  then have q: "drop_bit (nat (ilog2 True b)) n = n div ucast b"
    by (simp add: word_unat_eq_iff unat_drop_bit unat_div_pow unat_ucast32 k(2))
  have "b = push_bit k 1" using k unat_small [OF k(1)] by (simp add: word_unat_eq_iff)
  then have "b - 1 = mask k" by (simp add: mask_eq_exp_minus_1)
  then have "(ucast (b - 1) :: u64) = mask k" using k(1) by (intro bit_word_eqI) (auto simp: word_bits)
  then have "unat (n AND ucast (b - 1)) = unat n mod 2 ^ k" by (simp only: unat_and_mask)
  then have "n AND ucast (b - 1) = n mod ucast b"
    by (simp only: word_unat_eq_iff unat_mod_distrib unat_ucast32 k(2))
  then show ?thesis using assms b q by (simp add: do_div32_def do_div64_def)
qed

lemma ucast_sub_mult:
  fixes x y :: u64 and b :: u32
  shows "(ucast (x - y * ucast b) :: u32) = ucast x - ucast y * b"
proof -
  have "x - y * ucast b = word_of_int (uint x - uint y * uint b)"
    by (simp add: unsigned_ucast_eq)
  also have "(ucast \<dots> :: u32) = word_of_int (uint x - uint y * uint b)"
    by (intro ucast_down_wi) (simp add: is_down)
  also have "\<dots> = word_of_int (uint x) - word_of_int (uint y) * word_of_int (uint b)"
    by (simp only: wi_homs)
  also have "\<dots> = ucast x - ucast y * b" by simp
  finally show ?thesis .
qed

lemma do_div32_reciprocal:
  assumes "b \<noteq> 0" "\<not> is_power_of_2 b"
  shows "do_div32 ext True n b = do_div64 n b"
proof -
  have q: "div64_const32 n b = n div ucast b"
    using div64_const32_unat [OF assms, of n] by (simp only: word_unat_eq_iff unat_div_pow unat_ucast32)
  have "n mod ucast b = n - n div ucast b * ucast b" by (simp add: minus_div_mult_eq_mod)
  then have "(ucast (n mod ucast b) :: u32) = ucast n - ucast (n div ucast b) * b"
    by (simp add: ucast_sub_mult)
  then show ?thesis using assms q by (simp add: do_div32_def do_div64_def Let_def)
qed

lemma do_div32_const: "b \<noteq> 0 \<Longrightarrow> do_div32 ext True n b = do_div64 n b"
  using do_div32_power do_div32_reciprocal by (cases "is_power_of_2 b") blast+

interpretation target32_const: long_division "do_div32 ext True" for ext
  by unfold_locales (simp add: do_div32_const do_div64_def)

text \<open>The documented behaviour of \<open>__div64_32\<close>, called for a dividend of more than 32 bits.\<close>

definition divides_long :: "long_div \<Rightarrow> bool" where
  "divides_long ext \<longleftrightarrow> (\<forall>n base. base \<noteq> 0 \<and> drop_bit 32 n \<noteq> 0 \<longrightarrow>
     ext n base = (n div ucast base, ucast (n mod ucast base)))"

lemma do_div32_variable:
  assumes "b \<noteq> 0" "drop_bit 32 n = 0"
  shows "do_div32 ext False n b = do_div64 n b"
proof -
  have "unat n div 2 ^ 32 = 0" using assms(2) by (metis unat_drop_bit unsigned_0)
  then have n: "unat n < 2 ^ 32" by (simp add: div_eq_0_iff)
  then have c: "unat (ucast n :: u32) = unat n" by (simp add: unat_ucast_down)
  have "unat n mod unat b < 2 ^ 32" using n mod_le_divisor le_less_trans [OF mod_less_eq_dividend n] by blast
  then have "ucast (ucast n div b :: u32) = n div ucast b" "(ucast n :: u32) mod b = ucast (n mod ucast b)"
    by (simp_all add: word_unat_eq_iff unat_ucast32 unat_div_pow c unat_ucast_down unat_mod_distrib)
  then show ?thesis using assms by (simp add: do_div32_def do_div64_def)
qed

lemma do_div32_target64:
  assumes "divides_long ext" "b \<noteq> 0"
  shows "do_div32 ext const n b = do_div64 n b"
proof (cases const)
  case True
  then show ?thesis using do_div32_const [OF assms(2)] by simp
next
  case False
  show ?thesis
  proof (cases "drop_bit 32 n = 0")
    case True
    then show ?thesis using do_div32_variable [OF assms(2)] False by simp
  next
    case nz: False
    then have "ext n b = (n div ucast b, ucast (n mod ucast b))" using assms by (simp add: divides_long_def)
    then show ?thesis using False nz assms(2) by (simp add: do_div32_def do_div64_def)
  qed
qed

lemma target32: "divides_long ext \<Longrightarrow> long_division (do_div32 ext const)"
  by unfold_locales (simp add: do_div32_target64 do_div64_def)

text \<open>The macro of a target, with a division routine for long dividends that divides.\<close>

definition target_division :: "(u64 \<Rightarrow> u32 \<Rightarrow> ub + u64 \<times> u32) \<Rightarrow> bool" where
  "target_division dv \<longleftrightarrow> dv = do_div64 \<or> (\<exists>ext const. dv = do_div32 ext const \<and> divides_long ext)"

lemma target_long_division: "target_division dv \<Longrightarrow> long_division dv"
  using target64.long_division_axioms target32 by (auto simp: target_division_def)

text \<open>C29: for every divisor but zero the macro of a 32-bit target does what that of a 64-bit
  target does, quotient in place and remainder as value: for constants without any
  hypothesis, for variables with a division routine for long dividends that divides.  Zero is
  a division by zero for dividends that fit 32 bits.\<close>

theorem do_div_targets_agree:
  assumes "\<not> const \<Longrightarrow> divides_long ext"
  shows "(b \<noteq> 0 \<longrightarrow> do_div32 ext const n b = do_div64 n b \<and>
      do_div64 n b = Inr (n div ucast b, ucast (n mod ucast b)) \<and>
      lldiv (do_div32 ext const) n b = Inr (n div ucast b))
    \<and> (drop_bit 32 n = 0 \<longrightarrow> do_div32 ext const n 0 = Inl DivByZero)"
proof -
  have "do_div32 ext const n b = do_div64 n b" if "b \<noteq> 0"
    using that assms do_div32_target64 do_div32_const by (cases const) auto
  then show ?thesis by (auto simp: do_div64_def do_div32_def lldiv_def is_power_of_2_def)
qed

theorem do_div_targets_agree_witness:
  "do_div32 (\<lambda>n b. (n div ucast b, ucast (n mod ucast b))) False 0x500000003 7 =
    Inr (0x500000003 div 7, ucast (0x500000003 mod (7 :: u64)))"
  using do_div_targets_agree [of False "\<lambda>n b. (n div ucast b, ucast (n mod ucast b))" 7 "0x500000003"]
  by (simp add: divides_long_def)

end
