(* ===== verification/LongMath.thy ===== *)
theory LongMath
  imports Division "HOL-Library.Signed_Division"
begin

text \<open>
  64-bit arithmetic on 32-bit halves (\<open>include/linux/math64.h\<close>): products shifted or divided
  with their full 96 or 128 bits, division by repeated subtraction, and the 64-bit divisions
  of a 64-bit target.  The union of a 64-bit value and its two halves is the pair of
  \<open>hi32\<close> and \<open>lo32\<close>.
\<close>

section \<open>The code\<close>

definition hi32 :: "u64 \<Rightarrow> u32" where "hi32 x = ucast (drop_bit 32 x)"

definition lo32 :: "u64 \<Rightarrow> u32" where "lo32 x = ucast x"

definition join :: "u32 \<Rightarrow> u32 \<Rightarrow> u64" where
  "join hi lo = push_bit 32 (ucast hi) OR ucast lo"

definition mul_u32_u32 :: "u32 \<Rightarrow> u32 \<Rightarrow> u64" where
  "mul_u32_u32 a b = ucast a * ucast b"

definition mul_u64_u32_shr :: "u64 \<Rightarrow> u32 \<Rightarrow> u32 \<Rightarrow> ub + u64" where
  "mul_u64_u32_shr a mul shift =
     (let al = ucast a; ah = ucast (drop_bit 32 a) in
      if 64 \<le> shift then Inl BadShift
      else let ret = drop_bit (unat shift) (mul_u32_u32 al mul) in
        if ah \<noteq> 0 then
          if 64 \<le> 32 - shift then Inl BadShift
          else Inr (ret + push_bit (unat (32 - shift)) (mul_u32_u32 ah mul))
        else Inr ret)"

text \<open>The 128-bit product, as its upper and lower word.\<close>

definition mul_u64_u64 :: "u64 \<Rightarrow> u64 \<Rightarrow> u64 \<times> u64" where
  "mul_u64_u64 a b =
     (let rl = mul_u32_u32 (lo32 a) (lo32 b);
          rm = mul_u32_u32 (lo32 a) (hi32 b);
          rn = mul_u32_u32 (hi32 a) (lo32 b);
          rh = mul_u32_u32 (hi32 a) (hi32 b);
          c = ucast (hi32 rl) + ucast (lo32 rm) + ucast (lo32 rn) :: u64;
          rl = join (ucast c) (lo32 rl);
          c = drop_bit 32 c + ucast (hi32 rm) + ucast (hi32 rn) + ucast (lo32 rh);
          rh = join (hi32 rh) (ucast c);
          rh = join (ucast (drop_bit 32 c + ucast (hi32 rh))) (lo32 rh)
      in (rh, rl))"

definition mul_u64_u64_shr :: "u64 \<Rightarrow> u64 \<Rightarrow> u32 \<Rightarrow> u64" where
  "mul_u64_u64_shr a b shift =
     (case mul_u64_u64 a b of (rh, rl) \<Rightarrow>
        if shift = 0 then rl
        else if shift < 64 then drop_bit (unat shift) rl OR push_bit (unat (64 - shift)) rh
        else drop_bit (unat (shift AND 63)) rh)"

text \<open>The 96-bit product divided by a 32-bit divisor; the first argument is the target's
  \<open>do_div\<close>.\<close>

definition mul_u64_u32_div ::
    "(u64 \<Rightarrow> u32 \<Rightarrow> ub + u64 \<times> u32) \<Rightarrow> u64 \<Rightarrow> u32 \<Rightarrow> u32 \<Rightarrow> ub + u64" where
  "mul_u64_u32_div do_div a mul divisor =
     (let rl = mul_u32_u32 (lo32 a) mul;
          rh = mul_u32_u32 (hi32 a) mul + ucast (hi32 rl)
      in bindE (do_div rh divisor) (\<lambda>(rh, rem).
         let rl = join rem (lo32 rl) in
         bindE (do_div rl divisor) (\<lambda>(rl, rem). Inr (join (lo32 rh) (lo32 rl)))))"

text \<open>Division by subtraction: the loop does not end for divisor 0.\<close>

partial_function (option) iter_div_loop :: "u64 \<Rightarrow> u32 \<Rightarrow> u32 \<Rightarrow> (u32 \<times> u64) option" where
  "iter_div_loop dividend divisor ret =
     (if ucast divisor \<le> dividend then iter_div_loop (dividend - ucast divisor) divisor (ret + 1)
      else Some (ret, dividend))"

definition iter_div_u64_rem :: "u64 \<Rightarrow> u32 \<Rightarrow> (u32 \<times> u64) option" where
  "iter_div_u64_rem dividend divisor = iter_div_loop dividend divisor 0"

text \<open>Quotient and remainder of the other functions, on a 32-bit and a 64-bit target.\<close>

definition div_u64_rem32 :: "(u64 \<Rightarrow> u32 \<Rightarrow> ub + u64 \<times> u32) \<Rightarrow> u64 \<Rightarrow> u32 \<Rightarrow> ub + u64 \<times> u32" where
  "div_u64_rem32 do_div dividend divisor =
     bindE (do_div dividend divisor) (\<lambda>(dividend, remainder). Inr (dividend, remainder))"

definition div_u64_rem64 :: "u64 \<Rightarrow> u32 \<Rightarrow> ub + u64 \<times> u32" where
  "div_u64_rem64 dividend divisor =
     (if divisor = 0 then Inl DivByZero
      else Inr (dividend div ucast divisor, ucast (dividend mod ucast divisor)))"

definition div_u64 :: "(u64 \<Rightarrow> u32 \<Rightarrow> ub + u64 \<times> u32) \<Rightarrow> u64 \<Rightarrow> u32 \<Rightarrow> ub + u64" where
  "div_u64 div_u64_rem dividend divisor =
     bindE (div_u64_rem dividend divisor) (\<lambda>(quotient, remainder). Inr quotient)"

definition div64_u64_rem :: "u64 \<Rightarrow> u64 \<Rightarrow> ub + u64 \<times> u64" where
  "div64_u64_rem dividend divisor =
     (if divisor = 0 then Inl DivByZero else Inr (dividend div divisor, dividend mod divisor))"

definition div64_u64 :: "u64 \<Rightarrow> u64 \<Rightarrow> ub + u64" where
  "div64_u64 dividend divisor = (if divisor = 0 then Inl DivByZero else Inr (dividend div divisor))"

text \<open>Signed division truncates; the smallest dividend overflows when divided by \<open>-1\<close>.\<close>

definition truncate :: "s64 \<Rightarrow> 'a::len word \<Rightarrow> ub + int \<times> int" where
  "truncate a b =
     (if b = 0 then Inl DivByZero
      else if sint a = - (2 ^ 63) \<and> sint b = - 1 then Inl SignedOverflow
      else Inr (sint a sdiv sint b, sint a smod sint b))"

definition div_s64_rem :: "s64 \<Rightarrow> s32 \<Rightarrow> ub + s64 \<times> s32" where
  "div_s64_rem dividend divisor =
     bindE (truncate dividend divisor) (\<lambda>(quotient, remainder). Inr (word_of_int quotient, word_of_int remainder))"

definition div64_s64 :: "s64 \<Rightarrow> s64 \<Rightarrow> ub + s64" where
  "div64_s64 dividend divisor =
     bindE (truncate dividend divisor) (\<lambda>(quotient, remainder). Inr (word_of_int quotient))"

definition div_s64 :: "s64 \<Rightarrow> s32 \<Rightarrow> ub + s64" where
  "div_s64 dividend divisor = bindE (div_s64_rem dividend divisor) (\<lambda>(quotient, remainder). Inr quotient)"

section \<open>Halves\<close>

lemma unat_high_half: "unat (hi32 x) = unat x div 2 ^ 32"
  using unat_high [of x] by (simp only: hi32_def unat_ucast32)

lemma unat_low_half: "unat (lo32 x) = unat x mod 2 ^ 32"
  using unat_low [of x] by (simp only: lo32_def unat_ucast32)

lemma unat_join: "unat (join hi lo) = unat hi * 2 ^ 32 + unat lo"
proof -
  have "push_bit 32 (ucast hi) AND (ucast lo :: u64) = 0"
    by (rule bit_word_eqI) (auto simp: word_bits)
  then have "join hi lo = push_bit 32 (ucast hi) + ucast lo"
    by (simp only: join_def disjunctive_add_eq_or)
  moreover have p: "unat (push_bit 32 (ucast hi) :: u64) = unat hi * 2 ^ 32"
    using unat_less_pow [of hi] by (simp only: unat_push_bit unat_ucast32) simp
  ultimately show ?thesis
    using unat_less_pow [of hi] unat_less_pow [of lo] by (simp only: p unat_ucast32) (subst unat_add_exact, simp_all only: p unat_ucast32, simp)
qed

lemma unat_mul_u32_u32: "unat (mul_u32_u32 a b) = unat a * unat b"
  using unat_mult_halves(1) [of "ucast a" "ucast b"] unat_less_pow [of a] unat_less_pow [of b]
  by (simp add: mul_u32_u32_def unat_ucast32)

lemma mul_halves_bound: "unat (a :: u32) * unat (b :: u32) \<le> (2 ^ 32 - 1) * (2 ^ 32 - 1)"
  using unat_less_pow [of a] unat_less_pow [of b] by (intro mult_mono) simp_all

lemma halves: "unat x = unat (hi32 x) * 2 ^ 32 + unat (lo32 x)"
  by (simp only: unat_high_half unat_low_half div_mult_mod_eq)

lemma half_less: "unat (w :: u32) < 2 ^ 32"
  using unat_less_pow [of w] by simp

section \<open>The 128-bit product\<close>

text \<open>Carries of the schoolbook product in base \<open>M\<close>.\<close>

lemma carries:
  fixes L0 L1 M0 M1 N0 N1 H0 H1 M :: nat
  defines "c0 \<equiv> L1 + M0 + N0"
  defines "c1 \<equiv> c0 div M + M1 + N1 + H0"
  shows "(L1 * M + L0) + (M1 * M + M0) * M + (N1 * M + N0) * M + (H1 * M + H0) * (M * M) =
    ((c1 div M + H1) * M + c1 mod M) * (M * M) + (c0 mod M * M + L0)"
proof -
  have "c0 = c0 div M * M + c0 mod M" "c1 = c1 div M * M + c1 mod M" by simp_all
  then have "L1 + M0 + N0 = c0 div M * M + c0 mod M" "c0 div M + M1 + N1 + H0 = c1 div M * M + c1 mod M"
    by (simp_all only: c0_def c1_def)
  then have "(L1 + M0 + N0) * M = (c0 div M * M + c0 mod M) * M"
    "(c0 div M + M1 + N1 + H0) * (M * M) = (c1 div M * M + c1 mod M) * (M * M)" by (simp_all only:)
  then show ?thesis unfolding distrib_right mult.assoc by (simp only: mult.left_commute mult.commute ac_simps)
qed

lemma mul_u64_u64_values:
  "unat a * unat b = unat (fst (mul_u64_u64 a b)) * 2 ^ 64 + unat (snd (mul_u64_u64 a b))"
proof -
  define rl rm rn rh where "rl = mul_u32_u32 (lo32 a) (lo32 b)" and "rm = mul_u32_u32 (lo32 a) (hi32 b)"
    and "rn = mul_u32_u32 (hi32 a) (lo32 b)" and "rh = mul_u32_u32 (hi32 a) (hi32 b)"
  define c0 c1 :: u64 where "c0 = ucast (hi32 rl) + ucast (lo32 rm) + ucast (lo32 rn)"
    and "c1 = drop_bit 32 c0 + ucast (hi32 rm) + ucast (hi32 rn) + ucast (lo32 rh)"
  note lt = half_less [of "hi32 rl"] half_less [of "lo32 rl"] half_less [of "hi32 rm"] half_less [of "lo32 rm"]
    half_less [of "hi32 rn"] half_less [of "lo32 rn"] half_less [of "hi32 rh"] half_less [of "lo32 rh"]
  have s1: "unat (ucast x + ucast y :: u64) = unat x + unat y" for x y :: u32
    using half_less [of x] half_less [of y] by (subst unat_add_exact) (simp_all only: unat_ucast32, simp)
  have c0: "unat c0 = unat (hi32 rl) + unat (lo32 rm) + unat (lo32 rn)"
    unfolding c0_def using lt by (subst unat_add_exact) (simp_all only: s1 unat_ucast32, simp)
  then have c0_le: "unat c0 div 2 ^ 32 \<le> 2" using lt by simp
  have u1: "unat (drop_bit 32 c0 + ucast (hi32 rm)) = unat c0 div 2 ^ 32 + unat (hi32 rm)"
    using lt c0_le by (subst unat_add_exact) (simp_all only: unat_drop_bit unat_ucast32, simp)
  have u2: "unat (drop_bit 32 c0 + ucast (hi32 rm) + ucast (hi32 rn)) = unat c0 div 2 ^ 32 + unat (hi32 rm) + unat (hi32 rn)"
    using lt c0_le by (subst unat_add_exact) (simp_all only: u1 unat_ucast32, simp)
  have c1: "unat c1 = unat c0 div 2 ^ 32 + unat (hi32 rm) + unat (hi32 rn) + unat (lo32 rh)"
    unfolding c1_def using lt c0_le by (subst unat_add_exact) (simp_all only: u2 unat_ucast32, simp)
  have u3: "unat (drop_bit 32 c1 + ucast (hi32 rh)) = unat c1 div 2 ^ 32 + unat (hi32 rh)"
    using lt unat_less_pow [of c1]
    by (subst unat_add_exact) (simp_all only: unat_drop_bit unat_ucast32, simp)
  define t where "t = unat c1 div 2 ^ 32 + unat (hi32 rh)"
  have j: "hi32 (join x y) = x" "lo32 (join x y) = y" for x y
    using half_less [of x] half_less [of y]
    by (simp_all only: word_unat_eq_iff unat_high_half unat_low_half unat_join) simp_all
  have lr: "mul_u64_u64 a b = (join (ucast (drop_bit 32 c1 + ucast (hi32 rh))) (ucast c1), join (ucast c0) (lo32 rl))"
    by (simp only: mul_u64_u64_def Let_def j rl_def rm_def rn_def rh_def c0_def c1_def)
  have eq: "unat a * unat b = (unat (hi32 rl) * 2 ^ 32 + unat (lo32 rl)) + (unat (hi32 rm) * 2 ^ 32 + unat (lo32 rm)) * 2 ^ 32
      + (unat (hi32 rn) * 2 ^ 32 + unat (lo32 rn)) * 2 ^ 32 + (unat (hi32 rh) * 2 ^ 32 + unat (lo32 rh)) * (2 ^ 32 * 2 ^ 32)"
    unfolding halves [symmetric] rl_def rm_def rn_def rh_def unat_mul_u32_u32
    by (subst halves [of a], subst halves [of b]) (simp add: algebra_simps)
  also have "\<dots> = (t * 2 ^ 32 + unat c1 mod 2 ^ 32) * (2 ^ 32 * 2 ^ 32) + (unat c0 mod 2 ^ 32 * 2 ^ 32 + unat (lo32 rl))"
    unfolding t_def c1 c0 by (rule carries)
  finally have total: "unat a * unat b =
    (t * 2 ^ 32 + unat c1 mod 2 ^ 32) * 2 ^ 64 + (unat c0 mod 2 ^ 32 * 2 ^ 32 + unat (lo32 rl))" by simp
  have "unat a * unat b < 2 ^ 64 * 2 ^ 64"
    using unat_less_pow [of a] unat_less_pow [of b] by (intro mult_strict_mono) simp_all
  then have "t < 2 ^ 32" unfolding total by simp
  then show ?thesis
    unfolding lr fst_conv snd_conv unat_join lo32_def [symmetric] unat_low_half u3 t_def [symmetric] total by simp
qed

section \<open>Shifted products\<close>

lemma bit_two_words: "bit (unat (h :: u64) * 2 ^ 64 + unat (l :: u64)) n \<longleftrightarrow> (if n < 64 then bit l n else bit h (n - 64))"
proof -
  have b: "bit (unat w) k \<longleftrightarrow> bit w k" for w :: u64 and k
    by (auto simp: bit_unsigned_iff dest: bit_imp_le_length)
  have "push_bit 64 (unat h) AND unat l = 0"
    by (rule bit_eqI) (auto simp: bit_and_iff bit_push_bit_iff b dest: bit_imp_le_length)
  then have "push_bit 64 (unat h) + unat l = push_bit 64 (unat h) OR unat l" by (simp only: disjunctive_add_eq_or)
  moreover have "unat h * 2 ^ 64 = push_bit 64 (unat h)" by (simp only: push_bit_eq_mult)
  ultimately have "bit (unat h * 2 ^ 64 + unat l) n \<longleftrightarrow> 64 \<le> n \<and> bit h (n - 64) \<or> bit l n"
    by (simp only: bit_or_iff bit_push_bit_iff b) (auto simp: possible_bit_def)
  then show ?thesis using bit_imp_le_length [of l n] by auto
qed

lemma unat_minus_shift: "shift \<le> (n :: u32) \<Longrightarrow> unat (n - shift) = unat n - unat shift"
  by (rule unat_sub_exact)

lemma mul_u64_u64_shr_value:
  assumes "shift < 128"
  shows "unat (mul_u64_u64_shr a b shift) = (unat a * unat b) div 2 ^ unat shift mod 2 ^ 64"
proof -
  obtain rh rl where m: "mul_u64_u64 a b = (rh, rl)" by (cases "mul_u64_u64 a b")
  then have ab: "unat a * unat b = unat rh * 2 ^ 64 + unat rl" using mul_u64_u64_values [of a b] by simp
  define s where "s = unat shift"
  have s: "s < 128" using assms by (simp add: s_def word_less_nat_alt)
  have res: "bit (mul_u64_u64_shr a b shift) n \<longleftrightarrow> n < 64 \<and> (if n + s < 64 then bit rl (n + s) else bit rh (n + s - 64))" for n
  proof -
    consider "s = 0" | "0 < s" "s < 64" | "64 \<le> s" by linarith
    then show ?thesis
    proof cases
      case 1
      then have "shift = 0" by (simp add: s_def unat_eq_0)
      then show ?thesis using 1 m by (auto simp: mul_u64_u64_shr_def dest: bit_imp_le_length)
    next
      case 2
      then have sh: "shift \<noteq> 0" "shift < 64" by (auto simp: s_def word_less_nat_alt)
      then have "unat (64 - shift) = 64 - s" by (simp add: unat_minus_shift s_def)
      then have "mul_u64_u64_shr a b shift = drop_bit s rl OR push_bit (64 - s) rh"
        using sh m by (simp add: mul_u64_u64_shr_def s_def)
      then show ?thesis
        using 2 bit_imp_le_length [of rl "n + s"] bit_imp_le_length [of rh "n + s - 64"]
        by (auto simp: word_bits add.commute)
    next
      case 3
      then have sh: "shift \<noteq> 0" "\<not> shift < 64" by (auto simp: s_def word_less_nat_alt)
      have "(63 :: u32) = mask 6" by (simp add: mask_eq_exp_minus_1)
      then have "unat (shift AND 63) = s mod 64" by (simp only: unat_and_mask s_def) simp
      also have "\<dots> = s - 64" using 3 s by (simp add: mod_if)
      finally have "mul_u64_u64_shr a b shift = drop_bit (s - 64) rh"
        using sh m by (simp add: mul_u64_u64_shr_def)
      moreover have "n + (s - 64) = n + s - 64" using 3 by simp
      ultimately show ?thesis
        using 3 bit_imp_le_length [of rh "n + s - 64"] by (auto simp: word_bits add.commute)
    qed
  qed
  have "unat (mul_u64_u64_shr a b shift) = take_bit 64 (drop_bit s (unat a * unat b))"
  proof (rule bit_eqI)
    fix n
    have "bit (unat (mul_u64_u64_shr a b shift)) n \<longleftrightarrow> bit (mul_u64_u64_shr a b shift) n"
      by (auto simp: bit_unsigned_iff dest: bit_imp_le_length)
    then show "bit (unat (mul_u64_u64_shr a b shift)) n \<longleftrightarrow> bit (take_bit 64 (drop_bit s (unat a * unat b))) n"
      unfolding ab bit_take_bit_iff bit_drop_bit_eq comp_def bit_two_words res by (simp add: add.commute)
  qed
  then show ?thesis by (simp only: take_bit_eq_mod drop_bit_eq_div s_def)
qed

lemma mul_u64_u32_shr_value:
  assumes "shift \<le> 32"
  obtains r where "mul_u64_u32_shr a mul shift = Inr r"
    and "unat r = (unat a * unat mul) div 2 ^ unat shift mod 2 ^ 64"
proof -
  define s lo hi where "s = unat shift" and "lo = unat (lo32 a) * unat mul" and "hi = unat (hi32 a) * unat mul"
  have s: "s \<le> 32" "\<not> 64 \<le> shift" "\<not> 64 \<le> 32 - shift" "unat (32 - shift) = 32 - s"
    using assms unat_minus_shift [OF assms] by (simp_all add: s_def word_le_nat_alt)
  have e: "(2 :: nat) ^ 32 = 2 ^ s * 2 ^ (32 - s)" using s(1) by (simp flip: power_add)
  have "unat a * unat mul = lo + hi * 2 ^ (32 - s) * 2 ^ s"
    using halves [of a] e by (simp add: lo_def hi_def algebra_simps)
  then have d: "(unat a * unat mul) div 2 ^ s = lo div 2 ^ s + hi * 2 ^ (32 - s)" by simp
  have lo_word: "unat (drop_bit s (mul_u32_u32 (lo32 a) mul)) = lo div 2 ^ s"
    by (simp only: unat_drop_bit unat_mul_u32_u32 lo_def)
  have hi_word: "unat (push_bit (32 - s) (mul_u32_u32 (hi32 a) mul)) = hi * 2 ^ (32 - s) mod 2 ^ 64"
    by (simp only: unat_push_bit unat_mul_u32_u32 hi_def) simp
  have "lo \<le> (2 ^ 32 - 1) * (2 ^ 32 - 1)" unfolding lo_def by (rule mul_halves_bound)
  then have lo_less: "lo div 2 ^ s < 2 ^ 64" using le_less_trans [OF div_le_dividend, of lo] by simp
  show thesis
  proof (cases "hi32 a = 0")
    case True
    then have "mul_u64_u32_shr a mul shift = Inr (drop_bit s (mul_u32_u32 (lo32 a) mul))"
      using s by (simp add: mul_u64_u32_shr_def Let_def s_def hi32_def lo32_def)
    then show thesis using that lo_word lo_less d True by (simp add: hi_def s_def)
  next
    case False
    then have "mul_u64_u32_shr a mul shift =
        Inr (drop_bit s (mul_u32_u32 (lo32 a) mul) + push_bit (32 - s) (mul_u32_u32 (hi32 a) mul))"
      using s by (simp add: mul_u64_u32_shr_def Let_def s_def hi32_def lo32_def)
    moreover have "unat (drop_bit s (mul_u32_u32 (lo32 a) mul) + push_bit (32 - s) (mul_u32_u32 (hi32 a) mul)) =
        (lo div 2 ^ s + hi * 2 ^ (32 - s)) mod 2 ^ 64"
      unfolding unat_word_ariths lo_word hi_word by (simp add: mod_add_right_eq)
    ultimately show thesis using that d by (simp add: s_def)
  qed
qed

lemma mul_u64_u32_shr_bad:
  assumes "32 < shift" "hi32 a \<noteq> 0"
  shows "mul_u64_u32_shr a mul shift = Inl BadShift"
proof (cases "64 \<le> shift")
  case False
  then have "32 < unat shift" "unat shift < 64" using assms(1) by (simp_all add: word_less_nat_alt word_le_nat_alt)
  then have "unat (32 - shift) = 2 ^ 32 + 32 - unat shift" by (simp add: unat_sub_if_size word_size)
  then have "64 \<le> 32 - shift" using \<open>unat shift < 64\<close> by (simp add: word_le_nat_alt)
  then show ?thesis using assms(2) False by (simp add: mul_u64_u32_shr_def Let_def hi32_def)
qed (simp add: mul_u64_u32_shr_def Let_def)

section \<open>Scaled division\<close>

context long_division
begin

text \<open>Dividing a 96-bit value digit by digit.\<close>

lemma mul_u64_u32_div_value:
  assumes "d \<noteq> 0"
  obtains r where "mul_u64_u32_div dv a mul d = Inr r"
    and "unat r = (unat a * unat mul) div unat d mod 2 ^ 64"
proof -
  define rl rh where "rl = mul_u32_u32 (lo32 a) mul" and "rh = mul_u32_u32 (hi32 a) mul + ucast (hi32 rl)"
  have rh: "unat rh = unat (hi32 a) * unat mul + unat (hi32 rl)"
    using mul_halves_bound [of "hi32 a" mul] half_less [of "hi32 rl"] unfolding rh_def
    by (subst unat_add_exact) (simp_all only: unat_mul_u32_u32 unat_ucast32, simp)
  obtain q r where q: "dv rh d = Inr (q, r)" "unat q = unat rh div unat d" "unat r = unat rh mod unat d"
    by (rule quotient_remainder [OF assms])
  define rl' where "rl' = join r (lo32 rl)"
  obtain q' r' where q': "dv rl' d = Inr (q', r')" "unat q' = unat rl' div unat d"
    by (rule quotient_remainder [OF assms])
  have d: "0 < unat d" using assms by (simp add: unat_gt_0)
  have "unat a * unat mul = unat rh * 2 ^ 32 + unat (lo32 rl)"
  proof -
    have "unat a * unat mul = unat (hi32 a) * unat mul * 2 ^ 32 + unat rl"
      by (subst halves) (simp add: rl_def unat_mul_u32_u32 algebra_simps)
    then show ?thesis using halves [of rl] rh by (simp add: algebra_simps)
  qed
  moreover have "unat rh = unat q * unat d + unat r" by (simp only: q(2,3) div_mult_mod_eq)
  ultimately have "unat a * unat mul = unat rl' + unat q * 2 ^ 32 * unat d"
    by (simp add: rl'_def unat_join algebra_simps)
  then have quot: "(unat a * unat mul) div unat d = unat q * 2 ^ 32 + unat q'" using d q'(2) by simp
  have "unat r < unat d" using q(3) d by simp
  then have "unat rl' < 2 ^ 32 * unat d"
    using half_less [of "lo32 rl"] mult_le_mono1 [of "unat r + 1" "unat d" "2 ^ 32"] by (simp add: rl'_def unat_join)
  then have "unat q' < 2 ^ 32" using q'(2) by (simp add: less_mult_imp_div_less)
  then have "unat (join (lo32 q) (lo32 q')) = unat q mod 2 ^ 32 * 2 ^ 32 + unat q'"
    by (simp add: unat_join unat_low_half)
  also have "\<dots> = (unat q * 2 ^ 32 + unat q') mod (2 ^ 32 * 2 ^ 32)"
    using \<open>unat q' < 2 ^ 32\<close> by (simp only: mod_mult2_eq) (simp add: div_mult_self3)
  finally have "unat (join (lo32 q) (lo32 q')) = (unat a * unat mul) div unat d mod 2 ^ 64" by (simp add: quot)
  moreover have "mul_u64_u32_div dv a mul d = Inr (join (lo32 q) (lo32 q'))"
    by (simp add: mul_u64_u32_div_def Let_def q(1) q'(1) flip: rl_def rh_def rl'_def)
  ultimately show thesis using that by blast
qed

lemma div_u64_rem32_divides:
  "base \<noteq> 0 \<Longrightarrow> div_u64_rem32 dv n base = div_u64_rem64 n base"
  by (simp add: div_u64_rem32_def divides div_u64_rem64_def)

end

text \<open>The loop of repeated subtraction.\<close>

lemma iter_div_loop_value:
  "d \<noteq> 0 \<Longrightarrow> iter_div_loop n d ret = Some (ret + ucast (n div ucast d), n mod ucast d)"
proof (induction "unat n" arbitrary: n ret rule: less_induct)
  case less
  have d: "0 < unat d" using less.prems by (simp add: unat_gt_0)
  show ?case
  proof (cases "ucast d \<le> n")
    case False
    then have "unat n < unat d" by (simp add: word_le_nat_alt unat_ucast32)
    then have "n div ucast d = 0" "n mod ucast d = n"
      by (simp_all add: word_unat_eq_iff unat_div_pow unat_mod_distrib unat_ucast32)
    then show ?thesis using False by (simp add: iter_div_loop.simps [of n])
  next
    case True
    then have le: "unat d \<le> unat n" by (simp add: word_le_nat_alt unat_ucast32)
    have u: "unat (n - ucast d) = unat n - unat d" using True by (simp add: unat_sub_exact unat_ucast32)
    have "(n - ucast d) mod ucast d = n mod ucast d"
      using le by (simp add: word_unat_eq_iff unat_mod_distrib unat_ucast32 u le_mod_geq)
    moreover have "n div ucast d = (n - ucast d) div ucast d + 1"
    proof -
      have "unat n div unat d = (unat n - unat d) div unat d + 1" using le d by (simp add: le_div_geq)
      moreover have "unat n div unat d < 2 ^ 64"
        using le_less_trans [OF div_le_dividend unat_less_pow [of n], of "unat d"] by simp
      ultimately show ?thesis
        by (simp only: word_unat_eq_iff unat_div_pow unat_ucast32) (subst unat_add_exact, simp_all only: unat_div_pow unat_ucast32 u unat_1 len_bit0 len_num1, simp)
    qed
    moreover have "iter_div_loop (n - ucast d) d (ret + 1) =
        Some (ret + 1 + ucast ((n - ucast d) div ucast d), (n - ucast d) mod ucast d)"
      using u d le by (intro less.hyps less.prems) simp
    moreover have "(ucast ((n - ucast d) div ucast d + 1) :: u32) = ucast ((n - ucast d) div ucast d) + 1"
      by (simp add: word_unat_eq_iff unat_ucast_down unat_word_ariths mod_mod_cancel mod_simps)
    ultimately show ?thesis
      using True by (simp only: iter_div_loop.simps [of n] if_True) (simp only: add.assoc add.commute [of 1])
  qed
qed

lemma iter_div_loop_zero:
  assumes "iter_div_loop n d ret = Some y"
  shows "d \<noteq> 0"
proof -
  have step: "iter_div_loop n 0 r = iter_div_loop n 0 (r + 1)" for n r
    by (subst iter_div_loop.simps) simp
  show ?thesis
    by (rule iter_div_loop.raw_induct [OF _ assms, where P = "\<lambda>n d r y. d \<noteq> 0"])
      (auto split: if_splits simp flip: step)
qed

section \<open>Properties\<close>

text \<open>C24: the products on 32-bit halves keep all 128 bits: shifted right by any amount below
  128 they are the low word of the exact result.  The product with a 32-bit factor needs a
  shift of at most 32; beyond, a value of more than 32 bits makes the inner shift undefined.\<close>

theorem wide_product_spec:
  "(shift < 128 \<longrightarrow> unat (mul_u64_u64_shr a b shift) = (unat a * unat b) div 2 ^ unat shift mod 2 ^ 64)
   \<and> (shift \<le> 32 \<longrightarrow> (\<exists>r. mul_u64_u32_shr a c shift = Inr r \<and>
        unat r = (unat a * unat c) div 2 ^ unat shift mod 2 ^ 64))
   \<and> (32 < shift \<and> 2 ^ 32 \<le> unat a \<longrightarrow> mul_u64_u32_shr a c shift = Inl BadShift)"
proof -
  have "hi32 a \<noteq> 0" if "2 ^ 32 \<le> unat a"
  proof
    assume "hi32 a = 0"
    then have "unat a div 2 ^ 32 = 0" using unat_high_half [of a] by simp
    then show False using that by (simp add: div_eq_0_iff)
  qed
  then show ?thesis
    using mul_u64_u64_shr_value [of shift a b] mul_u64_u32_shr_bad [of shift a c]
      mul_u64_u32_shr_value [of shift a c] by metis
qed

theorem wide_product_spec_witness:
  "unat (mul_u64_u64_shr 0xFFFFFFFFFFFFFFFF 0xFFFFFFFFFFFFFFFF 64) = 2 ^ 64 - 2 \<and>
   mul_u64_u32_shr 0x100000000 3 33 = Inl BadShift"
  using wide_product_spec [of 64 "0xFFFFFFFFFFFFFFFF" "0xFFFFFFFFFFFFFFFF" 3]
    wide_product_spec [of 33 "0x100000000" 0 3] by simp

text \<open>with the \<open>do_div\<close> of either target, \<open>mul_u64_u32_div\<close> returns the low word of
  the exact quotient \<open>a * mul / divisor\<close>; a zero divisor is a division by zero whenever the
  upper partial product fits 32 bits.\<close>

theorem mul_u64_u32_div_spec:
  assumes "target_division dv" "d \<noteq> 0"
  shows "\<exists>r. mul_u64_u32_div dv a mul d = Inr r \<and> unat r = (unat a * unat mul) div unat d mod 2 ^ 64"
  using long_division.mul_u64_u32_div_value [OF target_long_division [OF assms(1)] assms(2)] by metis

theorem mul_u64_u32_div_spec_witness:
  "\<exists>r. mul_u64_u32_div do_div64 0x123456789ABCDEF 1000 7 = Inr r \<and>
     unat r = 0x123456789ABCDEF * 1000 div 7 mod 2 ^ 64"
  using mul_u64_u32_div_spec [of do_div64 7 "0x123456789ABCDEF" 1000] by (simp add: target_division_def)

text \<open>Division by repeated subtraction ends for every divisor but zero, with the remainder
  and the low half of the quotient; for zero it never ends.\<close>

theorem iter_div_spec:
  "iter_div_u64_rem n d = (if d = 0 then None else Some (ucast (n div ucast d), n mod ucast d))"
  using iter_div_loop_value [of d n 0] iter_div_loop_zero [of n 0 0]
  by (cases "iter_div_loop n 0 0") (auto simp: iter_div_u64_rem_def)

end
