(* ===== verification/Nand.thy ===== *)
theory Nand
  imports Division
begin

text \<open>
  NAND flash geometry (\<open>include/linux/mtd/nand.h\<close>): positions of pages, their conversion from
  and to byte offsets, the order of positions, moving to the next page, eraseblock, LUN or
  target, and the iterator that splits a transfer into requests for single pages.  The
  macro \<open>do_div\<close> of the target is the argument \<open>dv\<close>.
\<close>

section \<open>Data\<close>

record nand_memory_organization =
  bits_per_cell :: u32
  pagesize :: u32
  oobsize :: u32
  pages_per_eraseblock :: u32
  eraseblocks_per_lun :: u32
  planes_per_lun :: u32
  luns_per_target :: u32
  ntargets :: u32

record nand_row_converter =
  lun_addr_shift :: u32
  eraseblock_addr_shift :: u32

record nand_pos =
  target :: u32
  lun :: u32
  plane :: u32
  eraseblock :: u32
  page :: u32

text \<open>Buffers are addresses.\<close>

record nand_page_io_req =
  pos :: nand_pos
  dataoffs :: u32
  datalen :: u32
  databuf :: u32
  ooboffs :: u32
  ooblen :: u32
  oobbuf :: u32
  mode :: u32

record mtd_info =
  mtd_oobavail_size :: u32
  mtd_oobsize :: u32

record nand_device =
  mtd :: mtd_info
  memorg :: nand_memory_organization
  rowconv :: nand_row_converter
  bbt_cache :: u32

record nand_io_iter =
  req :: nand_page_io_req
  oobbytes_per_page :: u32
  dataleft :: u32
  oobleft :: u32

text \<open>The request of the MTD layer.\<close>

record mtd_oob_ops =
  ops_mode :: u32
  ops_len :: u32
  ops_ooblen :: u32
  ops_ooboffs :: u32
  ops_datbuf :: u32
  ops_oobbuf :: u32

definition MTD_OPS_AUTO_OOB :: u32 where "MTD_OPS_AUTO_OOB = 1"

definition mtd_oobavail :: "mtd_info \<Rightarrow> mtd_oob_ops \<Rightarrow> u32" where
  "mtd_oobavail info ops = (if ops_mode ops = MTD_OPS_AUTO_OOB then mtd_oobavail_size info else mtd_oobsize info)"

section \<open>Sizes\<close>

definition nanddev_bits_per_cell :: "nand_device \<Rightarrow> u32" where
  "nanddev_bits_per_cell nand = bits_per_cell (memorg nand)"

definition nanddev_page_size :: "nand_device \<Rightarrow> u32" where
  "nanddev_page_size nand = pagesize (memorg nand)"

definition nanddev_per_page_oobsize :: "nand_device \<Rightarrow> u32" where
  "nanddev_per_page_oobsize nand = oobsize (memorg nand)"

definition nanddev_pages_per_eraseblock :: "nand_device \<Rightarrow> u32" where
  "nanddev_pages_per_eraseblock nand = pages_per_eraseblock (memorg nand)"

definition nanddev_eraseblock_size :: "nand_device \<Rightarrow> u32" where
  "nanddev_eraseblock_size nand = pagesize (memorg nand) * pages_per_eraseblock (memorg nand)"

definition nanddev_eraseblocks_per_lun :: "nand_device \<Rightarrow> u32" where
  "nanddev_eraseblocks_per_lun nand = eraseblocks_per_lun (memorg nand)"

definition nanddev_target_size :: "nand_device \<Rightarrow> u64" where
  "nanddev_target_size nand = ucast (luns_per_target (memorg nand)) * ucast (eraseblocks_per_lun (memorg nand))
     * ucast (pages_per_eraseblock (memorg nand)) * ucast (pagesize (memorg nand))"

definition nanddev_ntargets :: "nand_device \<Rightarrow> u32" where
  "nanddev_ntargets nand = ntargets (memorg nand)"

definition nanddev_neraseblocks :: "nand_device \<Rightarrow> u32" where
  "nanddev_neraseblocks nand = ucast (ucast (luns_per_target (memorg nand)) * ucast (eraseblocks_per_lun (memorg nand))
     * ucast (pages_per_eraseblock (memorg nand)) :: u64)"

definition nanddev_size :: "nand_device \<Rightarrow> u64" where
  "nanddev_size nand = nanddev_target_size nand * ucast (nanddev_ntargets nand)"

section \<open>Positions\<close>

definition nanddev_offs_to_pos ::
    "(u64 \<Rightarrow> u32 \<Rightarrow> ub + u64 \<times> u32) \<Rightarrow> nand_device \<Rightarrow> s64 \<Rightarrow> ub + u32 \<times> nand_pos" where
  "nanddev_offs_to_pos dv nand offs =
     bindE (dv offs (pagesize (memorg nand))) (\<lambda>(tmp, pageoffs).
     bindE (dv tmp (pages_per_eraseblock (memorg nand))) (\<lambda>(tmp, pg).
     bindE (dv tmp (eraseblocks_per_lun (memorg nand))) (\<lambda>(tmp, eb).
     if planes_per_lun (memorg nand) = 0 then Inl DivByZero
     else bindE (dv tmp (luns_per_target (memorg nand))) (\<lambda>(tmp, ln).
     Inr (pageoffs, \<lparr>target = ucast tmp, lun = ln, plane = eb mod planes_per_lun (memorg nand),
        eraseblock = eb, page = pg\<rparr>)))))"

definition nanddev_pos_cmp :: "'a nand_pos_scheme \<Rightarrow> 'a nand_pos_scheme \<Rightarrow> int" where
  "nanddev_pos_cmp a b =
     (if target a \<noteq> target b then if target a < target b then - 1 else 1
      else if lun a \<noteq> lun b then if lun a < lun b then - 1 else 1
      else if eraseblock a \<noteq> eraseblock b then if eraseblock a < eraseblock b then - 1 else 1
      else if page a \<noteq> page b then if page a < page b then - 1 else 1
      else 0)"

text \<open>The product is one of \<open>loff_t\<close>, a signed 64-bit type.\<close>

definition nanddev_pos_to_offs :: "nand_device \<Rightarrow> nand_pos \<Rightarrow> ub + s64" where
  "nanddev_pos_to_offs nand p =
     (let npages = page p + ((eraseblock p + (lun p + (target p * luns_per_target (memorg nand)))
             * eraseblocks_per_lun (memorg nand)) * pages_per_eraseblock (memorg nand))
      in if 2 ^ 63 \<le> unat npages * unat (pagesize (memorg nand)) then Inl SignedOverflow
         else Inr (ucast npages * ucast (pagesize (memorg nand))))"

definition nanddev_pos_to_row :: "nand_device \<Rightarrow> nand_pos \<Rightarrow> ub + u32" where
  "nanddev_pos_to_row nand p =
     (if 32 \<le> lun_addr_shift (rowconv nand) \<or> 32 \<le> eraseblock_addr_shift (rowconv nand) then Inl BadShift
      else Inr (push_bit (unat (lun_addr_shift (rowconv nand))) (lun p)
        OR push_bit (unat (eraseblock_addr_shift (rowconv nand))) (eraseblock p) OR page p))"

definition nanddev_pos_next_target :: "nand_device \<Rightarrow> nand_pos \<Rightarrow> nand_pos" where
  "nanddev_pos_next_target nand p =
     p\<lparr>page := 0, plane := 0, eraseblock := 0, lun := 0, target := target p + 1\<rparr>"

definition nanddev_pos_next_lun :: "nand_device \<Rightarrow> nand_pos \<Rightarrow> nand_pos" where
  "nanddev_pos_next_lun nand p =
     (if luns_per_target (memorg nand) - 1 \<le> lun p then nanddev_pos_next_target nand p
      else p\<lparr>lun := lun p + 1, page := 0, plane := 0, eraseblock := 0\<rparr>)"

definition nanddev_pos_next_eraseblock :: "nand_device \<Rightarrow> nand_pos \<Rightarrow> nand_pos" where
  "nanddev_pos_next_eraseblock nand p =
     (if eraseblocks_per_lun (memorg nand) - 1 \<le> eraseblock p then nanddev_pos_next_lun nand p
      else p\<lparr>eraseblock := eraseblock p + 1, page := 0,
        plane := (eraseblock p + 1) mod planes_per_lun (memorg nand)\<rparr>)"

definition nanddev_pos_next_page :: "nand_device \<Rightarrow> nand_pos \<Rightarrow> nand_pos" where
  "nanddev_pos_next_page nand p =
     (if pages_per_eraseblock (memorg nand) - 1 \<le> page p then nanddev_pos_next_eraseblock nand p
      else p\<lparr>page := page p + 1\<rparr>)"

definition nanddev_bbt_pos_to_entry :: "nand_device \<Rightarrow> nand_pos \<Rightarrow> u32" where
  "nanddev_bbt_pos_to_entry nand p = eraseblock p +
     ((lun p + (target p * luns_per_target (memorg nand))) * eraseblocks_per_lun (memorg nand))"

definition nanddev_bbt_is_initialized :: "nand_device \<Rightarrow> bool" where
  "nanddev_bbt_is_initialized nand \<longleftrightarrow> bbt_cache nand \<noteq> 0"

section \<open>The iterator over the pages of a request\<close>

definition nanddev_io_iter_init ::
    "(u64 \<Rightarrow> u32 \<Rightarrow> ub + u64 \<times> u32) \<Rightarrow> nand_device \<Rightarrow> s64 \<Rightarrow> mtd_oob_ops \<Rightarrow> ub + nand_io_iter" where
  "nanddev_io_iter_init dv nand offs r =
     bindE (nanddev_offs_to_pos dv nand offs) (\<lambda>(doffs, p).
       let avail = mtd_oobavail (mtd nand) r in
       Inr \<lparr>req = \<lparr>pos = p, dataoffs = doffs,
              datalen = min (pagesize (memorg nand) - doffs) (ops_len r), databuf = ops_datbuf r,
              ooboffs = ops_ooboffs r, ooblen = min (avail - ops_ooboffs r) (ops_ooblen r),
              oobbuf = ops_oobbuf r, mode = ops_mode r\<rparr>,
            oobbytes_per_page = avail, dataleft = ops_len r, oobleft = ops_ooblen r\<rparr>)"

definition nanddev_io_iter_next_page :: "nand_device \<Rightarrow> nand_io_iter \<Rightarrow> nand_io_iter" where
  "nanddev_io_iter_next_page nand iter =
     (let r = req iter; dleft = dataleft iter - datalen r; oleft = oobleft iter - ooblen r in
      iter\<lparr>dataleft := dleft, oobleft := oleft,
        req := r\<lparr>pos := nanddev_pos_next_page nand (pos r),
          databuf := databuf r + datalen r, oobbuf := oobbuf r + ooblen r,
          dataoffs := 0, ooboffs := 0,
          datalen := min (pagesize (memorg nand)) dleft,
          ooblen := min (oobbytes_per_page iter) oleft\<rparr>\<rparr>)"

definition nanddev_io_iter_end :: "nand_device \<Rightarrow> nand_io_iter \<Rightarrow> bool" where
  "nanddev_io_iter_end nand iter \<longleftrightarrow> \<not> (dataleft iter \<noteq> 0 \<or> oobleft iter \<noteq> 0)"

text \<open>The loop, with a body that notes the request it is given; it may not end.\<close>

partial_function (option) io_for_each_page ::
    "nand_device \<Rightarrow> nand_io_iter \<Rightarrow> nand_page_io_req list \<Rightarrow> nand_page_io_req list option" where
  "io_for_each_page nand iter seen =
     (if nanddev_io_iter_end nand iter then Some seen
      else io_for_each_page nand (nanddev_io_iter_next_page nand iter) (seen @ [req iter]))"

definition nanddev_io_for_each_page ::
    "(u64 \<Rightarrow> u32 \<Rightarrow> ub + u64 \<times> u32) \<Rightarrow> nand_device \<Rightarrow> s64 \<Rightarrow> mtd_oob_ops \<Rightarrow> ub + nand_page_io_req list option" where
  "nanddev_io_for_each_page dv nand start r =
     bindE (nanddev_io_iter_init dv nand start r) (\<lambda>iter. Inr (io_for_each_page nand iter []))"

section \<open>Positions as page numbers\<close>

definition geometry_ok :: "nand_device \<Rightarrow> bool" where
  "geometry_ok nand \<longleftrightarrow> pagesize (memorg nand) \<noteq> 0 \<and> pages_per_eraseblock (memorg nand) \<noteq> 0
     \<and> eraseblocks_per_lun (memorg nand) \<noteq> 0 \<and> planes_per_lun (memorg nand) \<noteq> 0
     \<and> luns_per_target (memorg nand) \<noteq> 0"

definition valid_pos :: "nand_device \<Rightarrow> nand_pos \<Rightarrow> bool" where
  "valid_pos nand p \<longleftrightarrow> page p < pages_per_eraseblock (memorg nand)
     \<and> eraseblock p < eraseblocks_per_lun (memorg nand) \<and> lun p < luns_per_target (memorg nand)
     \<and> plane p = eraseblock p mod planes_per_lun (memorg nand)"

abbreviation ppe :: "nand_device \<Rightarrow> nat" where "ppe nand \<equiv> unat (pages_per_eraseblock (memorg nand))"
abbreviation epl :: "nand_device \<Rightarrow> nat" where "epl nand \<equiv> unat (eraseblocks_per_lun (memorg nand))"
abbreviation lpt :: "nand_device \<Rightarrow> nat" where "lpt nand \<equiv> unat (luns_per_target (memorg nand))"
abbreviation psize :: "nand_device \<Rightarrow> nat" where "psize nand \<equiv> unat (pagesize (memorg nand))"

text \<open>The numbers of the LUN, the eraseblock and the page, counted over the whole device.\<close>

definition lun_no :: "nand_device \<Rightarrow> nand_pos \<Rightarrow> nat" where
  "lun_no nand p = unat (target p) * lpt nand + unat (lun p)"

definition block_no :: "nand_device \<Rightarrow> nand_pos \<Rightarrow> nat" where
  "block_no nand p = lun_no nand p * epl nand + unat (eraseblock p)"

definition page_no :: "nand_device \<Rightarrow> nand_pos \<Rightarrow> nat" where
  "page_no nand p = block_no nand p * ppe nand + unat (page p)"

lemma valid_pos_digits:
  assumes "valid_pos nand p"
  shows "unat (page p) < ppe nand" "unat (eraseblock p) < epl nand" "unat (lun p) < lpt nand"
  using assms by (simp_all add: valid_pos_def word_less_nat_alt)

lemma valid_pos_numbers:
  assumes "valid_pos nand p"
  shows "page_no nand p div ppe nand = block_no nand p" "page_no nand p mod ppe nand = unat (page p)"
    and "block_no nand p div epl nand = lun_no nand p" "block_no nand p mod epl nand = unat (eraseblock p)"
    and "lun_no nand p div lpt nand = unat (target p)" "lun_no nand p mod lpt nand = unat (lun p)"
  using valid_pos_digits [OF assms] by (simp_all add: page_no_def block_no_def lun_no_def)

text \<open>A valid position is determined by its page number.\<close>

lemma page_no_inj:
  assumes "valid_pos nand p" "valid_pos nand q" "page_no nand p = page_no nand q"
  shows "p = q"
proof -
  have "unat (page p) = unat (page q)" "unat (eraseblock p) = unat (eraseblock q)"
    "unat (lun p) = unat (lun q)" "unat (target p) = unat (target q)"
    using valid_pos_numbers [OF assms(1)] valid_pos_numbers [OF assms(2)] assms(3) by metis+
  then have "page p = page q" "eraseblock p = eraseblock q" "lun p = lun q" "target p = target q"
    by (simp_all only: word_unat_eq_iff)
  then show ?thesis using assms(1,2) by (cases p, cases q) (simp add: valid_pos_def)
qed

lemma npages_word:
  "unat (page p + ((eraseblock p + (lun p + (target p * luns_per_target (memorg nand)))
       * eraseblocks_per_lun (memorg nand)) * pages_per_eraseblock (memorg nand))) = page_no nand p mod 2 ^ 32"
proof -
  have "page p + ((eraseblock p + (lun p + (target p * luns_per_target (memorg nand)))
      * eraseblocks_per_lun (memorg nand)) * pages_per_eraseblock (memorg nand)) = of_nat (page_no nand p)"
    by (simp add: page_no_def block_no_def lun_no_def add.commute)
  then show ?thesis by (simp only: unat_of_nat) simp
qed

lemma bbt_entry_word: "unat (nanddev_bbt_pos_to_entry nand p) = block_no nand p mod 2 ^ 32"
proof -
  have "nanddev_bbt_pos_to_entry nand p = of_nat (block_no nand p)"
    by (simp add: nanddev_bbt_pos_to_entry_def block_no_def lun_no_def add.commute)
  then show ?thesis by (simp only: unat_of_nat) simp
qed

section \<open>Offsets\<close>

text \<open>The smallest offset whose target number does not fit.\<close>

definition pages_limit :: "nand_device \<Rightarrow> nat" where
  "pages_limit nand = 2 ^ 32 * lpt nand * epl nand * ppe nand"

context long_division
begin

lemma offs_to_pos_values:
  assumes "geometry_ok nand" "unat offs div psize nand < pages_limit nand"
  obtains po p where "nanddev_offs_to_pos dv nand offs = Inr (po, p)" "valid_pos nand p"
    and "unat po = unat offs mod psize nand" "page_no nand p = unat offs div psize nand"
proof -
  have g: "pagesize (memorg nand) \<noteq> 0" "pages_per_eraseblock (memorg nand) \<noteq> 0"
    "eraseblocks_per_lun (memorg nand) \<noteq> 0" "planes_per_lun (memorg nand) \<noteq> 0" "luns_per_target (memorg nand) \<noteq> 0"
    using assms(1) by (simp_all add: geometry_ok_def)
  obtain t1 po where t1: "dv offs (pagesize (memorg nand)) = Inr (t1, po)" "unat t1 = unat offs div psize nand"
    "unat po = unat offs mod psize nand" by (rule quotient_remainder [OF g(1)])
  obtain t2 pg where t2: "dv t1 (pages_per_eraseblock (memorg nand)) = Inr (t2, pg)" "unat t2 = unat t1 div ppe nand"
    "unat pg = unat t1 mod ppe nand" by (rule quotient_remainder [OF g(2)])
  obtain t3 eb where t3: "dv t2 (eraseblocks_per_lun (memorg nand)) = Inr (t3, eb)" "unat t3 = unat t2 div epl nand"
    "unat eb = unat t2 mod epl nand" by (rule quotient_remainder [OF g(3)])
  obtain t4 ln where t4: "dv t3 (luns_per_target (memorg nand)) = Inr (t4, ln)" "unat t4 = unat t3 div lpt nand"
    "unat ln = unat t3 mod lpt nand" by (rule quotient_remainder [OF g(5)])
  define p where "p = \<lparr>target = ucast t4, lun = ln, plane = eb mod planes_per_lun (memorg nand),
    eraseblock = eb, page = pg\<rparr>"
  have r: "nanddev_offs_to_pos dv nand offs = Inr (po, p)"
    using g(4) by (simp add: nanddev_offs_to_pos_def t1(1) t2(1) t3(1) t4(1) p_def)
  have v: "valid_pos nand p" using g t2(3) t3(3) t4(3)
    by (simp add: valid_pos_def p_def word_less_nat_alt unat_gt_0)
  have "unat t4 = unat t1 div (ppe nand * epl nand * lpt nand)" by (simp only: t4 t3 t2 div_mult2_eq)
  moreover have "unat t1 < 2 ^ 32 * (ppe nand * epl nand * lpt nand)"
    using assms(2) by (simp add: t1(2) pages_limit_def mult.commute mult.left_commute)
  ultimately have "unat t4 < 2 ^ 32" by (simp add: less_mult_imp_div_less)
  then have "unat (target p) = unat t4" by (simp add: p_def unat_ucast_down)
  moreover have "unat t4 * lpt nand + unat ln = unat t3" "unat t3 * epl nand + unat eb = unat t2"
    "unat t2 * ppe nand + unat pg = unat t1"
    by (simp_all only: t4(2,3) t3(2,3) t2(2,3) div_mult_mod_eq)
  ultimately have "page_no nand p = unat t1"
    by (simp add: page_no_def block_no_def lun_no_def p_def)
  then show thesis using that [OF r v t1(3)] t1(2) by simp
qed

end

lemma pos_to_offs_value:
  assumes "page_no nand p < 2 ^ 32" "page_no nand p * psize nand < 2 ^ 63"
  obtains r where "nanddev_pos_to_offs nand p = Inr r" "unat r = page_no nand p * psize nand"
proof -
  define np where "np = page p + ((eraseblock p + (lun p + (target p * luns_per_target (memorg nand)))
       * eraseblocks_per_lun (memorg nand)) * pages_per_eraseblock (memorg nand))"
  have np: "unat np = page_no nand p" using assms(1) npages_word [of p nand] by (simp add: np_def)
  have "unat (ucast np * ucast (pagesize (memorg nand)) :: u64) = page_no nand p * psize nand"
    using assms(2) by (subst unat_mult_exact) (simp_all only: unat_ucast32 np len_bit0 len_num1, simp)
  moreover have "nanddev_pos_to_offs nand p = Inr (ucast np * ucast (pagesize (memorg nand)))"
    using assms(2) np by (simp add: nanddev_pos_to_offs_def Let_def flip: np_def)
  ultimately show thesis using that by blast
qed

section \<open>Moving on\<close>

text \<open>Moving a position by one unit increases its number by one, up to a limit; the iterations
  that use a move rely on nothing else.\<close>

locale cursor =
  fixes nx :: "'p \<Rightarrow> 'p" and number :: "'p \<Rightarrow> nat" and ok :: "'p \<Rightarrow> bool" and limit :: nat
  assumes step: "ok p \<Longrightarrow> number p + 1 < limit \<Longrightarrow> ok (nx p) \<and> number (nx p) = number p + 1"
begin

lemma steps: "ok p \<Longrightarrow> number p + k < limit \<Longrightarrow> ok ((nx ^^ k) p) \<and> number ((nx ^^ k) p) = number p + k"
  by (induction k) (use step in auto)

lemma visits_all:
  assumes "ok p" "number p \<le> n" "n < limit"
  shows "\<exists>q. ok q \<and> number q = n \<and> q = (nx ^^ (n - number p)) p"
  using steps [of p "n - number p"] assms by auto

end

lemma last_digit:
  fixes w n :: u32
  shows "w < n \<Longrightarrow> n - 1 \<le> w \<longleftrightarrow> unat w + 1 = unat n"
proof -
  assume w: "w < n"
  then have "1 \<le> n" by (metis word_less_1 word_not_simps(1) not_less)
  then have "unat (n - 1) = unat n - 1" by (simp add: unat_sub_exact)
  then show ?thesis using w by (auto simp: word_le_nat_alt word_less_nat_alt)
qed

lemma inc_digit:
  fixes w n :: u32
  assumes "w < n" "\<not> n - 1 \<le> w"
  shows "unat (w + 1) = unat w + 1" "w + 1 < n"
proof -
  have "unat w + 1 < unat n" using assms last_digit [of w n] by (simp add: word_less_nat_alt)
  moreover show "unat (w + 1) = unat w + 1"
    using calculation unat_less_pow [of n] by (subst unat_add_exact) simp_all
  ultimately show "w + 1 < n" by (simp add: word_less_nat_alt)
qed

lemma inc_target: "unat t + 1 < 2 ^ 32 \<Longrightarrow> unat (t + 1 :: u32) = unat t + 1"
  by (subst unat_add_exact) simp_all

definition movable :: "nand_device \<Rightarrow> nand_pos \<Rightarrow> bool" where
  "movable nand p \<longleftrightarrow> geometry_ok nand \<and> valid_pos nand p"

lemma carry_limit: "x * m + u + 1 < y * m \<Longrightarrow> u + 1 = m \<Longrightarrow> x + 1 < (y :: nat)"
proof -
  assume "x * m + u + 1 < y * m" "u + 1 = m"
  then have "(x + 1) * m < y * m" by simp
  then show ?thesis by (simp only: mult_less_cancel2)
qed

interpretation targets: cursor "nanddev_pos_next_target nand" "\<lambda>p. unat (target p)" "movable nand" "2 ^ 32" for nand
  by unfold_locales (auto simp: movable_def valid_pos_def nanddev_pos_next_target_def geometry_ok_def
      inc_target word_neq_0_conv)

lemma target_move:
  assumes "movable nand p" "unat (target p) + 1 < 2 ^ 32"
  shows "movable nand (nanddev_pos_next_target nand p)"
    "lun_no nand (nanddev_pos_next_target nand p) = (unat (target p) + 1) * lpt nand"
  using targets.step [OF assms] by (simp_all add: lun_no_def nanddev_pos_next_target_def)

interpretation luns: cursor "nanddev_pos_next_lun nand" "lun_no nand" "movable nand" "2 ^ 32 * lpt nand" for nand
proof
  fix p assume m: "movable nand p" and l: "lun_no nand p + 1 < 2 ^ 32 * lpt nand"
  have v: "lun p < luns_per_target (memorg nand)" using m by (simp add: movable_def valid_pos_def)
  show "movable nand (nanddev_pos_next_lun nand p) \<and> lun_no nand (nanddev_pos_next_lun nand p) = lun_no nand p + 1"
  proof (cases "luns_per_target (memorg nand) - 1 \<le> lun p")
    case True
    then have last: "unat (lun p) + 1 = lpt nand" using last_digit [OF v] by simp
    then have "unat (target p) + 1 < 2 ^ 32" by (rule carry_limit [OF l [unfolded lun_no_def]])
    then show ?thesis using target_move [OF m] True last by (simp add: nanddev_pos_next_lun_def lun_no_def)
  next
    case False
    then show ?thesis using m inc_digit [OF v False]
      by (auto simp: nanddev_pos_next_lun_def lun_no_def movable_def valid_pos_def geometry_ok_def word_neq_0_conv)
  qed
qed

lemma lun_move:
  assumes "movable nand p" "lun_no nand p + 1 < 2 ^ 32 * lpt nand"
  shows "block_no nand (nanddev_pos_next_lun nand p) = (lun_no nand p + 1) * epl nand"
  using luns.step [OF assms]
  by (simp add: block_no_def nanddev_pos_next_lun_def nanddev_pos_next_target_def split: if_splits)

interpretation blocks: cursor "nanddev_pos_next_eraseblock nand" "block_no nand" "movable nand"
  "2 ^ 32 * lpt nand * epl nand" for nand
proof
  fix p assume m: "movable nand p" and l: "block_no nand p + 1 < 2 ^ 32 * lpt nand * epl nand"
  have v: "eraseblock p < eraseblocks_per_lun (memorg nand)" using m by (simp add: movable_def valid_pos_def)
  show "movable nand (nanddev_pos_next_eraseblock nand p) \<and>
    block_no nand (nanddev_pos_next_eraseblock nand p) = block_no nand p + 1"
  proof (cases "eraseblocks_per_lun (memorg nand) - 1 \<le> eraseblock p")
    case True
    then have last: "unat (eraseblock p) + 1 = epl nand" using last_digit [OF v] by simp
    then have u: "lun_no nand p + 1 < 2 ^ 32 * lpt nand" by (rule carry_limit [OF l [unfolded block_no_def]])
    show ?thesis using luns.step [OF m u] lun_move [OF m u] True last
      by (simp add: nanddev_pos_next_eraseblock_def block_no_def)
  next
    case False
    then show ?thesis using m inc_digit [OF v False]
      by (auto simp: nanddev_pos_next_eraseblock_def block_no_def lun_no_def movable_def valid_pos_def
          geometry_ok_def word_neq_0_conv)
  qed
qed

lemma block_move:
  assumes "movable nand p" "block_no nand p + 1 < 2 ^ 32 * lpt nand * epl nand"
  shows "page_no nand (nanddev_pos_next_eraseblock nand p) = (block_no nand p + 1) * ppe nand"
  using blocks.step [OF assms]
  by (simp add: page_no_def nanddev_pos_next_eraseblock_def nanddev_pos_next_lun_def nanddev_pos_next_target_def
      split: if_splits)

interpretation pages: cursor "nanddev_pos_next_page nand" "page_no nand" "movable nand" "pages_limit nand" for nand
proof
  fix p assume m: "movable nand p" and l: "page_no nand p + 1 < pages_limit nand"
  have v: "page p < pages_per_eraseblock (memorg nand)" using m by (simp add: movable_def valid_pos_def)
  show "movable nand (nanddev_pos_next_page nand p) \<and> page_no nand (nanddev_pos_next_page nand p) = page_no nand p + 1"
  proof (cases "pages_per_eraseblock (memorg nand) - 1 \<le> page p")
    case True
    then have last: "unat (page p) + 1 = ppe nand" using last_digit [OF v] by simp
    then have u: "block_no nand p + 1 < 2 ^ 32 * lpt nand * epl nand"
      by (rule carry_limit [OF l [unfolded page_no_def pages_limit_def]])
    show ?thesis using blocks.step [OF m u] block_move [OF m u] True last
      by (simp add: nanddev_pos_next_page_def page_no_def)
  next
    case False
    then show ?thesis using m inc_digit [OF v False]
      by (auto simp: nanddev_pos_next_page_def page_no_def block_no_def lun_no_def movable_def valid_pos_def
          geometry_ok_def word_neq_0_conv)
  qed
qed

text \<open>The number of eraseblocks is not what its function computes: that is the number of pages of
  one target, and the targets do not enter.\<close>

lemma neraseblocks_counts_pages:
  "unat (nanddev_neraseblocks nand) = lpt nand * epl nand * ppe nand mod 2 ^ 32"
proof -
  have "nanddev_neraseblocks nand = of_nat (lpt nand * epl nand * ppe nand)"
    by (simp add: nanddev_neraseblocks_def word_unat_eq_iff unat_ucast_down unat_word_ariths
        unat_ucast32 mod_mod_cancel mod_simps unat_of_nat del: of_nat_mult)
  then show ?thesis by (simp only: unat_of_nat) simp
qed

section \<open>The order of positions\<close>

lemma digits_less:
  "(u :: nat) < m \<Longrightarrow> v < m \<Longrightarrow> x * m + u < y * m + v \<longleftrightarrow> x < y \<or> x = y \<and> u < v"
proof -
  assume uv: "u < m" "v < m"
  have "a * m + u < b * m + w" if "a < b" "u < m" for a b u w :: nat
  proof -
    have "(a + 1) * m \<le> b * m" using that(1) by (intro mult_le_mono1) simp
    then show ?thesis using that(2) by simp
  qed
  then show ?thesis using uv by (metis less_irrefl less_asym linorder_neqE_nat nat_add_left_cancel_less)
qed

lemma pos_cmp_number:
  assumes "valid_pos nand a" "valid_pos nand b"
  shows "nanddev_pos_cmp a b = (if page_no nand a < page_no nand b then - 1 else if page_no nand b < page_no nand a then 1 else 0)"
proof -
  note da = valid_pos_digits [OF assms(1)] and db = valid_pos_digits [OF assms(2)]
  have l: "page_no nand a < page_no nand b \<longleftrightarrow> block_no nand a < block_no nand b \<or> block_no nand a = block_no nand b \<and> page a < page b"
      "page_no nand b < page_no nand a \<longleftrightarrow> block_no nand b < block_no nand a \<or> block_no nand a = block_no nand b \<and> page b < page a"
    using digits_less [OF da(1) db(1)] digits_less [OF db(1) da(1)] by (auto simp: page_no_def word_less_nat_alt)
  have m: "block_no nand a < block_no nand b \<longleftrightarrow> lun_no nand a < lun_no nand b \<or> lun_no nand a = lun_no nand b \<and> eraseblock a < eraseblock b"
      "block_no nand b < block_no nand a \<longleftrightarrow> lun_no nand b < lun_no nand a \<or> lun_no nand a = lun_no nand b \<and> eraseblock b < eraseblock a"
    using digits_less [OF da(2) db(2)] digits_less [OF db(2) da(2)] by (auto simp: block_no_def word_less_nat_alt)
  have n: "lun_no nand a < lun_no nand b \<longleftrightarrow> target a < target b \<or> target a = target b \<and> lun a < lun b"
      "lun_no nand b < lun_no nand a \<longleftrightarrow> target b < target a \<or> target a = target b \<and> lun b < lun a"
    using digits_less [OF da(3) db(3)] digits_less [OF db(3) da(3)] by (auto simp: lun_no_def word_less_nat_alt word_unat_eq_iff)
  have e: "block_no nand a = block_no nand b \<longleftrightarrow> \<not> block_no nand a < block_no nand b \<and> \<not> block_no nand b < block_no nand a"
    "lun_no nand a = lun_no nand b \<longleftrightarrow> \<not> lun_no nand a < lun_no nand b \<and> \<not> lun_no nand b < lun_no nand a" by auto
  show ?thesis unfolding l e m n nanddev_pos_cmp_def by (auto simp: not_less_iff_gr_or_eq)
qed

lemma pos_cmp_le:
  "nanddev_pos_cmp a b \<le> 0 \<longleftrightarrow> target a < target b \<or> target a = target b \<and>
     (lun a < lun b \<or> lun a = lun b \<and>
       (eraseblock a < eraseblock b \<or> eraseblock a = eraseblock b \<and> page a \<le> page b))"
  by (auto simp: nanddev_pos_cmp_def)

lemma pos_cmp_swap: "nanddev_pos_cmp a b < 0 \<longleftrightarrow> \<not> nanddev_pos_cmp b a \<le> 0"
  by (cases "target a" "target b" rule: linorder_cases; cases "lun a" "lun b" rule: linorder_cases;
      cases "eraseblock a" "eraseblock b" rule: linorder_cases; cases "page a" "page b" rule: linorder_cases;
      simp add: nanddev_pos_cmp_def less_imp_neq less_imp_neq [symmetric] less_not_sym)

text \<open>The comparison makes positions a preorder: it does not look at the plane.\<close>

instantiation nand_pos_ext :: (type) preorder
begin

definition less_eq_nand_pos_ext :: "'a nand_pos_scheme \<Rightarrow> 'a nand_pos_scheme \<Rightarrow> bool" where
  "less_eq_nand_pos_ext a b \<longleftrightarrow> nanddev_pos_cmp a b \<le> 0"

definition less_nand_pos_ext :: "'a nand_pos_scheme \<Rightarrow> 'a nand_pos_scheme \<Rightarrow> bool" where
  "less_nand_pos_ext a b \<longleftrightarrow> nanddev_pos_cmp a b < 0"

instance
proof
  fix a b c :: "'a nand_pos_scheme"
  show "a \<le> a" by (simp add: less_eq_nand_pos_ext_def pos_cmp_le)
  show "a < b \<longleftrightarrow> a \<le> b \<and> \<not> b \<le> a"
    unfolding less_eq_nand_pos_ext_def less_nand_pos_ext_def pos_cmp_swap pos_cmp_le by auto
  show "a \<le> b \<Longrightarrow> b \<le> c \<Longrightarrow> a \<le> c"
    unfolding less_eq_nand_pos_ext_def pos_cmp_le by (elim disjE conjE) auto
qed

end

section \<open>The iteration\<close>

text \<open>How many pages of size \<open>m\<close> a transfer of \<open>left\<close> bytes from \<open>off\<close> touches.\<close>

definition touched :: "nat \<Rightarrow> nat \<Rightarrow> nat \<Rightarrow> nat" where
  "touched m off left = (if left = 0 then 0 else (off + left + m - 1) div m)"

lemma touched_step:
  assumes "off \<le> m" "0 < m"
  shows "touched m 0 (left - min (m - off) left) = touched m off left - 1"
proof (cases "left \<le> m - off")
  case True
  then have "off + left + m - 1 < 2 * m" using assms by simp
  then have "(off + left + m - 1) div m < 2" using assms(2) by (simp add: less_mult_imp_div_less)
  then show ?thesis using True by (simp add: touched_def)
next
  case False
  define X where "X = left - (m - off) + m - 1"
  have "off + left + m - 1 = X + m" using assms False by (simp add: X_def)
  moreover have "(X + m) div m = X div m + 1" using assms(2) by (simp add: div_add_self2)
  ultimately have "(off + left + m - 1) div m = (left - (m - off) + m - 1) div m + 1" by (simp only: X_def)
  then show ?thesis using False by (simp add: touched_def)
qed

lemma touched_0_iff: "0 < m \<Longrightarrow> touched m off left = 0 \<longleftrightarrow> left = 0"
  by (auto simp: touched_def div_eq_0_iff)

text \<open>What holds of an iterator before each page.\<close>

definition iter_ok :: "nand_device \<Rightarrow> nand_io_iter \<Rightarrow> bool" where
  "iter_ok nand it \<longleftrightarrow> movable nand (pos (req it))
     \<and> dataoffs (req it) \<le> pagesize (memorg nand) \<and> ooboffs (req it) \<le> oobbytes_per_page it
     \<and> datalen (req it) = min (pagesize (memorg nand) - dataoffs (req it)) (dataleft it)
     \<and> ooblen (req it) = min (oobbytes_per_page it - ooboffs (req it)) (oobleft it)
     \<and> (oobleft it \<noteq> 0 \<longrightarrow> oobbytes_per_page it \<noteq> 0)"

definition pages_left :: "nand_device \<Rightarrow> nand_io_iter \<Rightarrow> nat" where
  "pages_left nand it = max (touched (psize nand) (unat (dataoffs (req it))) (unat (dataleft it)))
     (touched (unat (oobbytes_per_page it)) (unat (ooboffs (req it))) (unat (oobleft it)))"

lemma unat_min: "unat (min x y) = min (unat x) (unat y)"
  by (simp add: min_def word_le_nat_alt)

lemma iter_ok_lengths:
  assumes "iter_ok nand it"
  shows "unat (datalen (req it)) = min (psize nand - unat (dataoffs (req it))) (unat (dataleft it))"
    and "unat (ooblen (req it)) = min (unat (oobbytes_per_page it) - unat (ooboffs (req it))) (unat (oobleft it))"
    and "unat (dataleft it - datalen (req it)) = unat (dataleft it) - unat (datalen (req it))"
    and "unat (oobleft it - ooblen (req it)) = unat (oobleft it) - unat (ooblen (req it))"
  using assms by (auto simp: iter_ok_def unat_min unat_sub_exact min_le_iff_disj)

lemma next_page_fields:
  "pos (req (nanddev_io_iter_next_page nand it)) = nanddev_pos_next_page nand (pos (req it))"
  "dataoffs (req (nanddev_io_iter_next_page nand it)) = 0"
  "ooboffs (req (nanddev_io_iter_next_page nand it)) = 0"
  "dataleft (nanddev_io_iter_next_page nand it) = dataleft it - datalen (req it)"
  "oobleft (nanddev_io_iter_next_page nand it) = oobleft it - ooblen (req it)"
  "oobbytes_per_page (nanddev_io_iter_next_page nand it) = oobbytes_per_page it"
  "datalen (req (nanddev_io_iter_next_page nand it)) = min (pagesize (memorg nand)) (dataleft it - datalen (req it))"
  "ooblen (req (nanddev_io_iter_next_page nand it)) = min (oobbytes_per_page it) (oobleft it - ooblen (req it))"
  "databuf (req (nanddev_io_iter_next_page nand it)) = databuf (req it) + datalen (req it)"
  "oobbuf (req (nanddev_io_iter_next_page nand it)) = oobbuf (req it) + ooblen (req it)"
  "mode (req (nanddev_io_iter_next_page nand it)) = mode (req it)"
  by (simp_all add: nanddev_io_iter_next_page_def Let_def)

lemma iter_ok_next:
  assumes "iter_ok nand it" "page_no nand (pos (req it)) + 1 < pages_limit nand"
  shows "iter_ok nand (nanddev_io_iter_next_page nand it)"
    and "page_no nand (pos (req (nanddev_io_iter_next_page nand it))) = page_no nand (pos (req it)) + 1"
proof -
  have s: "movable nand (nanddev_pos_next_page nand (pos (req it)))"
    "page_no nand (nanddev_pos_next_page nand (pos (req it))) = page_no nand (pos (req it)) + 1"
    using pages.step assms by (auto simp: iter_ok_def)
  show "page_no nand (pos (req (nanddev_io_iter_next_page nand it))) = page_no nand (pos (req it)) + 1"
    using s(2) by (simp add: next_page_fields)
  show "iter_ok nand (nanddev_io_iter_next_page nand it)"
    using assms(1) s(1) iter_ok_lengths [OF assms(1)] by (auto simp: iter_ok_def next_page_fields unat_eq_0)
qed

lemma pages_left_next:
  assumes "iter_ok nand it"
  shows "pages_left nand (nanddev_io_iter_next_page nand it) = pages_left nand it - 1"
proof -
  have ps: "0 < psize nand" "unat (dataoffs (req it)) \<le> psize nand" "unat (ooboffs (req it)) \<le> unat (oobbytes_per_page it)"
    using assms by (simp_all add: iter_ok_def movable_def geometry_ok_def word_le_nat_alt unat_gt_0)
  have data: "touched (psize nand) 0 (unat (dataleft it - datalen (req it))) =
      touched (psize nand) (unat (dataoffs (req it))) (unat (dataleft it)) - 1"
    using touched_step [OF ps(2,1)] by (simp only: iter_ok_lengths [OF assms])
  have oob: "touched (unat (oobbytes_per_page it)) 0 (unat (oobleft it - ooblen (req it))) =
      touched (unat (oobbytes_per_page it)) (unat (ooboffs (req it))) (unat (oobleft it)) - 1"
  proof (cases "oobbytes_per_page it = 0")
    case True
    then have "oobleft it = 0" "ooblen (req it) = 0" using assms by (auto simp: iter_ok_def)
    then show ?thesis by (simp add: touched_def)
  next
    case False
    then have "0 < unat (oobbytes_per_page it)" by (simp add: unat_gt_0)
    then show ?thesis using touched_step [OF ps(3)] by (simp only: iter_ok_lengths [OF assms])
  qed
  have "max (a - 1) (b - 1) = max a b - 1" for a b :: nat by (simp add: max_def)
  then show ?thesis by (simp only: pages_left_def next_page_fields unsigned_0 data oob)
qed

lemma pages_left_0:
  assumes "iter_ok nand it"
  shows "pages_left nand it = 0 \<longleftrightarrow> nanddev_io_iter_end nand it"
proof -
  have "0 < psize nand" using assms by (simp add: iter_ok_def movable_def geometry_ok_def unat_gt_0)
  moreover have "touched (unat (oobbytes_per_page it)) o' (unat (oobleft it)) = 0 \<longleftrightarrow> oobleft it = 0" for o'
  proof (cases "oobleft it = 0")
    case False
    then show ?thesis using assms by (simp add: touched_0_iff iter_ok_def unat_gt_0 unat_eq_0)
  qed (simp add: touched_def)
  ultimately show ?thesis by (simp add: pages_left_def nanddev_io_iter_end_def touched_0_iff unat_eq_0)
qed

lemma unat_sum_data:
  "iter_ok nand it \<Longrightarrow> unat (datalen (req it)) + unat (dataleft (nanddev_io_iter_next_page nand it)) = unat (dataleft it)"
  "iter_ok nand it \<Longrightarrow> unat (ooblen (req it)) + unat (oobleft (nanddev_io_iter_next_page nand it)) = unat (oobleft it)"
  using iter_ok_lengths [of nand it] by (auto simp: next_page_fields)

lemma loop_requests:
  assumes "iter_ok nand it" "page_no nand (pos (req it)) + pages_left nand it < pages_limit nand"
  shows "\<exists>rs. io_for_each_page nand it seen = Some (seen @ rs) \<and> length rs = pages_left nand it
    \<and> map (\<lambda>r. page_no nand (pos r)) rs = map (\<lambda>i. page_no nand (pos (req it)) + i) [0..<pages_left nand it]
    \<and> sum_list (map (\<lambda>r. unat (datalen r)) rs) = unat (dataleft it)
    \<and> sum_list (map (\<lambda>r. unat (ooblen r)) rs) = unat (oobleft it)"
  using assms
proof (induction "pages_left nand it" arbitrary: it seen)
  case 0
  then have e: "nanddev_io_iter_end nand it" using pages_left_0 by metis
  then have "dataleft it = 0" "oobleft it = 0" by (simp_all add: nanddev_io_iter_end_def)
  then show ?case using e 0 by (intro exI [of _ "[]"]) (simp add: io_for_each_page.simps)
next
  case (Suc n)
  define it' where "it' = nanddev_io_iter_next_page nand it"
  have e: "\<not> nanddev_io_iter_end nand it" using pages_left_0 [OF Suc.prems(1)] Suc.hyps(2) by simp
  have "page_no nand (pos (req it)) + 1 < pages_limit nand" using Suc.prems(2) Suc.hyps(2) by linarith
  note nx = iter_ok_next [OF Suc.prems(1) this, folded it'_def]
  have n: "n = pages_left nand it'" using pages_left_next [OF Suc.prems(1)] Suc.hyps(2) by (simp add: it'_def)
  have "page_no nand (pos (req it')) + pages_left nand it' < pages_limit nand"
    using Suc.prems(2) Suc.hyps(2) nx(2) n by linarith
  then obtain rs where rs: "io_for_each_page nand it' (seen @ [req it]) = Some ((seen @ [req it]) @ rs)" "length rs = n"
      "map (\<lambda>r. page_no nand (pos r)) rs = map (\<lambda>i. page_no nand (pos (req it')) + i) [0..<n]"
      "sum_list (map (\<lambda>r. unat (datalen r)) rs) = unat (dataleft it')"
      "sum_list (map (\<lambda>r. unat (ooblen r)) rs) = unat (oobleft it')"
    using Suc.hyps(1) [OF n nx(1)] n by metis
  have "map (\<lambda>i. page_no nand (pos (req it)) + i) [0..<Suc n] =
      page_no nand (pos (req it)) # map (\<lambda>i. page_no nand (pos (req it')) + i) [0..<n]"
    by (simp only: upt_conv_Cons [OF zero_less_Suc] list.map map_Suc_upt [symmetric] map_map comp_def nx(2)) simp
  moreover have "io_for_each_page nand it seen = Some (seen @ req it # rs)"
    using rs(1) e by (subst io_for_each_page.simps) (simp add: it'_def)
  ultimately show ?case
    using rs unat_sum_data [OF Suc.prems(1), folded it'_def] Suc.hyps(2)
    by (intro exI [of _ "req it # rs"]) (simp only: list.map list.size sum_list.Cons, simp)
qed

text \<open>Without room for out-of-band bytes, a request for some never ends.\<close>

lemma loop_stuck:
  assumes "io_for_each_page nand it seen = Some out"
  shows "\<not> (oobleft it \<noteq> 0 \<and> ooblen (req it) = 0 \<and> oobbytes_per_page it = 0)"
proof (rule io_for_each_page.raw_induct [OF _ assms,
      where P = "\<lambda>nand it seen out. \<not> (oobleft it \<noteq> 0 \<and> ooblen (req it) = 0 \<and> oobbytes_per_page it = 0)"],
    goal_cases)
  case (1 loop nand it seen out)
  show ?case
  proof
    assume a: "oobleft it \<noteq> 0 \<and> ooblen (req it) = 0 \<and> oobbytes_per_page it = 0"
    then have "loop nand (nanddev_io_iter_next_page nand it) (seen @ [req it]) = Some out"
      using 1(2) by (simp add: nanddev_io_iter_end_def)
    from 1(1) [OF this] show False using a by (simp add: next_page_fields min_def)
  qed
qed

text \<open>The iterators that the loop passes through.\<close>

inductive io_reach :: "nand_device \<Rightarrow> nand_io_iter \<Rightarrow> nand_io_iter \<Rightarrow> bool" for nand it0 where
  start: "io_reach nand it0 it0"
| next_page: "io_reach nand it0 it \<Longrightarrow> \<not> nanddev_io_iter_end nand it \<Longrightarrow>
    io_reach nand it0 (nanddev_io_iter_next_page nand it)"

inductive_cases io_reach_cases: "io_reach nand it0 it"

text \<open>A request that the iterator can be given.\<close>

definition request_ok :: "nand_device \<Rightarrow> s64 \<Rightarrow> mtd_oob_ops \<Rightarrow> bool" where
  "request_ok nand offs r \<longleftrightarrow> geometry_ok nand
     \<and> ops_ooboffs r \<le> mtd_oobavail (mtd nand) r \<and> (ops_ooblen r \<noteq> 0 \<longrightarrow> mtd_oobavail (mtd nand) r \<noteq> 0)
     \<and> unat offs div psize nand
       + max (touched (psize nand) (unat offs mod psize nand) (unat (ops_len r)))
          (touched (unat (mtd_oobavail (mtd nand) r)) (unat (ops_ooboffs r)) (unat (ops_ooblen r)))
       < pages_limit nand"

text \<open>What the iterator knows of the transfer: where it is and what is left.\<close>

definition tracks :: "nand_device \<Rightarrow> s64 \<Rightarrow> mtd_oob_ops \<Rightarrow> nand_io_iter \<Rightarrow> bool" where
  "tracks nand offs r it \<longleftrightarrow> dataleft it \<le> ops_len r \<and> oobleft it \<le> ops_ooblen r
     \<and> databuf (req it) = ops_datbuf r + (ops_len r - dataleft it)
     \<and> oobbuf (req it) = ops_oobbuf r + (ops_ooblen r - oobleft it)
     \<and> mode (req it) = ops_mode r
     \<and> (dataleft it \<noteq> 0 \<longrightarrow> page_no nand (pos (req it)) * psize nand + unat (dataoffs (req it)) =
          unat offs + (unat (ops_len r) - unat (dataleft it)))"

lemma iter_init:
  assumes "long_division dv" "request_ok nand offs r"
  obtains it where "nanddev_io_iter_init dv nand offs r = Inr it" "iter_ok nand it" "tracks nand offs r it"
    and "page_no nand (pos (req it)) = unat offs div psize nand" "dataleft it = ops_len r" "oobleft it = ops_ooblen r"
    and "page_no nand (pos (req it)) + pages_left nand it < pages_limit nand"
    and "pages_left nand it = max (touched (psize nand) (unat offs mod psize nand) (unat (ops_len r)))
      (touched (unat (mtd_oobavail (mtd nand) r)) (unat (ops_ooboffs r)) (unat (ops_ooblen r)))"
proof -
  have g: "geometry_ok nand" and l: "unat offs div psize nand < pages_limit nand"
    using assms(2) by (simp_all add: request_ok_def)
  obtain po p where p: "nanddev_offs_to_pos dv nand offs = Inr (po, p)" "valid_pos nand p"
      "unat po = unat offs mod psize nand" "page_no nand p = unat offs div psize nand"
    by (rule long_division.offs_to_pos_values [OF assms(1) g l])
  have "0 < psize nand" using g by (simp add: geometry_ok_def unat_gt_0)
  then have po: "po \<le> pagesize (memorg nand)" by (simp add: word_le_nat_alt p(3) less_imp_le)
  define it where "it = \<lparr>req = \<lparr>pos = p, dataoffs = po,
      datalen = min (pagesize (memorg nand) - po) (ops_len r), databuf = ops_datbuf r,
      ooboffs = ops_ooboffs r, ooblen = min (mtd_oobavail (mtd nand) r - ops_ooboffs r) (ops_ooblen r),
      oobbuf = ops_oobbuf r, mode = ops_mode r\<rparr>,
    oobbytes_per_page = mtd_oobavail (mtd nand) r, dataleft = ops_len r, oobleft = ops_ooblen r\<rparr>"
  have i: "nanddev_io_iter_init dv nand offs r = Inr it"
    by (simp add: nanddev_io_iter_init_def p(1) Let_def it_def)
  have "iter_ok nand it" using g po assms(2) p(2) by (simp add: iter_ok_def it_def movable_def request_ok_def)
  moreover have "tracks nand offs r it" by (simp add: tracks_def it_def p(3,4))
  moreover have pl: "pages_left nand it = max (touched (psize nand) (unat offs mod psize nand) (unat (ops_len r)))
      (touched (unat (mtd_oobavail (mtd nand) r)) (unat (ops_ooboffs r)) (unat (ops_ooblen r)))"
    by (simp add: pages_left_def it_def p(3))
  moreover have "page_no nand (pos (req it)) + pages_left nand it < pages_limit nand"
    unfolding pl using assms(2) by (simp add: it_def p(4) request_ok_def)
  ultimately show thesis using that i p(4) by (simp add: it_def)
qed

lemma word_consumed:
  fixes n l d :: u32
  assumes "d \<le> l" "l \<le> n"
  shows "n - (l - d) = n - l + d" "unat n - unat (l - d) = unat n - unat l + unat d" "l - d \<le> n"
  using assms by (auto simp: unat_sub_exact word_le_nat_alt)

lemma tracks_next:
  assumes "iter_ok nand it" "tracks nand offs r it" "page_no nand (pos (req it)) + 1 < pages_limit nand"
  shows "tracks nand offs r (nanddev_io_iter_next_page nand it)"
proof -
  have le: "datalen (req it) \<le> dataleft it" "ooblen (req it) \<le> oobleft it" "dataleft it \<le> ops_len r" "oobleft it \<le> ops_ooblen r"
    using assms(1,2) by (simp_all add: iter_ok_def tracks_def)
  note w = word_consumed [OF le(1,3)] word_consumed [OF le(2,4)]
  have "page_no nand (pos (req (nanddev_io_iter_next_page nand it))) * psize nand =
      unat offs + (unat (ops_len r) - unat (dataleft it - datalen (req it)))" if nz: "dataleft it - datalen (req it) \<noteq> 0"
  proof -
    have "unat (dataleft it - datalen (req it)) \<noteq> 0" using nz by (simp add: unat_eq_0)
    then have d: "unat (datalen (req it)) = psize nand - unat (dataoffs (req it))" "unat (dataleft it) \<noteq> 0"
      using iter_ok_lengths(1,3) [OF assms(1)] by (auto simp: min_def split: if_splits)
    then have "page_no nand (pos (req it)) * psize nand + unat (dataoffs (req it)) =
        unat offs + (unat (ops_len r) - unat (dataleft it))"
      using assms(2) by (auto simp: tracks_def)
    moreover have "unat (dataoffs (req it)) \<le> psize nand" using assms(1) by (simp add: iter_ok_def word_le_nat_alt)
    ultimately show ?thesis using d(1) iter_ok_next(2) [OF assms(1,3)] by (simp add: w(2))
  qed
  then show ?thesis
    using assms(2) w by (simp add: tracks_def next_page_fields add.assoc)
qed

section \<open>Properties\<close>

text \<open>an offset of fewer than \<open>2 ^ 32\<close> pages is converted into a valid position and an
  offset within its page, and converting the position back and adding that offset gives the
  offset again; a position converted into an offset is found again at the start of its page.\<close>

theorem nand_offs_round_trip:
  assumes "target_division dv" "geometry_ok nand" "2 ^ 32 \<le> pages_limit nand"
  shows "(unat offs < 2 ^ 63 \<and> unat offs div psize nand < 2 ^ 32 \<longrightarrow>
      (\<exists>po p start. nanddev_offs_to_pos dv nand offs = Inr (po, p) \<and> valid_pos nand p \<and> po < pagesize (memorg nand)
         \<and> nanddev_pos_to_offs nand p = Inr start \<and> unat start + unat po = unat offs))
    \<and> (valid_pos nand p \<and> page_no nand p < 2 ^ 32 \<and> page_no nand p * psize nand < 2 ^ 63 \<longrightarrow>
      (\<exists>start. nanddev_pos_to_offs nand p = Inr start \<and> nanddev_offs_to_pos dv nand start = Inr (0, p)))"
proof -
  have ld: "long_division dv" by (rule target_long_division [OF assms(1)])
  have ps: "0 < psize nand" using assms(2) by (simp add: geometry_ok_def unat_gt_0)
  have there: "\<exists>po p start. nanddev_offs_to_pos dv nand offs = Inr (po, p) \<and> valid_pos nand p \<and> po < pagesize (memorg nand)
      \<and> nanddev_pos_to_offs nand p = Inr start \<and> unat start + unat po = unat offs"
    if o: "unat offs < 2 ^ 63" "unat offs div psize nand < 2 ^ 32"
  proof -
    obtain po q where q: "nanddev_offs_to_pos dv nand offs = Inr (po, q)" "valid_pos nand q"
        "unat po = unat offs mod psize nand" "page_no nand q = unat offs div psize nand"
      by (rule long_division.offs_to_pos_values [OF ld assms(2) less_le_trans [OF o(2) assms(3)]])
    have e: "page_no nand q * psize nand + unat po = unat offs" by (simp only: q(3,4) div_mult_mod_eq)
    then have "page_no nand q * psize nand < 2 ^ 63" using o(1) by linarith
    then obtain start where "nanddev_pos_to_offs nand q = Inr start" "unat start = page_no nand q * psize nand"
      using pos_to_offs_value [of nand q] q(4) o(2) by metis
    moreover have "po < pagesize (memorg nand)" using ps by (simp add: word_less_nat_alt q(3))
    ultimately show ?thesis using q(1,2) e by auto
  qed
  have found: "\<exists>start. nanddev_pos_to_offs nand p = Inr start \<and> nanddev_offs_to_pos dv nand start = Inr (0, p)"
    if p: "valid_pos nand p" "page_no nand p < 2 ^ 32" "page_no nand p * psize nand < 2 ^ 63"
  proof -
    obtain start where st: "nanddev_pos_to_offs nand p = Inr start" "unat start = page_no nand p * psize nand"
      by (rule pos_to_offs_value [OF p(2,3)])
    then have d: "unat start div psize nand = page_no nand p" using ps by simp
    obtain po q where q: "nanddev_offs_to_pos dv nand start = Inr (po, q)" "valid_pos nand q"
        "unat po = unat start mod psize nand" "page_no nand q = unat start div psize nand"
      using long_division.offs_to_pos_values [OF ld assms(2)] less_le_trans [OF p(2) assms(3)] d by metis
    then have "q = p" "po = 0" using page_no_inj [OF q(2) p(1)] d st(2) by (simp_all add: unat_eq_0)
    then show ?thesis using st(1) q(1) by simp
  qed
  show ?thesis using there found by blast
qed

definition example_nand :: nand_device where
  "example_nand = \<lparr>mtd = \<lparr>mtd_oobavail_size = 40, mtd_oobsize = 64\<rparr>,
     memorg = \<lparr>bits_per_cell = 1, pagesize = 2048, oobsize = 64, pages_per_eraseblock = 64,
       eraseblocks_per_lun = 1024, planes_per_lun = 2, luns_per_target = 1, ntargets = 1\<rparr>,
     rowconv = \<lparr>lun_addr_shift = 16, eraseblock_addr_shift = 6\<rparr>, bbt_cache = 0\<rparr>"

lemma example_nand_ok: "geometry_ok example_nand" "2 ^ 32 \<le> pages_limit example_nand"
  by (simp_all add: geometry_ok_def example_nand_def pages_limit_def)

theorem nand_offs_round_trip_witness:
  "\<exists>po p start. nanddev_offs_to_pos do_div64 example_nand 1000000 = Inr (po, p) \<and> valid_pos example_nand p
     \<and> po < pagesize (memorg example_nand)
     \<and> nanddev_pos_to_offs example_nand p = Inr start \<and> unat start + unat po = unat (1000000 :: s64)"
proof -
  have "unat (1000000 :: s64) < 2 ^ 63 \<and> unat (1000000 :: s64) div psize example_nand < 2 ^ 32"
    by (simp add: example_nand_def)
  then show ?thesis
    using nand_offs_round_trip [of do_div64 example_nand 1000000, OF _ example_nand_ok] by (simp add: target_division_def)
qed

text \<open>C16: the four moves implement counting: on a valid position each yields a valid position
  and adds one to the page, eraseblock, LUN or target number and sets everything below it to
  zero, as long as the target number does not overflow its 32 bits.\<close>

theorem nand_moves_count:
  assumes "geometry_ok nand" "valid_pos nand p" "unat (target p) + 1 < 2 ^ 32"
  shows "valid_pos nand (nanddev_pos_next_page nand p) \<and> page_no nand (nanddev_pos_next_page nand p) = page_no nand p + 1
    \<and> valid_pos nand (nanddev_pos_next_eraseblock nand p)
    \<and> page_no nand (nanddev_pos_next_eraseblock nand p) = (block_no nand p + 1) * ppe nand
    \<and> valid_pos nand (nanddev_pos_next_lun nand p)
    \<and> page_no nand (nanddev_pos_next_lun nand p) = (lun_no nand p + 1) * epl nand * ppe nand
    \<and> valid_pos nand (nanddev_pos_next_target nand p)
    \<and> page_no nand (nanddev_pos_next_target nand p) = (unat (target p) + 1) * lpt nand * epl nand * ppe nand"
proof -
  have m: "movable nand p" using assms(1,2) by (simp add: movable_def)
  note d = valid_pos_digits [OF assms(2)]
  have up: "x * k + u + 1 < y * k" if "u < k" "x + 1 < y" for x k u y :: nat
  proof -
    have "(x + 2) * k \<le> y * k" using that(2) by (intro mult_le_mono1) simp
    then show ?thesis using that(1) by simp
  qed
  have l1: "lun_no nand p + 1 < 2 ^ 32 * lpt nand" unfolding lun_no_def by (rule up [OF d(3) assms(3)])
  have l2: "block_no nand p + 1 < 2 ^ 32 * lpt nand * epl nand" unfolding block_no_def by (rule up [OF d(2) l1])
  have l3: "page_no nand p + 1 < pages_limit nand" unfolding page_no_def pages_limit_def by (rule up [OF d(1) l2])
  have lower: "page_no nand (nanddev_pos_next_lun nand p) = block_no nand (nanddev_pos_next_lun nand p) * ppe nand"
    "page_no nand (nanddev_pos_next_target nand p) = lun_no nand (nanddev_pos_next_target nand p) * epl nand * ppe nand"
    by (simp_all add: page_no_def block_no_def nanddev_pos_next_lun_def nanddev_pos_next_target_def)
  show ?thesis
    using pages.step [OF m l3] blocks.step [OF m l2] block_move [OF m l2] luns.step [OF m l1] lun_move [OF m l1]
      target_move [OF m assms(3)] by (simp add: movable_def lower)
qed

theorem nand_moves_count_witness:
  "page_no example_nand (nanddev_pos_next_page example_nand
     \<lparr>target = 0, lun = 0, plane = 1, eraseblock = 1023, page = 63\<rparr>) = 65536"
proof -
  have "valid_pos example_nand \<lparr>target = 0, lun = 0, plane = 1, eraseblock = 1023, page = 63\<rparr>"
    by (simp add: valid_pos_def example_nand_def)
  then show ?thesis
    using nand_moves_count [of example_nand "\<lparr>target = 0, lun = 0, plane = 1, eraseblock = 1023, page = 63\<rparr>",
        OF example_nand_ok(1)]
    by (simp add: page_no_def block_no_def lun_no_def example_nand_def)
qed

text \<open>on valid positions the comparison orders by page number, though it ignores the plane;
  the entry of the bad block table is the number of the eraseblock, so that two positions
  share it exactly if they differ at most in the page.  The function for the number of
  eraseblocks, which should bound the entries, counts the pages of one target instead.\<close>

theorem nand_order_spec:
  assumes "valid_pos nand p" "valid_pos nand q"
  shows "nanddev_pos_cmp p q = (if page_no nand p < page_no nand q then - 1 else if page_no nand q < page_no nand p then 1 else 0)
    \<and> (nanddev_pos_cmp p q = 0 \<longleftrightarrow> p = q) \<and> (p \<le> q \<longleftrightarrow> page_no nand p \<le> page_no nand q)
    \<and> (block_no nand p < 2 ^ 32 \<longrightarrow> unat (nanddev_bbt_pos_to_entry nand p) = page_no nand p div ppe nand)
    \<and> (block_no nand p < 2 ^ 32 \<and> block_no nand q < 2 ^ 32 \<longrightarrow>
        (nanddev_bbt_pos_to_entry nand p = nanddev_bbt_pos_to_entry nand q \<longleftrightarrow> p\<lparr>page := 0\<rparr> = q\<lparr>page := 0\<rparr>))
    \<and> unat (nanddev_neraseblocks nand) = lpt nand * epl nand * ppe nand mod 2 ^ 32"
proof -
  have z: "block_no nand (r\<lparr>page := 0\<rparr>) = block_no nand r" for r by (simp add: block_no_def lun_no_def)
  have zv: "valid_pos nand (r\<lparr>page := 0\<rparr>)" if "valid_pos nand r" for r
    using that by (auto simp: valid_pos_def word_less_nat_alt)
  have "p\<lparr>page := 0\<rparr> = q\<lparr>page := 0\<rparr>" if "block_no nand p = block_no nand q"
    using that by (intro page_no_inj [OF zv zv]) (simp_all add: page_no_def z assms)
  then have b: "block_no nand p = block_no nand q \<longleftrightarrow> p\<lparr>page := 0\<rparr> = q\<lparr>page := 0\<rparr>" using z by metis
  have "p = q" if "page_no nand p = page_no nand q" using page_no_inj assms that by blast
  then show ?thesis
    using pos_cmp_number [OF assms] b valid_pos_numbers(1) [OF assms(1)] neraseblocks_counts_pages [of nand]
    by (auto simp: less_eq_nand_pos_ext_def bbt_entry_word word_unat_eq_iff)
qed

theorem nand_order_spec_witness:
  "nanddev_pos_cmp \<lparr>target = 0, lun = 0, plane = 1, eraseblock = 3, page = 63\<rparr>
     \<lparr>target = 0, lun = 0, plane = 0, eraseblock = 4, page = 0\<rparr> = - 1"
  using nand_order_spec [of example_nand "\<lparr>target = 0, lun = 0, plane = 1, eraseblock = 3, page = 63\<rparr>"
      "\<lparr>target = 0, lun = 0, plane = 0, eraseblock = 4, page = 0\<rparr>"]
  by (simp add: valid_pos_def example_nand_def page_no_def block_no_def lun_no_def)

text \<open>C17: whatever request the iteration has reached lies within one page and its spare area and
  within what is left, its buffers have advanced by what was transferred, and as long as data
  are left the page and the offset in it are where the transfer has got to.\<close>

theorem nand_io_invariant:
  assumes "target_division dv" "request_ok nand offs r" "nanddev_io_iter_init dv nand offs r = Inr it0"
    and "io_reach nand it0 it"
  shows "valid_pos nand (pos (req it)) \<and> tracks nand offs r it
    \<and> unat (dataoffs (req it)) + unat (datalen (req it)) \<le> psize nand
    \<and> unat (ooboffs (req it)) + unat (ooblen (req it)) \<le> unat (mtd_oobavail (mtd nand) r)
    \<and> datalen (req it) \<le> dataleft it \<and> ooblen (req it) \<le> oobleft it
    \<and> (nanddev_io_iter_end nand it \<longleftrightarrow> pages_left nand it = 0)"
proof -
  obtain it' where it': "nanddev_io_iter_init dv nand offs r = Inr it'" "iter_ok nand it'" "tracks nand offs r it'"
    "page_no nand (pos (req it')) + pages_left nand it' < pages_limit nand"
    by (rule iter_init [OF target_long_division [OF assms(1)] assms(2)]) blast
  have avail0: "oobbytes_per_page it0 = mtd_oobavail (mtd nand) r"
    using assms(3) by (auto simp: nanddev_io_iter_init_def bindE_Inr_iff Let_def)
  have inv: "iter_ok nand it \<and> tracks nand offs r it \<and> oobbytes_per_page it = mtd_oobavail (mtd nand) r
      \<and> page_no nand (pos (req it)) + pages_left nand it < pages_limit nand"
    using assms(4)
  proof (induction rule: io_reach.induct)
    case start
    then show ?case using it' assms(3) avail0 by simp
  next
    case (next_page it)
    then have p: "pages_left nand it \<noteq> 0" "iter_ok nand it" using pages_left_0 by blast+
    then have l: "page_no nand (pos (req it)) + 1 < pages_limit nand" using next_page.IH by linarith
    show ?case
      using iter_ok_next [OF p(2) l] tracks_next [OF p(2) _ l] pages_left_next [OF p(2)] next_page.IH p(1)
      by (simp add: next_page_fields)
  qed
  then have ok: "iter_ok nand it" by blast
  have "dataoffs (req it) \<le> pagesize (memorg nand)" "ooboffs (req it) \<le> oobbytes_per_page it"
    "datalen (req it) \<le> dataleft it" "ooblen (req it) \<le> oobleft it" "valid_pos nand (pos (req it))"
    using ok by (simp_all add: iter_ok_def movable_def)
  then show ?thesis
    using inv iter_ok_lengths(1,2) [OF ok] pages_left_0 [OF ok] by (auto simp: word_le_nat_alt)
qed

definition example_request :: mtd_oob_ops where
  "example_request = \<lparr>ops_mode = 0, ops_len = 5000, ops_ooblen = 100, ops_ooboffs = 0, ops_datbuf = 0x1000, ops_oobbuf = 0x9000\<rparr>"

lemma example_request_ok: "request_ok example_nand 3000 example_request"
  by (simp add: request_ok_def geometry_ok_def example_nand_def example_request_def mtd_oobavail_def
      MTD_OPS_AUTO_OOB_def touched_def pages_limit_def)

theorem nand_io_invariant_witness:
  "\<exists>it0. nanddev_io_iter_init do_div64 example_nand 3000 example_request = Inr it0
     \<and> valid_pos example_nand (pos (req (nanddev_io_iter_next_page example_nand it0)))"
proof -
  have d: "target_division do_div64" by (simp add: target_division_def)
  obtain it0 where it0: "nanddev_io_iter_init do_div64 example_nand 3000 example_request = Inr it0"
      "dataleft it0 = ops_len example_request"
    by (rule iter_init [OF target_long_division [OF d] example_request_ok]) blast
  then have "\<not> nanddev_io_iter_end example_nand it0"
    by (simp add: nanddev_io_iter_end_def example_request_def)
  then have "io_reach example_nand it0 (nanddev_io_iter_next_page example_nand it0)"
    by (intro io_reach.intros)
  then show ?thesis using nand_io_invariant [OF d example_request_ok it0(1)] it0(1) by blast
qed

text \<open>C12: the loop over the pages of a request ends, after one request for each page that the
  data or the out-of-band bytes touch; the pages follow each other from the one of the start
  offset, and together the requests transfer all data and all out-of-band bytes.  Without
  room for out-of-band bytes a request for some never ends.\<close>

theorem nand_io_loop_spec:
  assumes "target_division dv" "geometry_ok nand"
  shows "(request_ok nand offs r \<longrightarrow> (\<exists>rs. nanddev_io_for_each_page dv nand offs r = Inr (Some rs)
      \<and> length rs = max (touched (psize nand) (unat offs mod psize nand) (unat (ops_len r)))
          (touched (unat (mtd_oobavail (mtd nand) r)) (unat (ops_ooboffs r)) (unat (ops_ooblen r)))
      \<and> map (\<lambda>q. page_no nand (pos q)) rs = map (\<lambda>i. unat offs div psize nand + i) [0..<length rs]
      \<and> sum_list (map (\<lambda>q. unat (datalen q)) rs) = unat (ops_len r)
      \<and> sum_list (map (\<lambda>q. unat (ooblen q)) rs) = unat (ops_ooblen r)))
    \<and> (mtd_oobavail (mtd nand) r = 0 \<and> ops_ooboffs r = 0 \<and> ops_ooblen r \<noteq> 0 \<longrightarrow>
      (\<forall>rs. nanddev_io_for_each_page dv nand offs r \<noteq> Inr (Some rs)))"
proof -
  have ld: "long_division dv" by (rule target_long_division [OF assms(1)])
  have ends: "\<exists>rs. nanddev_io_for_each_page dv nand offs r = Inr (Some rs)
      \<and> length rs = max (touched (psize nand) (unat offs mod psize nand) (unat (ops_len r)))
          (touched (unat (mtd_oobavail (mtd nand) r)) (unat (ops_ooboffs r)) (unat (ops_ooblen r)))
      \<and> map (\<lambda>q. page_no nand (pos q)) rs = map (\<lambda>i. unat offs div psize nand + i) [0..<length rs]
      \<and> sum_list (map (\<lambda>q. unat (datalen q)) rs) = unat (ops_len r)
      \<and> sum_list (map (\<lambda>q. unat (ooblen q)) rs) = unat (ops_ooblen r)" if rq: "request_ok nand offs r"
  proof -
    obtain it where it: "nanddev_io_iter_init dv nand offs r = Inr it" "iter_ok nand it"
        "page_no nand (pos (req it)) = unat offs div psize nand" "dataleft it = ops_len r" "oobleft it = ops_ooblen r"
        "page_no nand (pos (req it)) + pages_left nand it < pages_limit nand"
        "pages_left nand it = max (touched (psize nand) (unat offs mod psize nand) (unat (ops_len r)))
          (touched (unat (mtd_oobavail (mtd nand) r)) (unat (ops_ooboffs r)) (unat (ops_ooblen r)))"
      by (rule iter_init [OF ld rq]) blast
    show ?thesis using loop_requests [OF it(2,6), of "[]"] it
      by (simp add: nanddev_io_for_each_page_def del: map_eq_conv) metis
  qed
  have stuck: "nanddev_io_for_each_page dv nand offs r \<noteq> Inr (Some rs)"
    if "mtd_oobavail (mtd nand) r = 0" "ops_ooboffs r = 0" "ops_ooblen r \<noteq> 0" for rs
  proof
    assume "nanddev_io_for_each_page dv nand offs r = Inr (Some rs)"
    then obtain it where it: "nanddev_io_iter_init dv nand offs r = Inr it" "io_for_each_page nand it [] = Some rs"
      by (auto simp: nanddev_io_for_each_page_def bindE_Inr_iff)
    have "oobleft it \<noteq> 0 \<and> ooblen (req it) = 0 \<and> oobbytes_per_page it = 0"
      using it(1) that by (auto simp: nanddev_io_iter_init_def bindE_Inr_iff Let_def min_def)
    then show False using loop_stuck [OF it(2)] by blast
  qed
  show ?thesis using ends stuck by blast
qed

theorem nand_io_loop_spec_witness:
  "\<exists>rs. nanddev_io_for_each_page do_div64 example_nand 3000 example_request = Inr (Some rs)
     \<and> length rs = 3 \<and> sum_list (map (\<lambda>q. unat (datalen q)) rs) = 5000"
proof -
  have "target_division do_div64" by (simp add: target_division_def)
  from nand_io_loop_spec [OF this example_nand_ok(1), of 3000 example_request] example_request_ok
  show ?thesis
    by (auto simp: touched_def example_nand_def example_request_def mtd_oobavail_def MTD_OPS_AUTO_OOB_def)
qed

end
