(* ===== verification/Calendar.thy ===== *)
theory Calendar
  imports Prelude "HOL-Library.Signed_Division"
begin

text \<open>
  Broken-down time (\<open>include/linux/time.h\<close>): \<open>localtime_r\<close> computes year, month, day, weekday
  and time of day from the seconds since 1970, \<open>asctime_r\<close> prints them.  On the 32-bit
  target \<open>time_t\<close> and \<open>long\<close> have 32 bits; every intermediate value is smaller than
  the argument or a year, so that the model computes with integers.
\<close>

section \<open>The code\<close>

definition SECSPERMIN :: int where "SECSPERMIN = 60"
definition MINSPERHOUR :: int where "MINSPERHOUR = 60"
definition HOURSPERDAY :: int where "HOURSPERDAY = 24"
definition SECSPERHOUR :: int where "SECSPERHOUR = SECSPERMIN * MINSPERHOUR"
definition SECSPERDAY :: int where "SECSPERDAY = SECSPERHOUR * HOURSPERDAY"
definition DAYSPERWEEK :: int where "DAYSPERWEEK = 7"
definition YEAR_BASE :: int where "YEAR_BASE = 1900"
definition EPOCH_YEAR :: int where "EPOCH_YEAR = 1970"
definition EPOCH_WDAY :: int where "EPOCH_WDAY = 4"

lemmas time_constants = SECSPERMIN_def MINSPERHOUR_def HOURSPERDAY_def SECSPERHOUR_def SECSPERDAY_def
  DAYSPERWEEK_def YEAR_BASE_def EPOCH_YEAR_def EPOCH_WDAY_def

definition isleap :: "int \<Rightarrow> bool" where
  "isleap y \<longleftrightarrow> y smod 4 = 0 \<and> y smod 100 \<noteq> 0 \<or> y smod 400 = 0"

record tm =
  tm_sec :: int
  tm_min :: int
  tm_hour :: int
  tm_mday :: int
  tm_mon :: int
  tm_year :: int
  tm_wday :: int
  tm_yday :: int
  tm_isdst :: int

definition mon_lengths :: "bool \<Rightarrow> int list" where
  "mon_lengths leap = [31, if leap then 29 else 28, 31, 30, 31, 30, 31, 31, 30, 31, 30, 31]"

definition year_lengths :: "bool \<Rightarrow> int" where
  "year_lengths leap = (if leap then 366 else 365)"

text \<open>The loops: a remainder below zero, years after and before the epoch, months.  Reading
  past the table of months would be undefined.\<close>

function borrow_days :: "int \<Rightarrow> int \<Rightarrow> int \<times> int" where
  "borrow_days rem days =
     (if rem < 0 then borrow_days (rem + SECSPERDAY) (days - 1) else (rem, days))"
  by auto
termination by (relation "measure (\<lambda>(rem, days). nat (- rem))") (auto simp: time_constants)

function years_after :: "int \<Rightarrow> int \<Rightarrow> int \<times> int" where
  "years_after y days =
     (if days < year_lengths (isleap y) then (y, days)
      else years_after (y + 1) (days - year_lengths (isleap y)))"
  by auto
termination by (relation "measure (\<lambda>(y, days). nat days)") (auto simp: year_lengths_def split: if_splits)

function years_before :: "int \<Rightarrow> int \<Rightarrow> int \<times> int" where
  "years_before y days =
     (let y = y - 1; days = days + year_lengths (isleap y) in
      if days < 0 then years_before y days else (y, days))"
  by auto
termination by (relation "measure (\<lambda>(y, days). nat (- days))") (auto simp: year_lengths_def split: if_splits)

declare borrow_days.simps [simp del] years_after.simps [simp del] years_before.simps [simp del]

fun months :: "int list \<Rightarrow> int \<Rightarrow> int \<Rightarrow> ub + int \<times> int" where
  "months [] mon days = Inl OutOfBounds"
| "months (l # ip) mon days = (if l \<le> days then months ip (mon + 1) (days - l) else Inr (mon, days))"

definition localtime_r :: "32 word \<Rightarrow> ub + tm" where
  "localtime_r tim =
     (let (rem, days) = borrow_days (sint tim smod SECSPERDAY) (sint tim sdiv SECSPERDAY);
          hour = rem sdiv SECSPERHOUR; rem = rem smod SECSPERHOUR;
          mins = rem sdiv SECSPERMIN; secs = rem smod SECSPERMIN;
          wday = (EPOCH_WDAY + days) smod DAYSPERWEEK;
          wday = (if wday < 0 then wday + DAYSPERWEEK else wday);
          (y, days) = (if 0 \<le> days then years_after EPOCH_YEAR days else years_before EPOCH_YEAR days)
      in bindE (months (mon_lengths (isleap y)) 0 days) (\<lambda>(mon, mdays).
         Inr \<lparr>tm_sec = secs, tm_min = mins, tm_hour = hour, tm_mday = mdays + 1, tm_mon = mon,
           tm_year = y - YEAR_BASE, tm_wday = wday, tm_yday = days, tm_isdst = - 1\<rparr>))"

definition day_name :: "string list" where
  "day_name = [''Sun'', ''Mon'', ''Tue'', ''Wed'', ''Thu'', ''Fri'', ''Sat'']"

definition mon_name :: "string list" where
  "mon_name = [''Jan'', ''Feb'', ''Mar'', ''Apr'', ''May'', ''Jun'',
     ''Jul'', ''Aug'', ''Sep'', ''Oct'', ''Nov'', ''Dec'']"

definition entry :: "'a list \<Rightarrow> int \<Rightarrow> ub + 'a" where
  "entry xs i = (if 0 \<le> i \<and> i < int (length xs) then Inr (xs ! nat i) else Inl OutOfBounds)"

text \<open>The characters that \<open>sprintf\<close> stores in front of the terminator.\<close>

definition asctime_r :: "tm \<Rightarrow> ub + string" where
  "asctime_r t =
     bindE (entry day_name (tm_wday t)) (\<lambda>day.
     bindE (entry mon_name (tm_mon t)) (\<lambda>month.
     Inr (day @ '' '' @ month @ '' '' @ show_int2 (tm_mday t) @ '' '' @ show_int2 (tm_hour t) @ '':''
       @ show_int2 (tm_min t) @ '':'' @ show_int2 (tm_sec t) @ '' '' @ show_int (1900 + tm_year t) @ [CHR 0x0A])))"

definition ctime_r :: "32 word \<Rightarrow> ub + string" where
  "ctime_r tim = bindE (localtime_r tim) asctime_r"

section \<open>The calendar\<close>

text \<open>Leap years before a year, and days from the epoch to the first of January.\<close>

definition leaps :: "int \<Rightarrow> int" where
  "leaps y = (y - 1) div 4 - (y - 1) div 100 + (y - 1) div 400"

definition year_start :: "int \<Rightarrow> int" where
  "year_start y = 365 * (y - 1970) + leaps y - leaps 1970"

lemma smod_eq_0_iff: "l \<noteq> 0 \<Longrightarrow> (k :: int) smod l = 0 \<longleftrightarrow> l dvd k"
  by (auto simp: smod_int_alt_def sgn_eq_0_iff dvd_eq_mod_eq_0 [symmetric])

lemma isleap_iff: "isleap y \<longleftrightarrow> 4 dvd y \<and> \<not> 100 dvd y \<or> 400 dvd y"
  by (simp add: isleap_def smod_eq_0_iff)

lemma div_next: "0 < m \<Longrightarrow> y div m = (y - 1) div m + (if m dvd y then 1 else 0)" for y m :: int
proof (cases "m dvd y")
  case True
  assume m: "0 < m"
  from True obtain k where k: "y = m * k" by blast
  then have "y - 1 = (k - 1) * m + (m - 1)" by (simp add: algebra_simps)
  then have "(y - 1) div m = (k - 1) + (m - 1) div m" using m by (metis div_mult_self3 less_irrefl)
  also have "(m - 1) div m = 0" using m by (intro div_pos_pos_trivial) simp_all
  finally have "(y - 1) div m = k - 1" by simp
  then show ?thesis using True k m by simp
next
  case False
  assume m: "0 < m"
  have "y mod m \<noteq> 0" using False by (simp add: dvd_eq_mod_eq_0)
  then have "0 \<le> y mod m - 1" "y mod m - 1 < m"
    using pos_mod_bound [OF m, of y] pos_mod_sign [OF m, of y] by linarith+
  moreover have "y - 1 = y div m * m + (y mod m - 1)" by simp
  ultimately have "(y - 1) div m = y div m" by (metis add.commute div_mult_self1 div_pos_pos_trivial less_irrefl m add.right_neutral)
  then show ?thesis using False by simp
qed

lemma leaps_next: "leaps (y + 1) = leaps y + (if isleap y then 1 else 0)"
proof -
  have "100 dvd y \<Longrightarrow> 4 dvd y" "400 dvd y \<Longrightarrow> 100 dvd y"
    using dvd_trans [of 4 100 y] dvd_trans [of 100 400 y] by simp_all
  moreover define one where "one b = (if b then 1 else 0 :: int)" for b
  ultimately have "one (4 dvd y) - one (100 dvd y) + one (400 dvd y) = one (isleap y)"
    by (auto simp: isleap_iff)
  moreover have "y div 4 = (y - 1) div 4 + one (4 dvd y)" "y div 100 = (y - 1) div 100 + one (100 dvd y)"
    "y div 400 = (y - 1) div 400 + one (400 dvd y)"
    unfolding one_def by (rule div_next; simp)+
  moreover have "leaps (y + 1) = y div 4 - y div 100 + y div 400" by (simp only: leaps_def add_diff_cancel_right')
  moreover have "leaps y = (y - 1) div 4 - (y - 1) div 100 + (y - 1) div 400" by (rule leaps_def)
  ultimately have "leaps (y + 1) = leaps y + one (isleap y)" by linarith
  then show ?thesis by (simp only: one_def)
qed

lemma year_start_next: "year_start (y + 1) = year_start y + year_lengths (isleap y)"
  by (simp add: year_start_def leaps_next year_lengths_def)

lemma year_start_mono: "x \<le> y \<Longrightarrow> year_start x \<le> year_start y"
proof (induction rule: int_ge_induct)
  case (step y)
  then show ?case using year_start_next [of y] by (simp add: year_lengths_def split: if_splits)
qed simp

section \<open>The loops\<close>

lemma borrow_days_floor:
  assumes "0 < SECSPERDAY"
  shows "borrow_days (t smod SECSPERDAY) (t sdiv SECSPERDAY) = (t mod SECSPERDAY, t div SECSPERDAY)"
proof -
  define c where "c \<longleftrightarrow> sgn t \<noteq> sgn SECSPERDAY \<and> \<not> SECSPERDAY dvd t"
  have e: "t smod SECSPERDAY = t mod SECSPERDAY - SECSPERDAY * of_bool c" "t sdiv SECSPERDAY = t div SECSPERDAY + of_bool c"
    using assms by (simp_all add: signed_modulo_int_eq_modulo_int signed_divide_int_eq_divide_int c_def)
  have r: "0 \<le> t mod SECSPERDAY" "t mod SECSPERDAY < SECSPERDAY" using assms by simp_all
  show ?thesis
  proof (cases c)
    case True
    then show ?thesis using r unfolding e by (subst borrow_days.simps, subst borrow_days.simps) simp
  next
    case False
    then show ?thesis using r unfolding e by (subst borrow_days.simps) simp
  qed
qed

definition year_found :: "int \<Rightarrow> int \<times> int \<Rightarrow> bool" where
  "year_found day r \<longleftrightarrow> 0 \<le> snd r \<and> snd r < year_lengths (isleap (fst r)) \<and> year_start (fst r) + snd r = day"

lemma years_after_found: "0 \<le> days \<Longrightarrow> year_found (year_start y + days) (years_after y days)"
proof (induction y days rule: years_after.induct)
  case (1 y days)
  show ?case
  proof (cases "days < year_lengths (isleap y)")
    case True
    then show ?thesis using "1.prems" by (subst years_after.simps) (simp add: year_found_def)
  next
    case False
    then have "year_found (year_start (y + 1) + (days - year_lengths (isleap y))) (years_after y days)"
      using 1 by (subst years_after.simps) simp
    then show ?thesis by (simp add: year_start_next)
  qed
qed

lemma years_before_found: "days < 0 \<Longrightarrow> year_found (year_start y + days) (years_before y days)"
proof (induction y days rule: years_before.induct)
  case (1 y days)
  define d where "d = days + year_lengths (isleap (y - 1))"
  have s: "year_start y + days = year_start (y - 1) + d" using year_start_next [of "y - 1"] by (simp add: d_def)
  show ?case
  proof (cases "d < 0")
    case True
    then show ?thesis using "1.IH" [OF refl refl] unfolding s by (subst years_before.simps) (simp add: d_def Let_def)
  next
    case False
    then show ?thesis using "1.prems" unfolding s
      by (subst years_before.simps) (simp add: year_found_def d_def Let_def)
  qed
qed

lemma year_found_range:
  assumes "year_found day (y, d)" "- 24856 \<le> day" "day \<le> 24855"
  shows "1901 \<le> y \<and> y \<le> 2038"
proof -
  have v: "year_start 1901 = - 25202" "year_start 2039 = 25202" by (simp_all add: year_start_def leaps_def)
  have f: "0 \<le> d" "year_start y \<le> day" "day < year_start (y + 1)"
    using assms(1) year_start_next [of y] by (simp_all add: year_found_def)
  have "\<not> y + 1 \<le> 1901" using year_start_mono [of "y + 1" 1901] f(3) v(1) assms(2) by linarith
  moreover have "\<not> 2039 \<le> y" using year_start_mono [of 2039 y] f(2) v(2) assms(3) by linarith
  ultimately show ?thesis by simp
qed

lemma months_found:
  "0 \<le> d \<Longrightarrow> d < sum_list ls \<Longrightarrow> \<exists>k < length ls. months ls mon d = Inr (mon + int k, d - sum_list (take k ls))
     \<and> 0 \<le> d - sum_list (take k ls) \<and> d - sum_list (take k ls) < ls ! k"
proof (induction ls arbitrary: mon d)
  case (Cons l ls)
  show ?case
  proof (cases "l \<le> d")
    case True
    then obtain k where "k < length ls" "months ls (mon + 1) (d - l) = Inr (mon + 1 + int k, d - l - sum_list (take k ls))"
        "0 \<le> d - l - sum_list (take k ls)" "d - l - sum_list (take k ls) < ls ! k"
      using Cons.IH [of "d - l" "mon + 1"] Cons.prems by auto
    then show ?thesis using True by (intro exI [of _ "Suc k"]) (simp add: algebra_simps)
  next
    case False
    then show ?thesis using Cons.prems by (intro exI [of _ 0]) simp
  qed
qed simp

lemma sum_mon_lengths: "sum_list (mon_lengths leap) = year_lengths leap" "length (mon_lengths leap) = 12"
  by (simp_all add: mon_lengths_def year_lengths_def)

section \<open>Properties\<close>

lemma sint32_range: "- (2 ^ 31) \<le> sint (t :: 32 word)" "sint (t :: 32 word) < 2 ^ 31"
  using sint_range_size [of t] by (simp_all add: word_size)

text \<open>
  The Gregorian calendar, independently of the tables and constants of the code: leap years, the
  lengths of the months, counted from January as 0, and the days of a year before a month.
\<close>

definition gregorian_leap :: "int \<Rightarrow> bool" where
  "gregorian_leap y \<longleftrightarrow> 4 dvd y \<and> \<not> 100 dvd y \<or> 400 dvd y"

fun days_in_month :: "int \<Rightarrow> nat \<Rightarrow> int" where
  "days_in_month y k =
     (if k = 1 then (if gregorian_leap y then 29 else 28)
      else if k = 3 \<or> k = 5 \<or> k = 8 \<or> k = 10 then 30 else 31)"

fun days_before_month :: "int \<Rightarrow> nat \<Rightarrow> int" where
  "days_before_month y 0 = 0"
| "days_before_month y (Suc k) = days_before_month y k + days_in_month y k"

text \<open>What is to be shown of a broken-down time: the fields are in range, month and day agree with
  the day of the year, the weekday is counted from the first of January 1970, a Thursday, and the
  seconds are those of the time of day on that day.\<close>

definition denotes :: "tm \<Rightarrow> int \<Rightarrow> bool" where
  "denotes r secs \<longleftrightarrow>
     (let y = tm_year r + 1900; mon = nat (tm_mon r) in
      0 \<le> tm_sec r \<and> tm_sec r < 60 \<and> 0 \<le> tm_min r \<and> tm_min r < 60 \<and> 0 \<le> tm_hour r \<and> tm_hour r < 24
      \<and> 0 \<le> tm_mon r \<and> tm_mon r < 12 \<and> 1 \<le> tm_mday r \<and> tm_mday r \<le> days_in_month y mon
      \<and> 0 \<le> tm_yday r \<and> tm_yday r < (if gregorian_leap y then 366 else 365)
      \<and> tm_yday r = days_before_month y mon + tm_mday r - 1
      \<and> tm_wday r = (4 + year_start y + tm_yday r) mod 7
      \<and> secs = ((year_start y + tm_yday r) * 24 + tm_hour r) * 3600 + tm_min r * 60 + tm_sec r)"

lemma isleap_gregorian: "isleap y = gregorian_leap y"
  by (simp add: isleap_iff gregorian_leap_def)

lemma month_table:
  assumes "k < 12"
  shows "mon_lengths (isleap y) ! k = days_in_month y k"
    and "sum_list (take k (mon_lengths (isleap y))) = days_before_month y k"
proof -
  have "k \<in> set [0..<12]" using assms by simp
  then show "mon_lengths (isleap y) ! k = days_in_month y k"
    "sum_list (take k (mon_lengths (isleap y))) = days_before_month y k"
    by (auto simp: upt_rec mon_lengths_def isleap_gregorian numeral_eq_Suc)
qed

lemma wday_floor:
  "(let w = x smod DAYSPERWEEK in if w < 0 then w + DAYSPERWEEK else w) = x mod 7"
proof -
  define c where "c \<longleftrightarrow> sgn x \<noteq> sgn (7 :: int) \<and> \<not> 7 dvd x"
  have "x smod 7 = x mod 7 - 7 * of_bool c" by (simp only: signed_modulo_int_eq_modulo_int c_def)
  moreover have "0 \<le> x mod 7" "x mod 7 < 7" by simp_all
  ultimately show ?thesis by (cases c) (simp_all add: DAYSPERWEEK_def Let_def)
qed

lemma localtime_value:
  obtains r where "localtime_r t = Inr r" "denotes r (sint t)" "tm_isdst r = - 1"
    and "1 \<le> tm_year r" "tm_year r \<le> 138"
proof -
  define rem days where "rem = sint t mod SECSPERDAY" and "days = sint t div SECSPERDAY"
  have S: "SECSPERDAY = 86400" "SECSPERHOUR = 3600" by (simp_all add: time_constants)
  have rem: "0 \<le> rem" "rem < 86400" and st: "sint t = days * 86400 + rem"
    by (simp_all add: rem_def days_def S)
  have b: "borrow_days (sint t smod SECSPERDAY) (sint t sdiv SECSPERDAY) = (rem, days)"
    unfolding rem_def days_def by (rule borrow_days_floor) (simp add: S)
  define yd where "yd = (if 0 \<le> days then years_after EPOCH_YEAR days else years_before EPOCH_YEAR days)"
  have e: "year_start EPOCH_YEAR = 0" by (simp add: year_start_def EPOCH_YEAR_def)
  have found: "year_found days yd"
    using years_after_found [of days EPOCH_YEAR] years_before_found [of days EPOCH_YEAR] by (simp add: yd_def e)
  obtain y d where yd_eq: "yd = (y, d)" by (cases yd)
  have d: "0 \<le> d" "d < year_lengths (isleap y)" "year_start y + d = days" using found by (simp_all add: year_found_def yd_eq)
  have range: "1901 \<le> y \<and> y \<le> 2038"
    using year_found_range [of days y d] found sint32_range [of t] st rem yd_eq by simp
  obtain k where k: "k < 12" "months (mon_lengths (isleap y)) 0 d = Inr (int k, d - sum_list (take k (mon_lengths (isleap y))))"
      "0 \<le> d - sum_list (take k (mon_lengths (isleap y)))" "d - sum_list (take k (mon_lengths (isleap y))) < mon_lengths (isleap y) ! k"
    using months_found [of d "mon_lengths (isleap y)" 0] d(1,2) by (auto simp: sum_mon_lengths)
  define w where "w = (EPOCH_WDAY + days) mod 7"
  define r where "r = \<lparr>tm_sec = rem mod 3600 mod 60, tm_min = rem mod 3600 div 60, tm_hour = rem div 3600,
    tm_mday = d - sum_list (take k (mon_lengths (isleap y))) + 1, tm_mon = int k, tm_year = y - YEAR_BASE,
    tm_wday = w, tm_yday = d, tm_isdst = - 1\<rparr>"
  have nonneg: "rem sdiv 3600 = rem div 3600" "rem smod 3600 = rem mod 3600"
      "(rem mod 3600) sdiv 60 = rem mod 3600 div 60" "(rem mod 3600) smod 60 = rem mod 3600 mod 60"
    using rem(1) by (simp_all add: signed_divide_int_def smod_mod_positive sgn_if)
  have "localtime_r t = Inr r"
    using wday_floor [of "EPOCH_WDAY + days"] k(2)
    by (simp add: localtime_r_def b [unfolded S] Let_def nonneg S SECSPERMIN_def r_def w_def yd_eq flip: yd_def)
  moreover have "denotes r (sint t)"
  proof -
    define h m where "h = rem div 3600" and "m = rem mod 3600 div 60"
    have e: "h * 3600 + rem mod 3600 = rem" "m * 60 + rem mod 3600 mod 60 = rem mod 3600"
      by (simp_all only: h_def m_def div_mult_mod_eq)
    have l: "0 \<le> rem mod 3600" "rem mod 3600 < 3600" "0 \<le> rem mod 3600 mod 60" "rem mod 3600 mod 60 < 60" by simp_all
    have "0 \<le> h" "h < 24" "0 \<le> m" "m < 60" using e l rem by linarith+
    moreover have "rem = h * 3600 + m * 60 + rem mod 3600 mod 60" using e by linarith
    ultimately show ?thesis
      using k d st l(3,4) month_table [OF k(1), of y]
      by (simp add: denotes_def Let_def add.assoc [of 4 "year_start y" d] r_def w_def YEAR_BASE_def EPOCH_WDAY_def
          year_lengths_def isleap_gregorian flip: h_def m_def del: days_in_month.simps)
  qed
  moreover have "tm_isdst r = - 1" "1 \<le> tm_year r" "tm_year r \<le> 138"
    using range by (simp_all add: r_def YEAR_BASE_def)
  ultimately show thesis using that by blast
qed

text \<open>C13: for every 32-bit time \<open>localtime_r\<close> returns, without reading past its tables, the
  date in the proleptic Gregorian calendar: its fields are in range and denote exactly the
  given number of seconds, before and after 1970.  The calendar starts at 1970, each year is
  365 or 366 days long, and the months have the lengths of \<open>days_in_month\<close>, which is not the
  table of the code.\<close>

theorem localtime_spec:
  "(\<exists>r. localtime_r t = Inr r \<and> denotes r (sint t) \<and> tm_isdst r = - 1)
   \<and> year_start 1970 = 0
   \<and> (\<forall>y. year_start (y + 1) = year_start y + (if 4 dvd y \<and> \<not> 100 dvd y \<or> 400 dvd y then 366 else 365))"
proof -
  have "\<exists>r. localtime_r t = Inr r \<and> denotes r (sint t) \<and> tm_isdst r = - 1"
    by (rule localtime_value [of t]) blast
  moreover have "year_start 1970 = 0" by (simp add: year_start_def)
  ultimately show ?thesis by (simp add: year_start_next year_lengths_def isleap_iff)
qed

theorem localtime_spec_witness:
  "\<exists>r. localtime_r 951782400 = Inr r \<and> denotes r 951782400"
proof -
  have "sint (951782400 :: 32 word) = 951782400" by simp
  then show ?thesis using localtime_spec [of 951782400] by (simp only:) blast
qed

text \<open>\<open>ctime_r\<close> succeeds on every 32-bit time and writes exactly 25 characters in front of
  the terminator, so that a buffer of 26 bytes is enough.\<close>

theorem ctime_length:
  "\<exists>s. ctime_r t = Inr s \<and> length s = 25"
proof -
  obtain r where r: "localtime_r t = Inr r" "denotes r (sint t)" "1 \<le> tm_year r" "tm_year r \<le> 138"
    by (rule localtime_value)
  define y where "y = tm_year r + 1900"
  have f: "0 \<le> tm_sec r" "tm_sec r < 60" "0 \<le> tm_min r" "tm_min r < 60" "0 \<le> tm_hour r" "tm_hour r < 24"
    "0 \<le> tm_mon r" "tm_mon r < 12" "1 \<le> tm_mday r" "tm_mday r \<le> days_in_month y (nat (tm_mon r))"
    "tm_wday r = (4 + year_start y + tm_yday r) mod 7"
    using r(2) by (simp_all only: denotes_def Let_def y_def)
  have "days_in_month y k \<le> 31" for k by simp
  then have "tm_mday r \<le> 31" using order_trans [OF f(10)] by blast
  then have two: "length (show_int2 (tm_mday r)) = 2" "length (show_int2 (tm_hour r)) = 2"
    "length (show_int2 (tm_min r)) = 2" "length (show_int2 (tm_sec r)) = 2"
    using f by (auto intro: length_show_int2)
  have "0 \<le> tm_wday r" "tm_wday r < 7" by (simp_all add: f(11))
  moreover have "\<forall>n\<in>set day_name \<union> set mon_name. length n = 3" by (simp add: day_name_def mon_name_def)
  moreover have "length day_name = 7" "length mon_name = 12" by (simp_all add: day_name_def mon_name_def)
  ultimately obtain day month where n: "entry day_name (tm_wday r) = Inr day" "length day = 3"
      "entry mon_name (tm_mon r) = Inr month" "length month = 3"
    using f(7,8) by (auto simp: entry_def nat_less_iff)
  have "length (show_int (1900 + tm_year r)) = 4" using r(3,4) by (simp add: show_int_def length_show_nat_4)
  then show ?thesis by (simp add: ctime_r_def r(1) asctime_r_def n two)
qed

end
