(* ===== verification/Libata.thy ===== *)
theory Libata
  imports Log2
begin

text \<open>
  Predicates on ATA devices (\<open>include/libata.h\<close>): transfer protocols, the 256 words that a
  device returns when asked to identify itself, limits of block addresses and the status
  register.  A C condition is its integer value, the masked bit where the code returns it.
\<close>

section \<open>Protocols\<close>

datatype ata_tf_protocols =
    ATA_PROT_UNKNOWN | ATA_PROT_NODATA | ATA_PROT_PIO | ATA_PROT_DMA | ATA_PROT_NCQ
  | ATAPI_PROT_NODATA | ATAPI_PROT_PIO | ATAPI_PROT_DMA

definition ATA_PROT_FLAG_PIO :: u32 where "ATA_PROT_FLAG_PIO = push_bit 0 1"
definition ATA_PROT_FLAG_DMA :: u32 where "ATA_PROT_FLAG_DMA = push_bit 1 1"
definition ATA_PROT_FLAG_DATA :: u32 where "ATA_PROT_FLAG_DATA = ATA_PROT_FLAG_PIO OR ATA_PROT_FLAG_DMA"
definition ATA_PROT_FLAG_NCQ :: u32 where "ATA_PROT_FLAG_NCQ = push_bit 2 1"
definition ATA_PROT_FLAG_ATAPI :: u32 where "ATA_PROT_FLAG_ATAPI = push_bit 3 1"

fun protocol_value :: "ata_tf_protocols \<Rightarrow> u8" where
  "protocol_value ATA_PROT_UNKNOWN = 0"
| "protocol_value ATA_PROT_NODATA = 1"
| "protocol_value ATA_PROT_PIO = 2"
| "protocol_value ATA_PROT_DMA = 3"
| "protocol_value ATA_PROT_NCQ = 4"
| "protocol_value ATAPI_PROT_NODATA = 5"
| "protocol_value ATAPI_PROT_PIO = 6"
| "protocol_value ATAPI_PROT_DMA = 7"

definition ata_prot_flags :: "u8 \<Rightarrow> u32" where
  "ata_prot_flags prot =
     (if prot = protocol_value ATA_PROT_NODATA then 0
      else if prot = protocol_value ATA_PROT_PIO then ATA_PROT_FLAG_PIO
      else if prot = protocol_value ATA_PROT_DMA then ATA_PROT_FLAG_DMA
      else if prot = protocol_value ATA_PROT_NCQ then ATA_PROT_FLAG_DMA OR ATA_PROT_FLAG_NCQ
      else if prot = protocol_value ATAPI_PROT_NODATA then ATA_PROT_FLAG_ATAPI
      else if prot = protocol_value ATAPI_PROT_PIO then ATA_PROT_FLAG_ATAPI OR ATA_PROT_FLAG_PIO
      else if prot = protocol_value ATAPI_PROT_DMA then ATA_PROT_FLAG_ATAPI OR ATA_PROT_FLAG_DMA
      else 0)"

definition ata_is_atapi :: "u8 \<Rightarrow> u32" where
  "ata_is_atapi prot = ata_prot_flags prot AND ATA_PROT_FLAG_ATAPI"

definition ata_is_nodata :: "u8 \<Rightarrow> bool" where
  "ata_is_nodata prot \<longleftrightarrow> ata_prot_flags prot AND ATA_PROT_FLAG_DATA = 0"

definition ata_is_pio :: "u8 \<Rightarrow> u32" where
  "ata_is_pio prot = ata_prot_flags prot AND ATA_PROT_FLAG_PIO"

definition ata_is_dma :: "u8 \<Rightarrow> u32" where
  "ata_is_dma prot = ata_prot_flags prot AND ATA_PROT_FLAG_DMA"

definition ata_is_ncq :: "u8 \<Rightarrow> u32" where
  "ata_is_ncq prot = ata_prot_flags prot AND ATA_PROT_FLAG_NCQ"

definition ata_is_data :: "u8 \<Rightarrow> u32" where
  "ata_is_data prot = ata_prot_flags prot AND ATA_PROT_FLAG_DATA"

section \<open>Identification\<close>

text \<open>The 256 words are a function of their index; all indices in the code are constants.\<close>

type_synonym ata_id = "nat \<Rightarrow> u16"

text \<open>\<open>id[n] & (1 << b)\<close>, as a truth value where the code only tests it.\<close>

definition id_bit :: "ata_id \<Rightarrow> nat \<Rightarrow> nat \<Rightarrow> u32" where
  "id_bit ident n b = ucast (ident n) AND push_bit b 1"

definition ata_id_is_ata :: "ata_id \<Rightarrow> bool" where "ata_id_is_ata ident \<longleftrightarrow> id_bit ident 0 15 = 0"
definition ata_id_has_lba :: "ata_id \<Rightarrow> u32" where "ata_id_has_lba ident = id_bit ident 49 9"
definition ata_id_has_dma :: "ata_id \<Rightarrow> u32" where "ata_id_has_dma ident = id_bit ident 49 8"
definition ata_id_has_ncq :: "ata_id \<Rightarrow> u32" where "ata_id_has_ncq ident = id_bit ident 76 8"
definition ata_id_queue_depth :: "ata_id \<Rightarrow> u32" where "ata_id_queue_depth ident = (ucast (ident 75) AND 0x1f) + 1"
definition ata_id_removeable :: "ata_id \<Rightarrow> u32" where "ata_id_removeable ident = id_bit ident 0 7"
definition ata_id_iordy_disable :: "ata_id \<Rightarrow> u32" where "ata_id_iordy_disable ident = id_bit ident 49 10"
definition ata_id_has_iordy :: "ata_id \<Rightarrow> u32" where "ata_id_has_iordy ident = id_bit ident 49 11"

definition ata_id_u32 :: "ata_id \<Rightarrow> nat \<Rightarrow> u32" where
  "ata_id_u32 ident n = push_bit 16 (ucast (ident (n + 1))) OR ucast (ident n)"

definition ata_id_u64 :: "ata_id \<Rightarrow> nat \<Rightarrow> u64" where
  "ata_id_u64 ident n = push_bit 48 (ucast (ident (n + 3))) OR push_bit 32 (ucast (ident (n + 2)))
     OR push_bit 16 (ucast (ident (n + 1))) OR ucast (ident (n + 0))"

definition ata_id_cdb_intr :: "ata_id \<Rightarrow> bool" where
  "ata_id_cdb_intr ident \<longleftrightarrow> ident 0 AND 0x60 = 0x20"

definition ata_id_has_fua :: "ata_id \<Rightarrow> u32" where
  "ata_id_has_fua ident = (if ident 84 AND 0xC000 \<noteq> 0x4000 then 0 else id_bit ident 84 6)"

definition ata_id_has_flush :: "ata_id \<Rightarrow> u32" where
  "ata_id_has_flush ident = (if ident 83 AND 0xC000 \<noteq> 0x4000 then 0 else id_bit ident 83 12)"

definition ata_id_has_flush_ext :: "ata_id \<Rightarrow> u32" where
  "ata_id_has_flush_ext ident = (if ident 83 AND 0xC000 \<noteq> 0x4000 then 0 else id_bit ident 83 13)"

definition ata_id_has_lba48 :: "ata_id \<Rightarrow> u32" where
  "ata_id_has_lba48 ident =
     (if ident 83 AND 0xC000 \<noteq> 0x4000 then 0
      else if ata_id_u64 ident 100 = 0 then 0
      else id_bit ident 83 10)"

definition ata_id_hpa_enabled :: "ata_id \<Rightarrow> u32" where
  "ata_id_hpa_enabled ident =
     (if ident 83 AND 0xC000 \<noteq> 0x4000 then 0
      else if ident 87 AND 0xC000 \<noteq> 0x4000 then 0
      else if id_bit ident 85 10 = 0 then 0
      else id_bit ident 82 10)"

definition ata_id_has_wcache :: "ata_id \<Rightarrow> u32" where
  "ata_id_has_wcache ident = (if ident 83 AND 0xC000 \<noteq> 0x4000 then 0 else id_bit ident 82 5)"

definition ata_id_has_pm :: "ata_id \<Rightarrow> u32" where
  "ata_id_has_pm ident = (if ident 83 AND 0xC000 \<noteq> 0x4000 then 0 else id_bit ident 82 3)"

definition ata_id_rahead_enabled :: "ata_id \<Rightarrow> u32" where
  "ata_id_rahead_enabled ident = (if ident 87 AND 0xC000 \<noteq> 0x4000 then 0 else id_bit ident 85 6)"

definition ata_id_wcache_enabled :: "ata_id \<Rightarrow> u32" where
  "ata_id_wcache_enabled ident = (if ident 87 AND 0xC000 \<noteq> 0x4000 then 0 else id_bit ident 85 5)"

text \<open>The loop counts down from 14 and ends at 0 when no bit was found.\<close>

fun version_from :: "nat \<Rightarrow> ata_id \<Rightarrow> nat" where
  "version_from 0 ident = 0"
| "version_from (Suc mver) ident = (if id_bit ident 80 (Suc mver) \<noteq> 0 then Suc mver else version_from mver ident)"

definition ata_id_major_version :: "ata_id \<Rightarrow> nat" where
  "ata_id_major_version ident = (if ident 80 = 0xFFFF then 0 else version_from 14 ident)"

definition ata_id_is_sata :: "ata_id \<Rightarrow> bool" where
  "ata_id_is_sata ident \<longleftrightarrow> 5 \<le> ata_id_major_version ident \<and> ident 93 = 0"

definition ata_id_has_tpm :: "ata_id \<Rightarrow> u32" where
  "ata_id_has_tpm ident =
     (if ata_id_major_version ident < 8 then 0
      else if ident 48 AND 0xC000 \<noteq> 0x4000 then 0
      else id_bit ident 48 0)"

definition ata_id_has_dword_io :: "ata_id \<Rightarrow> u32" where
  "ata_id_has_dword_io ident =
     (if 7 < ata_id_major_version ident then 0
      else if id_bit ident 48 0 \<noteq> 0 then 1
      else 0)"

definition ata_id_current_chs_valid :: "ata_id \<Rightarrow> bool" where
  "ata_id_current_chs_valid ident \<longleftrightarrow>
     ident 53 AND 0x01 \<noteq> 0 \<and> ident 54 \<noteq> 0 \<and> ident 55 \<noteq> 0 \<and> ident 55 \<le> 16 \<and> ident 56 \<noteq> 0"

definition ata_id_is_cfa :: "ata_id \<Rightarrow> bool" where
  "ata_id_is_cfa ident \<longleftrightarrow>
     ident 0 = 0x848A \<or> 3 \<le> ata_id_major_version ident \<and> ident 82 \<noteq> 0xFFFF \<and> id_bit ident 82 2 \<noteq> 0"

definition ata_drive_40wire :: "ata_id \<Rightarrow> bool" where
  "ata_drive_40wire dev_id =
     (if ata_id_is_sata dev_id then False
      else if dev_id 93 AND 0xE000 = 0x6000 then False
      else True)"

definition ata_drive_40wire_relaxed :: "ata_id \<Rightarrow> bool" where
  "ata_drive_40wire_relaxed dev_id = (if dev_id 93 AND 0x2000 = 0x2000 then False else True)"

definition atapi_cdb_len :: "ata_id \<Rightarrow> int" where
  "atapi_cdb_len dev_id =
     (let tmp = dev_id 0 AND 0x3 in if tmp = 0 then 12 else if tmp = 1 then 16 else - 1)"

definition atapi_command_packet_set :: "ata_id \<Rightarrow> u16" where
  "atapi_command_packet_set dev_id = drop_bit 8 (dev_id 0) AND 0x1f"

definition atapi_id_dmadir :: "ata_id \<Rightarrow> bool" where
  "atapi_id_dmadir dev_id \<longleftrightarrow> 7 \<le> ata_id_major_version dev_id \<and> dev_id 62 AND 0x8000 \<noteq> 0"

section \<open>Commands and addresses\<close>

record ata_taskfile =
  tf_flags :: u32
  protocol :: u8
  ctl :: u8
  hob_feature :: u8
  hob_nsect :: u8
  hob_lbal :: u8
  hob_lbam :: u8
  hob_lbah :: u8
  feature :: u8
  nsect :: u8
  lbal :: u8
  lbam :: u8
  lbah :: u8
  device :: u8
  command :: u8

definition is_multi_taskfile :: "ata_taskfile \<Rightarrow> bool" where
  "is_multi_taskfile tf \<longleftrightarrow> command tf = 0xC4 \<or> command tf = 0xC5 \<or> command tf = 0x29
     \<or> command tf = 0x39 \<or> command tf = 0xCE"

definition ata_ok :: "u8 \<Rightarrow> bool" where
  "ata_ok status \<longleftrightarrow>
     status AND (push_bit 7 1 OR push_bit 6 1 OR push_bit 5 1 OR push_bit 3 1 OR push_bit 0 1) = push_bit 6 1"

definition lba_28_ok :: "u64 \<Rightarrow> u32 \<Rightarrow> bool" where
  "lba_28_ok block n_block \<longleftrightarrow> block + ucast n_block - 1 < push_bit 28 1 \<and> n_block \<le> 256"

definition lba_48_ok :: "u64 \<Rightarrow> u32 \<Rightarrow> bool" where
  "lba_48_ok block n_block \<longleftrightarrow> block + ucast n_block - 1 < push_bit 48 1 \<and> n_block \<le> 65536"

definition sata_pmp_gscr_vendor :: "(nat \<Rightarrow> u32) \<Rightarrow> u32" where
  "sata_pmp_gscr_vendor gscr = gscr 0 AND 0xffff"
definition sata_pmp_gscr_devid :: "(nat \<Rightarrow> u32) \<Rightarrow> u32" where
  "sata_pmp_gscr_devid gscr = drop_bit 16 (gscr 0)"
definition sata_pmp_gscr_rev :: "(nat \<Rightarrow> u32) \<Rightarrow> u32" where
  "sata_pmp_gscr_rev gscr = drop_bit 8 (gscr 1) AND 0xff"
definition sata_pmp_gscr_ports :: "(nat \<Rightarrow> u32) \<Rightarrow> u32" where
  "sata_pmp_gscr_ports gscr = gscr 2 AND 0xf"

section \<open>What the predicates say\<close>

lemma id_bit_iff: "b < 16 \<Longrightarrow> id_bit ident n b \<noteq> 0 \<longleftrightarrow> bit (ident n) b"
  using and_single_bit [of "ucast (ident n) :: u32" b] by (simp add: id_bit_def bit_unsigned_iff)

text \<open>The version is the number of the highest set bit from 1 to 14.\<close>

lemma version_from_spec:
  assumes "m < 16"
  shows "version_from m ident \<le> m"
    and "version_from m ident \<noteq> 0 \<Longrightarrow> bit (ident 80) (version_from m ident)"
    and "version_from m ident < k \<Longrightarrow> k \<le> m \<Longrightarrow> \<not> bit (ident 80) k"
  using assms by (induction m) (auto simp: id_bit_iff le_Suc_eq split: if_splits)

text \<open>The sum in the address checks, where it does not wrap around.\<close>

lemma last_block:
  assumes "0 < unat n" "unat block + unat n \<le> 2 ^ 64"
  shows "unat (block + ucast (n :: u32) - 1 :: u64) = unat block + (unat n - 1)"
proof -
  have "unat (ucast n :: u64) = unat n" using unat_less_pow [of n] by (simp add: unsigned_ucast_eq take_bit_nat_eq_self)
  moreover have "block + ucast n - 1 = block + (ucast n - 1)" by (simp only: add_diff_eq)
  moreover have "unat (ucast n - 1 :: u64) = unat n - 1"
    using assms(1) calculation(1) by (subst unat_minus_one) auto
  moreover have "unat (block + (ucast n - 1)) = unat block + unat (ucast n - 1 :: u64)"
    using assms calculation(3) by (intro unat_add_exact) simp
  ultimately show ?thesis by (simp only:)
qed

lemma lba_ok_iff:
  assumes "0 < unat n" "unat block + unat n \<le> 2 ^ 64"
  shows "lba_28_ok block n \<longleftrightarrow> unat block + unat n \<le> 2 ^ 28 \<and> unat n \<le> 256"
    and "lba_48_ok block n \<longleftrightarrow> unat block + unat n \<le> 2 ^ 48 \<and> unat n \<le> 65536"
  using assms(1) last_block [OF assms]
  by (auto simp: lba_28_ok_def lba_48_ok_def word_less_nat_alt word_le_nat_alt)

text \<open>The version word as a whole.\<close>

lemma major_version_spec:
  "ata_id_major_version ident \<le> 14"
  "ata_id_major_version ident \<noteq> 0 \<Longrightarrow> bit (ident 80) (ata_id_major_version ident)"
  "ident 80 \<noteq> 0xFFFF \<Longrightarrow> ata_id_major_version ident < k \<Longrightarrow> k \<le> 14 \<Longrightarrow> \<not> bit (ident 80) k"
  using version_from_spec [of 14 ident] by (auto simp: ata_id_major_version_def split: if_splits)

text \<open>Every protocol is either without data or moves them by exactly one of two means.\<close>

lemma prot_flags_cases: "ata_prot_flags prot \<in> {0, 1, 2, 6, 8, 9, 10}"
  by (simp add: ata_prot_flags_def ATA_PROT_FLAG_PIO_def ATA_PROT_FLAG_DMA_def
      ATA_PROT_FLAG_NCQ_def ATA_PROT_FLAG_ATAPI_def)

lemma protocol_kinds:
  "ata_is_nodata prot \<longleftrightarrow> ata_is_pio prot = 0 \<and> ata_is_dma prot = 0"
  "\<not> (ata_is_pio prot \<noteq> 0 \<and> ata_is_dma prot \<noteq> 0)"
  "\<not> (ata_is_ncq prot \<noteq> 0 \<and> ata_is_dma prot = 0)"
  using prot_flags_cases [of prot]
  by (auto simp: ata_is_nodata_def ata_is_pio_def ata_is_dma_def ata_is_ncq_def
      ATA_PROT_FLAG_PIO_def ATA_PROT_FLAG_DMA_def ATA_PROT_FLAG_DATA_def ATA_PROT_FLAG_NCQ_def)

lemma word_48_one_meaning: "\<not> (ata_id_has_tpm ident \<noteq> 0 \<and> ata_id_has_dword_io ident \<noteq> 0)"
  by (simp add: ata_id_has_tpm_def ata_id_has_dword_io_def)

lemma sata_not_40wire: "\<not> (ata_id_is_sata ident \<and> ata_drive_40wire ident)"
  by (simp add: ata_drive_40wire_def)

section \<open>Properties\<close>

text \<open>a transfer whose last block number does not wrap around passes the check for 28-bit
  (48-bit) addressing exactly if it ends within \<open>2 ^ 28\<close> (\<open>2 ^ 48\<close>) blocks and has at most
  256 (65536) of them, but two blocks from the last 64-bit number pass both checks.\<close>

theorem lba_checks_spec:
  "(0 < unat n \<and> unat block + unat n \<le> 2 ^ 64 \<longrightarrow>
      (lba_28_ok block n \<longleftrightarrow> unat block + unat n \<le> 2 ^ 28 \<and> unat n \<le> 256) \<and>
      (lba_48_ok block n \<longleftrightarrow> unat block + unat n \<le> 2 ^ 48 \<and> unat n \<le> 65536))
    \<and> lba_28_ok (- 1) 2 \<and> lba_48_ok (- 1) 2"
  using lba_ok_iff [of n block] by (auto simp: lba_28_ok_def lba_48_ok_def)

theorem lba_checks_spec_witness: "lba_28_ok 0xFFFFF00 256 \<and> \<not> lba_28_ok 0xFFFFF01 256 \<and> lba_48_ok 0xFFFFF01 256"
  using lba_checks_spec [of 256 "0xFFFFF00"] lba_checks_spec [of 256 "0xFFFFF01"] by simp

text \<open>the major version is the number of the highest of the bits 1 to 14 of word 80, or 0 if
  there is none or the word is all ones; word 48 is never read as both the trusted computing
  bit and the one for double-word transfers; a SATA device never counts as 40-wire; a
  protocol moves data by PIO or by DMA but not both, and queued commands use DMA.\<close>

theorem ata_identification_spec:
  "ata_id_major_version ident \<le> 14
    \<and> (ata_id_major_version ident \<noteq> 0 \<longrightarrow> bit (ident 80) (ata_id_major_version ident))
    \<and> (ident 80 \<noteq> 0xFFFF \<longrightarrow> (\<forall>k. ata_id_major_version ident < k \<and> k \<le> 14 \<longrightarrow> \<not> bit (ident 80) k))
    \<and> \<not> (ata_id_has_tpm ident \<noteq> 0 \<and> ata_id_has_dword_io ident \<noteq> 0)
    \<and> \<not> (ata_id_is_sata ident \<and> ata_drive_40wire ident)
    \<and> (ata_is_nodata prot \<longleftrightarrow> ata_is_pio prot = 0 \<and> ata_is_dma prot = 0)
    \<and> \<not> (ata_is_pio prot \<noteq> 0 \<and> ata_is_dma prot \<noteq> 0)
    \<and> \<not> (ata_is_ncq prot \<noteq> 0 \<and> ata_is_dma prot = 0)"
  by (intro conjI impI allI major_version_spec(1,2) protocol_kinds word_48_one_meaning sata_not_40wire)
    (use major_version_spec(3) in blast)+

theorem ata_identification_spec_witness:
  "ata_id_major_version (\<lambda>_. 0x01FE) = 8 \<and> bit (0x01FE :: u16) 8"
proof -
  have "ata_id_major_version (\<lambda>_. 0x01FE) = 8"
    by code_simp
  then show ?thesis using ata_identification_spec [of "\<lambda>_. 0x01FE" 0] by (simp only: simp_thms)
qed

end
