(* ===== verification/RBTree.thy ===== *)
theory RBTree
  imports ListLoops
begin

text \<open>
  The red-black trees of \<open>include/linux/rbtree.h\<close> and \<open>include/linux/rbtree_augmented.h\<close>:
  a node holds its parent's address with its own colour in the low bit, and the addresses of
  its children; a root is one pointer.  The heap maps addresses to the fields.  An augmented
  tree keeps a value in the structure around each node (\<open>augmented\<close>, by the address of
  that structure).  Removal is in the headers and modelled here, with its case distinction,
  its search for the successor and its calls to the augmentation callbacks; the rebalancing
  functions are declared there and defined elsewhere, so they are parameters.
\<close>

section \<open>Nodes, roots and the heap\<close>

record 'g rb_heap =
  rb_parent_color :: "addr \<Rightarrow> u32"
  rb_right :: "addr \<Rightarrow> addr"
  rb_left :: "addr \<Rightarrow> addr"
  rb_node :: "addr \<Rightarrow> addr"
  augmented :: "addr \<Rightarrow> 'g"

definition set_pc :: "addr \<Rightarrow> u32 \<Rightarrow> 'g rb_heap \<Rightarrow> 'g rb_heap" where
  "set_pc a v h = h\<lparr>rb_parent_color := (rb_parent_color h)(a := v)\<rparr>"

definition set_right :: "addr \<Rightarrow> addr \<Rightarrow> 'g rb_heap \<Rightarrow> 'g rb_heap" where
  "set_right a v h = h\<lparr>rb_right := (rb_right h)(a := v)\<rparr>"

definition set_left :: "addr \<Rightarrow> addr \<Rightarrow> 'g rb_heap \<Rightarrow> 'g rb_heap" where
  "set_left a v h = h\<lparr>rb_left := (rb_left h)(a := v)\<rparr>"

definition set_root :: "addr \<Rightarrow> addr \<Rightarrow> 'g rb_heap \<Rightarrow> 'g rb_heap" where
  "set_root a v h = h\<lparr>rb_node := (rb_node h)(a := v)\<rparr>"

definition set_augmented :: "addr \<Rightarrow> 'g \<Rightarrow> 'g rb_heap \<Rightarrow> 'g rb_heap" where
  "set_augmented a v h = h\<lparr>augmented := (augmented h)(a := v)\<rparr>"

lemmas rb_setters = set_pc_def set_right_def set_left_def set_root_def set_augmented_def

lemma rb_fields [simp]:
  "rb_parent_color (set_pc a v h) = (rb_parent_color h)(a := v)"
  "rb_right (set_pc a v h) = rb_right h" "rb_left (set_pc a v h) = rb_left h"
  "rb_node (set_pc a v h) = rb_node h" "augmented (set_pc a v h) = augmented h"
  "rb_parent_color (set_right a v h) = rb_parent_color h"
  "rb_right (set_right a v h) = (rb_right h)(a := v)" "rb_left (set_right a v h) = rb_left h"
  "rb_node (set_right a v h) = rb_node h" "augmented (set_right a v h) = augmented h"
  "rb_parent_color (set_left a v h) = rb_parent_color h"
  "rb_right (set_left a v h) = rb_right h" "rb_left (set_left a v h) = (rb_left h)(a := v)"
  "rb_node (set_left a v h) = rb_node h" "augmented (set_left a v h) = augmented h"
  "rb_parent_color (set_root a v h) = rb_parent_color h"
  "rb_right (set_root a v h) = rb_right h" "rb_left (set_root a v h) = rb_left h"
  "rb_node (set_root a v h) = (rb_node h)(a := v)" "augmented (set_root a v h) = augmented h"
  "rb_parent_color (set_augmented a g h) = rb_parent_color h"
  "rb_right (set_augmented a g h) = rb_right h" "rb_left (set_augmented a g h) = rb_left h"
  "rb_node (set_augmented a g h) = rb_node h"
  "augmented (set_augmented a g h) = (augmented h)(a := g)"
  by (simp_all add: rb_setters)

definition RB_RED :: u32 where "RB_RED = 0"
definition RB_BLACK :: u32 where "RB_BLACK = 1"

text \<open>The macros on the word that holds parent and colour, and those on nodes.\<close>

definition pc_parent :: "u32 \<Rightarrow> addr" where
  "pc_parent pc = pc AND NOT 3"

definition pc_color :: "u32 \<Rightarrow> u32" where
  "pc_color pc = pc AND 1"

definition pc_is_black :: "u32 \<Rightarrow> bool" where
  "pc_is_black pc \<longleftrightarrow> pc_color pc \<noteq> 0"

definition pc_is_red :: "u32 \<Rightarrow> bool" where
  "pc_is_red pc \<longleftrightarrow> pc_color pc = 0"

definition rb_parent :: "addr \<Rightarrow> 'g rb_heap \<Rightarrow> addr" where
  "rb_parent r h = rb_parent_color h r AND NOT 3"

definition rb_color :: "addr \<Rightarrow> 'g rb_heap \<Rightarrow> u32" where
  "rb_color rb h = pc_color (rb_parent_color h rb)"

definition rb_is_red :: "addr \<Rightarrow> 'g rb_heap \<Rightarrow> bool" where
  "rb_is_red rb h \<longleftrightarrow> pc_is_red (rb_parent_color h rb)"

definition rb_is_black :: "addr \<Rightarrow> 'g rb_heap \<Rightarrow> bool" where
  "rb_is_black rb h \<longleftrightarrow> pc_is_black (rb_parent_color h rb)"

definition rb_set_parent :: "addr \<Rightarrow> addr \<Rightarrow> 'g rb_heap \<Rightarrow> 'g rb_heap" where
  "rb_set_parent rb p h = set_pc rb (rb_color rb h OR p) h"

definition rb_set_parent_color :: "addr \<Rightarrow> addr \<Rightarrow> u32 \<Rightarrow> 'g rb_heap \<Rightarrow> 'g rb_heap" where
  "rb_set_parent_color rb p color h = set_pc rb (p OR color) h"

definition RB_ROOT :: "addr \<Rightarrow> 'g rb_heap \<Rightarrow> 'g rb_heap" where
  "RB_ROOT root h = set_root root 0 h"

definition rb_entry :: "addr \<Rightarrow> addr \<Rightarrow> addr" where
  "rb_entry ptr off = ptr - off"

definition rb_entry_safe :: "addr \<Rightarrow> addr \<Rightarrow> addr" where
  "rb_entry_safe ptr off = (if ptr \<noteq> 0 then rb_entry ptr off else 0)"

definition RB_EMPTY_ROOT :: "addr \<Rightarrow> 'g rb_heap \<Rightarrow> bool" where
  "RB_EMPTY_ROOT root h \<longleftrightarrow> rb_node h root = 0"

definition RB_EMPTY_NODE :: "addr \<Rightarrow> 'g rb_heap \<Rightarrow> bool" where
  "RB_EMPTY_NODE node h \<longleftrightarrow> rb_parent_color h node = node"

definition RB_CLEAR_NODE :: "addr \<Rightarrow> 'g rb_heap \<Rightarrow> 'g rb_heap" where
  "RB_CLEAR_NODE node h = set_pc node node h"

text \<open>A link is the address of a pointer to a node: a root, or a child field of a node.\<close>

datatype rb_link = RootLink addr | LeftLink addr | RightLink addr

fun set_link :: "rb_link \<Rightarrow> addr \<Rightarrow> 'g rb_heap \<Rightarrow> 'g rb_heap" where
  "set_link (RootLink r) v h = set_root r v h"
| "set_link (LeftLink a) v h = set_left a v h"
| "set_link (RightLink a) v h = set_right a v h"

definition rb_link_node :: "addr \<Rightarrow> addr \<Rightarrow> rb_link \<Rightarrow> 'g rb_heap \<Rightarrow> 'g rb_heap" where
  "rb_link_node node parent rb_link h =
     (let h1 = set_pc node parent h;
          h2 = set_right node 0 h1;
          h3 = set_left node 0 h2
      in set_link rb_link node h3)"

section \<open>The augmentation callbacks\<close>

record 'g rb_augment_callbacks =
  cb_propagate :: "addr \<Rightarrow> addr \<Rightarrow> 'g rb_heap \<Rightarrow> 'g rb_heap option"
  cb_copy :: "addr \<Rightarrow> addr \<Rightarrow> 'g rb_heap \<Rightarrow> 'g rb_heap"
  cb_rotate :: "addr \<Rightarrow> addr \<Rightarrow> 'g rb_heap \<Rightarrow> 'g rb_heap"

text \<open>
  The functions that \<open>RB_DECLARE_CALLBACKS\<close> generates, for a structure whose node lies
  \<open>off\<close> bytes inside and a client function \<open>rbcompute\<close>.  A walk up that never meets
  \<open>stop\<close> has no result.
\<close>

partial_function (option) rb_propagate ::
  "(addr \<Rightarrow> 'g rb_heap \<Rightarrow> 'g) \<Rightarrow> addr \<Rightarrow> addr \<Rightarrow> addr \<Rightarrow> 'g rb_heap \<Rightarrow> 'g rb_heap option"
where
  [code]: "rb_propagate rbcompute off rb stop h =
     (if rb \<noteq> stop
      then let node = rb_entry rb off;
               value = rbcompute node h
           in if augmented h node = value then Some h
              else let h1 = set_augmented node value h
                   in rb_propagate rbcompute off (rb_parent (node + off) h1) stop h1
      else Some h)"

definition rb_copy :: "addr \<Rightarrow> addr \<Rightarrow> addr \<Rightarrow> 'g rb_heap \<Rightarrow> 'g rb_heap" where
  "rb_copy off rb_old rb_new h =
     (let old = rb_entry rb_old off;
          new = rb_entry rb_new off
      in set_augmented new (augmented h old) h)"

definition rb_rotate ::
  "(addr \<Rightarrow> 'g rb_heap \<Rightarrow> 'g) \<Rightarrow> addr \<Rightarrow> addr \<Rightarrow> addr \<Rightarrow> 'g rb_heap \<Rightarrow> 'g rb_heap" where
  "rb_rotate rbcompute off rb_old rb_new h =
     (let old = rb_entry rb_old off;
          new = rb_entry rb_new off;
          h1 = set_augmented new (augmented h old) h
      in set_augmented old (rbcompute old h1) h1)"

definition RB_DECLARE_CALLBACKS ::
  "(addr \<Rightarrow> 'g rb_heap \<Rightarrow> 'g) \<Rightarrow> addr \<Rightarrow> 'g rb_augment_callbacks" where
  "RB_DECLARE_CALLBACKS rbcompute off =
     \<lparr>cb_propagate = rb_propagate rbcompute off, cb_copy = rb_copy off,
      cb_rotate = rb_rotate rbcompute off\<rparr>"

section \<open>Removal\<close>

definition rb_change_child :: "addr \<Rightarrow> addr \<Rightarrow> addr \<Rightarrow> addr \<Rightarrow> 'g rb_heap \<Rightarrow> 'g rb_heap" where
  "rb_change_child old new parent root h =
     (if parent \<noteq> 0
      then if rb_left h parent = old then set_left parent new h else set_right parent new h
      else set_root root new h)"

text \<open>Each case yields \<open>tmp\<close>, where the last propagation starts, and \<open>rebalance\<close>.\<close>

definition erase_no_left :: "addr \<Rightarrow> addr \<Rightarrow> 'g rb_heap \<Rightarrow> addr \<times> addr \<times> 'g rb_heap" where
  "erase_no_left node root h =
     (let child = rb_right h node;
          pc = rb_parent_color h node;
          parent = pc_parent pc;
          h1 = rb_change_child node child parent root h
      in if child \<noteq> 0 then (parent, 0, set_pc child pc h1)
         else (parent, if pc_is_black pc then parent else 0, h1))"

definition erase_no_right :: "addr \<Rightarrow> addr \<Rightarrow> 'g rb_heap \<Rightarrow> addr \<times> addr \<times> 'g rb_heap" where
  "erase_no_right node root h =
     (let tmp = rb_left h node;
          pc = rb_parent_color h node;
          h1 = set_pc tmp pc h;
          parent = pc_parent pc;
          h2 = rb_change_child node tmp parent root h1
      in (parent, 0, h2))"

text \<open>The loop that ends at the leftmost node: \<open>(parent, successor, tmp)\<close>.\<close>

definition descend :: "'g rb_heap \<Rightarrow> addr \<times> addr \<times> addr \<Rightarrow> addr \<times> addr \<times> addr" where
  "descend h = (\<lambda>(parent, successor, tmp). (successor, tmp, rb_left h tmp))"

definition find_successor :: "addr \<Rightarrow> addr \<Rightarrow> 'g rb_heap \<Rightarrow> (addr \<times> addr) option" where
  "find_successor successor tmp h =
     map_option (\<lambda>(parent, successor, tmp). (parent, successor))
       (while_option (\<lambda>(parent, successor, tmp). tmp \<noteq> 0) (descend h)
         (descend h (0, successor, tmp)))"

text \<open>Cases 2 and 3 up to the point where they join: \<open>(parent, successor, child2)\<close>.\<close>

definition detach_successor ::
  "'g rb_augment_callbacks \<Rightarrow> addr \<Rightarrow> 'g rb_heap \<Rightarrow> (addr \<times> addr \<times> addr \<times> 'g rb_heap) option" where
  "detach_successor augment node h =
     (let child = rb_right h node;
          successor = child;
          tmp = rb_left h child
      in if tmp = 0
         then let parent = successor;
                  child2 = rb_right h successor;
                  h1 = cb_copy augment node successor h
              in Some (parent, successor, child2, h1)
         else Option.bind (find_successor successor tmp h) (\<lambda>(parent, successor).
              let child2 = rb_right h successor;
                  h1 = set_left parent child2 h;
                  h2 = set_right successor child h1;
                  h3 = rb_set_parent child successor h2;
                  h4 = cb_copy augment node successor h3
              in Option.bind (cb_propagate augment parent successor h4) (\<lambda>h5.
                 Some (parent, successor, child2, h5))))"

definition replace_by_successor ::
  "addr \<Rightarrow> addr \<Rightarrow> addr \<times> addr \<times> addr \<times> 'g rb_heap \<Rightarrow> addr \<times> addr \<times> 'g rb_heap" where
  "replace_by_successor node root = (\<lambda>(parent, successor, child2, h).
     let tmp = rb_left h node;
         h1 = set_left successor tmp h;
         h2 = rb_set_parent tmp successor h1;
         pc = rb_parent_color h2 node;
         tmp = pc_parent pc;
         h3 = rb_change_child node successor tmp root h2
     in if child2 \<noteq> 0
        then let h4 = set_pc successor pc h3
             in (successor, 0, rb_set_parent_color child2 parent RB_BLACK h4)
        else let pc2 = rb_parent_color h3 successor
             in (successor, if pc_is_black pc2 then parent else 0, set_pc successor pc h3))"

definition erase_unlink ::
  "'g rb_augment_callbacks \<Rightarrow> addr \<Rightarrow> addr \<Rightarrow> 'g rb_heap \<Rightarrow> (addr \<times> addr \<times> 'g rb_heap) option" where
  "erase_unlink augment node root h =
     (let child = rb_right h node;
          tmp = rb_left h node
      in if tmp = 0 then Some (erase_no_left node root h)
         else if child = 0 then Some (erase_no_right node root h)
         else map_option (replace_by_successor node root) (detach_successor augment node h))"

text \<open>\<open>__rb_erase_augmented\<close> returns the node below which a black node is missing.\<close>

definition rb_erase_augmented_raw ::
  "'g rb_augment_callbacks \<Rightarrow> addr \<Rightarrow> addr \<Rightarrow> 'g rb_heap \<Rightarrow> (addr \<times> 'g rb_heap) option" where
  "rb_erase_augmented_raw augment node root h =
     Option.bind (erase_unlink augment node root h) (\<lambda>(tmp, rebalance, h1).
     Option.bind (cb_propagate augment tmp 0 h1) (\<lambda>h2.
     Some (rebalance, h2)))"

type_synonym 'g rotator = "addr \<Rightarrow> addr \<Rightarrow> 'g rb_heap \<Rightarrow> 'g rb_heap"

definition rb_erase_augmented ::
  "(addr \<Rightarrow> addr \<Rightarrow> 'g rotator \<Rightarrow> 'g rb_heap \<Rightarrow> 'g rb_heap option) \<Rightarrow>
   'g rb_augment_callbacks \<Rightarrow> addr \<Rightarrow> addr \<Rightarrow> 'g rb_heap \<Rightarrow> 'g rb_heap option" where
  "rb_erase_augmented erase_color augment node root h =
     Option.bind (rb_erase_augmented_raw augment node root h) (\<lambda>(rebalance, h1).
     if rebalance \<noteq> 0 then erase_color rebalance root (cb_rotate augment) h1 else Some h1)"

definition rb_insert_augmented ::
  "(addr \<Rightarrow> addr \<Rightarrow> 'g rotator \<Rightarrow> 'g rb_heap \<Rightarrow> 'g rb_heap option) \<Rightarrow>
   'g rb_augment_callbacks \<Rightarrow> addr \<Rightarrow> addr \<Rightarrow> 'g rb_heap \<Rightarrow> 'g rb_heap option" where
  "rb_insert_augmented insert_raw augment node root h =
     insert_raw node root (cb_rotate augment) h"

section \<open>Post-order loops\<close>

text \<open>
  \<open>rbtree_postorder_for_each_entry_safe\<close>: the entry after \<open>pos\<close> is found before the body
  runs; \<open>first_postorder\<close> and \<open>next_postorder\<close> are the library's functions.
\<close>

definition rbtree_postorder_for_each_entry_safe ::
  "(addr \<Rightarrow> 'g rb_heap \<Rightarrow> addr) \<Rightarrow> (addr \<Rightarrow> 'g rb_heap \<Rightarrow> addr) \<Rightarrow> addr \<Rightarrow> addr \<Rightarrow>
   (addr \<Rightarrow> 's \<times> 'g rb_heap \<Rightarrow> 's \<times> 'g rb_heap) \<Rightarrow> 's \<times> 'g rb_heap \<Rightarrow> ('s \<times> 'g rb_heap) option" where
  "rbtree_postorder_for_each_entry_safe first_postorder next_postorder root off body st =
     map_option snd (while_option (\<lambda>(pos, st). pos \<noteq> 0)
       (\<lambda>(pos, st).
          let n = rb_entry_safe (next_postorder (pos + off) (snd st)) off;
              st1 = body pos st
          in (n, st1))
       (rb_entry_safe (first_postorder root (snd st)) off, st))"

end
