(* ===== verification/RBShape.thy ===== *)
theory RBShape
  imports RBTree
begin

text \<open>
  The trees that the heap of \<open>RBTree\<close> holds: coloured trees of node addresses, contexts (a
  tree with a hole, as the steps from the hole up to the root), the predicates that read a
  heap as a tree or a context, with their frame rules, and the red-black invariant.
\<close>

section \<open>Trees and contexts\<close>

datatype colour = Red | Black

datatype ctree = Tip | Branch ctree addr colour ctree

datatype step = InLeft addr colour ctree | InRight ctree addr colour

fun in_order :: "ctree \<Rightarrow> addr list" where
  "in_order Tip = []"
| "in_order (Branch l a c r) = in_order l @ a # in_order r"

fun plug1 :: "step \<Rightarrow> ctree \<Rightarrow> ctree" where
  "plug1 (InLeft a c r) t = Branch t a c r"
| "plug1 (InRight l a c) t = Branch l a c t"

definition plug :: "step list \<Rightarrow> ctree \<Rightarrow> ctree" where
  "plug ctx t = fold plug1 ctx t"

lemma plug_simps [simp]:
  "plug [] t = t" "plug (s # ctx) t = plug ctx (plug1 s t)"
  "plug (ctx @ ctx') t = plug ctx' (plug ctx t)"
  by (simp_all add: plug_def)

fun step_node :: "step \<Rightarrow> addr" where
  "step_node (InLeft a c r) = a"
| "step_node (InRight l a c) = a"

text \<open>The parent of the hole; \<open>g\<close> is the parent of the root of the context.\<close>

fun up :: "addr \<Rightarrow> step list \<Rightarrow> addr" where
  "up g [] = g"
| "up g (s # ctx) = step_node s"

fun before :: "step list \<Rightarrow> addr list" where
  "before [] = []"
| "before (InLeft a c r # ctx) = before ctx"
| "before (InRight l a c # ctx) = before ctx @ in_order l @ [a]"

fun after :: "step list \<Rightarrow> addr list" where
  "after [] = []"
| "after (InLeft a c r # ctx) = a # in_order r @ after ctx"
| "after (InRight l a c # ctx) = after ctx"

lemma in_order_plug: "in_order (plug ctx t) = before ctx @ in_order t @ after ctx"
proof (induction ctx arbitrary: t)
  case (Cons s ctx)
  then show ?case by (cases s) auto
qed simp

lemma before_append: "before (ctx @ ctx') = before ctx' @ before ctx"
proof (induction ctx)
  case (Cons s ctx)
  then show ?case by (cases s) auto
qed simp

lemma after_append: "after (ctx @ ctx') = after ctx @ after ctx'"
proof (induction ctx)
  case (Cons s ctx)
  then show ?case by (cases s) auto
qed simp

lemmas in_order_context = in_order_plug before_append after_append

definition nodes :: "ctree \<Rightarrow> addr set" where
  "nodes t = set (in_order t)"

definition ctx_nodes :: "step list \<Rightarrow> addr set" where
  "ctx_nodes ctx = set (before ctx) \<union> set (after ctx)"

lemma nodes_simps [simp]:
  "nodes Tip = {}" "nodes (Branch l a c r) = insert a (nodes l \<union> nodes r)"
  "nodes (plug ctx t) = ctx_nodes ctx \<union> nodes t"
  by (auto simp: nodes_def ctx_nodes_def in_order_plug)

lemma ctx_nodes_simps [simp]:
  "ctx_nodes [] = {}"
  "ctx_nodes (InLeft a c r # ctx) = insert a (nodes r \<union> ctx_nodes ctx)"
  "ctx_nodes (InRight l a c # ctx) = insert a (nodes l \<union> ctx_nodes ctx)"
  "ctx_nodes (ctx @ ctx') = ctx_nodes ctx \<union> ctx_nodes ctx'"
  by (auto simp: nodes_def ctx_nodes_def before_append after_append)

lemma up_append [simp]: "up g (ctx @ ctx') = up (up g ctx') ctx"
  by (cases ctx) auto

lemma up_in_ctx: "ctx \<noteq> [] \<Longrightarrow> up g ctx \<in> ctx_nodes ctx"
  by (cases ctx; cases "hd ctx") auto

text \<open>Every node of a tree is the root of a subtree in a context.\<close>

lemma node_context:
  "a \<in> nodes t \<Longrightarrow> \<exists>ctx l c r. t = plug ctx (Branch l a c r)"
proof (induction t)
  case (Branch l b c r)
  then consider "a = b" | "a \<in> nodes l" | "a \<in> nodes r" by auto
  then show ?case
  proof cases
    case 1
    then have "Branch l b c r = plug [] (Branch l a c r)" by simp
    then show ?thesis by blast
  next
    case 2
    then obtain ctx l' c' r' where "l = plug ctx (Branch l' a c' r')" using Branch by blast
    then have "Branch l b c r = plug (ctx @ [InLeft b c r]) (Branch l' a c' r')" by simp
    then show ?thesis by blast
  next
    case 3
    then obtain ctx l' c' r' where "r = plug ctx (Branch l' a c' r')" using Branch by blast
    then have "Branch l b c r = plug (ctx @ [InRight l b c]) (Branch l' a c' r')" by simp
    then show ?thesis by blast
  qed
qed simp

section \<open>Reading the heap\<close>

fun colour_bit :: "colour \<Rightarrow> u32" where
  "colour_bit Red = RB_RED"
| "colour_bit Black = RB_BLACK"

text \<open>Nodes are aligned, so that the low bits of an address are free.\<close>

definition aligned :: "addr \<Rightarrow> bool" where
  "aligned a \<longleftrightarrow> a AND 3 = 0"

definition node_ok :: "'g rb_heap \<Rightarrow> addr \<Rightarrow> addr \<Rightarrow> colour \<Rightarrow> bool" where
  "node_ok h g a c \<longleftrightarrow> a \<noteq> 0 \<and> aligned a \<and> rb_parent_color h a = g OR colour_bit c"

fun is_tree :: "'g rb_heap \<Rightarrow> addr \<Rightarrow> addr \<Rightarrow> ctree \<Rightarrow> bool" where
  "is_tree h g p Tip \<longleftrightarrow> p = 0"
| "is_tree h g p (Branch l a c r) \<longleftrightarrow>
     p = a \<and> node_ok h g a c \<and> is_tree h a (rb_left h a) l \<and> is_tree h a (rb_right h a) r"

text \<open>\<open>e\<close> is the pointer that leads to the root of the context, \<open>p\<close> the one in the hole.\<close>

fun is_ctx :: "'g rb_heap \<Rightarrow> addr \<Rightarrow> addr \<Rightarrow> step list \<Rightarrow> addr \<Rightarrow> bool" where
  "is_ctx h g e [] p \<longleftrightarrow> p = e"
| "is_ctx h g e (InLeft a c r # ctx) p \<longleftrightarrow>
     rb_left h a = p \<and> node_ok h (up g ctx) a c \<and> is_tree h a (rb_right h a) r \<and> is_ctx h g e ctx a"
| "is_ctx h g e (InRight l a c # ctx) p \<longleftrightarrow>
     rb_right h a = p \<and> node_ok h (up g ctx) a c \<and> is_tree h a (rb_left h a) l \<and> is_ctx h g e ctx a"

definition rb_rep :: "'g rb_heap \<Rightarrow> addr \<Rightarrow> ctree \<Rightarrow> bool" where
  "rb_rep h root t \<longleftrightarrow> is_tree h 0 (rb_node h root) t \<and> distinct (in_order t)"

lemma is_tree_plug:
  "is_tree h g e (plug ctx t) \<longleftrightarrow> (\<exists>p. is_ctx h g e ctx p \<and> is_tree h (up g ctx) p t)"
proof (induction ctx arbitrary: t)
  case (Cons s ctx)
  then show ?case by (cases s) auto
qed auto

text \<open>Two contexts one inside the other.\<close>

lemma is_ctx_append:
  "is_ctx h g e (ctx @ ctx') p \<longleftrightarrow> (\<exists>q. is_ctx h g e ctx' q \<and> is_ctx h (up g ctx') q ctx p)"
proof (induction ctx arbitrary: p)
  case (Cons s ctx)
  then show ?case by (cases s) auto
qed auto

section \<open>Colours in a word\<close>

text \<open>The colour bits of a word are its bits 0 and 1.\<close>

lemma colour_bits:
  fixes x :: u32
  shows "bit (x AND 3) n \<longleftrightarrow> bit x n \<and> n < 2" "bit (x AND NOT 3) n \<longleftrightarrow> bit x n \<and> \<not> n < 2"
proof -
  have three: "(3 :: u32) = mask 2" by (simp add: mask_eq_exp_minus_1)
  show "bit (x AND 3) n \<longleftrightarrow> bit x n \<and> n < 2" "bit (x AND NOT 3) n \<longleftrightarrow> bit x n \<and> \<not> n < 2"
    unfolding three by (auto simp: word_bits dest: bit_imp_le_length)
qed

lemma aligned_bits: "aligned a \<longleftrightarrow> (\<forall>n < 2. \<not> bit a n)"
proof -
  have "aligned a \<longleftrightarrow> (\<forall>n. bit (a AND 3) n = bit (0 :: u32) n)"
    unfolding aligned_def by (metis bit_eqI)
  then show ?thesis by (simp only: colour_bits bit_0_eq) auto
qed

lemma bit_colour [simp]: "bit (colour_bit c) n \<longleftrightarrow> c = Black \<and> n = 0"
  by (cases c) (auto simp: RB_RED_def RB_BLACK_def bit_1_iff)

lemma pc_parent_or [simp]: "aligned g \<Longrightarrow> pc_parent (g OR colour_bit c) = g"
  unfolding pc_parent_def bit_eq_iff colour_bits by (auto simp: aligned_bits bit_or_iff)

lemma pc_color_bit: "bit (pc_color x) n \<longleftrightarrow> bit x n \<and> n = 0"
  by (auto simp: pc_color_def bit_and_iff bit_1_iff)

lemma pc_color_or [simp]: "aligned g \<Longrightarrow> pc_color (g OR colour_bit c) = colour_bit c"
  by (intro word_eq_by_bits) (auto simp: pc_color_bit aligned_bits bit_or_iff)

lemma pc_is_black_or [simp]: "aligned g \<Longrightarrow> pc_is_black (g OR colour_bit c) \<longleftrightarrow> c = Black"
  unfolding pc_is_black_def by (simp only: pc_color_or) (cases c; simp add: RB_RED_def RB_BLACK_def)

lemma aligned_0 [simp]: "aligned 0"
  by (simp add: aligned_def)

lemma up_aligned: "is_ctx h g e ctx p \<Longrightarrow> aligned g \<Longrightarrow> aligned (up g ctx)"
  by (cases ctx; cases "hd ctx") (auto simp: node_ok_def)

lemma up_nonzero: "is_ctx h g e ctx p \<Longrightarrow> ctx \<noteq> [] \<Longrightarrow> up g ctx \<noteq> 0"
  by (cases ctx; cases "hd ctx") (auto simp: node_ok_def)

lemma up_zero_iff: "is_ctx h 0 e ctx p \<Longrightarrow> up 0 ctx = 0 \<longleftrightarrow> ctx = []"
  using up_nonzero by fastforce

section \<open>Frames\<close>

definition agree :: "addr set \<Rightarrow> 'g rb_heap \<Rightarrow> 'g rb_heap \<Rightarrow> bool" where
  "agree S h h' \<longleftrightarrow> (\<forall>a \<in> S. rb_parent_color h' a = rb_parent_color h a \<and>
     rb_left h' a = rb_left h a \<and> rb_right h' a = rb_right h a)"

lemma agree_mono: "agree S h h' \<Longrightarrow> T \<subseteq> S \<Longrightarrow> agree T h h'"
  by (auto simp: agree_def)

lemma agreeD:
  "agree S h h' \<Longrightarrow> a \<in> S \<Longrightarrow> rb_parent_color h' a = rb_parent_color h a"
  "agree S h h' \<Longrightarrow> a \<in> S \<Longrightarrow> rb_left h' a = rb_left h a"
  "agree S h h' \<Longrightarrow> a \<in> S \<Longrightarrow> rb_right h' a = rb_right h a"
  by (auto simp: agree_def)

lemma is_tree_frame: "agree (nodes t) h h' \<Longrightarrow> is_tree h' g p t = is_tree h g p t"
proof (induction t arbitrary: g p)
  case (Branch l a c r)
  have "agree (nodes l) h h'" "agree (nodes r) h h'"
    using Branch.prems by (auto elim: agree_mono)
  with Branch show ?case by (simp add: node_ok_def agreeD)
qed simp

lemma is_ctx_frame: "agree (ctx_nodes ctx) h h' \<Longrightarrow> is_ctx h' g e ctx p = is_ctx h g e ctx p"
proof (induction ctx arbitrary: p)
  case (Cons s ctx)
  show ?case
  proof (cases s)
    case (InLeft a c r)
    have "agree (ctx_nodes ctx) h h'" "agree (nodes r) h h'"
      using Cons.prems InLeft by (auto elim: agree_mono)
    then show ?thesis
      using Cons InLeft by (simp add: node_ok_def agreeD is_tree_frame)
  next
    case (InRight l a c)
    have "agree (ctx_nodes ctx) h h'" "agree (nodes l) h h'"
      using Cons.prems InRight by (auto elim: agree_mono)
    then show ?thesis
      using Cons InRight by (simp add: node_ok_def agreeD is_tree_frame)
  qed
qed simp

lemma agree_set [simp]:
  "a \<notin> S \<Longrightarrow> agree S h (set_pc a v h')  = agree S h h'"
  "a \<notin> S \<Longrightarrow> agree S h (set_left a v h') = agree S h h'"
  "a \<notin> S \<Longrightarrow> agree S h (set_right a v h') = agree S h h'"
  "agree S h (set_root a v h') = agree S h h'"
  "agree S h (set_augmented a g h') = agree S h h'"
  by (auto simp: agree_def)

lemma agree_refl [simp]: "agree S h h"
  by (simp add: agree_def)

text \<open>What the callbacks must leave alone.\<close>

definition links_of :: "'g rb_heap \<Rightarrow> (addr \<Rightarrow> u32) \<times> (addr \<Rightarrow> addr) \<times> (addr \<Rightarrow> addr) \<times> (addr \<Rightarrow> addr)" where
  "links_of h = (rb_parent_color h, rb_left h, rb_right h, rb_node h)"

lemma links_ofD:
  assumes "links_of h' = links_of h"
  shows "rb_parent_color h' = rb_parent_color h" "rb_left h' = rb_left h"
    "rb_right h' = rb_right h" "rb_node h' = rb_node h" "agree S h h'"
  using assms by (auto simp: links_of_def agree_def)

lemma links_of_augmented [simp]: "links_of (set_augmented a v h) = links_of h"
  by (simp add: links_of_def)

lemma rb_rep_links:
  fixes h h' :: "'g rb_heap"
  shows "links_of h' = links_of h \<Longrightarrow> rb_rep h' root t = rb_rep h root t"
  using is_tree_frame [of t h h'] links_ofD [of h' h] by (simp only: rb_rep_def agree_def) simp

section \<open>The red-black invariant\<close>

fun tree_colour :: "ctree \<Rightarrow> colour" where
  "tree_colour Tip = Black"
| "tree_colour (Branch l a c r) = c"

fun weight :: "colour \<Rightarrow> nat" where
  "weight Red = 0"
| "weight Black = 1"

fun black_height :: "ctree \<Rightarrow> nat" where
  "black_height Tip = 0"
| "black_height (Branch l a c r) = black_height l + weight c"

fun balanced :: "ctree \<Rightarrow> bool" where
  "balanced Tip \<longleftrightarrow> True"
| "balanced (Branch l a c r) \<longleftrightarrow> black_height l = black_height r \<and> balanced l \<and> balanced r"

fun no_red_red :: "ctree \<Rightarrow> bool" where
  "no_red_red Tip \<longleftrightarrow> True"
| "no_red_red (Branch l a c r) \<longleftrightarrow>
     (c = Red \<longrightarrow> tree_colour l = Black \<and> tree_colour r = Black) \<and> no_red_red l \<and> no_red_red r"

definition red_black :: "ctree \<Rightarrow> bool" where
  "red_black t \<longleftrightarrow> balanced t \<and> no_red_red t \<and> tree_colour t = Black"

fun repaint :: "colour \<Rightarrow> ctree \<Rightarrow> ctree" where
  "repaint c Tip = Tip"
| "repaint c (Branch l a c' r) = Branch l a c r"

lemma repaint_simps [simp]:
  "in_order (repaint c t) = in_order t" "nodes (repaint c t) = nodes t"
  "repaint c t = Tip \<longleftrightarrow> t = Tip"
  by (cases t; simp add: nodes_def)+

text \<open>A subtree may be exchanged for one of the same black height that is no redder.\<close>

lemma exchange_step:
  assumes "black_height t' = black_height t" "balanced t'" "no_red_red t'"
    "tree_colour t' = Red \<longrightarrow> tree_colour t = Red" "balanced (plug1 s t)" "no_red_red (plug1 s t)"
  shows "black_height (plug1 s t') = black_height (plug1 s t)" "balanced (plug1 s t')"
    "no_red_red (plug1 s t')" "tree_colour (plug1 s t') = tree_colour (plug1 s t)"
  using assms by (cases s; cases "tree_colour t'"; cases "tree_colour t"; simp)+

lemma subtree_rb:
  "balanced (plug ctx t) \<and> no_red_red (plug ctx t) \<Longrightarrow> balanced t \<and> no_red_red t"
proof (induction ctx arbitrary: t)
  case (Cons s ctx)
  have "balanced (plug1 s t) \<and> no_red_red (plug1 s t)"
    by (rule Cons.IH) (use Cons.prems in simp)
  then show ?case by (cases s) auto
qed simp

lemma exchange_subtree:
  assumes "balanced (plug ctx t)" "no_red_red (plug ctx t)"
    "black_height t' = black_height t" "balanced t'" "no_red_red t'"
    "tree_colour t' = Red \<longrightarrow> tree_colour t = Red"
  shows "balanced (plug ctx t') \<and> no_red_red (plug ctx t') \<and>
      (tree_colour (plug ctx t') = Red \<longrightarrow> tree_colour (plug ctx t) = Red)"
  using assms
proof (induction ctx arbitrary: t t')
  case (Cons s ctx)
  have "balanced (plug1 s t)" "no_red_red (plug1 s t)"
    using Cons.prems(1,2) subtree_rb [of ctx "plug1 s t"] by simp_all
  note step = exchange_step [OF Cons.prems(3-6) this]
  show ?case
    using Cons.IH [of "plug1 s t" "plug1 s t'"] Cons.prems(1,2) step by simp
qed simp

end
