(* ===== verification/RBErase.thy ===== *)
theory RBErase
  imports RBShape
begin

text \<open>
  Removal from a red-black tree does to the heap what \<open>erase_focus\<close> does to the abstract
  tree: the successor takes the place and the colour of the node, and its own right child,
  painted black, takes its old place.  The node whose child is one black node short is
  the result.  All this holds for every set of callbacks that leaves the links alone and
  whose propagation ends on a finite chain of parents.
\<close>

section \<open>The abstract removal\<close>

fun left_spine :: "step list \<Rightarrow> ctree \<Rightarrow> step list \<times> ctree" where
  "left_spine ctx (Branch (Branch ll b d lr) a c r) =
     left_spine (InLeft a c r # ctx) (Branch ll b d lr)"
| "left_spine ctx t = (ctx, t)"

text \<open>The context of the place that is left, the tree put there, and the colour that went.\<close>

definition erase_focus ::
  "step list \<Rightarrow> ctree \<Rightarrow> colour \<Rightarrow> ctree \<Rightarrow> step list \<times> ctree \<times> colour" where
  "erase_focus ctx l c r =
     (if l = Tip then (ctx, repaint c r, c)
      else if r = Tip then (ctx, repaint c l, c)
      else case left_spine [] r of
          (sctx, Branch t s d u) \<Rightarrow> (sctx @ InRight l s c # ctx, repaint Black u, d)
        | (sctx, Tip) \<Rightarrow> (ctx, Tip, c))"

text \<open>What \<open>rebalance\<close> must be: null, or the parent of the place that lacks a black node.\<close>

fun erase_tree :: "step list \<times> ctree \<times> colour \<Rightarrow> ctree" where
  "erase_tree (ctx, t, d) = plug ctx t"

fun erase_deficit :: "step list \<times> ctree \<times> colour \<Rightarrow> addr" where
  "erase_deficit (ctx, t, d) = (if t = Tip \<and> d = Black then up 0 ctx else 0)"

lemma left_spine_cases:
  "t \<noteq> Tip \<Longrightarrow> \<exists>ctx' s d u. left_spine ctx t = (ctx' @ ctx, Branch Tip s d u) \<and>
     t = plug ctx' (Branch Tip s d u) \<and> before ctx' = [] \<and> (\<forall>st \<in> set ctx'. \<exists>a c r. st = InLeft a c r)"
proof (induction ctx t rule: left_spine.induct)
  case (1 ctx ll b d lr a c r)
  then obtain ctx' s e u where spine:
    "left_spine (InLeft a c r # ctx) (Branch ll b d lr) = (ctx' @ InLeft a c r # ctx, Branch Tip s e u)"
    and "Branch ll b d lr = plug ctx' (Branch Tip s e u)" "before ctx' = []"
    "\<forall>st \<in> set ctx'. \<exists>a c r. st = InLeft a c r" by auto
  then have "Branch (Branch ll b d lr) a c r = plug (ctx' @ [InLeft a c r]) (Branch Tip s e u) \<and>
    before (ctx' @ [InLeft a c r]) = [] \<and> (\<forall>st \<in> set (ctx' @ [InLeft a c r]). \<exists>a c r. st = InLeft a c r)"
    by (auto simp: before_append)
  moreover have "left_spine ctx (Branch (Branch ll b d lr) a c r) =
      ((ctx' @ [InLeft a c r]) @ ctx, Branch Tip s e u)"
    by (simp only: left_spine.simps spine) simp
  ultimately show ?case by blast
qed (auto intro: exI [of _ "[]"])

text \<open>The two ways a removal goes.\<close>

lemma erase_focus_cases:
  obtains (no_left) "l = Tip" "erase_focus ctx l c r = (ctx, repaint c r, c)"
  | (no_right) "l \<noteq> Tip" "r = Tip" "erase_focus ctx l c r = (ctx, repaint c l, c)"
  | (two) sctx s d u where "l \<noteq> Tip" "r = plug sctx (Branch Tip s d u)" "before sctx = []"
      "left_spine [] r = (sctx, Branch Tip s d u)" "\<forall>st \<in> set sctx. \<exists>a c r. st = InLeft a c r"
      "erase_focus ctx l c r = (sctx @ InRight l s c # ctx, repaint Black u, d)"
proof (cases "l = Tip \<or> r = Tip")
  case True
  then show ?thesis using no_left no_right by (auto simp: erase_focus_def)
next
  case False
  then obtain sctx s d u where "left_spine [] r = (sctx, Branch Tip s d u)"
    "r = plug sctx (Branch Tip s d u)" "before sctx = []" "\<forall>st \<in> set sctx. \<exists>a c r. st = InLeft a c r"
    using left_spine_cases [of r "[]"] by auto
  then show ?thesis using False two [of sctx s d u] by (simp add: erase_focus_def)
qed

lemma in_order_erase:
  "in_order (erase_tree (erase_focus ctx l c r)) = before ctx @ in_order l @ in_order r @ after ctx"
  by (cases rule: erase_focus_cases [of l ctx c r]) (auto simp: in_order_context)

section \<open>Colours and black heights\<close>

text \<open>A subtree without black nodes is empty or one red node.\<close>

lemma no_black_nodes:
  "black_height t = 0 \<Longrightarrow> balanced t \<Longrightarrow> no_red_red t \<Longrightarrow> t = Tip \<or> (\<exists>y. t = Branch Tip y Red Tip)"
proof (cases t)
  case (Branch l y c r)
  assume t: "black_height t = 0" "balanced t" "no_red_red t"
  have "c = Red" using t(1) Branch by (cases c) auto
  moreover have "l = Tip"
    using t Branch \<open>c = Red\<close> by (cases l; cases "tree_colour l") auto
  moreover have "r = Tip"
    using t Branch \<open>c = Red\<close> by (cases r; cases "tree_colour r") auto
  ultimately show ?thesis using Branch by simp
qed simp

definition one_child :: "ctree \<Rightarrow> colour \<Rightarrow> ctree \<Rightarrow> bool" where
  "one_child b d u \<longleftrightarrow> (\<exists>a. b = Branch Tip a d u \<or> b = Branch u a d Tip)"

lemma one_child_child:
  assumes "one_child b d u" "balanced b" "no_red_red b"
  shows "u = Tip \<or> d = Black \<and> (\<exists>y. u = Branch Tip y Red Tip)"
proof -
  have "black_height u = 0" "balanced u" "no_red_red u"
    using assms by (auto simp: one_child_def)
  from no_black_nodes [OF this] show ?thesis
    using assms by (cases d) (auto simp: one_child_def)
qed

text \<open>
  A node with one child at most is taken out: either the tree is red-black again, or it
  becomes so when one black node is put into the empty place.
\<close>

lemma take_out_red_black:
  assumes b: "one_child b d u" and rb: "red_black (plug ctx b)"
  shows "if u = Tip \<and> d = Black then red_black (plug ctx (Branch Tip x Black Tip))
    else red_black (plug ctx (repaint Black u))"
proof -
  have b_ok: "balanced b" "no_red_red b"
    using rb subtree_rb [of ctx b] by (simp_all add: red_black_def)
  note child = one_child_child [OF b b_ok]
  have swap: "red_black (plug ctx t)"
    if "black_height t = black_height b" "balanced t" "no_red_red t" "tree_colour t = Black" for t
    using exchange_subtree [of ctx b t] rb that by (cases "tree_colour (plug ctx t)") (auto simp: red_black_def)
  show ?thesis
  proof (cases "u = Tip \<and> d = Black")
    case True
    then show ?thesis using b by (auto simp: one_child_def intro!: swap)
  next
    case False
    then have "red_black (plug ctx (repaint Black u))"
      using child b by (cases d) (auto simp: one_child_def intro!: swap)
    with False show ?thesis by auto
  qed
qed

lemma red_black_rename:
  assumes "red_black (plug ctx (Branch l a c r))"
  shows "red_black (plug ctx (Branch l b c r))"
proof -
  have ok: "balanced (plug ctx (Branch l a c r))" "no_red_red (plug ctx (Branch l a c r))"
    using assms by (simp_all add: red_black_def)
  then have "balanced (Branch l a c r)" "no_red_red (Branch l a c r)"
    using subtree_rb [of ctx "Branch l a c r"] by simp_all
  then show ?thesis
    using exchange_subtree [OF ok, of "Branch l b c r"] assms
    by (cases "tree_colour (plug ctx (Branch l b c r))") (auto simp: red_black_def)
qed

lemma erase_focus_red_black:
  assumes "red_black (plug ctx (Branch l a c r))" "erase_focus ctx l c r = (K, t, d)"
  shows "if t = Tip \<and> d = Black then red_black (plug K (Branch Tip x Black Tip))
    else red_black (plug K t)"
proof (cases rule: erase_focus_cases [of l ctx c r])
  case no_left
  have one: "one_child (Branch l a c r) c r" using no_left by (auto simp: one_child_def)
  have "balanced (Branch l a c r)" "no_red_red (Branch l a c r)"
    using assms(1) subtree_rb [of ctx "Branch l a c r"] by (simp_all add: red_black_def)
  from one_child_child [OF one this] take_out_red_black [OF one assms(1), of x] show ?thesis
    using assms(2) no_left by auto
next
  case no_right
  have one: "one_child (Branch l a c r) c l" using no_right by (auto simp: one_child_def)
  have "balanced (Branch l a c r)" "no_red_red (Branch l a c r)"
    using assms(1) subtree_rb [of ctx "Branch l a c r"] by (simp_all add: red_black_def)
  from one_child_child [OF one this] take_out_red_black [OF one assms(1), of x] show ?thesis
    using assms(2) no_right by auto
next
  case (two sctx s e u)
  have one: "one_child (Branch Tip s e u) e u" by (auto simp: one_child_def)
  have "red_black (plug (sctx @ InRight l s c # ctx) (Branch Tip s e u))"
    using red_black_rename [OF assms(1), of s] two(2) by simp
  from take_out_red_black [OF one this, of x] show ?thesis
    using assms(2) two(6) by (auto simp del: plug_simps)
qed

section \<open>Rules for single updates\<close>

lemma tree_root: "is_tree h g p t \<Longrightarrow> t \<noteq> Tip \<Longrightarrow> p \<in> nodes t \<and> p \<noteq> 0"
  by (cases t) (auto simp: node_ok_def)

lemma tree_null: "is_tree h g p t \<Longrightarrow> p = 0 \<longleftrightarrow> t = Tip"
  by (cases t) (auto simp: node_ok_def)

lemma tree_update:
  assumes "is_tree h g p t"
  shows "a \<notin> nodes t \<Longrightarrow> is_tree (set_pc a v h) g p t"
    "a \<notin> nodes t \<Longrightarrow> is_tree (set_left a w h) g p t"
    "a \<notin> nodes t \<Longrightarrow> is_tree (set_right a w h) g p t"
    "is_tree (set_root a w h) g p t" "is_tree (set_augmented a z h) g p t"
  using assms by (simp_all add: iffD2 [OF is_tree_frame [of t h]])

lemma ctx_update:
  assumes "is_ctx h g e ctx p"
  shows "a \<notin> ctx_nodes ctx \<Longrightarrow> is_ctx (set_pc a v h) g e ctx p"
    "a \<notin> ctx_nodes ctx \<Longrightarrow> is_ctx (set_left a w h) g e ctx p"
    "a \<notin> ctx_nodes ctx \<Longrightarrow> is_ctx (set_right a w h) g e ctx p"
    "is_ctx (set_root a w h) g e ctx p" "is_ctx (set_augmented a z h) g e ctx p"
  using assms by (simp_all add: iffD2 [OF is_ctx_frame [of ctx h]])

text \<open>A tree gets a new parent, or a new parent and colour.\<close>

lemma repaint_tree:
  assumes "is_tree h g p t" "t \<noteq> Tip" "distinct (in_order t)"
  shows "is_tree (set_pc p (g' OR colour_bit c) h) g' p (repaint c t)"
proof -
  obtain l c' r where t: "t = Branch l p c' r" using assms by (cases t) auto
  then have "p \<notin> nodes l" "p \<notin> nodes r" using assms(3) by (auto simp: nodes_def)
  with assms(1) t show ?thesis by (simp add: node_ok_def tree_update)
qed

lemma reparent_tree:
  assumes "is_tree h g p t" "t \<noteq> Tip" "distinct (in_order t)" "aligned g"
  shows "is_tree (rb_set_parent p g' h) g' p t"
proof -
  obtain l c r where t: "t = Branch l p c r" using assms by (cases t) auto
  then have "rb_color p h = colour_bit c" using assms by (simp add: rb_color_def node_ok_def)
  with repaint_tree [OF assms(1-3), of g' c] t show ?thesis
    by (simp add: rb_set_parent_def or.commute)
qed

text \<open>The hole of a context is filled with another pointer.\<close>

lemma change_child_ctx:
  assumes ctx: "is_ctx h 0 (rb_node h root) ctx old" "old \<noteq> 0" "old \<notin> ctx_nodes ctx"
    and dist: "distinct (before ctx @ after ctx)"
  shows "is_ctx (rb_change_child old new (up 0 ctx) root h) 0
      (rb_node (rb_change_child old new (up 0 ctx) root h) root) ctx new"
proof (cases ctx)
  case Nil
  then show ?thesis by (simp add: rb_change_child_def)
next
  case (Cons s ctx')
  show ?thesis
  proof (cases s)
    case (InLeft a c r)
    have "a \<notin> nodes r" "a \<notin> ctx_nodes ctx'"
      using dist Cons InLeft by (auto simp: nodes_def ctx_nodes_def)
    with ctx show ?thesis
      by (simp add: Cons InLeft rb_change_child_def node_ok_def tree_update ctx_update)
  next
    case (InRight l a c)
    have "a \<notin> nodes l" "a \<notin> ctx_nodes ctx'"
      using dist Cons InRight by (auto simp: nodes_def ctx_nodes_def)
    moreover have "rb_left h a \<noteq> old"
      using ctx tree_root [of h a "rb_left h a" l] Cons InRight by (cases l) auto
    ultimately show ?thesis
      using ctx by (simp add: Cons InRight rb_change_child_def node_ok_def tree_update ctx_update)
  qed
qed

lemma fill_left_ctx:
  assumes "is_ctx h g e (InLeft a c r # ctx) p" "distinct (before ctx @ a # in_order r @ after ctx)"
  shows "is_ctx (set_left a q h) g e (InLeft a c r # ctx) q"
  using assms by (auto simp: node_ok_def nodes_def ctx_nodes_def tree_update ctx_update)

lemma change_child_agree:
  "up 0 ctx \<notin> S \<Longrightarrow> agree S h (rb_change_child old new (up 0 ctx) root h)"
  by (simp add: rb_change_child_def)

lemma change_child_fields [simp]:
  "rb_parent_color (rb_change_child old new parent root h) = rb_parent_color h"
  "augmented (rb_change_child old new parent root h) = augmented h"
  by (simp_all add: rb_change_child_def)

section \<open>The search for the successor\<close>

lemma descend_spine:
  assumes "is_tree h (up g ctx) p t" "t \<noteq> Tip" "left_spine ctx t = (ctx', Branch Tip s d u)"
  shows "while_option (\<lambda>(parent, successor, tmp). tmp \<noteq> 0) (descend h) (up g ctx, p, rb_left h p)
    = Some (up g ctx', s, 0)"
  using assms
proof (induction ctx t arbitrary: p rule: left_spine.induct)
  case (1 ctx ll b e lr a c r)
  then have l: "is_tree h a b (Branch ll b e lr)" "p = a" "rb_left h a = b" "b \<noteq> 0"
    by (auto simp: node_ok_def)
  have "while_option (\<lambda>(parent, successor, tmp). tmp \<noteq> 0) (descend h)
      (up g (InLeft a c r # ctx), b, rb_left h b) = Some (up g ctx', s, 0)"
    using l 1 by (intro 1) simp_all
  then show ?case
    using l by (subst while_option_unfold) (simp add: descend_def)
qed (auto simp: while_option_unfold)

lemma find_successor_spine:
  assumes "is_tree h a child r" "rb_left h child \<noteq> 0"
    "left_spine [] r = (sctx, Branch Tip s d u)"
  shows "find_successor child (rb_left h child) h = Some (up a sctx, s)"
proof -
  obtain l c w where r: "r = Branch l child c w" using assms(1,2) assms(3) by (cases r) auto
  with assms have l: "is_tree h child (rb_left h child) l" "l \<noteq> Tip"
    using tree_null [of h child "rb_left h child" l] by auto
  then have "left_spine [InLeft child c w] l = (sctx, Branch Tip s d u)"
    using assms(3) r by (cases l) auto
  from descend_spine [OF _ _ this, of h a "rb_left h child"] l
  show ?thesis by (simp add: find_successor_def descend_def)
qed

section \<open>Taking the successor out\<close>

inductive ancestor :: "'g rb_heap \<Rightarrow> addr \<Rightarrow> addr \<Rightarrow> bool" for h where
  here: "ancestor h a a"
| above: "ancestor h (rb_parent a h) b \<Longrightarrow> ancestor h a b"

text \<open>The contract of the callbacks, which the generated ones meet.\<close>

locale augment_laws =
  fixes cb :: "'g rb_augment_callbacks"
  assumes copy_links: "links_of (cb_copy cb old new h) = links_of h"
    and propagate_ends:
      "ancestor h rb stop \<Longrightarrow> \<exists>h'. cb_propagate cb rb stop h = Some h' \<and> links_of h' = links_of h"

lemma rb_parent_pc: "rb_parent a h = pc_parent (rb_parent_color h a)"
  by (simp add: rb_parent_def pc_parent_def)

lemma ctx_ancestor: "is_ctx h g e ctx p \<Longrightarrow> aligned g \<Longrightarrow> ancestor h (up g ctx) g"
proof (induction ctx arbitrary: p)
  case (Cons st ctx)
  then obtain a c where a: "up g (st # ctx) = a" "node_ok h (up g ctx) a c" "is_ctx h g e ctx a"
    by (cases st) auto
  then have "rb_parent a h = up g ctx"
    using up_aligned [OF a(3) Cons.prems(2)] by (simp add: rb_parent_pc node_ok_def)
  with Cons a show ?case by (auto intro: ancestor.above)
qed (auto intro: ancestor.here)

lemma ancestor_links:
  fixes h h' :: "'g rb_heap"
  shows "ancestor h a b \<Longrightarrow> links_of h' = links_of h \<Longrightarrow> ancestor h' a b"
proof (induction rule: ancestor.induct)
  case (above a b)
  then have "rb_parent a h' = rb_parent a h" using links_ofD(1) [of h' h] by (simp add: rb_parent_def)
  with above show ?case by (auto intro: ancestor.above)
qed (auto intro: ancestor.here)

text \<open>
  The right subtree \<open>r\<close> of the node without its least node \<open>s\<close>, hanging below \<open>s\<close>; the
  subtree \<open>u\<close> in the place of \<open>s\<close> still names its old parent.
\<close>

definition detached ::
  "'g rb_heap \<Rightarrow> ctree \<Rightarrow> step list \<Rightarrow> addr \<Rightarrow> ctree \<Rightarrow> addr \<Rightarrow> 'g rb_heap \<Rightarrow> bool" where
  "detached h r sctx s u q h' \<longleftrightarrow>
     is_ctx h' s (rb_right h' s) sctx q \<and> is_tree h' s q u \<and>
     rb_parent_color h' s = rb_parent_color h s \<and> rb_node h' = rb_node h \<and> agree (- nodes r) h h'"

lemma same_links:
  fixes h h' h0 :: "'g rb_heap"
  assumes "links_of h' = links_of h"
  shows "is_tree h' g p t = is_tree h g p t" "is_ctx h' g e ctx p = is_ctx h g e ctx p"
    "agree S h0 h' = agree S h0 h"
  using is_tree_frame [of t h h'] is_ctx_frame [of ctx h h'] links_ofD [OF assms]
  by (simp_all add: agree_def)

lemma detached_links:
  fixes h h' h'' :: "'g rb_heap"
  assumes "links_of h'' = links_of h'"
  shows "detached h r sctx s u q h'' = detached h r sctx s u q h'"
  using same_links [OF assms] links_ofD [OF assms] unfolding detached_def by simp

lemma tree_aligned: "is_tree h g p t \<Longrightarrow> a \<in> nodes t \<Longrightarrow> a \<noteq> 0 \<and> aligned a"
  by (induction t arbitrary: g p) (auto simp: node_ok_def)

lemma entry_in_ctx: "is_ctx h g e ctx p \<Longrightarrow> ctx \<noteq> [] \<Longrightarrow> e \<in> ctx_nodes ctx"
proof (induction ctx arbitrary: p)
  case (Cons s ctx)
  then show ?case by (cases s; cases "ctx = []") auto
qed simp

lemma frame:
  fixes h h' :: "'g rb_heap"
  shows "agree (nodes t) h h' \<Longrightarrow> is_tree h g p t \<Longrightarrow> is_tree h' g p t"
    "agree (ctx_nodes ctx) h h' \<Longrightarrow> is_ctx h g e ctx p \<Longrightarrow> is_ctx h' g e ctx p"
  using is_tree_frame [of t h h'] is_ctx_frame [of ctx h h'] by simp_all

lemma detach_leftmost:
  assumes tree: "is_tree h a child r" "aligned a" "distinct (in_order r)"
    and r: "r = plug sctx (Branch Tip s d u)" "sctx \<noteq> []" "before sctx = []"
    and steps: "\<forall>st \<in> set sctx. \<exists>a c r. st = InLeft a c r"
  shows "detached h r sctx s u (rb_right h s)
    (rb_set_parent child s (set_right s child (set_left (up a sctx) (rb_right h s) h)))"
    (is "detached _ _ _ _ _ ?q ?h3")
proof -
  obtain b c w sctx' where sctx: "sctx = InLeft b c w # sctx'" using r(2) steps by (cases sctx) auto
  have "s \<in> nodes r" by (simp add: r(1))
  then have nT: "r \<noteq> Tip" by auto
  define hp where "hp = rb_set_parent child s h"
  have "is_tree hp s child r"
    unfolding hp_def by (rule reparent_tree [OF tree(1) nT tree(3,2)])
  then have ctx: "is_ctx hp s child sctx s" "is_tree hp s (rb_right hp s) u"
    unfolding r(1) is_tree_plug by auto
  have dist: "distinct (s # in_order u @ after sctx)" using tree(3) r by (simp add: in_order_plug)
  have sets: "s \<notin> ctx_nodes sctx" "s \<notin> nodes u" "b \<notin> nodes u" "b \<noteq> s"
    using dist r(3) by (auto simp: ctx_nodes_def nodes_def sctx)
  have h3: "?h3 = set_left b ?q (set_right s child hp)"
    by (simp add: hp_def rb_set_parent_def rb_color_def rb_setters sctx)
  have q: "rb_right hp s = ?q" by (simp add: hp_def rb_set_parent_def)
  have "is_ctx ?h3 s child sctx ?q"
    using ctx sets dist r(3) unfolding h3 unfolding sctx
    by (intro fill_left_ctx [where p = s] ctx_update) auto
  moreover have "is_tree ?h3 s ?q u"
    using ctx(2) sets unfolding h3 q by (intro tree_update) auto
  moreover have child: "child \<in> ctx_nodes sctx" using entry_in_ctx [OF ctx(1) r(2)] .
  then have "rb_parent_color ?h3 s = rb_parent_color h s"
    using sets by (auto simp: rb_set_parent_def)
  moreover have "child \<in> nodes r" "b \<in> nodes r" using child by (auto simp: r(1) sctx)
  then have "agree (- nodes r) h ?h3"
    using \<open>s \<in> nodes r\<close> by (simp add: sctx rb_set_parent_def)
  ultimately show ?thesis by (simp add: detached_def rb_set_parent_def)
qed

section \<open>The successor takes the node's place\<close>

lemma change_child_frame:
  "ctx_nodes ctx \<inter> S = {} \<Longrightarrow> agree S h (rb_change_child old new (up 0 ctx) root h)"
proof (cases "ctx = []")
  case False
  moreover assume "ctx_nodes ctx \<inter> S = {}"
  ultimately have "up 0 ctx \<notin> S" using up_in_ctx [of ctx 0] by blast
  then show ?thesis by (simp add: rb_change_child_def)
qed (simp add: rb_change_child_def)

lemma agree_trans: "agree S h h' \<Longrightarrow> agree S h' h'' \<Longrightarrow> agree S h h''"
  by (simp add: agree_def)

lemma replace_links:
  assumes node: "is_ctx h 0 (rb_node h root) ctx a" "is_tree h (up 0 ctx) a (Branch l a c r)" "l \<noteq> Tip"
    and dist: "distinct (before ctx @ in_order l @ a # in_order r @ after ctx)"
    and det: "detached h r sctx s u q h5" and s: "s \<in> nodes r" "s \<notin> ctx_nodes sctx" "s \<notin> nodes u"
    and sub: "ctx_nodes sctx \<subseteq> nodes r" "nodes u \<subseteq> nodes r"
  defines "H \<equiv> set_pc s (rb_parent_color h a)
      (rb_change_child a s (up 0 ctx) root (rb_set_parent (rb_left h a) s (set_left s (rb_left h a) h5)))"
  shows "is_ctx H 0 (rb_node H root) (sctx @ InRight l s c # ctx) q" "is_tree H s q u"
    "augmented H = augmented h5"
proof -
  define x where "x = rb_left h a"
  define h2 where "h2 = rb_set_parent x s (set_left s x h5)"
  define h3 where "h3 = rb_change_child a s (up 0 ctx) root h2"
  have H: "H = set_pc s (rb_parent_color h a) h3" by (simp add: H_def h3_def h2_def x_def)
  have l: "is_tree h a x l" "x \<in> nodes l" "aligned a" "a \<noteq> 0"
    and pc: "rb_parent_color h a = up 0 ctx OR colour_bit c"
    using node tree_root [of h a x l] by (auto simp: node_ok_def x_def)
  have sets: "nodes l \<inter> nodes r = {}" "ctx_nodes ctx \<inter> nodes l = {}" "ctx_nodes ctx \<inter> nodes r = {}"
      "a \<notin> nodes r" "a \<notin> nodes l" "a \<notin> ctx_nodes ctx"
    using dist by (auto simp: nodes_def ctx_nodes_def)
  note five = det [unfolded detached_def]
  have rest: "agree S h h5" if "S \<inter> nodes r = {}" for S
    using five agree_mono [of "- nodes r" h h5 S] that by auto
  have two: "agree S h5 h2" if "s \<notin> S" "x \<notin> S" for S
    using that by (simp add: h2_def rb_set_parent_def)
  have three: "agree S h5 H" if "s \<notin> S" "x \<notin> S" "ctx_nodes ctx \<inter> S = {}" for S
    using two [OF that(1,2)] change_child_frame [OF that(3), of h2 a s root] that(1)
    by (simp add: H h3_def) (metis agree_trans)
  have disj: "s \<notin> nodes l" "s \<notin> ctx_nodes ctx" "x \<notin> nodes r" "x \<notin> ctx_nodes ctx"
    using s sets l(2) by auto
  have ctx2: "is_ctx h2 0 (rb_node h2 root) ctx a"
  proof -
    have "agree (ctx_nodes ctx) h h2"
      using agree_trans [OF rest two] sets disj by blast
    moreover have "rb_node h2 = rb_node h" using five by (simp add: h2_def rb_set_parent_def)
    ultimately show ?thesis using node(1) frame(2) by metis
  qed
  have dctx: "distinct (before ctx @ after ctx)" using dist by auto
  have "is_ctx h3 0 (rb_node h3 root) ctx s"
    unfolding h3_def by (rule change_child_ctx [OF ctx2 l(4) sets(6) dctx])
  then have ctxH: "is_ctx H 0 (rb_node H root) ctx s"
    using disj by (simp add: H ctx_update)
  have treeH: "is_tree H s x l"
  proof -
    have "agree (nodes l) h h5" by (rule rest) (use sets in auto)
    then have "agree (nodes l) h (set_left s x h5)" using disj(1) by simp
    then have "is_tree (set_left s x h5) a x l" using l(1) by (rule frame)
    then have "is_tree h2 s x l"
      unfolding h2_def using node(3) dist l(3) by (intro reparent_tree) auto
    then have "is_tree h3 s x l"
      unfolding h3_def by (rule frame(1) [OF change_child_frame [OF sets(2)]])
    then show ?thesis using disj(1) by (simp add: H tree_update)
  qed
  have left: "rb_left H s = x" and right: "rb_right H s = rb_right h5 s"
    using three [of "{s}"] disj(2) up_in_ctx [of ctx 0]
    by (cases "ctx = []"; auto simp: H h3_def h2_def rb_change_child_def rb_set_parent_def)+
  have "is_ctx H s (rb_right H s) sctx q"
    unfolding right by (rule frame(2) [OF three]) (use five s sub sets disj in auto)
  moreover have "node_ok H (up 0 ctx) s c"
    using tree_aligned [of h a "rb_right h a" r s] node(2) s(1) pc by (simp add: node_ok_def H)
  ultimately show "is_ctx H 0 (rb_node H root) (sctx @ InRight l s c # ctx) q"
    using ctxH treeH left by (auto simp: is_ctx_append)
  show "is_tree H s q u"
    by (rule frame(1) [OF three]) (use five s sub sets disj in auto)
  show "augmented H = augmented h5" by (simp add: H h3_def h2_def rb_set_parent_def)
qed

lemma rb_repI:
  "is_ctx h 0 (rb_node h root) ctx p \<Longrightarrow> is_tree h (up 0 ctx) p t \<Longrightarrow>
   distinct (in_order (plug ctx t)) \<Longrightarrow> rb_rep h root (plug ctx t)"
  by (auto simp: rb_rep_def is_tree_plug)

lemma reparent_pc: "b \<noteq> a \<Longrightarrow> rb_parent_color (rb_set_parent a p h) b = rb_parent_color h b"
  by (simp add: rb_set_parent_def)

lemma replace_spec:
  assumes node: "is_ctx h 0 (rb_node h root) ctx a" "is_tree h (up 0 ctx) a (Branch l a c r)" "l \<noteq> Tip"
    and dist: "distinct (before ctx @ in_order l @ a # in_order r @ after ctx)"
    and det: "detached h r sctx s u q h5" and r: "r = plug sctx (Branch Tip s d u)" "before sctx = []"
  defines "foc \<equiv> (sctx @ InRight l s c # ctx, repaint Black u, d)"
  shows "\<exists>h6. replace_by_successor a root (up s sctx, s, q, h5) = (s, erase_deficit foc, h6) \<and>
    rb_rep h6 root (erase_tree foc) \<and> augmented h6 = augmented h5"
proof -
  define H where "H = set_pc s (rb_parent_color h a)
      (rb_change_child a s (up 0 ctx) root (rb_set_parent (rb_left h a) s (set_left s (rb_left h a) h5)))"
  have parts: "s \<in> nodes r" "s \<notin> ctx_nodes sctx" "s \<notin> nodes u" "ctx_nodes sctx \<subseteq> nodes r"
      "nodes u \<subseteq> nodes r" "distinct (in_order u)" "ctx_nodes sctx \<inter> nodes u = {}"
    using dist r by (auto simp: in_order_plug nodes_def ctx_nodes_def)
  have H: "is_ctx H 0 (rb_node H root) (sctx @ InRight l s c # ctx) q" "is_tree H s q u"
      "augmented H = augmented h5"
    using replace_links [OF node dist det parts(1-5), folded H_def] by simp_all
  have x: "rb_left h a \<in> nodes l" "rb_left h a \<noteq> a" "rb_left h a \<noteq> s" "a \<noteq> s" "a \<notin> nodes r"
    using node tree_root [of h a "rb_left h a" l] dist parts(1) by (auto simp: nodes_def)
  have fields: "rb_left h5 a = rb_left h a" "rb_parent_color h5 a = rb_parent_color h a"
      "rb_parent_color h5 s = rb_parent_color h s"
    using det x(5) by (auto simp: detached_def agree_def)
  have pc: "pc_parent (rb_parent_color h a) = up 0 ctx"
    using node(2) up_aligned [OF node(1)] by (simp add: node_ok_def)
  have pc2: "pc_is_black (rb_parent_color h s) \<longleftrightarrow> d = Black"
  proof -
    obtain p where "is_ctx h a (rb_right h a) sctx p" "is_tree h (up a sctx) p (Branch Tip s d u)"
      using node(2) r(1) by (auto simp: is_tree_plug)
    moreover have "aligned a" using node(2) by (simp add: node_ok_def)
    ultimately show ?thesis using up_aligned [of h a _ sctx p] by (simp add: node_ok_def)
  qed
  have q: "q = 0 \<longleftrightarrow> u = Tip" using tree_null [OF H(2)] .
  have order: "distinct (in_order (plug (sctx @ InRight l s c # ctx) (repaint Black u)))"
    using dist r by (auto simp: in_order_context)
  show ?thesis
  proof (cases "u = Tip")
    case True
    have "replace_by_successor a root (up s sctx, s, q, h5) = (s, erase_deficit foc, H)"
      using True q x fields pc pc2
      by (simp add: replace_by_successor_def Let_def foc_def H_def reparent_pc)
    moreover have "rb_rep H root (erase_tree foc)"
      unfolding foc_def erase_tree.simps
      by (rule rb_repI [OF H(1) _ order]) (use True q in simp)
    ultimately show ?thesis using H(3) by blast
  next
    case False
    let ?h6 = "rb_set_parent_color q (up s sctx) RB_BLACK H"
    have eq: "replace_by_successor a root (up s sctx, s, q, h5) = (s, erase_deficit foc, ?h6)"
      using False q x fields pc
      by (simp add: replace_by_successor_def Let_def foc_def H_def reparent_pc)
    have "q \<in> nodes u" using tree_root [OF H(2) False] by simp
    moreover have "ctx_nodes ctx \<inter> nodes r = {}" "nodes l \<inter> nodes r = {}"
      using dist by (auto simp: nodes_def ctx_nodes_def)
    ultimately have "q \<notin> ctx_nodes (sctx @ InRight l s c # ctx)"
      using parts by auto
    then have "is_ctx ?h6 0 (rb_node ?h6 root) (sctx @ InRight l s c # ctx) q"
      using H(1) by (simp add: rb_set_parent_color_def ctx_update del: is_ctx.simps)
    moreover have "is_tree ?h6 (up 0 (sctx @ InRight l s c # ctx)) q (repaint Black u)"
      using repaint_tree [OF H(2) False parts(6), of "up s sctx" Black] by (simp add: rb_set_parent_color_def)
    ultimately have "rb_rep ?h6 root (erase_tree foc)"
      unfolding foc_def erase_tree.simps using order by (intro rb_repI)
    then show ?thesis
      using eq H(3)
      by (auto simp: rb_set_parent_color_def)
  qed
qed

lemma rep_ancestor: "rb_rep h root (plug ctx t) \<Longrightarrow> ancestor h (up 0 ctx) 0"
  using ctx_ancestor by (fastforce simp: rb_rep_def is_tree_plug)

section \<open>The three cases of the removal\<close>

lemma erase_no_left_spec:
  assumes rep: "rb_rep h root (plug ctx (Branch Tip a c r))"
  shows "\<exists>h1. erase_no_left a root h = (up 0 ctx, erase_deficit (ctx, repaint c r, c), h1) \<and>
    rb_rep h1 root (plug ctx (repaint c r)) \<and> augmented h1 = augmented h"
proof -
  have node: "is_ctx h 0 (rb_node h root) ctx a" "node_ok h (up 0 ctx) a c"
      "is_tree h a (rb_right h a) r"
    using rep by (auto simp: rb_rep_def is_tree_plug)
  have dist: "distinct (before ctx @ a # in_order r @ after ctx)"
    using rep by (simp add: rb_rep_def in_order_plug)
  define h1 where "h1 = rb_change_child a (rb_right h a) (up 0 ctx) root h"
  have pc: "pc_parent (rb_parent_color h a) = up 0 ctx" "pc_is_black (rb_parent_color h a) \<longleftrightarrow> c = Black"
    using node(2) up_aligned [OF node(1)] by (simp_all add: node_ok_def)
  have sets: "a \<notin> ctx_nodes ctx" "a \<notin> nodes r" "ctx_nodes ctx \<inter> nodes r = {}"
    "distinct (before ctx @ after ctx)" "a \<noteq> 0" "distinct (in_order r)"
    using dist node(2) by (auto simp: nodes_def ctx_nodes_def node_ok_def)
  have ctx1: "is_ctx h1 0 (rb_node h1 root) ctx (rb_right h a)"
    unfolding h1_def by (rule change_child_ctx [OF node(1) sets(5,1,4)])
  have tree1: "is_tree h1 a (rb_right h a) r"
    unfolding h1_def by (rule frame(1) [OF change_child_frame [OF sets(3)] node(3)])
  have null: "rb_right h a = 0 \<longleftrightarrow> r = Tip" using tree_null [OF node(3)] .
  have order: "distinct (in_order (plug ctx (repaint c r)))" using dist by (simp add: in_order_plug)
  show ?thesis
  proof (cases "r = Tip")
    case True
    then show ?thesis
      using null pc order ctx1
      by (auto simp: erase_no_left_def Let_def h1_def [symmetric] rb_rep_def is_tree_plug h1_def)
  next
    case False
    let ?h2 = "set_pc (rb_right h a) (rb_parent_color h a) h1"
    have "rb_right h a \<notin> ctx_nodes ctx"
      using tree_root [OF node(3) False] sets(3) by auto
    then have "is_ctx ?h2 0 (rb_node ?h2 root) ctx (rb_right h a)"
      using ctx1 by (simp add: ctx_update)
    moreover have "is_tree ?h2 (up 0 ctx) (rb_right h a) (repaint c r)"
      using repaint_tree [OF tree1 False sets(6), of "up 0 ctx" c] node(2) by (simp add: node_ok_def)
    moreover have "erase_no_left a root h = (up 0 ctx, erase_deficit (ctx, repaint c r, c), ?h2)"
      using False null pc by (simp add: erase_no_left_def Let_def h1_def)
    ultimately show ?thesis
      using order by (auto simp: rb_rep_def is_tree_plug h1_def)
  qed
qed

lemma erase_no_right_spec:
  assumes rep: "rb_rep h root (plug ctx (Branch l a c Tip))" "l \<noteq> Tip"
  shows "\<exists>h1. erase_no_right a root h = (up 0 ctx, 0, h1) \<and>
    rb_rep h1 root (plug ctx (repaint c l)) \<and> augmented h1 = augmented h"
proof -
  have node: "is_ctx h 0 (rb_node h root) ctx a" "node_ok h (up 0 ctx) a c"
      "is_tree h a (rb_left h a) l"
    using rep by (auto simp: rb_rep_def is_tree_plug)
  have dist: "distinct (before ctx @ in_order l @ a # after ctx)"
    using rep by (simp add: rb_rep_def in_order_plug)
  define h1 where "h1 = set_pc (rb_left h a) (rb_parent_color h a) h"
  have pc: "pc_parent (rb_parent_color h a) = up 0 ctx"
    using node(2) up_aligned [OF node(1)] by (simp add: node_ok_def)
  have sets: "a \<notin> ctx_nodes ctx" "ctx_nodes ctx \<inter> nodes l = {}"
    "distinct (before ctx @ after ctx)" "a \<noteq> 0" "distinct (in_order l)"
    using dist node(2) by (auto simp: nodes_def ctx_nodes_def node_ok_def)
  have "rb_left h a \<notin> ctx_nodes ctx" using tree_root [OF node(3) rep(2)] sets(2) by auto
  then have "is_ctx h1 0 (rb_node h1 root) ctx a"
    using node(1) by (simp add: h1_def ctx_update)
  from change_child_ctx [OF this sets(4,1,3), of "rb_left h a"]
  have ctx2: "is_ctx (rb_change_child a (rb_left h a) (up 0 ctx) root h1) 0
      (rb_node (rb_change_child a (rb_left h a) (up 0 ctx) root h1) root) ctx (rb_left h a)" .
  have "is_tree h1 (up 0 ctx) (rb_left h a) (repaint c l)"
    using repaint_tree [OF node(3) rep(2) sets(5), of "up 0 ctx" c] node(2) by (simp add: node_ok_def h1_def)
  then have "is_tree (rb_change_child a (rb_left h a) (up 0 ctx) root h1) (up 0 ctx) (rb_left h a) (repaint c l)"
    by (rule frame(1) [OF change_child_frame, rotated]) (use sets(2) in simp)
  with ctx2 dist pc show ?thesis
    by (auto simp: erase_no_right_def Let_def h1_def rb_rep_def is_tree_plug in_order_plug)
qed

lemma detach_spec:
  assumes tree: "is_tree h a (rb_right h a) r" "aligned a" "distinct (in_order r)"
    and r: "r = plug sctx (Branch Tip s d u)" "before sctx = []"
    and spine: "left_spine [] r = (sctx, Branch Tip s d u)"
      "\<forall>st \<in> set sctx. \<exists>a c r. st = InLeft a c r"
  shows "\<exists>q h3. detached h r sctx s u q h3 \<and> augmented h3 = augmented h \<and>
    detach_successor cb a h =
      (if sctx = [] then Some (s, s, q, cb_copy cb a s h3)
       else Option.bind (cb_propagate cb (up s sctx) s (cb_copy cb a s h3))
         (\<lambda>h5. Some (up s sctx, s, q, h5)))"
proof (cases "sctx = []")
  case True
  with tree(1) r have "rb_right h a = s" "rb_left h s = 0" "is_tree h s (rb_right h s) u" by simp_all
  then show ?thesis
    by (intro exI [of _ "rb_right h s"] exI [of _ h])
      (simp add: True detached_def detach_successor_def Let_def)
next
  case False
  let ?child = "rb_right h a"
  obtain b c w sctx' where sctx: "sctx = sctx' @ [InLeft b c w]"
    using False spine(2) by (cases sctx rule: rev_cases) auto
  have "rb_left h ?child \<noteq> 0"
  proof -
    from tree(1) have "is_tree h ?child (rb_left h ?child) (plug sctx' (Branch Tip s d u))"
      by (auto simp: r(1) sctx)
    moreover have "s \<in> nodes (plug sctx' (Branch Tip s d u))" by simp
    ultimately show ?thesis using tree_null by fastforce
  qed
  note found = this find_successor_spine [OF tree(1) this spine(1)]
  have ups: "up a sctx = up s sctx" using False by (cases sctx) auto
  have "detach_successor cb a h = Option.bind (cb_propagate cb (up s sctx) s (cb_copy cb a s
      (rb_set_parent ?child s (set_right s ?child (set_left (up a sctx) (rb_right h s) h)))))
      (\<lambda>h5. Some (up s sctx, s, rb_right h s, h5))"
    using found by (simp add: detach_successor_def Let_def ups)
  with detach_leftmost [OF tree r(1) False r(2) spine(2)] False show ?thesis
    by (auto simp: rb_set_parent_def intro!: exI)
qed

context augment_laws
begin

lemma detach_ends:
  assumes "is_tree h a (rb_right h a) r" "aligned a" "distinct (in_order r)"
    "r = plug sctx (Branch Tip s d u)" "before sctx = []" "left_spine [] r = (sctx, Branch Tip s d u)"
    "\<forall>st \<in> set sctx. \<exists>a c r. st = InLeft a c r"
  shows "\<exists>q h5. detached h r sctx s u q h5 \<and> detach_successor cb a h = Some (up s sctx, s, q, h5)"
proof -
  obtain q h3 where h3: "detached h r sctx s u q h3"
    "detach_successor cb a h = (if sctx = [] then Some (s, s, q, cb_copy cb a s h3)
       else Option.bind (cb_propagate cb (up s sctx) s (cb_copy cb a s h3))
         (\<lambda>h5. Some (up s sctx, s, q, h5)))"
    using detach_spec [OF assms, of cb] by blast
  let ?h4 = "cb_copy cb a s h3"
  have h4: "detached h r sctx s u q ?h4" using h3(1) detached_links [OF copy_links] by blast
  show ?thesis
  proof (cases "sctx = []")
    case True
    then show ?thesis using h3(2) h4 by auto
  next
    case False
    have "s \<in> nodes r" using assms(4) by simp
    then have "aligned s" using tree_aligned [OF assms(1)] by blast
    then have "ancestor ?h4 (up s sctx) s"
      using h4 ctx_ancestor unfolding detached_def by blast
    then obtain h5 where "cb_propagate cb (up s sctx) s ?h4 = Some h5" "links_of h5 = links_of ?h4"
      using propagate_ends by blast
    then show ?thesis using False h3(2) h4 detached_links by fastforce
  qed
qed

lemma erase_refines:
  assumes rep: "rb_rep h root (plug ctx (Branch l a c r))"
  defines "foc \<equiv> erase_focus ctx l c r"
  shows "\<exists>h'. rb_erase_augmented_raw cb a root h = Some (erase_deficit foc, h') \<and>
    rb_rep h' root (erase_tree foc)"
proof -
  have node: "is_ctx h 0 (rb_node h root) ctx a" "is_tree h (up 0 ctx) a (Branch l a c r)"
      "aligned a" "is_tree h a (rb_left h a) l" "is_tree h a (rb_right h a) r"
    and dist: "distinct (before ctx @ in_order l @ a # in_order r @ after ctx)"
    using rep by (auto simp: rb_rep_def is_tree_plug in_order_plug node_ok_def)
  have null: "rb_left h a = 0 \<longleftrightarrow> l = Tip" "rb_right h a = 0 \<longleftrightarrow> r = Tip"
    using tree_null node by blast+
  have "\<exists>tmp h1. erase_unlink cb a root h = Some (tmp, erase_deficit foc, h1) \<and>
      rb_rep h1 root (erase_tree foc) \<and> ancestor h1 tmp 0"
  proof (cases rule: erase_focus_cases [of l ctx c r])
    case no_left
    then obtain h1 where "erase_no_left a root h = (up 0 ctx, erase_deficit foc, h1)"
        "rb_rep h1 root (erase_tree foc)"
      using erase_no_left_spec [of h root ctx a c r] rep by (auto simp: foc_def)
    moreover from this have "ancestor h1 (up 0 ctx) 0"
      using rep_ancestor no_left by (simp add: foc_def)
    ultimately show ?thesis using no_left null by (auto simp: erase_unlink_def)
  next
    case no_right
    then obtain h1 where "erase_no_right a root h = (up 0 ctx, 0, h1)"
        "rb_rep h1 root (erase_tree foc)"
      using erase_no_right_spec [of h root ctx l a c] rep by (auto simp: foc_def)
    moreover from this have "ancestor h1 (up 0 ctx) 0"
      using rep_ancestor no_right by (simp add: foc_def)
    ultimately show ?thesis using no_right null by (auto simp: erase_unlink_def foc_def)
  next
    case (two sctx s d u)
    have "s \<in> nodes r" using two(2) by simp
    then have "r \<noteq> Tip" by auto
    have "distinct (in_order r)" using dist by auto
    then obtain q h5 where h5: "detached h r sctx s u q h5"
        "detach_successor cb a h = Some (up s sctx, s, q, h5)"
      using detach_ends [OF node(5,3) _ two(2,3,4,5)] by blast
    then obtain h6 where "replace_by_successor a root (up s sctx, s, q, h5) = (s, erase_deficit foc, h6)"
        "rb_rep h6 root (erase_tree foc)"
      using replace_spec [OF node(1,2) two(1) dist h5(1) two(2,3)] two(6) by (auto simp: foc_def)
    moreover from this have "ancestor h6 (up 0 (InRight l s c # ctx)) 0"
      using two(6) by (intro rep_ancestor [of h6 root _ "plug sctx (repaint Black u)"]) (simp add: foc_def)
    ultimately show ?thesis
      using two(1) \<open>r \<noteq> Tip\<close> null h5(2) by (auto simp: erase_unlink_def)
  qed
  then obtain tmp h1 where h1: "erase_unlink cb a root h = Some (tmp, erase_deficit foc, h1)"
    "rb_rep h1 root (erase_tree foc)" "ancestor h1 tmp 0" by blast
  then obtain h' where "cb_propagate cb tmp 0 h1 = Some h'" "links_of h' = links_of h1"
    using propagate_ends by blast
  with h1 show ?thesis using rb_rep_links by (auto simp: rb_erase_augmented_raw_def)
qed

end

end
