(* ===== verification/RBAugment.thy ===== *)
theory RBAugment
  imports RBErase
begin

text \<open>
  The callbacks that \<open>RB_DECLARE_CALLBACKS\<close> generates meet the contract of \<open>RBErase\<close>, so
  that a removal with them is the abstract removal.  The values that an augmented tree keeps
  are right again after a removal, although the propagation stops at the first value that
  does not change, and the node returned is the one below which a black node is missing.
\<close>

section \<open>The generated callbacks\<close>

lemma rb_copy_links [simp]: "links_of (rb_copy off old new h) = links_of h"
  by (simp add: rb_copy_def Let_def)

lemma rb_rotate_links: "links_of (rb_rotate f off old new h) = links_of h"
  by (simp add: rb_rotate_def Let_def)

lemma rb_propagate_step:
  "rb \<noteq> stop \<Longrightarrow> rb_propagate f off rb stop h =
     (if augmented h (rb_entry rb off) = f (rb_entry rb off) h then Some h
      else rb_propagate f off (rb_parent rb h) stop
        (set_augmented (rb_entry rb off) (f (rb_entry rb off) h) h))"
  by (subst rb_propagate.simps) (simp add: Let_def rb_entry_def rb_parent_def)

lemma rb_propagate_stop [simp]: "rb_propagate f off stop stop h = Some h"
  by (subst rb_propagate.simps) simp

lemma rb_propagate_ends:
  fixes h h0 :: "'g rb_heap"
  shows "ancestor h rb stop \<Longrightarrow> links_of h0 = links_of h \<Longrightarrow>
    \<exists>h'. rb_propagate f off rb stop h0 = Some h' \<and> links_of h' = links_of h0"
proof (induction arbitrary: h0 rule: ancestor.induct)
  case (above a b)
  show ?case
  proof (cases "a = b")
    case False
    have same: "rb_parent a h0 = rb_parent a h"
      using links_ofD(1) [OF above.prems] by (simp add: rb_parent_def)
    define h1 where "h1 = set_augmented (rb_entry a off) (f (rb_entry a off) h0) h0"
    have "links_of h1 = links_of h" using above.prems by (simp add: h1_def)
    from above.IH [OF this] show ?thesis
      by (auto simp: rb_propagate_step [OF False] same h1_def)
  qed auto
qed auto

interpretation generated: augment_laws "RB_DECLARE_CALLBACKS rbcompute off" for rbcompute off
  by unfold_locales
    (simp_all add: RB_DECLARE_CALLBACKS_def rb_propagate_ends)

section \<open>Augmented values\<close>

definition value_of :: "addr \<Rightarrow> 'g rb_heap \<Rightarrow> addr \<Rightarrow> 'g" where
  "value_of off h a = augmented h (rb_entry a off)"

definition child_value :: "addr \<Rightarrow> 'g rb_heap \<Rightarrow> addr \<Rightarrow> 'g option" where
  "child_value off h p = (if p = 0 then None else Some (value_of off h p))"

text \<open>The client's function combines a node with the values of its two children.\<close>

definition computes ::
  "(addr \<Rightarrow> 'g rb_heap \<Rightarrow> 'g) \<Rightarrow> addr \<Rightarrow> (addr \<Rightarrow> 'g option \<Rightarrow> 'g option \<Rightarrow> 'g) \<Rightarrow> bool" where
  "computes rbcompute off comb \<longleftrightarrow> (\<forall>a h. rbcompute (rb_entry a off) h =
     comb a (child_value off h (rb_left h a)) (child_value off h (rb_right h a)))"

fun root_value :: "(addr \<Rightarrow> 'g) \<Rightarrow> ctree \<Rightarrow> 'g option" where
  "root_value v Tip = None"
| "root_value v (Branch l a c r) = Some (v a)"

fun values_ok :: "(addr \<Rightarrow> 'g option \<Rightarrow> 'g option \<Rightarrow> 'g) \<Rightarrow> (addr \<Rightarrow> 'g) \<Rightarrow> ctree \<Rightarrow> bool" where
  "values_ok comb v Tip \<longleftrightarrow> True"
| "values_ok comb v (Branch l a c r) \<longleftrightarrow>
     v a = comb a (root_value v l) (root_value v r) \<and> values_ok comb v l \<and> values_ok comb v r"

text \<open>A context is right for the value \<open>hv\<close> in its hole; or right above its first node.\<close>

fun ctx_ok :: "(addr \<Rightarrow> 'g option \<Rightarrow> 'g option \<Rightarrow> 'g) \<Rightarrow> (addr \<Rightarrow> 'g) \<Rightarrow> step list \<Rightarrow> 'g option \<Rightarrow> bool" where
  "ctx_ok comb v [] hv \<longleftrightarrow> True"
| "ctx_ok comb v (InLeft a c r # ctx) hv \<longleftrightarrow>
     v a = comb a hv (root_value v r) \<and> values_ok comb v r \<and> ctx_ok comb v ctx (Some (v a))"
| "ctx_ok comb v (InRight l a c # ctx) hv \<longleftrightarrow>
     v a = comb a (root_value v l) hv \<and> values_ok comb v l \<and> ctx_ok comb v ctx (Some (v a))"

fun above_ok :: "(addr \<Rightarrow> 'g option \<Rightarrow> 'g option \<Rightarrow> 'g) \<Rightarrow> (addr \<Rightarrow> 'g) \<Rightarrow> step list \<Rightarrow> bool" where
  "above_ok comb v [] \<longleftrightarrow> True"
| "above_ok comb v (InLeft a c r # ctx) \<longleftrightarrow> values_ok comb v r \<and> ctx_ok comb v ctx (Some (v a))"
| "above_ok comb v (InRight l a c # ctx) \<longleftrightarrow> values_ok comb v l \<and> ctx_ok comb v ctx (Some (v a))"

lemma ctx_above: "ctx_ok comb v ctx hv \<Longrightarrow> above_ok comb v ctx"
  by (cases ctx; cases "hd ctx") auto

lemma values_ok_plug:
  "values_ok comb v (plug ctx t) \<longleftrightarrow> values_ok comb v t \<and> ctx_ok comb v ctx (root_value v t)"
proof (induction ctx arbitrary: t)
  case (Cons s ctx)
  then show ?case by (cases s) auto
qed simp

lemma ctx_ok_append:
  "ctx_ok comb v (ctx @ ctx') hv \<longleftrightarrow>
   ctx_ok comb v ctx hv \<and> ctx_ok comb v ctx' (if ctx = [] then hv else Some (v (step_node (last ctx))))"
proof (induction ctx arbitrary: hv)
  case (Cons s ctx)
  then show ?case by (cases s) auto
qed simp

lemma root_value_cong: "(\<And>a. a \<in> nodes t \<Longrightarrow> v' a = v a) \<Longrightarrow> root_value v' t = root_value v t"
  by (cases t) auto

lemma values_ok_cong: "(\<And>a. a \<in> nodes t \<Longrightarrow> v' a = v a) \<Longrightarrow> values_ok comb v' t = values_ok comb v t"
proof (induction t)
  case (Branch l a c r)
  then show ?case using root_value_cong [of l v' v] root_value_cong [of r v' v] by simp
qed simp

lemma ctx_ok_cong: "(\<And>a. a \<in> ctx_nodes ctx \<Longrightarrow> v' a = v a) \<Longrightarrow> ctx_ok comb v' ctx hv = ctx_ok comb v ctx hv"
proof (induction ctx arbitrary: hv)
  case (Cons s ctx)
  then show ?case
    by (cases s) (simp_all add: root_value_cong [of _ v' v] values_ok_cong [of _ v' v])
qed simp

lemma above_ok_cong:
  "(\<And>a. a \<in> ctx_nodes ctx \<Longrightarrow> v' a = v a) \<Longrightarrow> above_ok comb v' ctx = above_ok comb v ctx"
  by (cases ctx; cases "hd ctx")
    (simp_all add: values_ok_cong [of _ v' v] ctx_ok_cong [of _ v' v])

lemma root_value_repaint [simp]:
  "root_value v (repaint c t) = root_value v t" "values_ok comb v (repaint c t) = values_ok comb v t"
  by (cases t; simp)+

lemma child_root_value: "is_tree h g p t \<Longrightarrow> child_value off h p = root_value (value_of off h) t"
  by (cases t) (auto simp: child_value_def node_ok_def)

lemma value_of_set [simp]:
  "value_of off (set_augmented (rb_entry a off) x h) = (value_of off h)(a := x)"
  by (auto simp: value_of_def rb_entry_def fun_eq_iff)

section \<open>Propagation\<close>

lemma propagate_repairs:
  assumes "computes f off comb" "aligned g"
  shows "is_ctx h g e ctx p \<Longrightarrow> distinct (g # before ctx @ after ctx) \<Longrightarrow>
    above_ok comb (value_of off h) ctx \<Longrightarrow>
    \<exists>h'. rb_propagate f off (up g ctx) g h = Some h' \<and> links_of h' = links_of h \<and>
      ctx_ok comb (value_of off h') ctx (child_value off h p) \<and>
      (\<forall>b. b \<notin> ctx_nodes ctx \<longrightarrow> value_of off h' b = value_of off h b)"
proof (induction ctx arbitrary: h p)
  case (Cons s ctx)
  obtain a c t where s: "s = InLeft a c t \<or> s = InRight t a c" by (cases s) auto
  let ?v = "value_of off h" and ?x = "f (rb_entry a off) h"
  have a: "up g (s # ctx) = a" "a \<noteq> g" "a \<notin> ctx_nodes ctx" "a \<notin> nodes t" "nodes t \<inter> ctx_nodes ctx = {}"
      "distinct (g # before ctx @ after ctx)"
    using s Cons.prems(2) by (auto simp: nodes_def ctx_nodes_def)
  have ctx: "is_ctx h g e ctx a" "node_ok h (up g ctx) a c"
    using s Cons.prems(1) by auto
  have par: "rb_parent a h = up g ctx"
    using ctx up_aligned [OF ctx(1) assms(2)] by (simp add: rb_parent_pc node_ok_def)
  have x: "?x = (if s = InLeft a c t then comb a (child_value off h p) (root_value ?v t)
      else comb a (root_value ?v t) (child_value off h p))"
    using s Cons.prems(1) assms(1) child_root_value [of h a _ t off]
    by (auto simp: computes_def)
  have t: "values_ok comb ?v t" "ctx_ok comb ?v ctx (Some (?v a))" using s Cons.prems(3) by auto
  show ?case
  proof (cases "?v a = ?x")
    case True
    then have "rb_propagate f off a g h = Some h"
      using a(2) by (simp add: rb_propagate_step value_of_def)
    moreover have "ctx_ok comb ?v (s # ctx) (child_value off h p)"
      using s x t True by auto
    ultimately show ?thesis using a(1) by auto
  next
    case False
    define h1 where "h1 = set_augmented (rb_entry a off) ?x h"
    have v1: "value_of off h1 = ?v(a := ?x)" by (simp add: h1_def)
    have "above_ok comb ?v ctx" using t(2) by (rule ctx_above)
    then have "above_ok comb (value_of off h1) ctx"
      using above_ok_cong [of ctx "value_of off h1" ?v comb] a(3) by (fastforce simp: v1)
    moreover have "is_ctx h1 g e ctx a" using ctx(1) by (simp add: h1_def ctx_update)
    ultimately obtain h' where h': "rb_propagate f off (up g ctx) g h1 = Some h'"
      "links_of h' = links_of h1" "ctx_ok comb (value_of off h') ctx (child_value off h1 a)"
      "\<forall>b. b \<notin> ctx_nodes ctx \<longrightarrow> value_of off h' b = value_of off h1 b"
      using Cons.IH [of h1 a] a by blast
    have va: "value_of off h' a = ?x" using h'(4) a(3) v1 by simp
    have "child_value off h1 a = Some ?x"
      using ctx(2) v1 by (simp add: child_value_def node_ok_def)
    moreover have vt: "value_of off h' b = ?v b" if "b \<in> nodes t" for b
      using h'(4) v1 that a(4,5) by auto
    ultimately have "ctx_ok comb (value_of off h') (s # ctx) (child_value off h p)"
      using s x va h'(3) t(1) root_value_cong [OF vt] values_ok_cong [OF vt, where comb = comb] by auto
    moreover have "rb_propagate f off a g h = Some h'"
      using False a(2) h'(1) by (simp add: rb_propagate_step value_of_def par h1_def)
    moreover have "\<forall>b. b \<notin> ctx_nodes (s # ctx) \<longrightarrow> value_of off h' b = ?v b"
      using h'(4) v1 s by auto
    ultimately show ?thesis using a(1) h'(2) by (auto simp: h1_def)
  qed
qed auto

section \<open>Values after a removal\<close>

lemma propagate_to_root:
  assumes comp: "computes f off comb" and rep: "rb_rep h root (plug ctx t)"
    and ok: "values_ok comb (value_of off h) t" "above_ok comb (value_of off h) ctx"
  shows "\<exists>h'. rb_propagate f off (up 0 ctx) 0 h = Some h' \<and> values_ok comb (value_of off h') (plug ctx t)"
proof -
  obtain p where p: "is_ctx h 0 (rb_node h root) ctx p" "is_tree h (up 0 ctx) p t"
    and dist: "distinct (before ctx @ in_order t @ after ctx)"
    using rep by (auto simp: rb_rep_def is_tree_plug in_order_plug)
  have "0 \<notin> nodes (plug ctx t)"
    using rep tree_aligned [of h 0 "rb_node h root" "plug ctx t" 0] unfolding rb_rep_def by blast
  then have "distinct (0 # before ctx @ after ctx)" using dist by (auto simp: nodes_def in_order_plug)
  from propagate_repairs [OF comp aligned_0 p(1) this ok(2)] obtain h' where h':
    "rb_propagate f off (up 0 ctx) 0 h = Some h'"
    "ctx_ok comb (value_of off h') ctx (child_value off h p)"
    "\<forall>b. b \<notin> ctx_nodes ctx \<longrightarrow> value_of off h' b = value_of off h b" by auto
  have same: "value_of off h' b = value_of off h b" if "b \<in> nodes t" for b
    using h'(3) that dist by (auto simp: nodes_def ctx_nodes_def)
  have "child_value off h p = root_value (value_of off h') t"
    unfolding child_root_value [OF p(2)] by (rule root_value_cong [symmetric]) (rule same)
  moreover have "values_ok comb (value_of off h') t"
    using ok(1) values_ok_cong [OF same, where comb = comb] by simp
  ultimately show ?thesis using h'(1,2) by (auto simp: values_ok_plug)
qed

text \<open>Inside the right subtree: what the first propagation repairs before the second starts.\<close>

lemma detach_values:
  assumes comp: "computes f off comb"
    and tree: "is_tree h a (rb_right h a) r" "aligned a" "distinct (in_order r)"
    and r: "r = plug sctx (Branch Tip s d u)" "before sctx = []"
      "left_spine [] r = (sctx, Branch Tip s d u)" "\<forall>st \<in> set sctx. \<exists>a c r. st = InLeft a c r"
    and ok: "values_ok comb (value_of off h) r" "a \<notin> nodes r"
  shows "\<exists>q h5. detached h r sctx s u q h5 \<and>
    detach_successor (RB_DECLARE_CALLBACKS f off) a h = Some (up s sctx, s, q, h5) \<and>
    values_ok comb (value_of off h5) (plug sctx u) \<and> value_of off h5 s = value_of off h a \<and>
    (\<forall>b. b \<notin> nodes r \<longrightarrow> value_of off h5 b = value_of off h b)"
proof -
  let ?cb = "RB_DECLARE_CALLBACKS f off"
  obtain q h3 where h3: "detached h r sctx s u q h3" "augmented h3 = augmented h"
    "detach_successor ?cb a h = (if sctx = [] then Some (s, s, q, cb_copy ?cb a s h3)
       else Option.bind (cb_propagate ?cb (up s sctx) s (cb_copy ?cb a s h3))
         (\<lambda>h5. Some (up s sctx, s, q, h5)))"
    using detach_spec [OF tree r, of ?cb] by blast
  define h4 where "h4 = rb_copy off a s h3"
  have h4: "detached h r sctx s u q h4"
    unfolding h4_def using h3(1) detached_links [OF rb_copy_links] by blast
  have det: "detach_successor ?cb a h =
      Option.bind (rb_propagate f off (up s sctx) s h4) (\<lambda>h5. Some (up s sctx, s, q, h5))"
    using h3(3) by (cases "sctx = []") (simp_all add: RB_DECLARE_CALLBACKS_def h4_def)
  have "value_of off h3 = value_of off h" using h3(2) by (simp add: value_of_def fun_eq_iff)
  then have v4: "value_of off h4 = (value_of off h)(s := value_of off h a)"
    by (simp add: h4_def rb_copy_def Let_def) (simp add: value_of_def h3(2))
  have dist: "distinct (s # before sctx @ after sctx)" "s \<notin> nodes u" "ctx_nodes sctx \<inter> nodes u = {}"
    and s: "s \<in> nodes r" "s \<notin> ctx_nodes sctx" "aligned s" "nodes u \<subseteq> nodes r" "ctx_nodes sctx \<subseteq> nodes r"
    using tree(3) r(1) tree_aligned [OF tree(1), of s] by (auto simp: in_order_plug nodes_def ctx_nodes_def)
  have v: "values_ok comb (value_of off h) u" "ctx_ok comb (value_of off h) sctx (Some (value_of off h s))"
    using ok(1) by (auto simp: r(1) values_ok_plug)
  have "above_ok comb (value_of off h4) sctx"
    using ctx_above [OF v(2)] above_ok_cong [of sctx "value_of off h4" "value_of off h" comb] s(2)
    by (fastforce simp: v4)
  moreover have "is_ctx h4 s (rb_right h4 s) sctx q" "is_tree h4 s q u"
    using h4 by (simp_all add: detached_def)
  ultimately obtain h5 where h5: "rb_propagate f off (up s sctx) s h4 = Some h5" "links_of h5 = links_of h4"
    "ctx_ok comb (value_of off h5) sctx (child_value off h4 q)"
    "\<forall>b. b \<notin> ctx_nodes sctx \<longrightarrow> value_of off h5 b = value_of off h4 b"
    using propagate_repairs [OF comp s(3) _ dist(1)] by blast
  have same: "value_of off h5 b = value_of off h b" if "b \<in> nodes u" for b
    using h5(4) v4 that dist by auto
  have "child_value off h4 q = root_value (value_of off h5) u"
    using child_root_value [OF \<open>is_tree h4 s q u\<close>, of off] h5(4) dist(3)
      root_value_cong [of u "value_of off h5" "value_of off h4"] by fastforce
  then have "values_ok comb (value_of off h5) (plug sctx u)"
    using h5(3) v(1) values_ok_cong [OF same, where comb = comb] by (simp add: values_ok_plug)
  moreover have "value_of off h5 s = value_of off h a" using h5(4) s(2) v4 by simp
  moreover have "value_of off h5 b = value_of off h b" if "b \<notin> nodes r" for b
    using h5(4) v4 that s by auto
  moreover have "detached h r sctx s u q h5" using h4 detached_links [OF h5(2)] by blast
  ultimately show ?thesis using det h5(1) by auto
qed

lemma erase_values:
  assumes comp: "computes f off comb" and rep: "rb_rep h root (plug ctx (Branch l a c r))"
    and ok: "values_ok comb (value_of off h) (plug ctx (Branch l a c r))"
  defines "foc \<equiv> erase_focus ctx l c r"
  shows "\<exists>h'. rb_erase_augmented_raw (RB_DECLARE_CALLBACKS f off) a root h = Some (erase_deficit foc, h') \<and>
    rb_rep h' root (erase_tree foc) \<and> values_ok comb (value_of off h') (erase_tree foc)"
proof -
  let ?cb = "RB_DECLARE_CALLBACKS f off" and ?v = "value_of off h"
  have node: "is_ctx h 0 (rb_node h root) ctx a" "is_tree h (up 0 ctx) a (Branch l a c r)"
      "aligned a" "is_tree h a (rb_left h a) l" "is_tree h a (rb_right h a) r"
    and dist: "distinct (before ctx @ in_order l @ a # in_order r @ after ctx)"
    using rep by (auto simp: rb_rep_def is_tree_plug in_order_plug node_ok_def)
  have null: "rb_left h a = 0 \<longleftrightarrow> l = Tip" "rb_right h a = 0 \<longleftrightarrow> r = Tip"
    using tree_null node by blast+
  have v: "values_ok comb ?v l" "values_ok comb ?v r" "ctx_ok comb ?v ctx (Some (?v a))"
    using ok by (auto simp: values_ok_plug)
  have same: "value_of off h1 = ?v" if "augmented h1 = augmented h" for h1
    using that by (simp add: value_of_def fun_eq_iff)
  have "\<exists>K X h1. erase_unlink ?cb a root h = Some (up 0 K, erase_deficit foc, h1) \<and>
      erase_tree foc = plug K X \<and> rb_rep h1 root (plug K X) \<and>
      values_ok comb (value_of off h1) X \<and> above_ok comb (value_of off h1) K"
  proof (cases rule: erase_focus_cases [of l ctx c r])
    case no_left
    then obtain h1 where "erase_no_left a root h = (up 0 ctx, erase_deficit foc, h1)"
        "rb_rep h1 root (plug ctx (repaint c r))" "augmented h1 = augmented h"
      using erase_no_left_spec [of h root ctx a c r] rep by (auto simp: foc_def)
    then show ?thesis
      using no_left null v same [of h1] ctx_above [OF v(3)]
      by (auto simp: erase_unlink_def foc_def intro!: exI [of _ ctx] exI [of _ "repaint c r"])
  next
    case no_right
    then obtain h1 where "erase_no_right a root h = (up 0 ctx, 0, h1)"
        "rb_rep h1 root (plug ctx (repaint c l))" "augmented h1 = augmented h"
      using erase_no_right_spec [of h root ctx l a c] rep by (auto simp: foc_def)
    then show ?thesis
      using no_right null v same [of h1] ctx_above [OF v(3)]
      by (auto simp: erase_unlink_def foc_def intro!: exI [of _ ctx] exI [of _ "repaint c l"])
  next
    case (two sctx s d u)
    have sets: "a \<notin> nodes r" "nodes l \<inter> nodes r = {}" "ctx_nodes ctx \<inter> nodes r = {}" "s \<in> nodes r"
      using dist two(2) by (auto simp: nodes_def ctx_nodes_def in_order_plug)
    have "r \<noteq> Tip" using sets(4) by auto
    have "distinct (in_order r)" using dist by auto
    then obtain q h5 where h5: "detached h r sctx s u q h5"
        "detach_successor ?cb a h = Some (up s sctx, s, q, h5)"
        "values_ok comb (value_of off h5) (plug sctx u)" "value_of off h5 s = ?v a"
        "\<forall>b. b \<notin> nodes r \<longrightarrow> value_of off h5 b = ?v b"
      using detach_values [OF comp node(5,3) _ two(2,3,4,5) v(2) sets(1)] by blast
    obtain h6 where h6: "replace_by_successor a root (up s sctx, s, q, h5) = (s, erase_deficit foc, h6)"
        "rb_rep h6 root (erase_tree foc)" "augmented h6 = augmented h5"
      using replace_spec [OF node(1,2) two(1) dist h5(1) two(2,3)] two(6) by (auto simp: foc_def)
    have v6: "value_of off h6 = value_of off h5" using h6(3) by (simp add: value_of_def fun_eq_iff)
    have foc: "erase_tree foc = plug (InRight l s c # ctx) (plug sctx (repaint Black u))"
      by (simp add: foc_def two(6))
    have "values_ok comb (value_of off h6) l"
      using v(1) values_ok_cong [of l "value_of off h6" ?v comb] h5(5) sets(2) v6 by fastforce
    moreover have "ctx_ok comb (value_of off h6) ctx (Some (value_of off h6 s))"
      using v(3) ctx_ok_cong [of ctx "value_of off h6" ?v comb] h5(4,5) sets(3) v6 by fastforce
    ultimately have "above_ok comb (value_of off h6) (InRight l s c # ctx)" by simp
    moreover have "values_ok comb (value_of off h6) (plug sctx (repaint Black u))"
      using h5(3) v6 by (simp add: values_ok_plug)
    moreover have "erase_unlink ?cb a root h = Some (up 0 (InRight l s c # ctx), erase_deficit foc, h6)"
      using two(1) \<open>r \<noteq> Tip\<close> null h5(2) h6(1) by (simp add: erase_unlink_def)
    ultimately show ?thesis using foc h6(2) by metis
  qed
  then obtain K X h1 where h1: "erase_unlink ?cb a root h = Some (up 0 K, erase_deficit foc, h1)"
      "erase_tree foc = plug K X" "rb_rep h1 root (plug K X)"
      "values_ok comb (value_of off h1) X" "above_ok comb (value_of off h1) K" by blast
  obtain h' where h': "rb_propagate f off (up 0 K) 0 h1 = Some h'"
      "values_ok comb (value_of off h') (plug K X)"
    using propagate_to_root [OF comp h1(3,4,5)] by blast
  have "rb_erase_augmented_raw ?cb a root h = Some (erase_deficit foc, h')"
    using h1(1) h'(1) by (simp add: rb_erase_augmented_raw_def RB_DECLARE_CALLBACKS_def)
  moreover have "rb_rep h' root (erase_tree foc)"
    using generated.erase_refines [OF rep, of f off] calculation by (auto simp: foc_def)
  ultimately show ?thesis using h'(2) h1(2) by auto
qed

section \<open>A tree of subtree sizes\<close>

text \<open>A concrete client: five nodes, each with the number of nodes below it.\<close>

definition subtree_size :: "addr \<Rightarrow> addr \<Rightarrow> nat rb_heap \<Rightarrow> nat" where
  "subtree_size off node h =
     (let size = (\<lambda>p. if p = 0 then 0 else augmented h (rb_entry p off))
      in Suc (size (rb_left h (node + off)) + size (rb_right h (node + off))))"

definition size_comb :: "addr \<Rightarrow> nat option \<Rightarrow> nat option \<Rightarrow> nat" where
  "size_comb a x y = Suc (case_option 0 (\<lambda>n. n) x + case_option 0 (\<lambda>n. n) y)"

lemma subtree_size_computes: "computes (subtree_size off) off size_comb"
  by (simp add: computes_def subtree_size_def size_comb_def child_value_def value_of_def rb_entry_def Let_def)

definition sample_tree :: ctree where
  "sample_tree = Branch (Branch Tip 32 Black Tip) 64 Black
     (Branch (Branch Tip 80 Red Tip) 96 Black (Branch Tip 112 Red Tip))"

definition sample_heap :: "nat rb_heap" where
  "sample_heap =
     \<lparr>rb_parent_color = (\<lambda>a. if a = 64 then 1 else if a = 32 \<or> a = 96 then 65 else 96),
      rb_right = (\<lambda>a. if a = 64 then 96 else if a = 96 then 112 else 0),
      rb_left = (\<lambda>a. if a = 64 then 32 else if a = 96 then 80 else 0),
      rb_node = (\<lambda>a. 64),
      augmented = (\<lambda>a. if a = 56 then 5 else if a = 88 then 3 else 1)\<rparr>"

lemma sample_facts:
  "rb_rep sample_heap 4 sample_tree" "red_black sample_tree"
  "values_ok size_comb (value_of 8 sample_heap) sample_tree"
  "nodes sample_tree = {32, 64, 80, 96, 112}"
  by (code_simp, code_simp, code_simp, auto simp: sample_tree_def)

section \<open>Removal, as the callers see it\<close>

text \<open>
  C1: A removal with generated callbacks returns: the search for the successor and both
  propagations end.  The heap then holds a tree with the same nodes in the same order less
  the removed one, with all parent pointers and no sharing.
\<close>

theorem rb_erase_removes:
  assumes "rb_rep h root t" "a \<in> nodes t"
  shows "\<exists>rebalance h' t'.
    rb_erase_augmented_raw (RB_DECLARE_CALLBACKS rbcompute off) a root h = Some (rebalance, h') \<and>
    rb_rep h' root t' \<and> in_order t' = remove1 a (in_order t)"
proof -
  obtain ctx l c r where t: "t = plug ctx (Branch l a c r)" using node_context [OF assms(2)] by blast
  have "distinct (in_order t)" using assms(1) by (simp add: rb_rep_def)
  then have "in_order (erase_tree (erase_focus ctx l c r)) = remove1 a (in_order t)"
    unfolding t by (auto simp: in_order_erase in_order_plug remove1_append)
  with generated.erase_refines [of h root ctx l a c r rbcompute off] assms(1) t show ?thesis by blast
qed

lemma rb_erase_removes_witness:
  "\<exists>rebalance h' t'.
    rb_erase_augmented_raw (RB_DECLARE_CALLBACKS (subtree_size 8) 8) 64 4 sample_heap = Some (rebalance, h') \<and>
    rb_rep h' 4 t' \<and> in_order t' = remove1 64 (in_order sample_tree)"
  by (rule rb_erase_removes) (simp_all add: sample_facts)

text \<open>
  C3: Removal from a red-black tree.  A null result says that the tree is red-black again.
  Otherwise the result is the parent of an empty place, and one black node there would make
  the tree red-black: this is the state from which \<open>__rb_erase_color\<close> starts.
\<close>

theorem rb_erase_red_black:
  assumes "rb_rep h root t" "a \<in> nodes t" "red_black t"
  shows "\<exists>rebalance h' t'.
    rb_erase_augmented_raw (RB_DECLARE_CALLBACKS rbcompute off) a root h = Some (rebalance, h') \<and>
    rb_rep h' root t' \<and>
    (if rebalance = 0 then red_black t'
     else \<exists>ctx. t' = plug ctx Tip \<and> up 0 ctx = rebalance \<and>
       (\<forall>x. red_black (plug ctx (Branch Tip x Black Tip))))"
proof -
  obtain ctx l c r where t: "t = plug ctx (Branch l a c r)" using node_context [OF assms(2)] by blast
  obtain K X d where foc: "erase_focus ctx l c r = (K, X, d)" using prod_cases3 by blast
  obtain h' where h': "rb_erase_augmented_raw (RB_DECLARE_CALLBACKS rbcompute off) a root h =
      Some (erase_deficit (K, X, d), h')" "rb_rep h' root (plug K X)"
    using generated.erase_refines [of h root ctx l a c r rbcompute off] assms(1) t foc by auto
  have black: "if X = Tip \<and> d = Black then red_black (plug K (Branch Tip x Black Tip))
      else red_black (plug K X)" for x
    using erase_focus_red_black [OF _ foc] assms(3) t by blast
  obtain p where "is_ctx h' 0 (rb_node h' root) K p"
    using h'(2) by (auto simp: rb_rep_def is_tree_plug)
  then have zero: "up 0 K = 0 \<longleftrightarrow> K = []" by (rule up_zero_iff)
  show ?thesis
  proof (cases "X = Tip \<and> d = Black \<and> K \<noteq> []")
    case True
    then have "erase_deficit (K, X, d) = up 0 K" "up 0 K \<noteq> 0" using zero by simp_all
    with True black h' show ?thesis by auto
  next
    case False
    then have "erase_deficit (K, X, d) = 0" using zero by auto
    moreover have "red_black (plug K X)"
      using False black by (cases "X = Tip \<and> d = Black") (auto simp: red_black_def)
    ultimately show ?thesis using h' by (intro exI conjI) auto
  qed
qed

lemma rb_erase_red_black_witness:
  "\<exists>rebalance h' t'.
    rb_erase_augmented_raw (RB_DECLARE_CALLBACKS (subtree_size 8) 8) 32 4 sample_heap = Some (rebalance, h') \<and>
    rb_rep h' 4 t' \<and>
    (if rebalance = 0 then red_black t'
     else \<exists>ctx. t' = plug ctx Tip \<and> up 0 ctx = rebalance \<and>
       (\<forall>x. red_black (plug ctx (Branch Tip x Black Tip))))"
  by (rule rb_erase_red_black [OF sample_facts(1) _ sample_facts(2)]) (simp add: sample_facts)

text \<open>
  C2: When the client's function combines a node with the values of its children, and every
  value of the tree is right, every value is right after the removal, although the
  propagation stops at the first value that does not change.
\<close>

theorem rb_erase_keeps_values:
  assumes "rb_rep h root t" "a \<in> nodes t"
    and "computes rbcompute off comb" "values_ok comb (value_of off h) t"
  shows "\<exists>rebalance h' t'.
    rb_erase_augmented_raw (RB_DECLARE_CALLBACKS rbcompute off) a root h = Some (rebalance, h') \<and>
    rb_rep h' root t' \<and> in_order t' = remove1 a (in_order t) \<and> values_ok comb (value_of off h') t'"
proof -
  obtain ctx l c r where t: "t = plug ctx (Branch l a c r)" using node_context [OF assms(2)] by blast
  have "distinct (in_order t)" using assms(1) by (simp add: rb_rep_def)
  then have "in_order (erase_tree (erase_focus ctx l c r)) = remove1 a (in_order t)"
    unfolding t by (auto simp: in_order_erase in_order_plug remove1_append)
  with erase_values [OF assms(3), of h root ctx l a c r] assms(1,4) t show ?thesis by blast
qed

lemma rb_erase_keeps_values_witness:
  "\<exists>rebalance h' t'.
    rb_erase_augmented_raw (RB_DECLARE_CALLBACKS (subtree_size 8) 8) 64 4 sample_heap = Some (rebalance, h') \<and>
    rb_rep h' 4 t' \<and> in_order t' = remove1 64 (in_order sample_tree) \<and>
    values_ok size_comb (value_of 8 h') t'"
  by (rule rb_erase_keeps_values) (simp_all add: sample_facts subtree_size_computes)

section \<open>Linking a node\<close>

text \<open>The link that leads to the hole of a context.\<close>

fun link_of :: "addr \<Rightarrow> step list \<Rightarrow> rb_link" where
  "link_of root [] = RootLink root"
| "link_of root (InLeft a c r # ctx) = LeftLink a"
| "link_of root (InRight l a c # ctx) = RightLink a"

lemma link_node_rep:
  assumes rep: "rb_rep h root (plug ctx Tip)" and n: "n \<noteq> 0" "aligned n" "n \<notin> ctx_nodes ctx"
  shows "rb_rep (rb_link_node n (up 0 ctx) (link_of root ctx) h) root (plug ctx (Branch Tip n Red Tip))"
proof -
  define h3 where "h3 = set_left n 0 (set_right n 0 (set_pc n (up 0 ctx) h))"
  have link: "rb_link_node n (up 0 ctx) (link_of root ctx) h = set_link (link_of root ctx) n h3"
    by (simp add: rb_link_node_def h3_def)
  have dist: "distinct (before ctx @ after ctx)" using rep by (simp add: rb_rep_def in_order_plug)
  have "is_ctx h 0 (rb_node h root) ctx 0" using rep by (auto simp: rb_rep_def is_tree_plug)
  then have ctx: "is_ctx h3 0 (rb_node h3 root) ctx 0" using n(3) by (simp add: h3_def ctx_update)
  have "is_tree (set_link (link_of root ctx) n h3) (up 0 ctx) n (Branch Tip n Red Tip) \<and>
    is_ctx (set_link (link_of root ctx) n h3) 0 (rb_node (set_link (link_of root ctx) n h3) root) ctx n"
  proof (cases ctx)
    case Nil
    then show ?thesis using n by (simp add: h3_def node_ok_def RB_RED_def)
  next
    case (Cons s ctx')
    then show ?thesis
      using ctx n dist
      by (cases s) (auto simp: h3_def node_ok_def RB_RED_def nodes_def ctx_nodes_def tree_update ctx_update)
  qed
  moreover have "distinct (in_order (plug ctx (Branch Tip n Red Tip)))"
    using dist n(3) by (auto simp: in_order_plug ctx_nodes_def)
  ultimately show ?thesis unfolding link by (blast intro: rb_repI)
qed

text \<open>
  \<open>rb_link_node\<close> puts a node as a red leaf into an empty place of the tree, between its
  neighbours in order; a removal of that node returns null and gives the first tree back.
\<close>

theorem rb_link_then_erase:
  assumes "rb_rep h root (plug ctx Tip)" "n \<noteq> 0" "aligned n" "n \<notin> ctx_nodes ctx"
  shows "rb_rep (rb_link_node n (up 0 ctx) (link_of root ctx) h) root (plug ctx (Branch Tip n Red Tip)) \<and>
    in_order (plug ctx (Branch Tip n Red Tip)) = before ctx @ n # after ctx \<and>
    (\<exists>h'. rb_erase_augmented_raw (RB_DECLARE_CALLBACKS rbcompute off) n root
        (rb_link_node n (up 0 ctx) (link_of root ctx) h) = Some (0, h') \<and> rb_rep h' root (plug ctx Tip))"
  using link_node_rep [OF assms] generated.erase_refines [OF link_node_rep [OF assms], of rbcompute off]
  by (auto simp: in_order_plug erase_focus_def)

lemma rb_link_then_erase_witness:
  "let ctx = [InRight Tip 32 Black, InLeft 64 Black (Branch (Branch Tip 80 Red Tip) 96 Black (Branch Tip 112 Red Tip))];
       h = rb_link_node 48 32 (RightLink 32) sample_heap
   in rb_rep h 4 (plug ctx (Branch Tip 48 Red Tip)) \<and>
     (\<exists>h'. rb_erase_augmented_raw (RB_DECLARE_CALLBACKS (subtree_size 8) 8) 48 4 h = Some (0, h') \<and>
       rb_rep h' 4 (plug ctx Tip))"
  using rb_link_then_erase [of sample_heap 4
      "[InRight Tip 32 Black, InLeft 64 Black (Branch (Branch Tip 80 Red Tip) 96 Black (Branch Tip 112 Red Tip))]"
      48 "subtree_size 8" 8] sample_facts(1)
  by (simp add: sample_tree_def aligned_def)

text \<open>What the code computes there: the black leaf 32 leaves a deficit below 64.\<close>

lemma sample_runs:
  "map_option fst (rb_erase_augmented_raw (RB_DECLARE_CALLBACKS (subtree_size 8) 8) 32 4 sample_heap) = Some 64"
  "map_option fst (rb_erase_augmented_raw (RB_DECLARE_CALLBACKS (subtree_size 8) 8) 64 4 sample_heap) = Some 0"
  by code_simp+

end
