(* ===== verification/Irq.thy ===== *)
theory Irq
  imports Prelude
begin

text \<open>
  Interrupt masking (\<open>arch/arm/include/asm/proc-armv/system.h\<close>) and what it protects.  A
  statement that reads and writes a volatile object is a sequence of machine steps on local
  variables (a frame) and the machine; an interrupt handler may run before each step while
  interrupts are enabled.  The contract of the masking operations is the locale
  \<open>irq_masking\<close>, interpreted for the 32-bit and the 64-bit processor; inside it, every
  interleaving of a protected sequence is shown to be the sequence run at one point.
\<close>

section \<open>The masking operations\<close>

text \<open>
  \<open>local_irq_save\<close> yields the old state; \<open>msr cpsr_c\<close> writes the control field, the low
  byte of the status register, whose bit 7 masks interrupts and bit 6 fast interrupts.
\<close>

definition msr_cpsr_c :: "u32 \<Rightarrow> u32 \<Rightarrow> u32" where
  "msr_cpsr_c x cpsr = (cpsr AND NOT 0xFF) OR (x AND 0xFF)"

definition local_irq_save :: "u32 \<Rightarrow> u32 \<times> u32" where
  "local_irq_save cpsr =
     (let flags = cpsr;
          temp = flags OR 128
      in (flags, msr_cpsr_c temp cpsr))"

definition local_irq_restore :: "u32 \<Rightarrow> u32 \<Rightarrow> u32" where
  "local_irq_restore x cpsr = msr_cpsr_c x cpsr"

definition local_irq_enable :: "u32 \<Rightarrow> u32" where
  "local_irq_enable cpsr = (let temp = cpsr AND NOT 128 in msr_cpsr_c temp cpsr)"

definition local_irq_disable :: "u32 \<Rightarrow> u32" where
  "local_irq_disable cpsr = (let temp = cpsr OR 128 in msr_cpsr_c temp cpsr)"

definition local_save_flags :: "u32 \<Rightarrow> u32" where
  "local_save_flags cpsr = cpsr"

definition stf :: "u32 \<Rightarrow> u32" where
  "stf cpsr = (let temp = cpsr AND NOT 64 in msr_cpsr_c temp cpsr)"

definition clf :: "u32 \<Rightarrow> u32" where
  "clf cpsr = (let temp = cpsr OR 64 in msr_cpsr_c temp cpsr)"

text \<open>
  On the 64-bit processor the masks are bits 7 (interrupts) and 6 (fast interrupts) of
  \<open>daif\<close>; bits 1 and 0 of the immediate of \<open>daifset\<close> and \<open>daifclr\<close> name them.
\<close>

definition daifset :: "u64 \<Rightarrow> u64 \<Rightarrow> u64" where
  "daifset imm daif = daif OR push_bit 6 imm"

definition daifclr :: "u64 \<Rightarrow> u64 \<Rightarrow> u64" where
  "daifclr imm daif = daif AND NOT (push_bit 6 imm)"

definition arm64_irq_save :: "u64 \<Rightarrow> u64 \<times> u64" where
  "arm64_irq_save daif = (let flags = daif in (flags, daifset 3 daif))"

definition arm64_irq_restore :: "u64 \<Rightarrow> u64 \<Rightarrow> u64" where
  "arm64_irq_restore flags daif = flags"

definition arm64_irq_enable :: "u64 \<Rightarrow> u64" where
  "arm64_irq_enable daif = daifclr 3 daif"

definition arm64_irq_disable :: "u64 \<Rightarrow> u64" where
  "arm64_irq_disable daif = daifset 3 daif"

record 'c irq_ops =
  irq_save :: "'c \<Rightarrow> 'c \<times> 'c"
  irq_restore :: "'c \<Rightarrow> 'c \<Rightarrow> 'c"
  irq_enabled :: "'c \<Rightarrow> bool"

definition arm_irq :: "u32 irq_ops" where
  "arm_irq = \<lparr>irq_save = local_irq_save, irq_restore = local_irq_restore,
     irq_enabled = (\<lambda>cpsr. \<not> bit cpsr 7)\<rparr>"

definition arm64_irq :: "u64 irq_ops" where
  "arm64_irq = \<lparr>irq_save = arm64_irq_save, irq_restore = arm64_irq_restore,
     irq_enabled = (\<lambda>daif. \<not> bit daif 7)\<rparr>"

section \<open>Machine steps and interrupts\<close>

record 'c frame =
  flags :: 'c
  reg :: u32
  reg_hi :: u32
  result :: int

record ('c, 'm) machine =
  psr :: 'c
  mem :: 'm

type_synonym ('c, 'm) instr = "'c frame \<times> ('c, 'm) machine \<Rightarrow> 'c frame \<times> ('c, 'm) machine"
type_synonym ('c, 'm) config = "('c, 'm) instr list \<times> 'c frame \<times> ('c, 'm) machine"

definition save_flags :: "'c irq_ops \<Rightarrow> ('c, 'm) instr" where
  "save_flags irq = (\<lambda>(f, s). let (x, c) = irq_save irq (psr s) in (f\<lparr>flags := x\<rparr>, s\<lparr>psr := c\<rparr>))"

definition restore_flags :: "'c irq_ops \<Rightarrow> ('c, 'm) instr" where
  "restore_flags irq = (\<lambda>(f, s). (f, s\<lparr>psr := irq_restore irq (flags f) (psr s)\<rparr>))"

definition run :: "('c, 'm) instr list \<Rightarrow> 'c frame \<times> ('c, 'm) machine \<Rightarrow> 'c frame \<times> ('c, 'm) machine" where
  "run code st = fold (\<lambda>i. i) code st"

text \<open>
  A handler runs to its end, with interrupts masked, and the processor restores the status
  register on return, so that it changes the memory only.
\<close>

inductive exec_step ::
  "'c irq_ops \<Rightarrow> ('m \<Rightarrow> 'm) set \<Rightarrow> ('c, 'm) config \<Rightarrow> ('c, 'm) config \<Rightarrow> bool"
  for irq :: "'c irq_ops" and H :: "('m \<Rightarrow> 'm) set" where
  interrupt: "irq_enabled irq (psr s) \<Longrightarrow> h \<in> H \<Longrightarrow>
    exec_step irq H (code, f, s) (code, f, s\<lparr>mem := h (mem s)\<rparr>)"
| execute: "i (f, s) = (f', s') \<Longrightarrow> exec_step irq H (i # code, f, s) (code, f', s')"

inductive_cases exec_stepE: "exec_step irq H (code, f, s) cfg"

definition executes :: "'c irq_ops \<Rightarrow> ('m \<Rightarrow> 'm) set \<Rightarrow> ('c, 'm) config \<Rightarrow> ('c, 'm) config \<Rightarrow> bool" where
  "executes irq H = (exec_step irq H)\<^sup>*\<^sup>*"

text \<open>The memories that handlers alone can make of one.\<close>

definition handled :: "('m \<Rightarrow> 'm) set \<Rightarrow> 'm \<Rightarrow> 'm \<Rightarrow> bool" where
  "handled H = (\<lambda>m m'. \<exists>h \<in> H. m' = h m)\<^sup>*\<^sup>*"

lemma handled_refl [simp]: "handled H m m"
  by (simp add: handled_def)

lemma handled_step: "handled H m m' \<Longrightarrow> h \<in> H \<Longrightarrow> handled H m (h m')"
  unfolding handled_def by (rule rtranclp.rtrancl_into_rtrancl) auto

lemma run_simps [simp]:
  "run [] st = st" "run (i # code) st = run code (i st)" "run (c @ c') st = run c' (run c st)"
  by (simp_all add: run_def)

text \<open>Running without an interrupt is one of the executions.\<close>

lemma run_executes: "executes irq H (code, f, s) ([], run code (f, s))"
proof (induction code arbitrary: f s)
  case (Cons i code)
  obtain f' s' where "i (f, s) = (f', s')" by fastforce
  then show ?case
    using Cons [of f' s'] execute [of i f s f' s' irq H code]
    by (auto simp: executes_def intro: converse_rtranclp_into_rtranclp)
qed (simp add: executes_def)

text \<open>A step that leaves the status register and the saved flags alone.\<close>

definition inner :: "('c, 'm) instr \<Rightarrow> bool" where
  "inner i \<longleftrightarrow> (\<forall>f s. psr (snd (i (f, s))) = psr s \<and> flags (fst (i (f, s))) = flags f)"

definition protected :: "'c irq_ops \<Rightarrow> ('c, 'm) instr list \<Rightarrow> ('c, 'm) instr list" where
  "protected irq body = save_flags irq # body @ [restore_flags irq]"

text \<open>An execution of two pieces of code is one of each, one after the other.\<close>

lemma executes_append:
  assumes "executes irq H (c1 @ c2, f, s) ([], f', s')"
  shows "\<exists>f1 s1. executes irq H (c1, f, s) ([], f1, s1) \<and> executes irq H (c2, f1, s1) ([], f', s')"
proof -
  have "\<exists>f1 s1. executes irq H (c1, f, s) ([], f1, s1) \<and> executes irq H (c2, f1, s1) ([], f', s')"
    if "(exec_step irq H)\<^sup>*\<^sup>* cfg cfg'" "cfg = (c1 @ c2, f, s)" "cfg' = ([], f', s')" for cfg cfg' c1 f s
    using that
  proof (induction arbitrary: c1 f s rule: converse_rtranclp_induct)
    case base
    then show ?case by (auto simp: executes_def)
  next
    case (step cfg cfg1)
    show ?case
    proof (cases c1)
      case Nil
      have "executes irq H (c2, f, s) ([], f', s')"
        using step.hyps step.prems Nil by (auto simp: executes_def intro: converse_rtranclp_into_rtranclp)
      then show ?thesis using Nil by (auto simp: executes_def)
    next
      case (Cons i c1')
      from step.hyps(1) [unfolded step.prems(1) Cons] show ?thesis
      proof (cases rule: exec_step.cases)
        case (interrupt h)
        then obtain f1 s1 where "executes irq H (c1, f, s\<lparr>mem := h (mem s)\<rparr>) ([], f1, s1)"
          "executes irq H (c2, f1, s1) ([], f', s')"
          using step.IH [of c1 f "s\<lparr>mem := h (mem s)\<rparr>"] step.prems(2) Cons by auto
        moreover have "exec_step irq H (c1, f, s) (c1, f, s\<lparr>mem := h (mem s)\<rparr>)"
          using interrupt by (intro exec_step.interrupt) auto
        ultimately show ?thesis
          by (auto simp: executes_def intro: converse_rtranclp_into_rtranclp)
      next
        case (execute i' g t code)
        then have "cfg1 = (c1' @ c2, g, t)" by simp
        from step.IH [OF this step.prems(2)] obtain f1 s1 where
          "executes irq H (c1', g, t) ([], f1, s1)" "executes irq H (c2, f1, s1) ([], f', s')" by blast
        moreover have "exec_step irq H (c1, f, s) (c1', g, t)"
          using execute by (auto simp: Cons intro: exec_step.execute)
        ultimately show ?thesis
          by (auto simp: executes_def intro: converse_rtranclp_into_rtranclp)
      qed
    qed
  qed
  with assms show ?thesis by (simp add: executes_def)
qed

text \<open>Steps on local variables only: interrupts do not matter to them.\<close>

definition local_step :: "('c frame \<Rightarrow> 'c frame) \<Rightarrow> ('c, 'm) instr" where
  "local_step g = (\<lambda>(f, s). (g f, s))"

lemma run_local [simp]: "run (map local_step gs) (f, s) = (fold (\<lambda>g. g) gs f, s)"
  by (induction gs arbitrary: f) (simp_all add: local_step_def)

text \<open>A protected sequence of inner steps, with local steps after it.\<close>

definition guarded :: "'c irq_ops \<Rightarrow> ('c, 'm) instr list \<Rightarrow> bool" where
  "guarded irq code \<longleftrightarrow>
     (\<exists>body gs. code = protected irq body @ map local_step gs \<and> (\<forall>i \<in> set body. inner i))"

lemma guardedI:
  "\<forall>i \<in> set body. inner i \<Longrightarrow> guarded irq (protected irq body)"
  "\<forall>i \<in> set body. inner i \<Longrightarrow> guarded irq (protected irq body @ [local_step g])"
  unfolding guarded_def
  by (rule exI [of _ body], rule exI [of _ "[]"], simp)
    (rule exI [of _ body], rule exI [of _ "[g]"], simp)

lemma executes_local:
  assumes "executes irq H (map local_step gs, f, s) ([], f', s')"
  shows "f' = fold (\<lambda>g. g) gs f \<and> psr s' = psr s \<and> handled H (mem s) (mem s')"
proof -
  have "f' = fold (\<lambda>g. g) gs f \<and> psr s' = psr s \<and> handled H (mem s) (mem s')"
    if "(exec_step irq H)\<^sup>*\<^sup>* cfg cfg'" "cfg = (map local_step gs, f, s)" "cfg' = ([], f', s')"
    for cfg cfg' gs f s
    using that
  proof (induction arbitrary: gs f s rule: converse_rtranclp_induct)
    case (step cfg cfg1)
    from step.hyps(1) [unfolded step.prems(1)] show ?case
    proof (cases rule: exec_step.cases)
      case (interrupt h)
      with step.IH [of gs f "s\<lparr>mem := h (mem s)\<rparr>"] step.prems(2) show ?thesis
        by (auto simp: handled_def intro: converse_rtranclp_into_rtranclp)
    next
      case (execute i g t code)
      then obtain g0 gs' where "gs = g0 # gs'" by (cases gs) auto
      with execute step.IH [of gs' "g0 f" s] step.prems(2) show ?thesis
        by (auto simp: local_step_def)
    qed
  qed auto
  with assms show ?thesis by (simp add: executes_def)
qed

section \<open>Protected sequences\<close>

locale irq_masking =
  fixes irq :: "'c irq_ops"
  assumes save_masks: "irq_save irq c = (x, c') \<Longrightarrow> \<not> irq_enabled irq c'"
    and restore_undoes: "irq_save irq c = (x, c') \<Longrightarrow> irq_restore irq x c' = c"
begin

text \<open>The status register and the flags are fixed inside the sequence.\<close>

lemma run_inner:
  "\<forall>i \<in> set body. inner i \<Longrightarrow> run body (f, s) = (f', s') \<Longrightarrow> psr s' = psr s \<and> flags f' = flags f"
proof (induction body arbitrary: f s)
  case (Cons i body)
  obtain f1 s1 where i: "i (f, s) = (f1, s1)" by fastforce
  then have "psr s1 = psr s" "flags f1 = flags f"
    using Cons.prems(1) by (auto simp: inner_def dest!: spec [of _ f] spec [of _ s])
  with i Cons show ?case by auto
qed simp

lemma protected_state:
  assumes "\<forall>i \<in> set body. inner i"
  shows "psr (snd (run (protected irq body) (f, s))) = psr s"
proof -
  obtain x c where sv: "irq_save irq (psr s) = (x, c)" by fastforce
  obtain f1 s1 where "run body (f\<lparr>flags := x\<rparr>, s\<lparr>psr := c\<rparr>) = (f1, s1)" by fastforce
  with run_inner [OF assms this] sv show ?thesis
    using restore_undoes [OF sv] by (simp add: protected_def save_flags_def restore_flags_def)
qed

text \<open>The three phases of an execution: before, inside and after the protected part.\<close>

definition phase ::
  "('m \<Rightarrow> 'm) set \<Rightarrow> ('c, 'm) instr list \<Rightarrow> 'c frame \<Rightarrow> ('c, 'm) machine \<Rightarrow> ('c, 'm) config \<Rightarrow> bool" where
  "phase H body f0 s0 cfg \<longleftrightarrow> (case cfg of (code, f, s) \<Rightarrow>
     (code = protected irq body \<and> f = f0 \<and> psr s = psr s0 \<and> handled H (mem s0) (mem s)) \<or>
     (\<exists>m done rest. body = done @ rest \<and> code = rest @ [restore_flags irq] \<and>
        handled H (mem s0) m \<and> (f, s) = run (save_flags irq # done) (f0, s0\<lparr>mem := m\<rparr>)) \<or>
     (code = [] \<and> (\<exists>m f1 s1. handled H (mem s0) m \<and>
        run (protected irq body) (f0, s0\<lparr>mem := m\<rparr>) = (f1, s1) \<and>
        f = f1 \<and> psr s = psr s1 \<and> handled H (mem s1) (mem s))))"

lemma phase_step:
  assumes inner: "\<forall>i \<in> set body. inner i"
    and "exec_step irq H cfg cfg'" "phase H body f0 s0 cfg"
  shows "phase H body f0 s0 cfg'"
proof -
  obtain code f s where cfg: "cfg = (code, f, s)" by (cases cfg) auto
  from assms(3) consider
      (before) "code = protected irq body" "f = f0" "psr s = psr s0" "handled H (mem s0) (mem s)"
    | (inside) m dn rest where "body = dn @ rest" "code = rest @ [restore_flags irq]"
        "handled H (mem s0) m" "(f, s) = run (save_flags irq # dn) (f0, s0\<lparr>mem := m\<rparr>)"
    | (behind) m f1 s1 where "code = []" "handled H (mem s0) m"
        "run (protected irq body) (f0, s0\<lparr>mem := m\<rparr>) = (f1, s1)" "f = f1" "psr s = psr s1"
        "handled H (mem s1) (mem s)"
    unfolding phase_def cfg by auto
  then show ?thesis
  proof cases
    case before
    from assms(2) [unfolded cfg] show ?thesis
    proof (cases rule: exec_step.cases)
      case (interrupt h)
      then show ?thesis using before by (auto simp: phase_def handled_step)
    next
      case (execute i f' s' code')
      have same: "s0\<lparr>mem := mem s\<rparr> = s" using before(3) by (intro machine.equality) simp_all
      have "(f', s') = run [save_flags irq] (f0, s0\<lparr>mem := mem s\<rparr>)"
        "code' = body @ [restore_flags irq]"
        using before execute by (simp_all add: protected_def same)
      moreover have "cfg' = (code', f', s')" using execute by simp
      ultimately show ?thesis
        using before(4) by (auto simp: phase_def intro!: exI [of _ "mem s"] exI [of _ "[]"])
    qed
  next
    case inside
    have masked: "\<not> irq_enabled irq (psr s)"
    proof -
      obtain x c where sv: "irq_save irq (psr s0) = (x, c)" by fastforce
      have "\<forall>i \<in> set dn. inner i" using inner inside(1) by auto
      from run_inner [OF this, of "f0\<lparr>flags := x\<rparr>" "s0\<lparr>mem := m, psr := c\<rparr>" f s] inside(4) sv
      have "psr s = c" by (simp add: save_flags_def)
      with save_masks [OF sv] show ?thesis by simp
    qed
    from assms(2) [unfolded cfg] show ?thesis
    proof (cases rule: exec_step.cases)
      case (interrupt h)
      with masked show ?thesis by simp
    next
      case (execute i f' s' code')
      then have cfg': "cfg' = (code', f', s')" by simp
      show ?thesis
      proof (cases rest)
        case Nil
        then have "code' = []" "(f', s') = run (protected irq body) (f0, s0\<lparr>mem := m\<rparr>)"
          using execute inside by (simp_all add: protected_def)
        then show ?thesis using cfg' inside(3) by (auto simp: phase_def)
      next
        case (Cons j rest')
        then have "body = (dn @ [j]) @ rest'" "code' = rest' @ [restore_flags irq]"
          "(f', s') = run (save_flags irq # dn @ [j]) (f0, s0\<lparr>mem := m\<rparr>)"
          using execute inside by simp_all
        then show ?thesis using cfg' inside(3) unfolding phase_def by blast
      qed
    qed
  next
    case behind
    from assms(2) [unfolded cfg behind(1)] show ?thesis
      by (cases rule: exec_step.cases) (use behind in \<open>auto simp: phase_def intro: handled_step\<close>)
  qed
qed

text \<open>Every execution of a protected sequence is the sequence at one point in time.\<close>

lemma protected_atomic:
  assumes "\<forall>i \<in> set body. inner i" "executes irq H (protected irq body, f0, s0) ([], f, s)"
  shows "\<exists>m f1 s1. handled H (mem s0) m \<and> run (protected irq body) (f0, s0\<lparr>mem := m\<rparr>) = (f1, s1) \<and>
    f = f1 \<and> psr s = psr s1 \<and> handled H (mem s1) (mem s)"
proof -
  have start: "phase H body f0 s0 (protected irq body, f0, s0)" by (simp add: phase_def)
  have "phase H body f0 s0 cfg" if "executes irq H (protected irq body, f0, s0) cfg" for cfg
    using that unfolding executes_def
    by (induction rule: rtranclp_induct) (auto simp: start intro: phase_step [OF assms(1)])
  from this [OF assms(2)] show ?thesis by (auto simp: phase_def protected_def)
qed

lemma guarded_atomic:
  assumes "guarded irq code" "executes irq H (code, f0, s0) ([], f, s)"
  shows "\<exists>m f1 s1. handled H (mem s0) m \<and> run code (f0, s0\<lparr>mem := m\<rparr>) = (f1, s1) \<and>
    f = f1 \<and> psr s = psr s0 \<and> psr s1 = psr s0 \<and> handled H (mem s1) (mem s)"
proof -
  obtain body gs where code: "code = protected irq body @ map local_step gs" "\<forall>i \<in> set body. inner i"
    using assms(1) by (auto simp: guarded_def)
  obtain f2 s2 where ex: "executes irq H (protected irq body, f0, s0) ([], f2, s2)"
    "executes irq H (map local_step gs, f2, s2) ([], f, s)"
    using executes_append assms(2) unfolding code(1) by blast
  obtain m f1 s1 where m: "handled H (mem s0) m"
      "run (protected irq body) (f0, s0\<lparr>mem := m\<rparr>) = (f1, s1)"
      "f2 = f1" "psr s2 = psr s1" "handled H (mem s1) (mem s2)"
    using protected_atomic [OF code(2) ex(1)] by blast
  have local: "f = fold (\<lambda>g. g) gs f2" "psr s = psr s2" "handled H (mem s2) (mem s)"
    using executes_local [OF ex(2)] by simp_all
  have "psr s1 = psr s0"
    using protected_state [OF code(2), of f0 "s0\<lparr>mem := m\<rparr>"] m(2) by simp
  moreover have "handled H (mem s1) (mem s)"
    using m(5) local(3) unfolding handled_def by (rule rtranclp_trans)
  ultimately show ?thesis
    using m local code(1) by (intro exI [of _ m] exI [of _ f] exI [of _ s1]) simp
qed

end

lemma msr_bits [word_bits]: "bit (msr_cpsr_c x c) n \<longleftrightarrow> (if n < 8 then bit x n else bit c n)"
proof -
  have low: "(0xFF :: u32) = mask 8" by (simp add: mask_eq_exp_minus_1)
  show ?thesis
    unfolding msr_cpsr_c_def low by (auto simp: word_bits dest: bit_imp_le_length)
qed

lemma power_bits: "bit (x OR 128 :: u32) n \<longleftrightarrow> bit x n \<or> n = 7" "bit (x OR 64 :: u32) n \<longleftrightarrow> bit x n \<or> n = 6"
proof -
  have eq: "(128 :: u32) = push_bit 7 1" "(64 :: u32) = push_bit 6 1" by simp_all
  show "bit (x OR 128 :: u32) n \<longleftrightarrow> bit x n \<or> n = 7" "bit (x OR 64 :: u32) n \<longleftrightarrow> bit x n \<or> n = 6"
    unfolding eq by (simp_all only: bit_or_iff bit_push_bit_iff bit_1_iff) auto
qed

interpretation arm: irq_masking arm_irq
  by unfold_locales
    (auto simp: arm_irq_def local_irq_save_def local_irq_restore_def Let_def word_bits power_bits
      intro!: word_eq_by_bits split: if_splits)

interpretation arm64: irq_masking arm64_irq
  by unfold_locales
    (auto simp: arm64_irq_def arm64_irq_save_def arm64_irq_restore_def daifset_def Let_def
      bit_or_iff bit_push_bit_iff)

end
