(* ===== verification/Atomic.thy ===== *)
theory Atomic
  imports Irq Unaligned
begin

text \<open>
  The counters of \<open>include/asm-generic/atomic.h\<close> and \<open>atomic-long.h\<close> and the exchange of
  \<open>arch/arm/include/asm/proc-armv/system.h\<close>, as the machine steps of each function: a
  volatile object is read and written by steps of their own, and a 64-bit object of a 32-bit
  processor by two words, the lower one first.  The memory is that of the unaligned
  accesses, of a little-endian processor.  Counters wrap around; that \<open>int\<close> overflow is
  undefined in ISO C is left aside, as these functions rely on it.
\<close>

section \<open>Steps\<close>

definition rd32 :: "bytemem \<Rightarrow> nat \<Rightarrow> u32" where
  "rd32 m p = native_load LittleEndian 4 m p"

definition wr32 :: "u32 \<Rightarrow> nat \<Rightarrow> bytemem \<Rightarrow> bytemem" where
  "wr32 v p m = native_store LittleEndian 4 v p m"

definition rd64 :: "bytemem \<Rightarrow> nat \<Rightarrow> u64" where
  "rd64 m p = native_load LittleEndian 8 m p"

type_synonym 'c code = "('c, bytemem) instr list"

definition load_reg :: "nat \<Rightarrow> ('c, bytemem) instr" where
  "load_reg p = (\<lambda>(f, s). (f\<lparr>reg := rd32 (mem s) p\<rparr>, s))"

definition store_reg :: "nat \<Rightarrow> ('c, bytemem) instr" where
  "store_reg p = (\<lambda>(f, s). (f, s\<lparr>mem := wr32 (reg f) p (mem s)\<rparr>))"

definition load_hi :: "nat \<Rightarrow> ('c, bytemem) instr" where
  "load_hi p = (\<lambda>(f, s). (f\<lparr>reg_hi := rd32 (mem s) p\<rparr>, s))"

definition store_hi :: "nat \<Rightarrow> ('c, bytemem) instr" where
  "store_hi p = (\<lambda>(f, s). (f, s\<lparr>mem := wr32 (reg_hi f) p (mem s)\<rparr>))"

definition change_reg :: "(u32 \<Rightarrow> u32) \<Rightarrow> ('c, bytemem) instr" where
  "change_reg g = (\<lambda>(f, s). (f\<lparr>reg := g (reg f)\<rparr>, s))"

text \<open>The pair of registers as one 64-bit value.\<close>

definition pair64 :: "u32 \<Rightarrow> u32 \<Rightarrow> u64" where
  "pair64 hi lo = push_bit 32 (ucast hi) OR ucast lo"

definition change_pair :: "(u64 \<Rightarrow> u64) \<Rightarrow> ('c, bytemem) instr" where
  "change_pair g = (\<lambda>(f, s).
     let x = g (pair64 (reg_hi f) (reg f))
     in (f\<lparr>reg := ucast x, reg_hi := ucast (drop_bit 32 x)\<rparr>, s))"

definition set_result :: "(u32 \<Rightarrow> bool) \<Rightarrow> ('c, bytemem) instr" where
  "set_result g = (\<lambda>(f, s). (f\<lparr>result := c_bool (g (reg f))\<rparr>, s))"

section \<open>atomic.h\<close>

definition atomic_read :: "nat \<Rightarrow> 'c code" where
  "atomic_read v = [load_reg v]"

definition atomic_set :: "nat \<Rightarrow> s32 \<Rightarrow> 'c code" where
  "atomic_set v i = [change_reg (\<lambda>_. i), store_reg v]"

definition atomic_add :: "'c irq_ops \<Rightarrow> s32 \<Rightarrow> nat \<Rightarrow> 'c code" where
  "atomic_add irq i v = protected irq [load_reg v, change_reg (\<lambda>x. x + i), store_reg v]"

definition atomic_sub :: "'c irq_ops \<Rightarrow> s32 \<Rightarrow> nat \<Rightarrow> 'c code" where
  "atomic_sub irq i v = protected irq [load_reg v, change_reg (\<lambda>x. x - i), store_reg v]"

definition atomic_inc :: "'c irq_ops \<Rightarrow> nat \<Rightarrow> 'c code" where
  "atomic_inc irq v = protected irq [load_reg v, change_reg (\<lambda>x. x + 1), store_reg v]"

definition atomic_dec :: "'c irq_ops \<Rightarrow> nat \<Rightarrow> 'c code" where
  "atomic_dec irq v = protected irq [load_reg v, change_reg (\<lambda>x. x - 1), store_reg v]"

text \<open>The value returned is compared after interrupts are enabled again.\<close>

definition atomic_dec_and_test :: "'c irq_ops \<Rightarrow> nat \<Rightarrow> 'c code" where
  "atomic_dec_and_test irq v =
     protected irq [load_reg v, change_reg (\<lambda>val. val - 1), store_reg v] @
     [set_result (\<lambda>val. val = 0)]"

definition atomic_add_negative :: "'c irq_ops \<Rightarrow> s32 \<Rightarrow> nat \<Rightarrow> 'c code" where
  "atomic_add_negative irq i v =
     protected irq [load_reg v, change_reg (\<lambda>val. val + i), store_reg v] @
     [set_result (\<lambda>val. sint val < 0)]"

definition atomic_clear_mask :: "'c irq_ops \<Rightarrow> u32 \<Rightarrow> nat \<Rightarrow> 'c code" where
  "atomic_clear_mask irq m a = protected irq [load_reg a, change_reg (\<lambda>x. x AND NOT m), store_reg a]"

text \<open>The 64-bit counters of a 32-bit processor.\<close>

definition atomic64_read :: "nat \<Rightarrow> 'c code" where
  "atomic64_read v = [load_reg v, load_hi (v + 4)]"

definition atomic64_set :: "nat \<Rightarrow> u64 \<Rightarrow> 'c code" where
  "atomic64_set v i = [change_pair (\<lambda>_. i), store_reg v, store_hi (v + 4)]"

definition update64 :: "(u64 \<Rightarrow> u64) \<Rightarrow> nat \<Rightarrow> 'c code" where
  "update64 g v = [load_reg v, load_hi (v + 4), change_pair g, store_reg v, store_hi (v + 4)]"

definition atomic64_add :: "'c irq_ops \<Rightarrow> s64 \<Rightarrow> nat \<Rightarrow> 'c code" where
  "atomic64_add irq i v = protected irq (update64 (\<lambda>x. x + i) v)"

definition atomic64_sub :: "'c irq_ops \<Rightarrow> s64 \<Rightarrow> nat \<Rightarrow> 'c code" where
  "atomic64_sub irq i v = protected irq (update64 (\<lambda>x. x - i) v)"

definition atomic64_inc :: "'c irq_ops \<Rightarrow> nat \<Rightarrow> 'c code" where
  "atomic64_inc irq v = protected irq (update64 (\<lambda>x. x + 1) v)"

definition atomic64_dec :: "'c irq_ops \<Rightarrow> nat \<Rightarrow> 'c code" where
  "atomic64_dec irq v = protected irq (update64 (\<lambda>x. x - 1) v)"

section \<open>atomic-long.h\<close>

text \<open>A \<open>long\<close> has 32 bits, so that \<open>atomic_long_t\<close> is \<open>atomic_t\<close>.\<close>

definition atomic_long_read :: "nat \<Rightarrow> 'c code" where
  "atomic_long_read l = (let v = l in atomic_read v)"

definition atomic_long_set :: "nat \<Rightarrow> s32 \<Rightarrow> 'c code" where
  "atomic_long_set l i = (let v = l in atomic_set v i)"

definition atomic_long_inc :: "'c irq_ops \<Rightarrow> nat \<Rightarrow> 'c code" where
  "atomic_long_inc irq l = (let v = l in atomic_inc irq v)"

definition atomic_long_dec :: "'c irq_ops \<Rightarrow> nat \<Rightarrow> 'c code" where
  "atomic_long_dec irq l = (let v = l in atomic_dec irq v)"

definition atomic_long_add :: "'c irq_ops \<Rightarrow> s32 \<Rightarrow> nat \<Rightarrow> 'c code" where
  "atomic_long_add irq i l = (let v = l in atomic_add irq i v)"

definition atomic_long_sub :: "'c irq_ops \<Rightarrow> s32 \<Rightarrow> nat \<Rightarrow> 'c code" where
  "atomic_long_sub irq i l = (let v = l in atomic_sub irq i v)"

section \<open>The exchange\<close>

text \<open>An object of type \<open>unsigned long\<close>, of 4 or 8 bytes.\<close>

definition rd_long :: "nat \<Rightarrow> bytemem \<Rightarrow> nat \<Rightarrow> u64" where
  "rd_long long_size m p = (if long_size = 4 then ucast (rd32 m p) else rd64 m p)"

definition wr_long :: "nat \<Rightarrow> u64 \<Rightarrow> nat \<Rightarrow> bytemem \<Rightarrow> bytemem" where
  "wr_long long_size x p m =
     (if long_size = 4 then wr32 (ucast x) p m else native_store LittleEndian 8 x p m)"

text \<open>
  \<open>__xchg\<close> where \<open>swp\<close> cannot be used: the sizes 1 and 4; any other size calls a function
  that is never defined.
\<close>

record 'c xchg_state =
  ret :: u64
  xpsr :: 'c
  xmem :: bytemem

definition xchg :: "'c irq_ops \<Rightarrow> nat \<Rightarrow> u64 \<Rightarrow> nat \<Rightarrow> nat \<Rightarrow> 'c \<Rightarrow> bytemem \<Rightarrow> 'c xchg_state option" where
  "xchg irq long_size x p sz c m =
     (if sz = 1
      then let (fl, c1) = irq_save irq c;
               r = ucast (m p);
               m1 = m(p := ucast x);
               c2 = irq_restore irq fl c1
           in Some \<lparr>ret = r, xpsr = c2, xmem = m1\<rparr>
      else if sz = 4
      then let (fl, c1) = irq_save irq c;
               r = rd_long long_size m p;
               m1 = wr_long long_size x p m;
               c2 = irq_restore irq fl c1
           in Some \<lparr>ret = r, xpsr = c2, xmem = m1\<rparr>
      else None)"

section \<open>Reading back what was written\<close>

lemma rd32_wr32 [simp]: "rd32 (wr32 v p m) p = v"
proof -
  have "window (wr32 v p m) p 4 = le_bytes 4 v"
    using window_poke [of "le_bytes 4 v" p m] by (simp add: wr32_def native_store_def)
  then show ?thesis unfolding rd32_def by (intro native_load_eq) simp_all
qed

lemma wr32_frame: "a < p \<or> p + 4 \<le> a \<Longrightarrow> wr32 v p m a = m a"
  by (simp add: wr32_def native_store_def poke_frame)

lemma rd32_frame: "(\<And>k. k < 4 \<Longrightarrow> m' (p + k) = m (p + k)) \<Longrightarrow> rd32 m' p = rd32 m p"
proof -
  assume "\<And>k. k < 4 \<Longrightarrow> m' (p + k) = m (p + k)"
  then have "window m' p 4 = window m p 4" by (intro window_eqI) simp_all
  then show ?thesis by (simp add: rd32_def native_load_def)
qed

lemma rd32_wr32_other: "q + 4 \<le> p \<or> p + 4 \<le> q \<Longrightarrow> rd32 (wr32 v p m) q = rd32 m q"
  by (rule rd32_frame) (auto intro!: wr32_frame)

lemma pair_split [simp]:
  "ucast (pair64 hi lo) = lo" "ucast (drop_bit 32 (pair64 hi lo)) = hi"
  "pair64 (ucast (drop_bit 32 x)) (ucast x) = x"
  by (auto intro!: word_eq_by_bits simp: pair64_def word_bits)

lemma rd64_pair: "rd64 m p = pair64 (rd32 m (p + 4)) (rd32 m p)"
proof -
  define x where "x = pair64 (rd32 m (p + 4)) (rd32 m p)"
  have "le_bytes (4 + 4) x = le_bytes 4 (ucast x :: u32) @ le_bytes 4 (ucast (drop_bit (8 * 4) x) :: u32)"
    by (rule le_bytes_append) simp_all
  moreover have "le_bytes 4 (rd32 m q) = window m q 4" for q
    using object_bytes_native_load [of 4 LittleEndian m q, where 'a = 32] by (simp add: rd32_def)
  moreover have "window m p 8 = window m p 4 @ window m (p + 4) 4"
    by (rule window_eqI) (auto simp: nth_append)
  ultimately have "le_bytes 8 x = window m p 8" by (simp add: x_def)
  then show ?thesis unfolding rd64_def x_def [symmetric] by (intro native_load_eq) simp_all
qed

section \<open>Sequential effect\<close>

lemma inner_steps [simp]:
  "inner (load_reg p)" "inner (store_reg p)" "inner (load_hi p)" "inner (store_hi p)"
  "inner (change_reg g)" "inner (change_pair h)" "inner (set_result b)"
  by (simp_all add: inner_def load_reg_def store_reg_def load_hi_def store_hi_def change_reg_def
      change_pair_def set_result_def Let_def)

lemma set_result_local: "set_result b = local_step (\<lambda>f. f\<lparr>result := c_bool (b (reg f))\<rparr>)"
  by (simp add: set_result_def local_step_def)

lemmas step_defs = load_reg_def store_reg_def load_hi_def store_hi_def change_reg_def
  change_pair_def set_result_def save_flags_def restore_flags_def

text \<open>A protected change of a 32-bit word.\<close>

lemma run_update32:
  "run (protected arm_irq [load_reg v, change_reg g, store_reg v]) (f, s) =
     (f\<lparr>flags := psr s, reg := g (rd32 (mem s) v)\<rparr>, s\<lparr>mem := wr32 (g (rd32 (mem s) v)) v (mem s)\<rparr>)"
proof -
  have "irq_restore arm_irq (psr s) (snd (irq_save arm_irq (psr s))) = psr s"
    "fst (irq_save arm_irq (psr s)) = psr s"
    using arm.restore_undoes [of "psr s"] by (simp_all add: arm_irq_def local_irq_save_def Let_def)
  then show ?thesis
    by (auto simp: protected_def step_defs split: prod.splits)
qed

lemma run_update64:
  "run (protected arm_irq (update64 g v)) (f, s) =
     (let x = g (rd64 (mem s) v)
      in (f\<lparr>flags := psr s, reg := ucast x, reg_hi := ucast (drop_bit 32 x)\<rparr>,
          s\<lparr>mem := wr32 (ucast (drop_bit 32 x)) (v + 4) (wr32 (ucast x) v (mem s))\<rparr>))"
proof -
  have "irq_restore arm_irq (psr s) (snd (irq_save arm_irq (psr s))) = psr s"
    "fst (irq_save arm_irq (psr s)) = psr s"
    using arm.restore_undoes [of "psr s"] by (simp_all add: arm_irq_def local_irq_save_def Let_def)
  then show ?thesis
    by (auto simp: protected_def update64_def step_defs rd64_pair Let_def split: prod.splits)
qed

section \<open>Properties\<close>

text \<open>All functions that change a counter.\<close>

definition counter_codes :: "'c irq_ops \<Rightarrow> 'c code set" where
  "counter_codes irq = {code. \<exists>i j m v. code \<in> set
     [atomic_add irq i v, atomic_sub irq i v, atomic_inc irq v, atomic_dec irq v,
      atomic_dec_and_test irq v, atomic_add_negative irq i v, atomic_clear_mask irq m v,
      atomic64_add irq j v, atomic64_sub irq j v, atomic64_inc irq v, atomic64_dec irq v,
      atomic_long_add irq i v, atomic_long_sub irq i v, atomic_long_inc irq v, atomic_long_dec irq v]}"

lemma counter_codes_guarded: "code \<in> counter_codes irq \<Longrightarrow> guarded irq code"
  by (auto simp: counter_codes_def atomic_add_def atomic_sub_def atomic_inc_def atomic_dec_def
    atomic_dec_and_test_def atomic_add_negative_def atomic_clear_mask_def atomic64_add_def
    atomic64_sub_def atomic64_inc_def atomic64_dec_def update64_def atomic_long_add_def
    atomic_long_sub_def atomic_long_inc_def atomic_long_dec_def Let_def set_result_local
    intro!: guardedI)

text \<open>
  C4: However interrupts fall, a function that changes a counter acts at one point in time:
  some handlers run, then the whole function, then the other handlers.  The result it
  returns is the one of that point, and the interrupt mask is as before.
\<close>

theorem counters_are_atomic:
  assumes "code \<in> counter_codes arm_irq" "executes arm_irq H (code, f0, s0) ([], f, s)"
  shows "\<exists>m f1 s1. handled H (mem s0) m \<and> run code (f0, s0\<lparr>mem := m\<rparr>) = (f1, s1) \<and>
    result f = result f1 \<and> handled H (mem s1) (mem s) \<and> psr s = psr s0"
  using arm.guarded_atomic [OF counter_codes_guarded [OF assms(1)] assms(2)] by blast

lemma arm_test:
  "run (protected arm_irq [load_reg v, change_reg g, store_reg v] @ [set_result b]) (f, s) =
     (f\<lparr>flags := psr s, reg := g (rd32 (mem s) v), result := c_bool (b (g (rd32 (mem s) v)))\<rparr>,
      s\<lparr>mem := wr32 (g (rd32 (mem s) v)) v (mem s)\<rparr>)"
  unfolding run_simps run_update32 by (simp add: set_result_def)

lemma rd64_update:
  "rd64 (wr32 (ucast (drop_bit 32 x)) (v + 4) (wr32 (ucast x) v m)) v = x"
  by (simp add: rd64_pair rd32_wr32_other)

text \<open>
  What each function does when it runs: the counter changes by the amount, modulo
  \<open>2^32\<close> or \<open>2^64\<close>, no other byte changes, and the tests report on the new value.
\<close>

theorem counters_effect:
  "mem (snd (run (atomic_add arm_irq i v) (f, s))) = wr32 (rd32 (mem s) v + i) v (mem s) \<and>
   mem (snd (run (atomic_sub arm_irq i v) (f, s))) = wr32 (rd32 (mem s) v - i) v (mem s) \<and>
   mem (snd (run (atomic_clear_mask arm_irq m v) (f, s))) = wr32 (rd32 (mem s) v AND NOT m) v (mem s) \<and>
   (let st = run (atomic_dec_and_test arm_irq v) (f, s)
    in mem (snd st) = wr32 (rd32 (mem s) v - 1) v (mem s) \<and>
       (result (fst st) = 1 \<longleftrightarrow> rd32 (mem s) v = 1)) \<and>
   (let st = run (atomic_add_negative arm_irq i v) (f, s)
    in mem (snd st) = wr32 (rd32 (mem s) v + i) v (mem s) \<and>
       (result (fst st) = 1 \<longleftrightarrow> sint (rd32 (mem s) v + i) < 0)) \<and>
   (let m' = mem (snd (run (atomic64_add arm_irq j v) (f, s)))
    in rd64 m' v = rd64 (mem s) v + j \<and> (\<forall>a. (a < v \<or> v + 8 \<le> a) \<longrightarrow> m' a = mem s a)) \<and>
   rd32 (wr32 x v (mem s)) v = x \<and> (\<forall>a. (a < v \<or> v + 4 \<le> a) \<longrightarrow> wr32 x v (mem s) a = mem s a)"
  by (simp add: atomic_add_def atomic_sub_def atomic_clear_mask_def atomic_dec_and_test_def
      atomic_add_negative_def atomic64_add_def run_update32 run_update64 arm_test [unfolded append.simps]
      wr32_frame rd64_update Let_def del: run_simps)

lemma counters_effect_witness:
  "rd32 (wr32 7 16 (\<lambda>a. 0)) 16 = 7 \<and> wr32 7 16 (\<lambda>a. 0) 20 = (0 :: u8)"
  using counters_effect [where s = "\<lparr>psr = 0, mem = (\<lambda>a. 0)\<rparr>" and x = 7 and v = 16] by simp

text \<open>
  C40: \<open>atomic64_read\<close> leaves interrupts enabled between the two halves.  When the counter
  passes from \<open>0xFFFFFFFF\<close> to \<open>0x100000000\<close> in an interrupt there, the value read is
  \<open>0x1FFFFFFFF\<close>, which the counter never had.
\<close>

theorem atomic64_read_torn:
  fixes f0 :: "u32 frame" and s0 :: "(u32, bytemem) machine"
  assumes "irq_enabled arm_irq (psr s0)" "rd64 (mem s0) v = 0xFFFFFFFF"
  defines "tick \<equiv> \<lambda>m. mem (snd (run (atomic64_inc arm_irq v) (f0, s0\<lparr>mem := m\<rparr>)))"
  shows "\<exists>f s. executes arm_irq {tick} (atomic64_read v, f0, s0) ([], f, s) \<and>
    rd64 (mem s) v = 0x100000000 \<and> pair64 (reg_hi f) (reg f) = 0x1FFFFFFFF"
proof -
  have tick: "rd64 (tick m) v = rd64 m v + 1" for m
    by (simp add: tick_def atomic64_inc_def run_update64 Let_def rd64_update)
  have halves: "rd32 m v = ucast (rd64 m v)" "rd32 m (v + 4) = ucast (drop_bit 32 (rd64 m v))" for m
    by (simp_all add: rd64_pair)
  define f1 where "f1 = f0\<lparr>reg := rd32 (mem s0) v\<rparr>"
  define s1 where "s1 = s0\<lparr>mem := tick (mem s0)\<rparr>"
  define f2 where "f2 = f1\<lparr>reg_hi := rd32 (mem s1) (v + 4)\<rparr>"
  have "exec_step arm_irq {tick} (atomic64_read v, f0, s0) ([load_hi (v + 4)], f1, s0)"
    unfolding atomic64_read_def by (rule execute) (simp add: load_reg_def f1_def)
  moreover have "exec_step arm_irq {tick} ([load_hi (v + 4)], f1, s0) ([load_hi (v + 4)], f1, s1)"
    unfolding s1_def by (rule interrupt) (use assms(1) in simp_all)
  moreover have "exec_step arm_irq {tick} ([load_hi (v + 4)], f1, s1) ([], f2, s1)"
    by (rule execute) (simp add: load_hi_def f2_def)
  ultimately have "executes arm_irq {tick} (atomic64_read v, f0, s0) ([], f2, s1)"
    unfolding executes_def by (meson converse_rtranclp_into_rtranclp rtranclp.rtrancl_refl)
  moreover have "rd64 (mem s1) v = 0x100000000" by (simp add: s1_def tick assms(2))
  moreover have "reg f2 = 0xFFFFFFFF" "reg_hi f2 = 1"
    using assms(2) by (simp_all add: f2_def f1_def halves s1_def tick)
  then have "pair64 (reg_hi f2) (reg f2) = 0x1FFFFFFFF" by (simp add: pair64_def)
  ultimately show ?thesis by blast
qed

lemma counters_are_atomic_witness:
  "\<exists>(f :: u32 frame) (s :: (u32, bytemem) machine) m f1 s1. handled {\<lambda>m. wr32 5 8 m} (\<lambda>a. 0) m \<and>
    run (atomic_dec_and_test arm_irq 8) (\<lparr>flags = 0, reg = 0, reg_hi = 0, result = 0\<rparr>,
      \<lparr>psr = 0x13, mem = m\<rparr>) = (f1, s1) \<and> result f = result f1 \<and>
    handled {\<lambda>m. wr32 5 8 m} (mem s1) (mem s) \<and> psr s = 0x13"
proof -
  let ?f = "\<lparr>flags = 0, reg = 0, reg_hi = 0, result = 0\<rparr> :: u32 frame"
  let ?s = "\<lparr>psr = 0x13, mem = (\<lambda>a. 0)\<rparr> :: (u32, bytemem) machine"
  let ?code = "atomic_dec_and_test arm_irq 8"
  obtain f s where "run ?code (?f, ?s) = (f, s)" by fastforce
  then have "executes arm_irq {\<lambda>m. wr32 5 8 m} (?code, ?f, ?s) ([], f, s)"
    using run_executes [of arm_irq "{\<lambda>m. wr32 5 8 m}" ?code ?f ?s] by simp
  note ex = this
  have "?code \<in> counter_codes arm_irq" by (auto simp: counter_codes_def)
  from counters_are_atomic [OF this ex] obtain m f1 s1 where
    "handled {\<lambda>m. wr32 5 8 m} (\<lambda>a. 0) m" "run ?code (?f, ?s\<lparr>mem := m\<rparr>) = (f1, s1)"
    "result f = result f1" "handled {\<lambda>m. wr32 5 8 m} (mem s1) (mem s)" "psr s = psr ?s" by auto
  then show ?thesis
    by (intro exI [of _ f] exI [of _ s] exI [of _ m] exI [of _ f1] exI [of _ s1]) simp
qed

lemma atomic64_read_torn_witness:
  "\<exists>h f s. executes arm_irq {h} (atomic64_read 8, \<lparr>flags = 0, reg = 0, reg_hi = 0, result = 0\<rparr>,
      \<lparr>psr = 0x13, mem = (\<lambda>a. if 8 \<le> a \<and> a < 12 then 0xFF else 0)\<rparr>) ([], f, s) \<and>
    rd64 (mem s) 8 = 0x100000000 \<and> pair64 (reg_hi f) (reg f) = 0x1FFFFFFFF"
proof -
  have "irq_enabled arm_irq 0x13" by (simp add: arm_irq_def)
  moreover have "rd64 (\<lambda>a. if 8 \<le> a \<and> a < 12 then 0xFF else 0) 8 = 0xFFFFFFFF" by code_simp
  ultimately show ?thesis
    using atomic64_read_torn [of "\<lparr>psr = 0x13, mem = (\<lambda>a. if 8 \<le> a \<and> a < 12 then 0xFF else 0)\<rparr>" 8
      "\<lparr>flags = 0, reg = 0, reg_hi = 0, result = 0\<rparr>"] by auto
qed

text \<open>
  The exchange returns the old object and stores the new one with the interrupt mask as
  before; sizes other than 1 and 4 have no result.  On the 64-bit processor, where an
  \<open>unsigned long\<close> has 8 bytes, the exchange of a 4-byte object returns and overwrites the
  4 bytes behind the object as well.
\<close>

theorem xchg_spec:
  "xchg arm_irq 4 x p 1 c m = Some \<lparr>ret = ucast (m p), xpsr = c, xmem = m(p := ucast x)\<rparr> \<and>
   xchg arm_irq 4 x p 4 c m = Some \<lparr>ret = ucast (rd32 m p), xpsr = c, xmem = wr32 (ucast x) p m\<rparr> \<and>
   (sz \<notin> {1, 4} \<longrightarrow> xchg irq n x p sz c' m = None) \<and>
   (\<exists>st. xchg arm64_irq 8 x p 4 d m = Some st \<and> xpsr st = d \<and> ret st = rd64 m p \<and>
      window (xmem st) (p + 4) 4 = le_bytes 4 (drop_bit 32 x))"
proof -
  have "byte x (4 + k) = byte (drop_bit 32 x) k" for k
    by (simp add: byte_def drop_bit_drop_bit add.commute)
  then have "window (native_store LittleEndian 8 x p m) (p + 4) 4 = le_bytes 4 (drop_bit 32 x)"
    by (intro window_eqI) (simp_all add: native_store_def poke_def)
  moreover have "fst (irq_save arm_irq c) = c" "fst (irq_save arm64_irq d) = d"
    by (simp_all add: arm_irq_def local_irq_save_def arm64_irq_def arm64_irq_save_def Let_def)
  ultimately show ?thesis
    using arm.restore_undoes [of c] arm64.restore_undoes [of d]
    by (auto simp: xchg_def rd_long_def wr_long_def Let_def split: prod.splits)
qed

lemma xchg_spec_witness:
  "xchg arm_irq 4 7 (16 :: nat) 2 0 (\<lambda>a. 0) = None"
  using xchg_spec [where sz = 2 and irq = arm_irq and n = 4 and x = 7 and p = 16 and c' = 0
      and m = "\<lambda>a. 0"] by simp

end
