(* ===== verification/AtomicBits.thy ===== *)
theory AtomicBits
  imports Irq Bitmap
begin

text \<open>
  The bit operations of \<open>arch/arm/include/asm/bitops.h\<close> that mask interrupts around the
  plain ones of \<open>Bitmap\<close>: the array is the memory, the plain operation is its reads and
  writes, one step each.  However interrupts fall, they act as the plain operation at one
  point in time, so that of several callers only one finds the bit clear.
\<close>

section \<open>The operations as steps\<close>

definition load_word :: "nat \<Rightarrow> ('c, bitmap) instr" where
  "load_word p = (\<lambda>(f, s). (f\<lparr>reg := mem s p\<rparr>, s))"

definition store_word :: "nat \<Rightarrow> (u32 \<Rightarrow> u32) \<Rightarrow> ('c, bitmap) instr" where
  "store_word p g = (\<lambda>(f, s). (f, s\<lparr>mem := (mem s)(p := g (reg f))\<rparr>))"

definition set_old :: "u32 \<Rightarrow> ('c, bitmap) instr" where
  "set_old m = (\<lambda>(f, s). (f\<lparr>result := c_bool (reg f AND m \<noteq> 0)\<rparr>, s))"

definition test_and_set_bit :: "'c irq_ops \<Rightarrow> nat \<Rightarrow> ('c, bitmap) instr list" where
  "test_and_set_bit irq nr =
     (let mask = BIT_MASK nr; p = BIT_WORD nr
      in protected irq [load_word p, store_word p (\<lambda>old. old OR mask), set_old mask])"

definition test_and_clear_bit :: "'c irq_ops \<Rightarrow> nat \<Rightarrow> ('c, bitmap) instr list" where
  "test_and_clear_bit irq nr =
     (let mask = BIT_MASK nr; p = BIT_WORD nr
      in protected irq [load_word p, store_word p (\<lambda>old. old AND NOT mask), set_old mask])"

section \<open>Properties\<close>

lemma inner_bits [simp]: "inner (load_word p)" "inner (store_word p g)" "inner (set_old m)"
  by (simp_all add: inner_def load_word_def store_word_def set_old_def)

lemma guarded_bits: "guarded irq (test_and_set_bit irq nr)" "guarded irq (test_and_clear_bit irq nr)"
  by (auto simp: test_and_set_bit_def test_and_clear_bit_def Let_def intro!: guardedI)

lemma run_bits:
  assumes "run (test_and_set_bit irq nr) (f, s) = (f1, s1)"
  shows "(result f1, mem s1) = arm_test_and_set_bit nr (mem s)"
  using assms
  by (auto simp: test_and_set_bit_def arm_test_and_set_bit_def protected_def save_flags_def
      restore_flags_def load_word_def store_word_def set_old_def Let_def split: prod.splits)

lemma run_bits_clear:
  assumes "run (test_and_clear_bit irq nr) (f, s) = (f1, s1)"
  shows "(result f1, mem s1) = arm_test_and_clear_bit nr (mem s)"
  using assms
  by (auto simp: test_and_clear_bit_def arm_test_and_clear_bit_def protected_def save_flags_def
      restore_flags_def load_word_def store_word_def set_old_def Let_def split: prod.splits)

text \<open>
  However interrupts fall, \<open>test_and_set_bit\<close> and \<open>test_and_clear_bit\<close> are the plain
  operations at one point between handlers: the result is the bit as the last handler left
  it, and the interrupt mask is as before.
\<close>

theorem test_and_bit_atomic:
  assumes "executes arm_irq H (code, f0, s0) ([], f, s)"
  shows "(code = test_and_set_bit arm_irq nr \<longrightarrow>
      (\<exists>m m'. handled H (mem s0) m \<and> (result f, m') = arm_test_and_set_bit nr m \<and>
        handled H m' (mem s) \<and> psr s = psr s0)) \<and>
    (code = test_and_clear_bit arm_irq nr \<longrightarrow>
      (\<exists>m m'. handled H (mem s0) m \<and> (result f, m') = arm_test_and_clear_bit nr m \<and>
        handled H m' (mem s) \<and> psr s = psr s0))"
  using arm.guarded_atomic [OF guarded_bits(1), of H nr f0 s0 f s]
    arm.guarded_atomic [OF guarded_bits(2), of H nr f0 s0 f s] assms run_bits run_bits_clear
  by fastforce

lemma test_and_bit_atomic_witness:
  "\<exists>(f :: u32 frame) (s :: (u32, bitmap) machine) m m'. handled {\<lambda>m. m(0 := 0)} ((\<lambda>_. 0)(0 := 8)) m \<and>
    (result f, m') = arm_test_and_set_bit 3 m \<and> handled {\<lambda>m. m(0 := 0)} m' (mem s)"
proof -
  let ?f = "\<lparr>flags = 0, reg = 0, reg_hi = 0, result = 0\<rparr> :: u32 frame"
  let ?s = "\<lparr>psr = 0x13, mem = (\<lambda>_. 0)(0 := 8)\<rparr> :: (u32, bitmap) machine"
  obtain f s where "run (test_and_set_bit arm_irq 3) (?f, ?s) = (f, s)" by fastforce
  then have "executes arm_irq {\<lambda>m. m(0 := 0)} (test_and_set_bit arm_irq 3, ?f, ?s) ([], f, s)"
    using run_executes [of arm_irq "{\<lambda>m. m(0 := 0)}" "test_and_set_bit arm_irq 3" ?f ?s] by simp
  from test_and_bit_atomic [OF this, of 3] show ?thesis by auto
qed

end
