(* ===== verification/Hweight.thy ===== *)
theory Hweight
  imports Bits
begin

text \<open>
  The population counts of \<open>include/linux/bitops.h\<close>.  A number is read as digits in base
  \<open>2^w\<close>; each line of the counts adds neighbouring digits, so that the sum of the digits
  stays the same while their width doubles, from the bits to one digit.
\<close>

section \<open>The counts\<close>

definition hweight_step :: "u32 \<Rightarrow> nat \<Rightarrow> u32 \<Rightarrow> u32" where
  "hweight_step m k w = (w AND m) + (drop_bit k w AND m)"

definition generic_hweight32 :: "u32 \<Rightarrow> u32" where
  "generic_hweight32 w =
     (let res = hweight_step 0x55555555 1 w;
          res = hweight_step 0x33333333 2 res;
          res = hweight_step 0x0F0F0F0F 4 res;
          res = hweight_step 0x00FF00FF 8 res
      in hweight_step 0x0000FFFF 16 res)"

definition generic_hweight16 :: "u32 \<Rightarrow> u32" where
  "generic_hweight16 w =
     (let res = hweight_step 0x5555 1 w;
          res = hweight_step 0x3333 2 res;
          res = hweight_step 0x0F0F 4 res
      in hweight_step 0x00FF 8 res)"

definition generic_hweight8 :: "u32 \<Rightarrow> u32" where
  "generic_hweight8 w =
     (let res = hweight_step 0x55 1 w;
          res = hweight_step 0x33 2 res
      in hweight_step 0x0F 4 res)"

section \<open>Digits\<close>

fun digit_sum :: "nat \<Rightarrow> nat \<Rightarrow> nat \<Rightarrow> nat" where
  "digit_sum w 0 x = 0"
| "digit_sum w (Suc n) x = x mod 2 ^ w + digit_sum w n (x div 2 ^ w)"

text \<open>The mask of every other digit, and what it leaves.\<close>

fun even_mask :: "nat \<Rightarrow> nat \<Rightarrow> nat" where
  "even_mask w 0 = 0"
| "even_mask w (Suc n) = mask w OR push_bit (2 * w) (even_mask w n)"

fun evens :: "nat \<Rightarrow> nat \<Rightarrow> nat \<Rightarrow> nat" where
  "evens w 0 x = 0"
| "evens w (Suc n) x = x mod 2 ^ w + 2 ^ (2 * w) * evens w n (x div 2 ^ (2 * w))"

lemma and_even_mask: "x AND even_mask w n = evens w n x"
proof (induction n arbitrary: x)
  case (Suc n)
  have "x AND even_mask w (Suc n) =
      take_bit w x OR push_bit (2 * w) (drop_bit (2 * w) x AND even_mask w n)"
    by (rule bit_eqI) (auto simp: bit_and_iff bit_or_iff bit_take_bit_iff bit_push_bit_iff
        bit_drop_bit_eq bit_mask_iff)
  also have "\<dots> = take_bit w x + push_bit (2 * w) (drop_bit (2 * w) x AND even_mask w n)"
    by (rule disjunctive_add [symmetric]) (auto simp: bit_take_bit_iff bit_push_bit_iff bit_and_iff)
  finally show ?case
    using Suc [of "drop_bit (2 * w) x"]
    by (simp add: take_bit_eq_mod push_bit_eq_mult drop_bit_eq_div mult.commute)
qed simp

lemma even_mask_numeral:
  "even_mask w (numeral k) = 2 ^ w - 1 + 2 ^ (2 * w) * even_mask w (pred_numeral k)"
proof -
  have "mask w OR push_bit (2 * w) (even_mask w n) = mask w + push_bit (2 * w) (even_mask w n)" for n
    by (rule disjunctive_add [symmetric]) (auto simp: bit_mask_iff bit_push_bit_iff)
  then show ?thesis
    by (simp add: numeral_eq_Suc mask_eq_exp_minus_1 push_bit_eq_mult mult.commute)
qed

text \<open>Neighbouring digits never carry into the next pair.\<close>

lemma pair_fits:
  assumes "0 < w" shows "x mod 2 ^ w + y mod 2 ^ w < (2 :: nat) ^ (2 * w)"
proof -
  have "x mod 2 ^ w < 2 ^ w" "y mod 2 ^ w < (2 :: nat) ^ w" by simp_all
  moreover have "(2 :: nat) ^ w + 2 ^ w \<le> 2 ^ (2 * w)"
  proof -
    have "(2 :: nat) ^ Suc w \<le> 2 ^ (2 * w)" using assms by (intro power_increasing) auto
    then show ?thesis by simp
  qed
  ultimately show ?thesis by linarith
qed

lemma digit_sum_pairs:
  assumes "0 < w"
  shows "digit_sum (2 * w) n (evens w n x + evens w n (x div 2 ^ w)) = digit_sum w (2 * n) x"
proof (induction n arbitrary: x)
  case (Suc n)
  let ?B = "2 ^ w :: nat" and ?C = "2 ^ (2 * w) :: nat"
  have C: "?C = ?B * ?B" by (simp add: mult_2 power_add)
  have comm: "x div ?B div ?C = x div ?C div ?B" by (simp add: mult.commute flip: div_mult2_eq)
  define lo where "lo = x mod ?B + x div ?B mod ?B"
  define hi where "hi = evens w n (x div ?C) + evens w n (x div ?C div ?B)"
  have "lo < ?C" unfolding lo_def by (rule pair_fits [OF assms])
  then have split: "(lo + ?C * hi) mod ?C = lo" "(lo + ?C * hi) div ?C = hi" by simp_all
  have "evens w n (x div ?B div ?C) = evens w n (x div ?C div ?B)" by (simp only: comm)
  then have "evens w (Suc n) x + evens w (Suc n) (x div ?B) = lo + ?C * hi"
    unfolding evens.simps lo_def hi_def by (simp only: distrib_left ac_simps)
  then have "digit_sum (2 * w) (Suc n) (evens w (Suc n) x + evens w (Suc n) (x div ?B)) =
      lo + digit_sum (2 * w) n hi"
    by (simp only: digit_sum.simps split)
  also have "digit_sum (2 * w) n hi = digit_sum w (2 * n) (x div ?C)"
    unfolding hi_def by (rule Suc)
  also have "lo + digit_sum w (2 * n) (x div ?C) = digit_sum w (2 * Suc n) x"
    by (simp add: lo_def C div_mult2_eq)
  finally show ?case .
qed simp

lemma evens_bound: "0 < w \<Longrightarrow> evens w n x + evens w n y < 2 ^ (2 * w * n) \<or> n = 0"
proof (induction n arbitrary: x y)
  case (Suc n)
  let ?C = "2 ^ (2 * w) :: nat"
  define hi where "hi = evens w n (x div ?C) + evens w n (y div ?C)"
  have "x mod 2 ^ w + y mod 2 ^ w < ?C" using pair_fits [OF Suc.prems] .
  moreover have "hi + 1 \<le> 2 ^ (2 * w * n)"
    using Suc.IH [OF Suc.prems, of "x div ?C" "y div ?C"] by (cases "n = 0") (auto simp: hi_def)
  then have "?C * (hi + 1) \<le> ?C * 2 ^ (2 * w * n)" by (rule mult_le_mono2)
  moreover have "?C * 2 ^ (2 * w * n) = 2 ^ (2 * w * Suc n)" by (simp add: power_add)
  ultimately show ?case by (simp add: hi_def algebra_simps)
qed simp

section \<open>The sum of the bits\<close>

lemma digit_sum_bits: "digit_sum 1 n x = card {i. i < n \<and> bit x i}"
proof (induction n arbitrary: x)
  case (Suc n)
  have "{i. i < Suc n \<and> bit x i} = (if odd x then {0} else {}) \<union> Suc ` {i. i < n \<and> bit (x div 2) i}"
    by (auto simp: bit_0 bit_Suc image_iff less_Suc_eq_0_disj)
  also have "card \<dots> = (if odd x then 1 else 0) + card {i. i < n \<and> bit (x div 2) i}"
    by (auto simp: card_insert_if card_image)
  finally show ?case using Suc [of "x div 2"] by (simp add: odd_iff_mod_2_eq_one)
qed simp

lemma hweight_step_spec:
  assumes "0 < w" "0 < n" "2 * w * n \<le> 32" "unat m = even_mask w n"
  shows "digit_sum (2 * w) n (unat (hweight_step m w x)) = digit_sum w (2 * n) (unat x)"
    "unat (hweight_step m w x) < 2 ^ (2 * w * n)"
proof -
  have ands: "unat (x AND m) = evens w n (unat x)" "unat (drop_bit w x AND m) = evens w n (unat x div 2 ^ w)"
    using assms(4) by (simp_all add: unsigned_and_eq and_even_mask unat_drop_bit)
  have small: "evens w n (unat x) + evens w n (unat x div 2 ^ w) < 2 ^ (2 * w * n)"
    using evens_bound [OF assms(1)] assms(2) by blast
  also have "\<dots> \<le> 2 ^ 32" using assms(3) by (intro power_increasing) auto
  finally have "unat (hweight_step m w x) = evens w n (unat x) + evens w n (unat x div 2 ^ w)"
    unfolding hweight_step_def ands [symmetric] by (intro unat_add_exact) simp
  then show "digit_sum (2 * w) n (unat (hweight_step m w x)) = digit_sum w (2 * n) (unat x)"
    "unat (hweight_step m w x) < 2 ^ (2 * w * n)"
    using small by (simp_all only: digit_sum_pairs [OF assms(1)])
qed

text \<open>The masks of the source are the masks of every other digit.\<close>

lemma even_masks:
  "unat (0x55555555 :: u32) = even_mask 1 16" "unat (0x33333333 :: u32) = even_mask 2 8"
  "unat (0x0F0F0F0F :: u32) = even_mask 4 4" "unat (0x00FF00FF :: u32) = even_mask 8 2"
  "unat (0x0000FFFF :: u32) = even_mask 16 1" "unat (0x5555 :: u32) = even_mask 1 8"
  "unat (0x3333 :: u32) = even_mask 2 4" "unat (0x0F0F :: u32) = even_mask 4 2"
  "unat (0x00FF :: u32) = even_mask 8 1" "unat (0x55 :: u32) = even_mask 1 4"
  "unat (0x33 :: u32) = even_mask 2 2" "unat (0x0F :: u32) = even_mask 4 1"
  by (simp_all add: even_mask_numeral mask_eq_exp_minus_1)

lemmas hweight32_steps =
  hweight_step_spec [OF _ _ _ even_masks(1), simplified] hweight_step_spec [OF _ _ _ even_masks(2), simplified]
  hweight_step_spec [OF _ _ _ even_masks(3), simplified] hweight_step_spec [OF _ _ _ even_masks(4), simplified]
  hweight_step_spec [OF _ _ _ even_masks(5), simplified]

lemmas hweight16_steps =
  hweight_step_spec [OF _ _ _ even_masks(6), simplified] hweight_step_spec [OF _ _ _ even_masks(7), simplified]
  hweight_step_spec [OF _ _ _ even_masks(8), simplified] hweight_step_spec [OF _ _ _ even_masks(9), simplified]

lemmas hweight8_steps =
  hweight_step_spec [OF _ _ _ even_masks(10), simplified] hweight_step_spec [OF _ _ _ even_masks(11), simplified]
  hweight_step_spec [OF _ _ _ even_masks(12), simplified]

text \<open>
  The three counts are the number of bits set in the word, in its low 16 bits and in its
  low 8 bits.
\<close>

theorem hweight_counts_bits:
  "unat (generic_hweight32 w) = card {i. i < 32 \<and> bit w i} \<and>
   unat (generic_hweight16 w) = card {i. i < 16 \<and> bit w i} \<and>
   unat (generic_hweight8 w) = card {i. i < 8 \<and> bit w i}"
proof -
  have bits: "digit_sum (Suc 0) n (unat w) = card {i. i < n \<and> bit w i}" if "n \<le> 32" for n
    using that digit_sum_bits [of n "unat w"] by (auto simp: bit_unsigned_iff intro!: arg_cong [where f = card])
  have last: "unat (hweight_step 65535 16 y) = digit_sum 16 2 (unat y)"
    "unat (hweight_step 255 8 y) = digit_sum 8 2 (unat y)"
    "unat (hweight_step 15 4 y) = digit_sum 4 2 (unat y)" for y
    using hweight32_steps(9,10) [of y] hweight16_steps(7,8) [of y] hweight8_steps(5,6) [of y] by simp_all
  show ?thesis
    by (simp add: last hweight32_steps hweight16_steps hweight8_steps generic_hweight32_def generic_hweight16_def generic_hweight8_def Let_def bits [symmetric])
qed

end
