(* ===== verification/Vring.thy ===== *)
theory Vring
  imports ListHead Align
begin

text \<open>
  The rings of \<open>include/virtio_ring.h\<close> on a 32-bit processor: where the descriptor table,
  the available ring and the used ring lie in one block of memory, the size of the block,
  and the rule that says when the other side wants to be told of new entries, over 16-bit
  indices that wrap around.
\<close>

section \<open>Layout\<close>

record vring_desc =
  desc_addr :: u64
  desc_len :: u32
  desc_flags :: u16
  desc_next :: u16

record vring_used_elem =
  elem_id :: u32
  elem_len :: u32

record vring =
  num :: u32
  desc :: addr
  avail :: addr
  used :: addr

definition sizeof_vring_desc :: u32 where "sizeof_vring_desc = 16"
definition sizeof_virtio16 :: u32 where "sizeof_virtio16 = 2"
definition sizeof_vring_used_elem :: u32 where "sizeof_vring_used_elem = 8"

text \<open>The addresses of \<open>avail->ring[i]\<close> and \<open>used->ring[i]\<close>: two 16-bit fields come first.\<close>

definition avail_ring :: "addr \<Rightarrow> u32 \<Rightarrow> addr" where
  "avail_ring a i = a + 2 * sizeof_virtio16 + i * sizeof_virtio16"

definition used_ring :: "addr \<Rightarrow> u32 \<Rightarrow> addr" where
  "used_ring a i = a + 2 * sizeof_virtio16 + i * sizeof_vring_used_elem"

definition vring_used_event :: "vring \<Rightarrow> addr" where
  "vring_used_event vr = avail_ring (avail vr) (num vr)"

definition vring_avail_event :: "vring \<Rightarrow> addr" where
  "vring_avail_event vr = used_ring (used vr) (num vr)"

definition vring_init :: "vring \<Rightarrow> u32 \<Rightarrow> addr \<Rightarrow> u32 \<Rightarrow> vring" where
  "vring_init vr n p align =
     (let vr1 = vr\<lparr>num := n\<rparr>;
          vr2 = vr1\<lparr>desc := p\<rparr>;
          vr3 = vr2\<lparr>avail := p + n * sizeof_vring_desc\<rparr>
      in vr3\<lparr>used := (avail_ring (avail vr3) n + sizeof_virtio16 + align - 1) AND NOT (align - 1)\<rparr>)"

definition vring_size :: "u32 \<Rightarrow> u32 \<Rightarrow> u32" where
  "vring_size n align =
     ((sizeof_vring_desc * n + sizeof_virtio16 * (3 + n) + align - 1) AND NOT (align - 1)) +
     sizeof_virtio16 * 3 + sizeof_vring_used_elem * n"

lemmas vring_sizes = sizeof_vring_desc_def sizeof_virtio16_def sizeof_vring_used_elem_def

section \<open>Events\<close>

definition vring_need_event :: "u16 \<Rightarrow> u16 \<Rightarrow> u16 \<Rightarrow> int" where
  "vring_need_event event_idx new_idx old = c_bool (new_idx - event_idx - 1 < new_idx - old)"

definition virtio_store_mb :: "('p \<Rightarrow> u16) \<Rightarrow> 'p \<Rightarrow> u16 \<Rightarrow> 'p \<Rightarrow> u16" where
  "virtio_store_mb m p v = m(p := v)"

section \<open>Properties\<close>

text \<open>Rounding up commutes with adding a multiple of the alignment.\<close>

lemma round_up_shift:
  fixes p x a :: nat
  assumes "a dvd p" "0 < a"
  shows "(p + x + a - 1) div a * a = p + (x + a - 1) div a * a"
proof -
  obtain c where p: "p = a * c" using assms(1) by blast
  define y where "y = x + a - 1"
  have "p + x + a - 1 = y + c * a" using assms(2) by (simp add: p y_def mult.commute [of c a])
  moreover have "(y + c * a) div a = y div a + c" using assms(2) by simp
  ultimately have "(p + x + a - 1) div a * a = y div a * a + p" by (simp add: p algebra_simps)
  then show ?thesis by (simp add: y_def)
qed

lemma unat_affine:
  fixes x y :: u32
  assumes "unat x + c * unat y < 2 ^ 32" "c < 2 ^ 32"
  shows "unat (x + y * of_nat c) = unat x + c * unat y"
proof -
  have "unat (of_nat c :: u32) = c" using assms(2) by (simp add: unat_of_nat)
  then have "unat (y * of_nat c) = c * unat y"
    using assms(1) by (simp add: unat_mult_exact mult.commute)
  then show ?thesis using assms(1) by (simp add: unat_add_exact)
qed

text \<open>
  For an alignment \<open>2^k\<close> and a block that starts aligned and does not wrap around the
  address space, \<open>vring_size\<close> is the size of the block \<open>vring_init\<close> lays out: the
  descriptors come first, then the available ring with the event word behind it, then at
  the next aligned address the used ring with its event word, which ends the block.
\<close>

theorem vring_layout:
  fixes v :: vring
  assumes "align = 2 ^ k" "k < 32" "unat p mod 2 ^ k = 0"
    and "unat p + 26 * unat n + 12 + 2 ^ k \<le> 2 ^ 32"
  defines "vr \<equiv> vring_init v n p align"
  shows "unat (avail vr) = unat (desc vr) + 16 * unat n \<and>
    unat (vring_used_event vr) = unat (avail vr) + 4 + 2 * unat n \<and>
    unat (vring_used_event vr) + 2 \<le> unat (used vr) \<and>
    unat (used vr) < unat (vring_used_event vr) + 2 + 2 ^ k \<and>
    unat (used vr) mod 2 ^ k = 0 \<and>
    unat (vring_avail_event vr) = unat (used vr) + 4 + 8 * unat n \<and>
    unat (vring_avail_event vr) + 2 = unat p + unat (vring_size n align)"
proof -
  define N P A where "N = unat n" "P = unat p" "A = (2 :: nat) ^ k"
  have bound: "P + 26 * N + 12 + A \<le> 2 ^ 32" "0 < A" "A dvd P"
    using assms(3,4) by (simp_all add: N_P_A_def dvd_eq_mod_eq_0)
  have av: "unat (avail vr) = P + 16 * N"
    using unat_affine [of p 16 n] bound(1,2)
    by (simp add: vr_def vring_init_def Let_def vring_sizes N_P_A_def mult.commute)
  have "unat (avail vr + 4) = P + 16 * N + 4"
    using bound av by (simp add: unat_add_exact)
  then have ev: "unat (vring_used_event vr) = P + 18 * N + 4"
    using unat_affine [of "avail vr + 4" 2 n] bound(1,2)
    by (simp add: vring_used_event_def avail_ring_def vring_sizes N_P_A_def vr_def vring_init_def Let_def)
  have ev2: "unat (vring_used_event vr + 2) = P + 18 * N + 6"
    using bound ev by (simp add: unat_add_exact)
  have us: "unat (used vr) = (P + (18 * N + 6) + A - 1) div A * A"
    using unat_round_up [of align k "vring_used_event vr + 2"] assms(1,2) bound ev2
    by (simp add: vr_def vring_init_def Let_def vring_used_event_def avail_ring_def vring_sizes N_P_A_def)
  have six: "unat (6 :: u32) = 6" by simp
  have "unat (16 * n + 2 * (3 + n)) = 18 * N + 6"
    using unat_affine [of 6 18 n, unfolded six] bound by (simp add: N_P_A_def algebra_simps)
  then have core: "unat ((16 * n + 2 * (3 + n) + align - 1) AND NOT (align - 1)) = (18 * N + 6 + A - 1) div A * A"
    using unat_round_up [of align k "16 * n + 2 * (3 + n)"] assms(1,2) bound by (simp add: N_P_A_def)
  have shift: "(P + (18 * N + 6) + A - 1) div A * A = P + (18 * N + 6 + A - 1) div A * A"
    by (rule round_up_shift [OF bound(3,2)])
  note up = round_up_bounds [OF bound(2), of "18 * N + 6"]
  have "unat (used vr + 4) = unat (used vr) + 4"
    using bound us shift up by (simp add: unat_add_exact)
  then have ae: "unat (vring_avail_event vr) = unat (used vr) + 4 + 8 * N"
    using unat_affine [of "used vr + 4" 8 n] bound us shift up
    by (simp add: vring_avail_event_def used_ring_def vring_sizes N_P_A_def vr_def vring_init_def Let_def)
  have sz: "unat (vring_size n align) = (18 * N + 6 + A - 1) div A * A + 6 + 8 * N"
  proof -
    let ?x = "(16 * n + 2 * (3 + n) + align - 1) AND NOT (align - 1)"
    have "unat (?x + 6) = unat ?x + 6"
      using core up bound six by (simp add: unat_add_exact)
    then have "unat (?x + 6 + n * of_nat 8) = unat ?x + 6 + 8 * N"
      using unat_affine [of "?x + 6" 8 n] core up bound by (simp add: N_P_A_def)
    then show ?thesis using core by (simp add: vring_size_def vring_sizes mult.commute)
  qed
  show ?thesis
    using av ev us shift up ae sz bound by (simp add: N_P_A_def vr_def vring_init_def Let_def)
qed

lemma vring_layout_witness:
  "let vr = vring_init \<lparr>num = 0, desc = 0, avail = 0, used = 0\<rparr> 256 0x10000 4096
   in unat (vring_avail_event vr) + 2 = 65536 + unat (vring_size 256 4096) \<and> unat (used vr) mod 4096 = 0"
  using vring_layout [where align = 4096 and k = 12 and p = "0x10000" and n = 256
    and v = "\<lparr>num = 0, desc = 0, avail = 0, used = 0\<rparr>"] by (simp add: Let_def)

text \<open>
  \<open>vring_need_event\<close> says whether the index the other side waits for is among those
  that were added since \<open>old\<close>, when the indices wrap around too.
\<close>

theorem vring_need_event_spec:
  "vring_need_event event new old = 1 \<longleftrightarrow>
   (\<exists>j < unat (new - old). event = old + of_nat j)"
proof -
  let ?d = "new - old" and ?e = "event - old"
  have "vring_need_event event new old = 1 \<longleftrightarrow> ?d - ?e - 1 < ?d"
    by (simp add: vring_need_event_def algebra_simps)
  also have "\<dots> \<longleftrightarrow> ?e < ?d"
  proof (cases "?e < ?d")
    case True
    then have "unat (?d - ?e) = unat ?d - unat ?e" by (intro unat_sub_exact) simp
    moreover have "1 \<le> ?d - ?e" using True calculation by (simp add: word_le_nat_alt word_less_nat_alt)
    then have "unat (?d - ?e - 1) = unat (?d - ?e) - 1" by (simp add: unat_sub_exact)
    ultimately show ?thesis using True by (simp add: word_less_nat_alt)
  next
    case False
    let ?D = "unat ?d" and ?E = "unat ?e"
    have le: "?D \<le> ?E" "?E < 65536"
      using False unat_less_pow [of ?e] by (simp_all add: word_less_nat_alt)
    then have "(of_nat (65536 + ?D - ?E - 1) :: u16) = of_nat (65536 + ?D) - of_nat ?E - 1"
      by (simp add: of_nat_diff)
    then have "?d - ?e - 1 = of_nat (65536 + ?D - ?E - 1)" by simp
    then have "unat (?d - ?e - 1) = (65536 + ?D - ?E - 1) mod 65536" by (simp add: unat_of_nat)
    then have "?D \<le> unat (?d - ?e - 1)" using le by simp
    then show ?thesis using False by (simp add: word_less_nat_alt)
  qed
  also have "\<dots> \<longleftrightarrow> (\<exists>j < unat ?d. event = old + of_nat j)"
  proof
    assume "?e < ?d"
    then have "unat ?e < unat ?d" "event = old + of_nat (unat ?e)" by (simp_all add: word_less_nat_alt)
    then show "\<exists>j < unat ?d. event = old + of_nat j" by blast
  next
    assume "\<exists>j < unat ?d. event = old + of_nat j"
    then obtain j where j: "j < unat ?d" "event = old + of_nat j" by blast
    then have "unat ?e = j" using unat_less_pow [of ?d] by (simp add: unat_of_nat)
    then show "?e < ?d" using j(1) by (simp add: word_less_nat_alt)
  qed
  finally show ?thesis .
qed

end
