(* ===== verification/Virtio.thy ===== *)
theory Virtio
  imports Unaligned ListHead Bits "HOL-Library.While_Combinator"
begin

text \<open>
  The inline part of \<open>include/virtio.h\<close>: feature bits, the byte order of a device's data,
  and the access to its configuration space, where a field that takes several reads is read
  again until the generation counter of the device stands still.  The operations of the
  transport are outside the repository: a record of functions on the state of the device.
  An operation that fails leaves the caller's variable as it was, so that the first content
  of such a variable is an argument of the functions that read it.  \<open>WARN_ON\<close> prints a
  message, which is left out.
\<close>

section \<open>Devices and features\<close>

record virtio_dev_priv =
  vqs :: addr
  priv_vdev :: addr
  legacy :: bool
  priv_device :: u32
  priv_vendor :: u32
  features :: u64
  feature_table :: addr
  feature_table_size :: u32
  feature_table_legacy :: addr
  feature_table_size_legacy :: u32

record udevice =
  dev_parent :: addr
  uclass_priv :: virtio_dev_priv

type_synonym devices = "addr \<Rightarrow> udevice"

definition dev_get_uclass_priv :: "devices \<Rightarrow> addr \<Rightarrow> virtio_dev_priv" where
  "dev_get_uclass_priv devs dev = uclass_priv (devs dev)"

definition update_features :: "(u64 \<Rightarrow> u64) \<Rightarrow> addr \<Rightarrow> devices \<Rightarrow> devices" where
  "update_features g dev devs =
     devs(dev := (devs dev)\<lparr>uclass_priv := (uclass_priv (devs dev))\<lparr>features := g (features (uclass_priv (devs dev)))\<rparr>\<rparr>)"

text \<open>A feature number of 64 or more is an undefined shift.\<close>

definition virtio_test_bit_raw :: "devices \<Rightarrow> addr \<Rightarrow> nat \<Rightarrow> ub + bool" where
  "virtio_test_bit_raw devs udev fbit =
     (let uc_priv = dev_get_uclass_priv devs udev
      in if 64 \<le> fbit then Inl BadShift else Inr (features uc_priv AND BIT_ULL fbit \<noteq> 0))"

definition virtio_set_bit_raw :: "devices \<Rightarrow> addr \<Rightarrow> nat \<Rightarrow> ub + devices" where
  "virtio_set_bit_raw devs udev fbit =
     (if 64 \<le> fbit then Inl BadShift
      else Inr (update_features (\<lambda>x. x OR BIT_ULL fbit) udev devs))"

definition virtio_clear_bit_raw :: "devices \<Rightarrow> addr \<Rightarrow> nat \<Rightarrow> ub + devices" where
  "virtio_clear_bit_raw devs udev fbit =
     (if 64 \<le> fbit then Inl BadShift
      else Inr (update_features (\<lambda>x. x AND NOT (BIT_ULL fbit)) udev devs))"

definition virtio_has_feature :: "devices \<Rightarrow> addr \<Rightarrow> nat \<Rightarrow> ub + bool" where
  "virtio_has_feature devs vdev fbit = virtio_test_bit_raw devs (dev_parent (devs vdev)) fbit"

section \<open>Byte order\<close>

definition virtio16_to_cpu_raw :: "byte_order \<Rightarrow> bool \<Rightarrow> u16 \<Rightarrow> u16" where
  "virtio16_to_cpu_raw ord little_endian x =
     (if little_endian then le16_to_cpu (host_header ord) x else be16_to_cpu (host_header ord) x)"

definition cpu_to_virtio16_raw :: "byte_order \<Rightarrow> bool \<Rightarrow> u16 \<Rightarrow> u16" where
  "cpu_to_virtio16_raw ord little_endian x =
     (if little_endian then cpu_to_le16 (host_header ord) x else cpu_to_be16 (host_header ord) x)"

definition virtio32_to_cpu_raw :: "byte_order \<Rightarrow> bool \<Rightarrow> u32 \<Rightarrow> u32" where
  "virtio32_to_cpu_raw ord little_endian x =
     (if little_endian then le32_to_cpu (host_header ord) x else be32_to_cpu (host_header ord) x)"

definition cpu_to_virtio32_raw :: "byte_order \<Rightarrow> bool \<Rightarrow> u32 \<Rightarrow> u32" where
  "cpu_to_virtio32_raw ord little_endian x =
     (if little_endian then cpu_to_le32 (host_header ord) x else cpu_to_be32 (host_header ord) x)"

definition virtio64_to_cpu_raw :: "byte_order \<Rightarrow> bool \<Rightarrow> u64 \<Rightarrow> u64" where
  "virtio64_to_cpu_raw ord little_endian x =
     (if little_endian then le64_to_cpu (host_header ord) x else be64_to_cpu (host_header ord) x)"

definition cpu_to_virtio64_raw :: "byte_order \<Rightarrow> bool \<Rightarrow> u64 \<Rightarrow> u64" where
  "cpu_to_virtio64_raw ord little_endian x =
     (if little_endian then cpu_to_le64 (host_header ord) x else cpu_to_be64 (host_header ord) x)"

definition virtio_legacy_is_little_endian :: "byte_order \<Rightarrow> bool" where
  "virtio_legacy_is_little_endian ord \<longleftrightarrow> ord = LittleEndian"

definition virtio_is_little_endian :: "byte_order \<Rightarrow> devices \<Rightarrow> addr \<Rightarrow> bool" where
  "virtio_is_little_endian ord devs vdev =
     (let uc_priv = dev_get_uclass_priv devs (dev_parent (devs vdev))
      in \<not> legacy uc_priv \<or> virtio_legacy_is_little_endian ord)"

definition virtio16_to_cpu :: "byte_order \<Rightarrow> devices \<Rightarrow> addr \<Rightarrow> u16 \<Rightarrow> u16" where
  "virtio16_to_cpu ord devs vdev x = virtio16_to_cpu_raw ord (virtio_is_little_endian ord devs vdev) x"

definition cpu_to_virtio16 :: "byte_order \<Rightarrow> devices \<Rightarrow> addr \<Rightarrow> u16 \<Rightarrow> u16" where
  "cpu_to_virtio16 ord devs vdev x = cpu_to_virtio16_raw ord (virtio_is_little_endian ord devs vdev) x"

definition virtio32_to_cpu :: "byte_order \<Rightarrow> devices \<Rightarrow> addr \<Rightarrow> u32 \<Rightarrow> u32" where
  "virtio32_to_cpu ord devs vdev x = virtio32_to_cpu_raw ord (virtio_is_little_endian ord devs vdev) x"

definition cpu_to_virtio32 :: "byte_order \<Rightarrow> devices \<Rightarrow> addr \<Rightarrow> u32 \<Rightarrow> u32" where
  "cpu_to_virtio32 ord devs vdev x = cpu_to_virtio32_raw ord (virtio_is_little_endian ord devs vdev) x"

definition virtio64_to_cpu :: "byte_order \<Rightarrow> devices \<Rightarrow> addr \<Rightarrow> u64 \<Rightarrow> u64" where
  "virtio64_to_cpu ord devs vdev x = virtio64_to_cpu_raw ord (virtio_is_little_endian ord devs vdev) x"

definition cpu_to_virtio64 :: "byte_order \<Rightarrow> devices \<Rightarrow> addr \<Rightarrow> u64 \<Rightarrow> u64" where
  "cpu_to_virtio64 ord devs vdev x = cpu_to_virtio64_raw ord (virtio_is_little_endian ord devs vdev) x"

section \<open>The configuration space\<close>

text \<open>
  The operations of the transport: reading \<open>len\<close> bytes at an offset, writing bytes there,
  and the generation counter, each with the state of the device behind it; \<open>None\<close> is an
  error.
\<close>

record 'd dm_virtio_ops =
  get_config :: "u32 \<Rightarrow> nat \<Rightarrow> 'd \<Rightarrow> u8 list option \<times> 'd"
  set_config :: "u32 \<Rightarrow> u8 list \<Rightarrow> 'd \<Rightarrow> 'd"
  generation :: "'d \<Rightarrow> u32 option \<times> 'd"

definition virtio_get_config :: "'d dm_virtio_ops \<Rightarrow> u32 \<Rightarrow> u8 list \<Rightarrow> 'd \<Rightarrow> u8 list \<times> 'd" where
  "virtio_get_config ops offset buf d =
     (case get_config ops offset (length buf) d of
        (Some bs, d1) \<Rightarrow> (bs, d1)
      | (None, d1) \<Rightarrow> (buf, d1))"

definition virtio_generation :: "'d dm_virtio_ops \<Rightarrow> u32 \<Rightarrow> 'd \<Rightarrow> u32 \<times> 'd" where
  "virtio_generation ops gen d =
     (case generation ops d of
        (Some g, d1) \<Rightarrow> (g, d1)
      | (None, d1) \<Rightarrow> (gen, d1))"

text \<open>The value of an object with the given bytes.\<close>

definition object_value :: "byte_order \<Rightarrow> u8 list \<Rightarrow> 'a::len word" where
  "object_value ord bs = word_of_bytes (if ord = LittleEndian then bs else rev bs)"

definition overwrite :: "nat \<Rightarrow> u8 list \<Rightarrow> u8 list \<Rightarrow> u8 list" where
  "overwrite k bs buf = take k buf @ bs @ drop (k + length bs) buf"

text \<open>The inner loop: field \<open>i\<close> and the \<open>n - 1\<close> fields after it.\<close>

fun cread_fields ::
  "'d dm_virtio_ops \<Rightarrow> u32 \<Rightarrow> nat \<Rightarrow> nat \<Rightarrow> nat \<Rightarrow> u8 list \<Rightarrow> 'd \<Rightarrow> u8 list \<times> 'd" where
  "cread_fields ops offset bytes i 0 buf d = (buf, d)"
| "cread_fields ops offset bytes i (Suc n) buf d =
     (let field = take bytes (drop (i * bytes) buf);
          (bs, d1) = virtio_get_config ops (offset + of_nat bytes * of_nat i) field d;
          buf1 = overwrite (i * bytes) bs buf
      in cread_fields ops offset bytes (Suc i) n buf1 d1)"

definition cread_pass ::
  "'d dm_virtio_ops \<Rightarrow> u32 \<Rightarrow> nat \<Rightarrow> nat \<Rightarrow> u32 \<times> u8 list \<times> 'd \<Rightarrow> u32 \<times> u32 \<times> u8 list \<times> 'd" where
  "cread_pass ops offset count bytes = (\<lambda>(gen, buf, d).
     let old = gen;
         (buf1, d1) = cread_fields ops offset bytes 0 count buf d;
         (gen1, d2) = virtio_generation ops gen d1
     in (old, gen1, buf1, d2))"

definition virtio_cread_many ::
  "'d dm_virtio_ops \<Rightarrow> u32 \<Rightarrow> u32 \<Rightarrow> nat \<Rightarrow> nat \<Rightarrow> u8 list \<Rightarrow> 'd \<Rightarrow> (u8 list \<times> 'd) option" where
  "virtio_cread_many ops gen0 offset count bytes buf d =
     (let (gen, d1) = virtio_generation ops gen0 d
      in map_option (\<lambda>(old, gen, buf, d). (buf, d))
        (while_option (\<lambda>(old, gen, buf, d). gen \<noteq> old)
          (\<lambda>(old, gen, buf, d). cread_pass ops offset count bytes (gen, buf, d))
          (cread_pass ops offset count bytes (gen, buf, d1))))"

definition virtio_cread_bytes ::
  "'d dm_virtio_ops \<Rightarrow> u32 \<Rightarrow> u32 \<Rightarrow> u8 list \<Rightarrow> 'd \<Rightarrow> (u8 list \<times> 'd) option" where
  "virtio_cread_bytes ops gen0 offset buf d = virtio_cread_many ops gen0 offset (length buf) 1 buf d"

text \<open>The typed accesses; \<open>ret0\<close> is what the local variable \<open>ret\<close> held before.\<close>

definition virtio_cread8 :: "'d dm_virtio_ops \<Rightarrow> u32 \<Rightarrow> u8 list \<Rightarrow> 'd \<Rightarrow> u8 \<times> 'd" where
  "virtio_cread8 ops offset ret0 d =
     (let (ret, d1) = virtio_get_config ops offset ret0 d in (hd ret, d1))"

definition virtio_cwrite8 :: "'d dm_virtio_ops \<Rightarrow> u32 \<Rightarrow> u8 \<Rightarrow> 'd \<Rightarrow> 'd" where
  "virtio_cwrite8 ops offset x d = set_config ops offset [x] d"

definition virtio_cread16 ::
  "byte_order \<Rightarrow> devices \<Rightarrow> addr \<Rightarrow> 'd dm_virtio_ops \<Rightarrow> u32 \<Rightarrow> u8 list \<Rightarrow> 'd \<Rightarrow> u16 \<times> 'd" where
  "virtio_cread16 ord devs vdev ops offset ret0 d =
     (let (ret, d1) = virtio_get_config ops offset ret0 d
      in (virtio16_to_cpu ord devs vdev (object_value ord ret), d1))"

definition virtio_cwrite16 ::
  "byte_order \<Rightarrow> devices \<Rightarrow> addr \<Rightarrow> 'd dm_virtio_ops \<Rightarrow> u32 \<Rightarrow> u16 \<Rightarrow> 'd \<Rightarrow> 'd" where
  "virtio_cwrite16 ord devs vdev ops offset x d =
     (let x = cpu_to_virtio16 ord devs vdev x in set_config ops offset (object_bytes ord 2 x) d)"

definition virtio_cread32 ::
  "byte_order \<Rightarrow> devices \<Rightarrow> addr \<Rightarrow> 'd dm_virtio_ops \<Rightarrow> u32 \<Rightarrow> u8 list \<Rightarrow> 'd \<Rightarrow> u32 \<times> 'd" where
  "virtio_cread32 ord devs vdev ops offset ret0 d =
     (let (ret, d1) = virtio_get_config ops offset ret0 d
      in (virtio32_to_cpu ord devs vdev (object_value ord ret), d1))"

definition virtio_cwrite32 ::
  "byte_order \<Rightarrow> devices \<Rightarrow> addr \<Rightarrow> 'd dm_virtio_ops \<Rightarrow> u32 \<Rightarrow> u32 \<Rightarrow> 'd \<Rightarrow> 'd" where
  "virtio_cwrite32 ord devs vdev ops offset x d =
     (let x = cpu_to_virtio32 ord devs vdev x in set_config ops offset (object_bytes ord 4 x) d)"

definition virtio_cread64 ::
  "byte_order \<Rightarrow> devices \<Rightarrow> addr \<Rightarrow> 'd dm_virtio_ops \<Rightarrow> u32 \<Rightarrow> u32 \<Rightarrow> u8 list \<Rightarrow> 'd \<Rightarrow> (u64 \<times> 'd) option" where
  "virtio_cread64 ord devs vdev ops gen0 offset ret0 d =
     map_option (\<lambda>(ret, d1). (virtio64_to_cpu ord devs vdev (object_value ord ret), d1))
       (virtio_cread_many ops gen0 offset 1 8 ret0 d)"

definition virtio_cwrite64 ::
  "byte_order \<Rightarrow> devices \<Rightarrow> addr \<Rightarrow> 'd dm_virtio_ops \<Rightarrow> u32 \<Rightarrow> u64 \<Rightarrow> 'd \<Rightarrow> 'd" where
  "virtio_cwrite64 ord devs vdev ops offset x d =
     (let x = cpu_to_virtio64 ord devs vdev x in set_config ops offset (object_bytes ord 8 x) d)"

text \<open>
  The macros choose by the size of the object at \<open>ptr\<close>, which for other sizes keeps its
  value; values are widened to 64 bits.
\<close>

definition virtio_cread ::
  "byte_order \<Rightarrow> devices \<Rightarrow> addr \<Rightarrow> 'd dm_virtio_ops \<Rightarrow> u32 \<Rightarrow> u32 \<Rightarrow> nat \<Rightarrow> u8 list \<Rightarrow> u64 \<Rightarrow> 'd \<Rightarrow> (u64 \<times> 'd) option"
where
  "virtio_cread ord devs vdev ops gen0 offset sz ret0 ptr d =
     (if sz = 1 then Some (apfst ucast (virtio_cread8 ops offset ret0 d))
      else if sz = 2 then Some (apfst ucast (virtio_cread16 ord devs vdev ops offset ret0 d))
      else if sz = 4 then Some (apfst ucast (virtio_cread32 ord devs vdev ops offset ret0 d))
      else if sz = 8 then virtio_cread64 ord devs vdev ops gen0 offset ret0 d
      else Some (ptr, d))"

definition virtio_cwrite ::
  "byte_order \<Rightarrow> devices \<Rightarrow> addr \<Rightarrow> 'd dm_virtio_ops \<Rightarrow> u32 \<Rightarrow> nat \<Rightarrow> u64 \<Rightarrow> 'd \<Rightarrow> 'd" where
  "virtio_cwrite ord devs vdev ops offset sz ptr d =
     (if sz = 1 then virtio_cwrite8 ops offset (ucast ptr) d
      else if sz = 2 then virtio_cwrite16 ord devs vdev ops offset (ucast ptr) d
      else if sz = 4 then virtio_cwrite32 ord devs vdev ops offset (ucast ptr) d
      else if sz = 8 then virtio_cwrite64 ord devs vdev ops offset ptr d
      else d)"

definition ENOENT :: int where "ENOENT = 2"

definition virtio_cread_feature ::
  "byte_order \<Rightarrow> devices \<Rightarrow> addr \<Rightarrow> 'd dm_virtio_ops \<Rightarrow> nat \<Rightarrow> u32 \<Rightarrow> u32 \<Rightarrow> nat \<Rightarrow> u8 list \<Rightarrow> u64 \<Rightarrow> 'd \<Rightarrow>
   ub + (int \<times> u64 \<times> 'd) option" where
  "virtio_cread_feature ord devs vdev ops fbit gen0 offset sz ret0 ptr d =
     bindE (virtio_has_feature devs vdev fbit) (\<lambda>has.
       if \<not> has then Inr (Some (- ENOENT, ptr, d))
       else Inr (map_option (\<lambda>(x, d1). (0, x, d1)) (virtio_cread ord devs vdev ops gen0 offset sz ret0 ptr d)))"

section \<open>A consistent snapshot\<close>

text \<open>
  What the device promises: its state evolves by itself and with every access; a read yields
  the bytes of one moment, the counter is that of one moment, and when the counter is the
  same at two moments the space did not change in between.  Changes of the counter come to
  an end (\<open>left\<close> bounds how many are to come).
\<close>

definition keeps_generation ::
  "'d dm_virtio_ops \<Rightarrow> ('d \<Rightarrow> nat \<Rightarrow> u8) \<Rightarrow> ('d \<Rightarrow> u32) \<Rightarrow> ('d \<Rightarrow> 'd \<Rightarrow> bool) \<Rightarrow> bool" where
  "keeps_generation ops space gen evolves \<longleftrightarrow>
     (\<forall>d. evolves d d) \<and>
     (\<forall>d1 d2 d3. evolves d1 d2 \<longrightarrow> evolves d2 d3 \<longrightarrow> evolves d1 d3) \<and>
     (\<forall>offset len d. \<exists>d1. get_config ops offset len d =
        (Some (map (\<lambda>k. space d (unat offset + k)) [0..<len]), d1) \<and> evolves d d1) \<and>
     (\<forall>d. \<exists>d1. generation ops d = (Some (gen d), d1) \<and> evolves d d1) \<and>
     (\<forall>d1 d2 d3. evolves d1 d2 \<longrightarrow> evolves d2 d3 \<longrightarrow> gen d3 = gen d1 \<longrightarrow> space d2 = space d1)"

definition settles :: "('d \<Rightarrow> u32) \<Rightarrow> ('d \<Rightarrow> 'd \<Rightarrow> bool) \<Rightarrow> ('d \<Rightarrow> nat) \<Rightarrow> bool" where
  "settles gen evolves left \<longleftrightarrow>
     (\<forall>d1 d2. evolves d1 d2 \<longrightarrow> (if gen d2 = gen d1 then left d2 \<le> left d1 else left d2 < left d1))"

lemma keeps_generationD:
  assumes "keeps_generation ops space gen evolves"
  shows "evolves d d" "evolves d1 d2 \<Longrightarrow> evolves d2 d3 \<Longrightarrow> evolves d1 d3"
    "\<exists>d1. get_config ops offset len d =
        (Some (map (\<lambda>k. space d (unat offset + k)) [0..<len]), d1) \<and> evolves d d1"
    "\<exists>d1. generation ops d = (Some (gen d), d1) \<and> evolves d d1"
    "evolves d1 d2 \<Longrightarrow> evolves d2 d3 \<Longrightarrow> gen d3 = gen d1 \<Longrightarrow> space d2 = space d1"
  using assms unfolding keeps_generation_def by blast+

lemma overwrite_next:
  assumes "length bs = bytes" "length buf = i * bytes + bytes + rest"
  shows "overwrite (i * bytes) bs buf = take (i * bytes) buf @ bs @ drop (Suc i * bytes) buf"
  using assms by (simp add: overwrite_def add.commute)

text \<open>The fields are read at moments between \<open>d\<close> and the last state.\<close>

lemma unat_field_offset:
  fixes offset :: u32
  assumes "unat offset + b * i < 2 ^ 32"
  shows "unat (offset + of_nat b * of_nat i) = unat offset + b * i"
proof -
  have "unat (of_nat (b * i) :: u32) = b * i"
    using assms by (simp add: unat_of_nat del: of_nat_mult)
  then show ?thesis using assms by (simp add: unat_add_exact)
qed

lemma cread_fields_evolves:
  assumes K: "keeps_generation ops space gen evolves"
  shows "length buf = (i + n) * bytes \<Longrightarrow> unat offset + (i + n) * bytes < 2 ^ 32 \<Longrightarrow>
    \<exists>buf' d'. cread_fields ops offset bytes i n buf d = (buf', d') \<and> evolves d d' \<and>
      length buf' = length buf \<and>
      (\<forall>sp. (\<forall>e. evolves d e \<longrightarrow> evolves e d' \<longrightarrow> space e = sp) \<longrightarrow>
         buf' = take (i * bytes) buf @ map (\<lambda>k. sp (unat offset + k)) [i * bytes..<(i + n) * bytes])"
proof (induction n arbitrary: i buf d)
  case 0
  then show ?case using keeps_generationD(1) [OF K] by auto
next
  case (Suc n)
  let ?off = "offset + of_nat bytes * of_nat i" and ?field = "take bytes (drop (i * bytes) buf)"
  define bs where "bs = map (\<lambda>k. space d (unat ?off + k)) [0..<bytes]"
  define buf1 where "buf1 = overwrite (i * bytes) bs buf"
  have "length buf = i * bytes + (bytes + n * bytes)" using Suc.prems(1) by (simp add: algebra_simps)
  then have len: "length ?field = bytes" by simp
  obtain d1 where d1: "virtio_get_config ops ?off ?field d = (bs, d1)" "evolves d d1"
    using keeps_generationD(3) [OF K, of ?off bytes d] unfolding virtio_get_config_def len bs_def by fastforce
  have buf1: "buf1 = take (i * bytes) buf @ bs @ drop (Suc i * bytes) buf"
    unfolding buf1_def by (rule overwrite_next [where rest = "n * bytes"])
      (use Suc.prems(1) in \<open>simp_all add: bs_def algebra_simps\<close>)
  have len1: "length buf1 = (Suc i + n) * bytes"
    using Suc.prems(1) by (simp add: buf1 bs_def algebra_simps)
  then obtain buf' d' where IH: "cread_fields ops offset bytes (Suc i) n buf1 d1 = (buf', d')"
    "evolves d1 d'" "length buf' = length buf1"
    "\<And>sp. \<forall>e. evolves d1 e \<longrightarrow> evolves e d' \<longrightarrow> space e = sp \<Longrightarrow>
      buf' = take (Suc i * bytes) buf1 @ map (\<lambda>k. sp (unat offset + k)) [Suc i * bytes..<(Suc i + n) * bytes]"
    using Suc.IH [of buf1 "Suc i" d1] Suc.prems(2) by auto
  have d': "evolves d d'" using keeps_generationD(2) [OF K d1(2) IH(2)] .
  have "buf' = take (i * bytes) buf @ map (\<lambda>k. sp (unat offset + k)) [i * bytes..<(i + Suc n) * bytes]"
    if sp: "\<forall>e. evolves d e \<longrightarrow> evolves e d' \<longrightarrow> space e = sp" for sp
  proof -
    have "space d = sp" using sp d' keeps_generationD(1) [OF K] by blast
    moreover have "unat ?off = unat offset + bytes * i"
      by (rule unat_field_offset) (use Suc.prems(2) in \<open>simp add: algebra_simps\<close>)
    ultimately have bs: "bs = map (\<lambda>k. sp (unat offset + k)) [i * bytes..<Suc i * bytes]"
      by (intro nth_equalityI) (simp_all add: bs_def algebra_simps)
    have "take (Suc i * bytes) buf1 = take (i * bytes) buf @ bs"
      using Suc.prems(1) by (simp add: buf1 bs_def algebra_simps)
    moreover have "\<forall>e. evolves d1 e \<longrightarrow> evolves e d' \<longrightarrow> space e = sp"
      using sp keeps_generationD(2) [OF K d1(2)] by blast
    moreover have "[i * bytes..<(i + Suc n) * bytes] = [i * bytes..<Suc i * bytes] @ [Suc i * bytes..<(Suc i + n) * bytes]"
      using upt_add_eq_append [of "i * bytes" "Suc i * bytes" "n * bytes"] by (simp add: algebra_simps)
    ultimately show ?thesis using IH(4) [of sp] bs by simp
  qed
  moreover have "cread_fields ops offset bytes i (Suc n) buf d = (buf', d')"
    using d1(1) IH(1) by (simp add: buf1_def)
  ultimately show ?case using d' IH(3) len1 Suc.prems(1) by auto
qed

text \<open>One pass, started with the counter of an earlier moment.\<close>

lemma cread_pass_spec:
  assumes K: "keeps_generation ops space gen evolves"
    and len: "length buf = count * bytes" "unat offset + count * bytes < 2 ^ 32"
    and start: "evolves d0 d"
  shows "\<exists>buf' d1 d2. cread_pass ops offset count bytes (gen d0, buf, d) = (gen d0, gen d1, buf', d2) \<and>
    evolves d d1 \<and> evolves d1 d2 \<and> length buf' = count * bytes \<and>
    (gen d1 = gen d0 \<longrightarrow> buf' = map (\<lambda>k. space d (unat offset + k)) [0..<count * bytes])"
proof -
  obtain buf' d1 where f: "cread_fields ops offset bytes 0 count buf d = (buf', d1)" "evolves d d1"
    "length buf' = length buf"
    "\<And>sp. \<forall>e. evolves d e \<longrightarrow> evolves e d1 \<longrightarrow> space e = sp \<Longrightarrow>
      buf' = map (\<lambda>k. sp (unat offset + k)) [0..<count * bytes]"
    using cread_fields_evolves [OF K, of buf 0 count bytes offset d] len by auto
  obtain d2 where g: "generation ops d1 = (Some (gen d1), d2)" "evolves d1 d2"
    using keeps_generationD(4) [OF K] by blast
  have "space e = space d" if "gen d1 = gen d0" "evolves d e" "evolves e d1" for e
  proof -
    have "evolves d0 e" using keeps_generationD(2) [OF K start that(2)] .
    from keeps_generationD(5) [OF K this that(3,1)] keeps_generationD(5) [OF K start f(2) that(1)]
    show ?thesis by simp
  qed
  then have "gen d1 = gen d0 \<longrightarrow> buf' = map (\<lambda>k. space d (unat offset + k)) [0..<count * bytes]"
    using f(4) [of "space d"] by blast
  then show ?thesis
    using f(1,2,3) g len(1) by (auto simp: cread_pass_def virtio_generation_def)
qed

lemma cread_loop:
  assumes K: "keeps_generation ops space gen evolves" and S: "settles gen evolves left"
    and off: "unat offset + count * bytes < 2 ^ 32"
  shows "length buf = count * bytes \<Longrightarrow> evolves d0 d \<Longrightarrow>
    \<exists>old g buf' d1 d2. while_option (\<lambda>(old, gen, buf, d). gen \<noteq> old)
        (\<lambda>(old, gen, buf, d). cread_pass ops offset count bytes (gen, buf, d))
        (cread_pass ops offset count bytes (gen d0, buf, d)) = Some (old, g, buf', d2) \<and>
      buf' = map (\<lambda>k. space d1 (unat offset + k)) [0..<count * bytes] \<and> evolves d d1 \<and> evolves d1 d2"
proof (induction "left d0" arbitrary: d0 d buf rule: less_induct)
  case less
  obtain buf1 d1 d2 where p: "cread_pass ops offset count bytes (gen d0, buf, d) = (gen d0, gen d1, buf1, d2)"
    "evolves d d1" "evolves d1 d2" "length buf1 = count * bytes"
    "gen d1 = gen d0 \<longrightarrow> buf1 = map (\<lambda>k. space d (unat offset + k)) [0..<count * bytes]"
    using cread_pass_spec [OF K less.prems(1) off less.prems(2)] by blast
  show ?case
  proof (cases "gen d1 = gen d0")
    case True
    have "evolves d d2" using keeps_generationD(2) [OF K p(2,3)] .
    then show ?thesis
      using True p keeps_generationD(1) [OF K, of d] unfolding p(1)
      by (subst while_option_unfold) auto
  next
    case False
    have "evolves d0 d1" using keeps_generationD(2) [OF K less.prems(2) p(2)] .
    then have "left d1 < left d0" using S False unfolding settles_def by metis
    from less.hyps [OF this p(4) p(3)] obtain old g buf' e1 e2 where
      "while_option (\<lambda>(old, gen, buf, d). gen \<noteq> old)
        (\<lambda>(old, gen, buf, d). cread_pass ops offset count bytes (gen, buf, d))
        (cread_pass ops offset count bytes (gen d1, buf1, d2)) = Some (old, g, buf', e2)"
      "buf' = map (\<lambda>k. space e1 (unat offset + k)) [0..<count * bytes]" "evolves d2 e1" "evolves e1 e2"
      by blast
    moreover have "evolves d e1"
      using keeps_generationD(2) [OF K keeps_generationD(2) [OF K p(2,3)] calculation(3)] .
    ultimately show ?thesis
      using False unfolding p(1) by (subst while_option_unfold) auto
  qed
qed

text \<open>
  C7: Reading several fields from a device whose counter changes finitely often ends, and
  what it returns is the configuration space at one moment between call and return.
\<close>

theorem virtio_cread_many_snapshot:
  assumes "keeps_generation ops space gen evolves" "settles gen evolves left"
    and "length buf = count * bytes" "unat offset + count * bytes < 2 ^ 32"
  shows "\<exists>d1 d2. virtio_cread_many ops gen0 offset count bytes buf d =
      Some (map (\<lambda>k. space d1 (unat offset + k)) [0..<count * bytes], d2) \<and>
    evolves d d1 \<and> evolves d1 d2"
proof -
  note K = assms(1)
  obtain d0 where d0: "generation ops d = (Some (gen d), d0)" "evolves d d0"
    using keeps_generationD(4) [OF K] by blast
  from cread_loop [OF K assms(2,4,3) d0(2)] obtain old g buf' d1 d2 where
    "while_option (\<lambda>(old, gen, buf, d). gen \<noteq> old)
        (\<lambda>(old, gen, buf, d). cread_pass ops offset count bytes (gen, buf, d))
        (cread_pass ops offset count bytes (gen d, buf, d0)) = Some (old, g, buf', d2)"
    "buf' = map (\<lambda>k. space d1 (unat offset + k)) [0..<count * bytes]" "evolves d0 d1" "evolves d1 d2"
    by blast
  moreover have "evolves d d1" using keeps_generationD(2) [OF K d0(2) calculation(3)] .
  ultimately show ?thesis using d0(1)
    by (intro exI [of _ d1] exI [of _ d2]) (simp add: virtio_cread_many_def virtio_generation_def)
qed

text \<open>A device whose space and counter change at its third action, as a counter of actions.\<close>

definition sample_ops :: "nat dm_virtio_ops" where
  "sample_ops = \<lparr>get_config = (\<lambda>offset len t. (Some (map (\<lambda>k. if t < 3 then 0 else of_nat (unat offset + k)) [0..<len]), Suc t)),
     set_config = (\<lambda>offset bs t. Suc t), generation = (\<lambda>t. (Some (if t < 3 then 0 else 1), Suc t))\<rparr>"

lemma virtio_cread_many_snapshot_witness:
  "\<exists>d1 d2. virtio_cread_many sample_ops 7 4 2 4 (replicate 8 0) 0 =
      Some (map (\<lambda>k. if d1 < 3 then 0 else of_nat (unat (4 :: u32) + k)) [0..<8], d2) \<and> 0 \<le> d1 \<and> d1 \<le> d2"
  using virtio_cread_many_snapshot [of sample_ops "\<lambda>t k. if t < 3 then 0 else of_nat k"
      "\<lambda>t. if t < 3 then 0 else 1" "(\<le>)" "\<lambda>t. if t < 3 then 1 else 0" "replicate 8 0" 2 4 4 7 0]
  by (simp add: keeps_generation_def settles_def sample_ops_def)

section \<open>What is on the wire\<close>

lemma object_value_bytes:
  assumes "object_bytes ord n (x :: 'a::len word) = bs" "LENGTH('a) = 8 * n"
  shows "object_value ord bs = x"
proof -
  have len: "length bs = n" using assms(1) by auto
  have le: "word_of_bytes cs = y" if "le_bytes n y = cs" for y :: "'a word" and cs
  proof (rule word_eq_by_bytes [where n = n])
    show "LENGTH('a) \<le> 8 * n" using assms(2) by simp
    show "byte (word_of_bytes cs :: 'a word) k = byte y k" if "k < n" for k
      using that assms(2) by (simp add: byte_word_of_bytes flip: \<open>le_bytes n y = cs\<close>)
  qed
  show ?thesis
    using assms(1) le [of x bs] le [of x "rev bs"] by (cases ord) (auto simp: object_value_def)
qed

definition wire_bytes :: "byte_order \<Rightarrow> devices \<Rightarrow> addr \<Rightarrow> nat \<Rightarrow> 'a::len word \<Rightarrow> u8 list" where
  "wire_bytes ord devs vdev n x =
     (if legacy (dev_get_uclass_priv devs (dev_parent (devs vdev))) then object_bytes ord n x
      else le_bytes n x)"

lemma object_bytes_cpu_to_virtio:
  "object_bytes ord 2 (cpu_to_virtio16 ord devs vdev x) =
     wire_bytes ord devs vdev 2 x"
  "object_bytes ord 4 (cpu_to_virtio32 ord devs vdev y) =
     wire_bytes ord devs vdev 4 y"
  "object_bytes ord 8 (cpu_to_virtio64 ord devs vdev z) =
     wire_bytes ord devs vdev 8 z"
  using host_order.stores_le [OF host_order_header, of ord] host_order.stores_be [OF host_order_header, of ord]
  by (cases ord; simp add: cpu_to_virtio16_def cpu_to_virtio16_raw_def cpu_to_virtio32_def
      cpu_to_virtio32_raw_def cpu_to_virtio64_def cpu_to_virtio64_raw_def virtio_is_little_endian_def
      virtio_legacy_is_little_endian_def wire_bytes_def Let_def)+

lemma virtio_to_cpu_undo:
  "virtio16_to_cpu ord devs vdev (cpu_to_virtio16 ord devs vdev x) = x"
  "virtio32_to_cpu ord devs vdev (cpu_to_virtio32 ord devs vdev y) = y"
  "virtio64_to_cpu ord devs vdev (cpu_to_virtio64 ord devs vdev z) = z"
  using host_order.undo [OF host_order_header, of ord]
  by (simp_all add: virtio16_to_cpu_def virtio16_to_cpu_raw_def cpu_to_virtio16_def
      cpu_to_virtio16_raw_def virtio32_to_cpu_def virtio32_to_cpu_raw_def cpu_to_virtio32_def
      cpu_to_virtio32_raw_def virtio64_to_cpu_def virtio64_to_cpu_raw_def cpu_to_virtio64_def
      cpu_to_virtio64_raw_def)

text \<open>
  A write stores the bytes of the value in little-endian order for a standard device, on
  either host, and in host order for a legacy device; a read of such bytes yields the
  value.  When the transport fails, the read returns the conversion of what the local
  variable held, without any sign of the failure.
\<close>

theorem virtio_config_wire:
  "virtio_cwrite16 ord devs vdev ops off x d = set_config ops off (wire_bytes ord devs vdev 2 x) d \<and>
    virtio_cwrite32 ord devs vdev ops off y d = set_config ops off (wire_bytes ord devs vdev 4 y) d \<and>
    virtio_cwrite64 ord devs vdev ops off z d = set_config ops off (wire_bytes ord devs vdev 8 z) d \<and>
    (get_config ops off (length ret0) d = (Some (wire_bytes ord devs vdev 2 x), d1) \<longrightarrow>
      virtio_cread16 ord devs vdev ops off ret0 d = (x, d1)) \<and>
    (get_config ops off (length ret0) d = (Some (wire_bytes ord devs vdev 4 y), d1) \<longrightarrow>
      virtio_cread32 ord devs vdev ops off ret0 d = (y, d1)) \<and>
    (get_config ops off (length ret0) d = (None, d1) \<longrightarrow>
      virtio_cread32 ord devs vdev ops off ret0 d = (virtio32_to_cpu ord devs vdev (object_value ord ret0), d1))"
proof -
  have "object_value ord (wire_bytes ord devs vdev 2 x) = cpu_to_virtio16 ord devs vdev x"
    "object_value ord (wire_bytes ord devs vdev 4 y) = cpu_to_virtio32 ord devs vdev y"
    unfolding object_bytes_cpu_to_virtio [symmetric] by (rule object_value_bytes; simp)+
  then show ?thesis
    by (simp add: virtio_cwrite16_def virtio_cwrite32_def virtio_cwrite64_def virtio_cread16_def
        virtio_cread32_def virtio_get_config_def object_bytes_cpu_to_virtio virtio_to_cpu_undo)
qed

definition standard_device :: devices where
  "standard_device = (\<lambda>_. \<lparr>dev_parent = 0, uclass_priv = \<lparr>vqs = 0, priv_vdev = 0, legacy = False,
      priv_device = 1, priv_vendor = 0, features = 0, feature_table = 0, feature_table_size = 0,
      feature_table_legacy = 0, feature_table_size_legacy = 0\<rparr>\<rparr>)"

definition fixed_ops :: "nat dm_virtio_ops" where
  "fixed_ops = \<lparr>get_config = (\<lambda>offset len d. (Some [0x78, 0x56, 0x34, 0x12], Suc d)),
     set_config = (\<lambda>offset bs d. d), generation = (\<lambda>d. (None, d))\<rparr>"

lemma virtio_config_wire_witness:
  "virtio_cread32 BigEndian standard_device 0 fixed_ops 0 [0, 0, 0, 0] 5 = (0x12345678, 6)"
proof -
  have "le_bytes 4 (0x12345678 :: u32) = [0x78, 0x56, 0x34, 0x12]" by code_simp
  then show ?thesis
    using virtio_config_wire [where ord = BigEndian and y = "0x12345678" and ?d1.0 = 6 and d = 5
        and devs = standard_device and ?ret0.0 = "[0, 0, 0, 0]" and vdev = 0 and off = 0 and ops = fixed_ops]
    by (simp add: wire_bytes_def dev_get_uclass_priv_def standard_device_def fixed_ops_def)
qed

text \<open>
  Feature bits below 64 are set, cleared and tested one by one, and leave other bits and
  other devices alone; a number of 64 or more is an undefined shift.
\<close>

theorem virtio_features_spec:
  assumes "fbit < 64"
  shows "(\<exists>devs1. virtio_set_bit_raw devs dev fbit = Inr devs1 \<and>
      (\<forall>dev' k. k < 64 \<longrightarrow> virtio_test_bit_raw devs1 dev' k =
        (if dev' = dev \<and> k = fbit then Inr True else virtio_test_bit_raw devs dev' k))) \<and>
    (\<exists>devs1. virtio_clear_bit_raw devs dev fbit = Inr devs1 \<and>
      (\<forall>dev' k. k < 64 \<longrightarrow> virtio_test_bit_raw devs1 dev' k =
        (if dev' = dev \<and> k = fbit then Inr False else virtio_test_bit_raw devs dev' k))) \<and>
    virtio_test_bit_raw devs dev (fbit + 64) = Inl BadShift"
proof -
  have one: "bit (BIT_ULL k) n \<longleftrightarrow> n = k \<and> k < 64" for k n
    by (auto simp: BIT_ULL_def bit_push_bit_iff bit_1_iff simp del: push_bit_of_1)
  have test: "(x AND BIT_ULL k \<noteq> 0) \<longleftrightarrow> bit x k" if "k < 64" for x :: u64 and k
    using that by (auto simp: and_zero_iff bit_and_iff one)
  show ?thesis
    using assms
    by (auto simp: virtio_set_bit_raw_def virtio_clear_bit_raw_def virtio_test_bit_raw_def test
        update_features_def dev_get_uclass_priv_def bit_or_iff bit_and_iff bit_not_iff one)
qed

lemma virtio_features_spec_witness:
  "\<forall>devs dev. \<exists>devs1. virtio_set_bit_raw devs dev 32 = Inr devs1 \<and>
     virtio_test_bit_raw devs1 dev 32 = Inr True"
proof (intro allI)
  fix devs dev
  show "\<exists>devs1. virtio_set_bit_raw devs dev 32 = Inr devs1 \<and> virtio_test_bit_raw devs1 dev 32 = Inr True"
    using virtio_features_spec [of 32 devs dev] by (metis (no_types) numeral_less_iff semiring_norm(76,78,80))
qed

end
