(* ===== verification/Poll.thy ===== *)
theory Poll
  imports Prelude
begin

text \<open>
  Waiting with a time limit: the comparisons of wrapping clocks in \<open>include/time.h\<close>, the
  polling macro of \<open>include/linux/iopoll.h\<close> and the functions that
  \<open>include/wait_bit.h\<close> generates.  Reading the register, the timers, the test for a
  key and the delay are outside the repository: functions on the state of the world.  A loop
  that does not return has the value \<open>None\<close>.
\<close>

section \<open>Clocks that wrap around\<close>

definition time_after :: "u32 \<Rightarrow> u32 \<Rightarrow> bool" where
  "time_after a b \<longleftrightarrow> sint (b - a) < 0"

definition time_before :: "u32 \<Rightarrow> u32 \<Rightarrow> bool" where
  "time_before a b \<longleftrightarrow> time_after b a"

definition time_after_eq :: "u32 \<Rightarrow> u32 \<Rightarrow> bool" where
  "time_after_eq a b \<longleftrightarrow> 0 \<le> sint (a - b)"

definition time_before_eq :: "u32 \<Rightarrow> u32 \<Rightarrow> bool" where
  "time_before_eq a b \<longleftrightarrow> time_after_eq b a"

definition time_in_range :: "u32 \<Rightarrow> u32 \<Rightarrow> u32 \<Rightarrow> bool" where
  "time_in_range a b c \<longleftrightarrow> time_after_eq a b \<and> time_before_eq a c"

definition time_in_range_open :: "u32 \<Rightarrow> u32 \<Rightarrow> u32 \<Rightarrow> bool" where
  "time_in_range_open a b c \<longleftrightarrow> time_after_eq a b \<and> time_before a c"

lemmas time_macros = time_after_def time_before_def time_after_eq_def time_before_eq_def
  time_in_range_def time_in_range_open_def

section \<open>Polling a register\<close>

definition ETIMEDOUT :: int where "ETIMEDOUT = 110"
definition EINTR :: int where "EINTR = 4"

record ('v, 'w) io =
  read_op :: "'w \<Rightarrow> 'v \<times> 'w"
  timer_get_us :: "'w \<Rightarrow> u32 \<times> 'w"

partial_function (option) poll_loop ::
  "('v, 'w) io \<Rightarrow> ('v \<Rightarrow> bool) \<Rightarrow> u32 \<Rightarrow> u32 \<Rightarrow> 'w \<Rightarrow> ('v \<times> 'w) option" where
  [code]: "poll_loop io cond timeout_us timeout w =
     (let (val, w1) = read_op io w
      in if cond val then Some (val, w1)
         else if timeout_us \<noteq> 0
         then let (now, w2) = timer_get_us io w1
              in if time_after now timeout then Some (read_op io w2)
                 else poll_loop io cond timeout_us timeout w2
         else poll_loop io cond timeout_us timeout w1)"

definition readx_poll_timeout ::
  "('v, 'w) io \<Rightarrow> ('v \<Rightarrow> bool) \<Rightarrow> u32 \<Rightarrow> 'w \<Rightarrow> (int \<times> 'v \<times> 'w) option" where
  "readx_poll_timeout io cond timeout_us w =
     (let (now, w1) = timer_get_us io w;
          timeout = now + timeout_us
      in map_option (\<lambda>(val, w2). (if cond val then 0 else - ETIMEDOUT, val, w2))
           (poll_loop io cond timeout_us timeout w1))"

definition readb_poll_timeout :: "(u8, 'w) io \<Rightarrow> (u8 \<Rightarrow> bool) \<Rightarrow> u32 \<Rightarrow> 'w \<Rightarrow> (int \<times> u8 \<times> 'w) option" where
  "readb_poll_timeout = readx_poll_timeout"

definition readw_poll_timeout :: "(u16, 'w) io \<Rightarrow> (u16 \<Rightarrow> bool) \<Rightarrow> u32 \<Rightarrow> 'w \<Rightarrow> (int \<times> u16 \<times> 'w) option" where
  "readw_poll_timeout = readx_poll_timeout"

definition readl_poll_timeout :: "(u32, 'w) io \<Rightarrow> (u32 \<Rightarrow> bool) \<Rightarrow> u32 \<Rightarrow> 'w \<Rightarrow> (int \<times> u32 \<times> 'w) option" where
  "readl_poll_timeout = readx_poll_timeout"

definition readq_poll_timeout :: "(u64, 'w) io \<Rightarrow> (u64 \<Rightarrow> bool) \<Rightarrow> u32 \<Rightarrow> 'w \<Rightarrow> (int \<times> u64 \<times> 'w) option" where
  "readq_poll_timeout = readx_poll_timeout"

section \<open>Waiting for bits\<close>

text \<open>\<open>get_timer base\<close> is the time in milliseconds since \<open>base\<close>.\<close>

record ('v, 'w) wait_io =
  read_reg :: "'w \<Rightarrow> 'v \<times> 'w"
  get_timer :: "u32 \<Rightarrow> 'w \<Rightarrow> u32 \<times> 'w"
  ctrlc :: "'w \<Rightarrow> bool \<times> 'w"
  udelay :: "u32 \<Rightarrow> 'w \<Rightarrow> 'w"
  watchdog_reset :: "'w \<Rightarrow> 'w"

partial_function (option) wait_for_bit_loop ::
  "('a::len word, 'w) wait_io \<Rightarrow> 'a word \<Rightarrow> bool \<Rightarrow> u32 \<Rightarrow> u32 \<Rightarrow> bool \<Rightarrow> 'w \<Rightarrow> (int \<times> 'w) option" where
  [code]: "wait_for_bit_loop io m set_bits start timeout_ms breakable w =
     (let (val, w1) = read_reg io w;
          val = (if \<not> set_bits then NOT val else val)
      in if val AND m = m then Some (0, w1)
         else let (t, w2) = get_timer io start w1
              in if timeout_ms < t then Some (- ETIMEDOUT, w2)
                 else let (brk, w3) = (if breakable then ctrlc io w2 else (False, w2))
                      in if brk then Some (- EINTR, w3)
                         else wait_for_bit_loop io m set_bits start timeout_ms breakable
                                (watchdog_reset io (udelay io 1 w3)))"

definition wait_for_bit ::
  "('a::len word, 'w) wait_io \<Rightarrow> 'a word \<Rightarrow> bool \<Rightarrow> u32 \<Rightarrow> bool \<Rightarrow> 'w \<Rightarrow> (int \<times> 'w) option" where
  "wait_for_bit io m set_bits timeout_ms breakable w =
     (let (start, w1) = get_timer io 0 w
      in wait_for_bit_loop io m set_bits start timeout_ms breakable w1)"

section \<open>Time\<close>

text \<open>
  \<open>now\<close> is the true time of a state of the world, in units of which \<open>g\<close> make a tick of
  the timer.  Every operation takes some time, but at most \<open>D\<close>, and a timer yields the
  number of ticks at some moment of its call, cut to a word.
\<close>

definition takes_time :: "('w \<Rightarrow> nat) \<Rightarrow> nat \<Rightarrow> ('w \<Rightarrow> 'w) \<Rightarrow> bool" where
  "takes_time now D f \<longleftrightarrow> (\<forall>w. now w < now (f w) \<and> now (f w) \<le> now w + D)"

definition keeps_time :: "('w \<Rightarrow> nat) \<Rightarrow> nat \<Rightarrow> nat \<Rightarrow> u32 \<Rightarrow> ('w \<Rightarrow> u32 \<times> 'w) \<Rightarrow> bool" where
  "keeps_time now g D base timer \<longleftrightarrow> takes_time now D (\<lambda>w. snd (timer w)) \<and>
     (\<forall>w. \<exists>t. now w \<le> t \<and> t \<le> now (snd (timer w)) \<and> fst (timer w) = of_nat (t div g) - base)"

lemma takes_timeD:
  assumes "takes_time now D f"
  shows "now w < now (f w)" "now (f w) \<le> now w + D"
  using assms by (simp_all add: takes_time_def)

lemma keeps_timeE:
  assumes "keeps_time now g D base timer"
  obtains t r w1 where "timer w = (r, w1)" "r = of_nat (t div g) - base" "now w \<le> t" "t \<le> now w1"
    "now w < now w1" "now w1 \<le> now w + D"
proof -
  obtain t where "now w \<le> t" "t \<le> now (snd (timer w))" "fst (timer w) = of_nat (t div g) - base"
    using assms by (auto simp: keeps_time_def)
  moreover have "takes_time now D (\<lambda>w. snd (timer w))" using assms by (simp add: keeps_time_def)
  ultimately show thesis
    using that [OF surjective_pairing] takes_timeD [of now D "\<lambda>w. snd (timer w)" w] by blast
qed

lemma sint_difference:
  assumes "a \<le> b + (2 ^ 31 - 1)" "b \<le> a + 2 ^ 31"
  shows "sint (of_nat a - of_nat b :: u32) = int a - int b"
proof -
  have "sint (of_nat a - of_nat b :: u32) = sint (of_int (int a - int b) :: u32)" by simp
  also have "\<dots> = signed_take_bit 31 (int a - int b)" unfolding signed_of_int by simp
  also have "\<dots> = int a - int b"
    using assms by (intro signed_take_bit_int_eq_self) (simp_all add: of_nat_diff)
  finally show ?thesis .
qed

lemma sint_upper_half:
  assumes "2 ^ 31 \<le> n" "n < 2 ^ 32"
  shows "sint (of_nat n :: u32) < 0"
proof -
  have "of_nat n + of_nat (2 ^ 32 - n) = (of_nat (2 ^ 32) :: u32)"
    unfolding of_nat_add [symmetric] using assms(2) by simp
  then have e: "(of_nat n :: u32) = of_nat 0 - of_nat (2 ^ 32 - n)" by (simp add: eq_neg_iff_add_eq_0)
  have "sint (of_nat n :: u32) = int 0 - int (2 ^ 32 - n)"
    unfolding e by (rule sint_difference) (use assms in simp_all)
  then show ?thesis using assms by simp
qed

text \<open>
  The comparisons order two moments rightly whatever wraps around, if they are less than
  half the range of the clock apart.
\<close>

theorem time_comparisons:
  assumes "a < b + 2 ^ 31" "b < a + 2 ^ 31"
  shows "(time_after (of_nat a) (of_nat b) \<longleftrightarrow> b < a) \<and> (time_before (of_nat a) (of_nat b) \<longleftrightarrow> a < b) \<and>
    (time_after_eq (of_nat a) (of_nat b) \<longleftrightarrow> b \<le> a) \<and> (time_before_eq (of_nat a) (of_nat b) \<longleftrightarrow> a \<le> b)"
  using assms sint_difference [of a b] sint_difference [of b a] by (auto simp: time_macros)

lemma div_mult_bounds:
  fixes t g :: nat
  assumes "0 < g"
  shows "t div g * g \<le> t" "t < (t div g + 1) * g"
  using dividend_less_div_times [OF assms, of t] by (simp_all add: algebra_simps)

lemma ticks_passed:
  fixes t0 t g n :: nat
  assumes "0 < g" "t0 div g + n < t div g"
  shows "t0 + n * g < t"
proof -
  have "t0 + n * g < (t0 div g + n + 1) * g"
    using div_mult_bounds(2) [OF assms(1), of t0] by (simp add: algebra_simps)
  also have "\<dots> \<le> t div g * g" using assms(2) by (intro mult_le_mono1) simp
  also have "\<dots> \<le> t" by (rule div_mult_bounds(1) [OF assms(1)])
  finally show ?thesis .
qed

section \<open>The polling loop\<close>

definition poll_world :: "('v, 'w) io \<Rightarrow> ('w \<Rightarrow> nat) \<Rightarrow> nat \<Rightarrow> nat \<Rightarrow> bool" where
  "poll_world io now g D \<longleftrightarrow> 0 < g \<and> takes_time now D (\<lambda>w. snd (read_op io w)) \<and>
     keeps_time now g D 0 (timer_get_us io)"

lemma time_after_deadline:
  fixes timeout_us :: u32
  assumes "0 < g" "t0 \<le> t" "t \<le> t0 + (unat timeout_us + 1) * g + 4 * D"
    and "unat timeout_us < 2 ^ 31" "4 * D < 2 ^ 30 * g"
  shows "time_after (of_nat (t div g)) (of_nat (t0 div g) + timeout_us) \<longleftrightarrow> t0 div g + unat timeout_us < t div g"
proof -
  have "t \<le> t0 + (unat timeout_us + 1 + 2 ^ 30) * g" using assms(3,5) by (simp add: algebra_simps)
  then have "t div g \<le> t0 div g + (unat timeout_us + 1 + 2 ^ 30)"
    using div_le_mono [of t _ g] assms(1) by fastforce
  moreover have "t0 div g \<le> t div g" using assms(2) by (rule div_le_mono)
  moreover have "of_nat (t0 div g) + timeout_us = of_nat (t0 div g + unat timeout_us)" by simp
  ultimately show ?thesis
    using time_comparisons [of "t div g" "t0 div g + unat timeout_us"] assms(4) by simp
qed

lemma poll_loop_returns:
  fixes timeout_us :: u32
  assumes W: "poll_world io now g D"
    and T: "timeout_us \<noteq> 0" "unat timeout_us < 2 ^ 31" "4 * D < 2 ^ 30 * g"
  shows "t0 \<le> now w \<Longrightarrow> now w \<le> t0 + (unat timeout_us + 1) * g + D \<Longrightarrow>
    \<exists>val w'. poll_loop io cond timeout_us (of_nat (t0 div g) + timeout_us) w = Some (val, w') \<and>
      now w' \<le> t0 + (unat timeout_us + 1) * g + 4 * D \<and>
      (\<exists>w1. now w \<le> now w1 \<and> val = fst (read_op io w1) \<and>
        (cond val \<or> t0 div g + unat timeout_us < now w1 div g))"
proof (induction "t0 + (unat timeout_us + 1) * g + D - now w" arbitrary: w rule: less_induct)
  case less
  let ?L = "t0 + (unat timeout_us + 1) * g"
  note R = takes_timeD [of now D "\<lambda>w. snd (read_op io w)"]
  have rd: "takes_time now D (\<lambda>w. snd (read_op io w))" and tm: "keeps_time now g D 0 (timer_get_us io)"
    and g: "0 < g" using W by (simp_all add: poll_world_def)
  obtain val w1 where r: "read_op io w = (val, w1)" by fastforce
  then have w1: "now w < now w1" "now w1 \<le> now w + D" using R [OF rd, of w] by simp_all
  obtain t n w2 where n: "timer_get_us io w1 = (n, w2)" "n = of_nat (t div g) - 0" "now w1 \<le> t" "t \<le> now w2"
    "now w1 < now w2" "now w2 \<le> now w1 + D" using keeps_timeE [OF tm] by blast
  have late: "time_after n (of_nat (t0 div g) + timeout_us) \<longleftrightarrow> t0 div g + unat timeout_us < t div g"
    using time_after_deadline [OF g, of t0 t timeout_us D] n w1 less.prems T(2,3) by simp
  consider "cond val" | "\<not> cond val" "t0 div g + unat timeout_us < t div g"
    | "\<not> cond val" "t div g \<le> t0 div g + unat timeout_us" by linarith
  then show ?case
  proof cases
    case 1
    then show ?thesis
      using r w1 less.prems(2) by (subst poll_loop.simps) (auto intro!: exI [of _ w])
  next
    case 2
    obtain v w3 where v: "read_op io w2 = (v, w3)" by fastforce
    have "now w3 \<le> now w2 + D" using R [OF rd, of w2] v by simp
    moreover have "t div g \<le> now w2 div g" using n(4) by (rule div_le_mono)
    moreover have "poll_loop io cond timeout_us (of_nat (t0 div g) + timeout_us) w = Some (v, w3)"
      using 2 r n(1) late T(1) v by (subst poll_loop.simps) simp
    ultimately show ?thesis
      using 2 v n w1 less.prems(2) by (intro exI [of _ v] exI [of _ w3] conjI exI [of _ w2]) auto
  next
    case 3
    have "t < (t div g + 1) * g" using div_mult_bounds(2) [OF g] .
    also have "\<dots> \<le> (t0 div g + unat timeout_us + 1) * g" using 3(2) by (intro mult_le_mono1) simp
    also have "\<dots> \<le> ?L" using div_mult_bounds(1) [OF g, of t0] by (simp add: algebra_simps)
    finally have w2: "now w2 \<le> ?L + D" using n by linarith
    have "t0 \<le> now w2" "now w < now w2" using n w1 less.prems(1) by linarith+
    then have "?L + D - now w2 < ?L + D - now w" using w2 by linarith
    from less.hyps [OF this \<open>t0 \<le> now w2\<close> w2] obtain v w3 w4 where
      "poll_loop io cond timeout_us (of_nat (t0 div g) + timeout_us) w2 = Some (v, w3)"
      "now w3 \<le> ?L + 4 * D" "now w2 \<le> now w4" "v = fst (read_op io w4)"
      "cond v \<or> t0 div g + unat timeout_us < now w4 div g" by blast
    moreover have "poll_loop io cond timeout_us (of_nat (t0 div g) + timeout_us) w =
        poll_loop io cond timeout_us (of_nat (t0 div g) + timeout_us) w2"
      using 3 r n(1) late T(1) by (subst poll_loop.simps) simp
    ultimately show ?thesis
      using \<open>now w < now w2\<close> by (intro exI [of _ v] exI [of _ w3] conjI exI [of _ w4]) auto
  qed
qed

text \<open>
  C9: With a time limit of less than \<open>2^31\<close> microseconds the macro returns.  The value it
  leaves is the last one read, and the result says whether it satisfies the condition; on
  failure that read began after the limit had passed, so that a condition which holds from
  before the limit on is not missed.  The call ends at most five operations after the limit.
\<close>

theorem readx_poll_timeout_spec:
  fixes timeout_us :: u32
  assumes "poll_world io now g D" "timeout_us \<noteq> 0" "unat timeout_us < 2 ^ 31" "4 * D < 2 ^ 30 * g"
  shows "\<exists>ret val w' w1. readx_poll_timeout io cond timeout_us w = Some (ret, val, w') \<and>
    val = fst (read_op io w1) \<and> now w \<le> now w1 \<and>
    (if cond val then ret = 0
     else ret = - ETIMEDOUT \<and> now w + unat timeout_us * g < now w1) \<and>
    now w' \<le> now w + (unat timeout_us + 1) * g + 5 * D"
proof -
  have tm: "keeps_time now g D 0 (timer_get_us io)" and g: "0 < g"
    using assms(1) by (simp_all add: poll_world_def)
  obtain t0 n w0 where n: "timer_get_us io w = (n, w0)" "n = of_nat (t0 div g) - 0" "now w \<le> t0" "t0 \<le> now w0"
    "now w < now w0" "now w0 \<le> now w + D" using keeps_timeE [OF tm] by blast
  have "now w0 \<le> t0 + (unat timeout_us + 1) * g + D" using n by linarith
  from poll_loop_returns [OF assms n(4) this] obtain val w' w1 where
    l: "poll_loop io cond timeout_us (of_nat (t0 div g) + timeout_us) w0 = Some (val, w')"
      "now w' \<le> t0 + (unat timeout_us + 1) * g + 4 * D" "now w0 \<le> now w1" "val = fst (read_op io w1)"
      "cond val \<or> t0 div g + unat timeout_us < now w1 div g" by metis
  have "now w + unat timeout_us * g < now w1" if "t0 div g + unat timeout_us < now w1 div g"
    using ticks_passed [OF g that] n(3) by linarith
  moreover have "readx_poll_timeout io cond timeout_us w =
      Some (if cond val then 0 else - ETIMEDOUT, val, w')"
    using l(1) n(1,2) by (simp add: readx_poll_timeout_def)
  ultimately show ?thesis
    using l(2-5) n by (intro exI [of _ "if cond val then 0 else - ETIMEDOUT"] exI [of _ val] exI [of _ w'] exI [of _ w1]) auto
qed

text \<open>
  A limit of \<open>2^31\<close> microseconds (36 minutes) or more is taken for a moment in the past: the
  macro gives up after a second read.
\<close>

theorem readx_poll_timeout_long:
  fixes timeout_us :: u32
  assumes "poll_world io now g D" "2 ^ 31 + (3 * D div g + 1) \<le> unat timeout_us"
    and "\<And>w. \<not> cond (fst (read_op io w))"
  shows "\<exists>val w'. readx_poll_timeout io cond timeout_us w = Some (- ETIMEDOUT, val, w') \<and>
    now w' \<le> now w + 4 * D"
proof -
  have rd: "takes_time now D (\<lambda>w. snd (read_op io w))" and tm: "keeps_time now g D 0 (timer_get_us io)"
    and g: "0 < g" using assms(1) by (simp_all add: poll_world_def)
  obtain t0 n w0 where n: "timer_get_us io w = (n, w0)" "n = of_nat (t0 div g) - 0" "now w \<le> t0" "t0 \<le> now w0"
    "now w < now w0" "now w0 \<le> now w + D" using keeps_timeE [OF tm] by blast
  obtain v w1 where r: "read_op io w0 = (v, w1)" by fastforce
  obtain t k w2 where k: "timer_get_us io w1 = (k, w2)" "k = of_nat (t div g) - 0" "now w1 \<le> t" "t \<le> now w2"
    "now w1 < now w2" "now w2 \<le> now w1 + D" using keeps_timeE [OF tm] by blast
  obtain v' w3 where r': "read_op io w2 = (v', w3)" by fastforce
  note B = takes_timeD [OF rd, of w0, unfolded r snd_conv] takes_timeD [OF rd, of w2, unfolded r' snd_conv]
  have "t0 \<le> t" "t \<le> t0 + 3 * D" using n k B by linarith+
  then have le: "t0 div g \<le> t div g" "t div g \<le> t0 div g + (3 * D div g + 1)"
  proof -
    show "t0 div g \<le> t div g" using \<open>t0 \<le> t\<close> by (rule div_le_mono)
    have "t div g \<le> (t0 + 3 * D) div g" using \<open>t \<le> t0 + 3 * D\<close> by (rule div_le_mono)
    moreover have "(t0 mod g + 3 * D mod g) div g < 2"
      using mod_less_divisor [OF g, of t0] mod_less_divisor [OF g, of "3 * D"]
      by (subst div_less_iff_less_mult [OF g]) linarith
    ultimately show "t div g \<le> t0 div g + (3 * D div g + 1)"
      using div_add1_eq [of t0 "3 * D" g] by simp
  qed
  define d where "d = t div g - t0 div g"
  have "sint ((of_nat (t0 div g) + timeout_us) - k) < 0"
  proof -
    have e: "t0 div g + unat timeout_us = t div g + (unat timeout_us - d)" using le assms(2) by (simp add: d_def)
    have "of_nat (t0 div g) + timeout_us = (of_nat (t0 div g + unat timeout_us) :: u32)" by simp
    also have "\<dots> = of_nat (t div g) + of_nat (unat timeout_us - d)" by (simp only: e of_nat_add)
    finally have "(of_nat (t0 div g) + timeout_us) - k = of_nat (unat timeout_us - d)" by (simp add: k(2))
    moreover have "2 ^ 31 \<le> unat timeout_us - d" "unat timeout_us - d < 2 ^ 32"
      using le assms(2) unat_less_pow [of timeout_us] by (simp_all add: d_def)
    ultimately show ?thesis by (simp only: sint_upper_half)
  qed
  then have "poll_loop io cond timeout_us (of_nat (t0 div g) + timeout_us) w0 = Some (v', w3)"
    using r r' k(1) assms(2) assms(3) [of w0] by (subst poll_loop.simps) (auto simp: time_after_def)
  moreover have "\<not> cond v'" using assms(3) [of w2] r' by simp
  ultimately show ?thesis using n k B by (simp add: readx_poll_timeout_def)
qed

text \<open>A register that changes at time 12, on a machine whose operations take one unit each.\<close>

definition sample_io :: "(u8, nat) io" where
  "sample_io = \<lparr>read_op = (\<lambda>w. (if w < 12 then 0 else 1, Suc w)),
     timer_get_us = (\<lambda>w. (of_nat (w div 4), Suc w))\<rparr>"

lemma sample_poll_world: "poll_world sample_io (\<lambda>w. w) 4 1"
  by (auto simp: poll_world_def sample_io_def takes_time_def keeps_time_def)

lemma readx_poll_timeout_spec_witness:
  "\<exists>ret val w' w1. readx_poll_timeout sample_io (\<lambda>val. val = 1) 100 0 = Some (ret, val, w') \<and>
     val = fst (read_op sample_io w1) \<and> 0 \<le> w1 \<and>
     (if val = 1 then ret = 0 else ret = - ETIMEDOUT \<and> 400 < w1) \<and> w' \<le> 409"
  using readx_poll_timeout_spec [OF sample_poll_world, of 100 "\<lambda>val. val = 1" 0] by (simp cong: if_cong split del: if_split)

lemma readx_poll_timeout_long_witness:
  "\<exists>val w'. readx_poll_timeout sample_io (\<lambda>val. val = 2) 0x80000001 0 = Some (- ETIMEDOUT, val, w') \<and> w' \<le> 4"
  using readx_poll_timeout_long [OF sample_poll_world, of "0x80000001" "\<lambda>val. val = 2" 0]
  by (auto simp: sample_io_def)

section \<open>The waiting loop\<close>

definition wait_world :: "('v, 'w) wait_io \<Rightarrow> ('w \<Rightarrow> nat) \<Rightarrow> nat \<Rightarrow> nat \<Rightarrow> bool" where
  "wait_world io now g D \<longleftrightarrow> 0 < g \<and> takes_time now D (\<lambda>w. snd (read_reg io w)) \<and>
     (\<forall>base. keeps_time now g D base (get_timer io base)) \<and> takes_time now D (\<lambda>w. snd (ctrlc io w)) \<and>
     takes_time now D (udelay io 1) \<and> (\<forall>w. now w \<le> now (watchdog_reset io w) \<and> now (watchdog_reset io w) \<le> now w + D)"

lemma unat_elapsed:
  assumes "b \<le> a" "a < b + 2 ^ 32"
  shows "unat (of_nat a - of_nat b :: u32) = a - b"
  using assms by (simp add: unat_of_nat flip: of_nat_diff)

text \<open>What the tests of one round see.\<close>

definition bits_ready :: "('a::len word, 'w) wait_io \<Rightarrow> 'a word \<Rightarrow> bool \<Rightarrow> 'w \<Rightarrow> bool" where
  "bits_ready io m set_bits w \<longleftrightarrow>
     (\<forall>i. bit m i \<longrightarrow> bit (fst (read_reg io w)) i = set_bits)"

lemma bits_ready_test:
  fixes val m :: "'a::len word"
  shows "(if \<not> set_bits then NOT val else val) AND m = m \<longleftrightarrow> (\<forall>i. bit m i \<longrightarrow> bit val i = set_bits)"
  by (auto simp: bit_eq_iff word_bits dest: bit_imp_le_length)

text \<open>How a call may end: \<open>w1\<close> is when the deciding test began.\<close>

definition wait_outcome ::
  "('a::len word, 'w) wait_io \<Rightarrow> 'a word \<Rightarrow> bool \<Rightarrow> bool \<Rightarrow> bool \<Rightarrow> int \<Rightarrow> 'w \<Rightarrow> bool" where
  "wait_outcome io m set_bits breakable late ret w1 \<longleftrightarrow>
     ret = 0 \<and> bits_ready io m set_bits w1 \<or>
     ret = - EINTR \<and> breakable \<and> fst (ctrlc io w1) \<or>
     ret = - ETIMEDOUT \<and> \<not> bits_ready io m set_bits w1 \<and> late"

lemma wait_loop_returns:
  fixes timeout_ms :: u32
  assumes W: "wait_world io now g D" and T: "6 * D \<le> k * g" "unat timeout_ms + k + 1 < 2 ^ 32"
  shows "t0 \<le> now w \<Longrightarrow> now w \<le> t0 + (unat timeout_ms + 1) * g + 4 * D \<Longrightarrow>
    \<exists>ret w' w1. wait_for_bit_loop io m set_bits (of_nat (t0 div g)) timeout_ms breakable w = Some (ret, w') \<and>
      now w' \<le> t0 + (unat timeout_ms + 1) * g + 7 * D \<and> now w \<le> now w1 \<and>
      wait_outcome io m set_bits breakable (t0 div g + unat timeout_ms < now w' div g) ret w1"
proof (induction "t0 + (unat timeout_ms + 1) * g + 4 * D - now w" arbitrary: w rule: less_induct)
  case less
  let ?L = "t0 + (unat timeout_ms + 1) * g" and ?loop = "wait_for_bit_loop io m set_bits (of_nat (t0 div g)) timeout_ms breakable"
  have g: "0 < g" and wd: "\<And>w. now w \<le> now (watchdog_reset io w)" "\<And>w. now (watchdog_reset io w) \<le> now w + D"
    and ops: "takes_time now D (\<lambda>w. snd (read_reg io w))" "takes_time now D (\<lambda>w. snd (ctrlc io w))"
      "takes_time now D (udelay io 1)"
    and tm: "keeps_time now g D (of_nat (t0 div g)) (get_timer io (of_nat (t0 div g)))"
    using W by (simp_all add: wait_world_def)
  obtain val w1 where r: "read_reg io w = (val, w1)" by fastforce
  then have w1: "now w < now w1" "now w1 \<le> now w + D" using takes_timeD [OF ops(1), of w] by simp_all
  obtain t n w2 where n: "get_timer io (of_nat (t0 div g)) w1 = (n, w2)" "n = of_nat (t div g) - of_nat (t0 div g)"
    "now w1 \<le> t" "t \<le> now w2" "now w1 < now w2" "now w2 \<le> now w1 + D" using keeps_timeE [OF tm] by blast
  have le: "t0 div g \<le> t div g" using n w1 less.prems(1) by (intro div_le_mono) linarith
  have "t \<le> t0 + (unat timeout_ms + 1 + k) * g"
    using n w1 less.prems(2) T(1) by (simp add: algebra_simps)
  then have "t div g \<le> t0 div g + (unat timeout_ms + 1 + k)"
    using div_le_mono [of t "t0 + (unat timeout_ms + 1 + k) * g" g]
      div_mult_self1 [of g t0 "unat timeout_ms + 1 + k"] g by linarith
  then have "unat n = t div g - t0 div g"
    unfolding n(2) using T(2) le by (intro unat_elapsed) linarith+
  then have late: "timeout_ms < n \<longleftrightarrow> t0 div g + unat timeout_ms < t div g"
    using le by (auto simp: word_less_nat_alt)
  obtain brk w3 where c: "(if breakable then ctrlc io w2 else (False, w2)) = (brk, w3)" by fastforce
  then have w3: "now w2 \<le> now w3" "now w3 \<le> now w2 + D" "brk \<Longrightarrow> breakable \<and> fst (ctrlc io w2)"
    using takes_timeD [OF ops(2), of w2] by (auto split: if_splits)
  have ready: "(if \<not> set_bits then NOT val else val) AND m = m \<longleftrightarrow> bits_ready io m set_bits w"
    unfolding bits_ready_test using r by (simp add: bits_ready_def)
  define w4 where "w4 = watchdog_reset io (udelay io 1 w3)"
  have w4: "now w3 < now w4" "now w4 \<le> now w3 + 2 * D"
    using wd [of "udelay io 1 w3"] takes_timeD [OF ops(3), of w3] by (simp_all add: w4_def)
  consider "bits_ready io m set_bits w" | "\<not> bits_ready io m set_bits w" "t0 div g + unat timeout_ms < t div g"
    | "\<not> bits_ready io m set_bits w" "t div g \<le> t0 div g + unat timeout_ms" "brk"
    | "\<not> bits_ready io m set_bits w" "t div g \<le> t0 div g + unat timeout_ms" "\<not> brk" by linarith
  then show ?case
  proof cases
    case 1
    then have "?loop w = Some (0, w1)" using r ready by (subst wait_for_bit_loop.simps) (simp add: Let_def)
    then show ?thesis
      using 1 w1 less.prems(2) by (intro exI [of _ 0] exI [of _ w1] exI [of _ w]) (simp add: wait_outcome_def)
  next
    case 2
    then have "?loop w = Some (- ETIMEDOUT, w2)"
      using r n(1) ready late by (subst wait_for_bit_loop.simps) (simp add: Let_def)
    moreover have "t div g \<le> now w2 div g" using n(4) by (rule div_le_mono)
    ultimately show ?thesis
      using 2 w1 n less.prems(2)
      by (intro exI [of _ "- ETIMEDOUT"] exI [of _ w2] exI [of _ w]) (simp add: wait_outcome_def)
  next
    case 3
    then have "?loop w = Some (- EINTR, w3)"
      using r n(1) ready late c by (subst wait_for_bit_loop.simps) (simp add: Let_def)
    then show ?thesis
      using 3 w1 w3 n less.prems(2)
      by (intro exI [of _ "- EINTR"] exI [of _ w3] exI [of _ w2]) (simp add: wait_outcome_def)
  next
    case 4
    then have step: "?loop w = ?loop w4"
      using r n(1) ready late c by (subst wait_for_bit_loop.simps) (simp add: Let_def w4_def)
    have "t < (t div g + 1) * g" using div_mult_bounds(2) [OF g] .
    also have "\<dots> \<le> (t0 div g + unat timeout_ms + 1) * g" using 4(2) by (intro mult_le_mono1) simp
    also have "\<dots> \<le> ?L" using div_mult_bounds(1) [OF g, of t0] by (simp add: algebra_simps)
    finally have "now w4 \<le> ?L + 4 * D" using n w3 w4 by linarith
    moreover have "t0 \<le> now w4" "now w < now w4" using n w1 w3 w4 less.prems(1) by linarith+
    moreover have "?L + 4 * D - now w4 < ?L + 4 * D - now w" using calculation by linarith
    ultimately show ?thesis
      using less.hyps [of w4] unfolding step by (meson less_imp_le order.trans)
  qed
qed

text \<open>
  C6: Unless the limit is within a few operations of the clock's range, \<open>wait_for_bit\<close>
  returns, at most eight operations after the limit: 0 when all bits were seen in the wanted
  state, the interruption code only when the caller allowed it and the key was pressed, and
  the timeout code only when more than the limit has passed and the last read, which began
  before the clock was looked at, did not show the bits.
\<close>

theorem wait_for_bit_spec:
  fixes timeout_ms :: u32
  assumes "wait_world io now g D" "6 * D \<le> k * g" "unat timeout_ms + k + 1 < 2 ^ 32"
  shows "\<exists>ret w' w1. wait_for_bit io m set_bits timeout_ms breakable w = Some (ret, w') \<and>
    now w' \<le> now w + (unat timeout_ms + 1) * g + 8 * D \<and> now w \<le> now w1 \<and>
    wait_outcome io m set_bits breakable (now w + unat timeout_ms * g < now w') ret w1"
proof -
  have tm: "keeps_time now g D 0 (get_timer io 0)" and g: "0 < g"
    using assms(1) by (simp_all add: wait_world_def)
  obtain t0 n w0 where n: "get_timer io 0 w = (n, w0)" "n = of_nat (t0 div g) - 0" "now w \<le> t0" "t0 \<le> now w0"
    "now w < now w0" "now w0 \<le> now w + D" using keeps_timeE [OF tm] by blast
  have "now w0 \<le> t0 + (unat timeout_ms + 1) * g + 4 * D" using n by linarith
  from wait_loop_returns [OF assms n(4) this] obtain ret w' w1 where
    l: "wait_for_bit_loop io m set_bits (of_nat (t0 div g)) timeout_ms breakable w0 = Some (ret, w')"
      "now w' \<le> t0 + (unat timeout_ms + 1) * g + 7 * D" "now w0 \<le> now w1"
      "wait_outcome io m set_bits breakable (t0 div g + unat timeout_ms < now w' div g) ret w1" by metis
  have "now w + unat timeout_ms * g < now w'" if "t0 div g + unat timeout_ms < now w' div g"
    using ticks_passed [OF g that] n(3) by linarith
  then have "wait_outcome io m set_bits breakable (now w + unat timeout_ms * g < now w') ret w1"
    using l(4) by (auto simp: wait_outcome_def)
  moreover have "wait_for_bit io m set_bits timeout_ms breakable w = Some (ret, w')"
    using l(1) n(1,2) by (simp add: wait_for_bit_def)
  ultimately show ?thesis
    using l(2,3) n by (intro exI [of _ ret] exI [of _ w'] exI [of _ w1]) auto
qed

definition sample_wait :: "(8 word, nat) wait_io" where
  "sample_wait = \<lparr>read_reg = (\<lambda>w. (if w < 12 then 0 else 1, Suc w)),
     get_timer = (\<lambda>base w. (of_nat (w div 4) - base, Suc w)),
     ctrlc = (\<lambda>w. (w = 30, Suc w)), udelay = (\<lambda>us w. w + 1), watchdog_reset = (\<lambda>w. w)\<rparr>"

lemma wait_for_bit_spec_witness:
  "\<exists>ret w' w1. wait_for_bit sample_wait 1 True 100 True 0 = Some (ret, w') \<and> w' \<le> 412 \<and> 0 \<le> w1 \<and>
     wait_outcome sample_wait 1 True True (400 < w') ret w1"
proof -
  have "wait_world sample_wait (\<lambda>w. w) 4 1"
    by (auto simp: wait_world_def sample_wait_def takes_time_def keeps_time_def)
  from wait_for_bit_spec [OF this, of 2 100 1 True True 0] show ?thesis by simp
qed

end
