(* ===== verification/Bitfield.thy ===== *)
theory Bitfield
  imports Log2
begin

text \<open>
  Fields of a word: the functions of \<open>include/bitfield.h\<close>, which name a field by position
  and width or by its mask, and the macros of \<open>include/linux/bitfield.h\<close>, which take a
  constant mask and refuse at compile time what is not a field; such an error is \<open>None\<close>.
\<close>

section \<open>bitfield.h\<close>

text \<open>
  The 1 that is shifted is an \<open>int\<close>.  A shift by 32 or more is undefined; one into the sign
  bit has the value that the processor gives it, but subtracting 1 from the result
  overflows.
\<close>

definition bitfield_mask :: "u32 \<Rightarrow> u32 \<Rightarrow> ub + u32" where
  "bitfield_mask shift width =
     (if 32 \<le> width then Inl BadShift
      else if width = 31 then Inl SignedOverflow
      else if 32 \<le> shift then Inl BadShift
      else Inr (push_bit (unat shift) (push_bit (unat width) 1 - 1)))"

definition bitfield_extract :: "u32 \<Rightarrow> u32 \<Rightarrow> u32 \<Rightarrow> ub + u32" where
  "bitfield_extract reg_val shift width =
     bindE (bitfield_mask shift width) (\<lambda>m. Inr (drop_bit (unat shift) (reg_val AND m)))"

definition bitfield_replace :: "u32 \<Rightarrow> u32 \<Rightarrow> u32 \<Rightarrow> u32 \<Rightarrow> ub + u32" where
  "bitfield_replace reg_val shift width bitfield_val =
     bindE (bitfield_mask shift width) (\<lambda>m.
       Inr ((reg_val AND NOT m) OR (push_bit (unat shift) bitfield_val AND m)))"

definition bitfield_shift :: "u32 \<Rightarrow> nat" where
  "bitfield_shift m = (if m \<noteq> 0 then nat (generic_ffs m - 1) else 0)"

definition bitfield_extract_by_mask :: "u32 \<Rightarrow> u32 \<Rightarrow> u32" where
  "bitfield_extract_by_mask reg_val m =
     (let shift = bitfield_shift m in drop_bit shift (reg_val AND m))"

definition bitfield_replace_by_mask :: "u32 \<Rightarrow> u32 \<Rightarrow> u32 \<Rightarrow> u32" where
  "bitfield_replace_by_mask reg_val m bitfield_val =
     (let shift = bitfield_shift m
      in (reg_val AND NOT m) OR (push_bit shift bitfield_val AND m))"

section \<open>linux/bitfield.h\<close>

text \<open>The compiler's \<open>__builtin_ffsll\<close> yields one more than the position of the first set bit.\<close>

definition builtin_ffsll :: "'a::len word \<Rightarrow> nat" where
  "builtin_ffsll x = (if x = 0 then 0 else length (takeWhile (\<lambda>i. \<not> bit x i) [0..<LENGTH('a)]) + 1)"

definition bf_shf :: "'a::len word \<Rightarrow> nat" where
  "bf_shf x = builtin_ffsll x - 1"

text \<open>The checks: \<open>val\<close> is \<open>None\<close> for a value that is no constant, \<open>reg_max\<close> the greatest
  value of the register's type.  The last one asks that a word is a power of two or zero.\<close>

definition not_power_of_2 :: "u64 \<Rightarrow> bool" where
  "not_power_of_2 n \<longleftrightarrow> n AND (n - 1) \<noteq> 0"

definition BF_FIELD_CHECK :: "'a::len word \<Rightarrow> u64 \<Rightarrow> u64 option \<Rightarrow> bool" where
  "BF_FIELD_CHECK m reg_max val \<longleftrightarrow>
     m \<noteq> 0 \<and>
     (case val of None \<Rightarrow> True | Some v \<Rightarrow> ucast (NOT (drop_bit (bf_shf m) m)) AND v = 0) \<and>
     ucast m \<le> reg_max \<and>
     \<not> not_power_of_2 (ucast m + push_bit (bf_shf m) 1)"

definition FIELD_FIT :: "bool \<Rightarrow> 'a::len word \<Rightarrow> u64 \<Rightarrow> bool option" where
  "FIELD_FIT const m val =
     (if BF_FIELD_CHECK m (NOT 0) (if const then Some val else None)
      then Some (push_bit (bf_shf m) (ucast val) AND NOT m = 0) else None)"

definition FIELD_PREP :: "bool \<Rightarrow> 'a::len word \<Rightarrow> u64 \<Rightarrow> 'a word option" where
  "FIELD_PREP const m val =
     (if BF_FIELD_CHECK m (NOT 0) (if const then Some val else None)
      then Some (push_bit (bf_shf m) (ucast val) AND m) else None)"

definition FIELD_GET :: "'a::len word \<Rightarrow> 'r::len word \<Rightarrow> 'a word option" where
  "FIELD_GET m reg =
     (if BF_FIELD_CHECK m (ucast (NOT 0 :: 'r word)) (Some 0)
      then Some (ucast (drop_bit (bf_shf m) (ucast reg AND ucast m :: u64))) else None)"

section \<open>Properties\<close>

definition field :: "nat \<Rightarrow> nat \<Rightarrow> 'a::len word" where
  "field s w = push_bit s (mask w)"

lemma bit_field [word_bits]:
  "bit (field s w :: 'a::len word) i \<longleftrightarrow> s \<le> i \<and> i < s + w \<and> i < LENGTH('a)"
  by (auto simp: field_def bit_push_bit_iff bit_mask_iff)

lemma bitfield_mask_field:
  assumes "width < 31" "shift < 32"
  shows "bitfield_mask shift width = Inr (field (unat shift) (unat width))"
proof -
  have "\<not> 32 \<le> width" "width \<noteq> 31" "\<not> 32 \<le> shift"
    using assms by (auto simp: word_less_nat_alt word_le_nat_alt)
  then show ?thesis by (simp add: bitfield_mask_def field_def mask_eq_exp_minus_1)
qed

lemma field_nonzero: "0 < w \<Longrightarrow> s < LENGTH('a::len) \<Longrightarrow> (field s w :: 'a word) \<noteq> 0"
  using bit_field [of s w s, where 'a = 'a] by auto

lemma first_bit_field: "0 < w \<Longrightarrow> s < LENGTH('a::len) \<Longrightarrow> first_bit (field s w :: 'a word) s"
  by (auto simp: first_bit_def bit_field)

lemma field_shift: "0 < w \<Longrightarrow> s < 32 \<Longrightarrow> bitfield_shift (field s w) = s"
  using generic_ffs_first [OF first_bit_field, of w s] field_nonzero [of w s, where 'a = 32]
  by (simp add: bitfield_shift_def)

text \<open>
  C22: For widths up to 30 a replacement puts the low bits of the value into the field and
  keeps the others, reading the field gives them back, and the functions that take a mask
  agree; a width of 31 or 32, though it fits a word, is undefined.
\<close>

theorem bitfield_replace_spec:
  assumes "width < 31" "shift < 32"
  shows "\<exists>r. bitfield_replace reg_val shift width val = Inr r \<and>
    (\<forall>i<32. bit r i = (if unat shift \<le> i \<and> i < unat shift + unat width then bit val (i - unat shift) else bit reg_val i)) \<and>
    bitfield_extract r shift width = Inr (take_bit (min (unat width) (32 - unat shift)) val) \<and>
    bitfield_replace_by_mask reg_val (field (unat shift) (unat width)) val = r \<and>
    bitfield_extract_by_mask r (field (unat shift) (unat width)) = take_bit (min (unat width) (32 - unat shift)) val \<and>
    bitfield_mask shift 31 = Inl SignedOverflow \<and> bitfield_mask shift 32 = Inl BadShift"
proof -
  let ?f = "field (unat shift) (unat width) :: u32"
  let ?r = "(reg_val AND NOT ?f) OR (push_bit (unat shift) val AND ?f)"
  have s: "unat shift < 32" using assms(2) by (simp add: word_less_nat_alt)
  have get: "drop_bit (unat shift) (?r AND ?f) = take_bit (min (unat width) (32 - unat shift)) val"
    by (rule bit_word_eqI) (auto simp: word_bits bit_take_bit_iff)
  have "bitfield_replace_by_mask reg_val ?f val = ?r \<and>
      bitfield_extract_by_mask ?r ?f = take_bit (min (unat width) (32 - unat shift)) val"
  proof (cases "unat width = 0")
    case True
    then show ?thesis by (simp add: field_def bitfield_replace_by_mask_def bitfield_extract_by_mask_def)
  next
    case False
    then have "bitfield_shift ?f = unat shift" using field_shift s by simp
    then show ?thesis
      using get by (simp add: bitfield_replace_by_mask_def bitfield_extract_by_mask_def Let_def)
  qed
  moreover have "\<forall>i<32. bit ?r i = (if unat shift \<le> i \<and> i < unat shift + unat width then bit val (i - unat shift) else bit reg_val i)"
    by (auto simp: word_bits)
  ultimately show ?thesis
    using get bitfield_mask_field [OF assms]
    by (simp add: bitfield_replace_def bitfield_extract_def bitfield_mask_def)
qed

lemma bitfield_replace_spec_witness:
  "\<exists>r. bitfield_replace 0xFFFFFFFF 10 5 0x12 = Inr r \<and> bitfield_extract r 10 5 = Inr 0x12"
  using bitfield_replace_spec [of 5 10 "0xFFFFFFFF" "0x12"] by (auto simp: take_bit_eq_mod unat_numeral)

section \<open>Masks that pass the checks\<close>

lemma builtin_ffsll_first:
  fixes x :: "'a::len word"
  assumes "first_bit x n"
  shows "bf_shf x = n"
proof -
  have n: "n < LENGTH('a)" "bit x n" "\<And>i. i < n \<Longrightarrow> \<not> bit x i"
    using assms bit_imp_le_length by (auto simp: first_bit_def)
  have "takeWhile (\<lambda>i. \<not> bit x i) [0..<LENGTH('a)] = [0..<n]"
  proof -
    have "[0..<LENGTH('a)] = [0..<n] @ [n..<LENGTH('a)]"
      using upt_add_eq_append [of 0 n "LENGTH('a) - n"] n(1) by simp
    then have "[0..<LENGTH('a)] = [0..<n] @ n # [Suc n..<LENGTH('a)]"
      by (simp only: upt_conv_Cons [OF n(1)])
    then show ?thesis using n by (simp add: takeWhile_append)
  qed
  moreover have "x \<noteq> 0" using n(2) by auto
  ultimately show ?thesis by (simp add: bf_shf_def builtin_ffsll_def)
qed

lemma bf_shf_field:
  assumes "0 < w" "s < LENGTH('a::len)"
  shows "bf_shf (field s w :: 'a word) = s"
  by (rule builtin_ffsll_first [OF first_bit_field [OF assms]])

lemma single_bit_power:
  fixes n :: "'a::len word"
  assumes "n \<noteq> 0" "n AND (n - 1) = 0"
  obtains k where "unat n = 2 ^ k"
proof -
  obtain k where "last_bit n k" using last_bit_exists [OF assms(1)] by blast
  note k = last_bit_bounds [OF this]
  have "unat n = 2 ^ k"
  proof (rule ccontr)
    assume "unat n \<noteq> 2 ^ k"
    moreover have "unat (n - 1) = unat n - 1"
      using unat_sub_exact [of 1 n] assms(1) by (simp add: word_le_nat_alt unat_gt_0 Suc_le_eq)
    ultimately have "2 ^ k \<le> unat (n - 1)" "unat (n - 1) < 2 ^ Suc k" using k by linarith+
    then have "bit (n AND (n - 1)) k" using bit_top [OF k] bit_top by (simp add: bit_and_iff)
    then show False using assms(2) by simp
  qed
  then show thesis by (rule that)
qed

lemma unat_field:
  assumes "s + w \<le> LENGTH('a::len)"
  shows "unat (field s w :: 'a word) + 2 ^ s = 2 ^ (s + w)"
proof -
  have "(2 :: nat) ^ s * (2 ^ w - 1) + 2 ^ s = 2 ^ (s + w)" by (simp add: algebra_simps power_add)
  moreover have "unat (field s w :: 'a word) = 2 ^ s * (2 ^ w - 1)"
  proof -
    have "2 ^ s * (2 ^ w - 1) < (2 :: nat) ^ LENGTH('a)"
      using calculation power_increasing [OF assms, of "2 :: nat"] zero_less_power [of "2 :: nat" s] by linarith
    moreover have "unat (mask w :: 'a word) = 2 ^ w - 1" using assms by (simp add: unat_mask_le)
    ultimately show ?thesis by (simp add: field_def unat_push_bit mult.commute)
  qed
  ultimately show ?thesis by simp
qed

lemma first_bit_multiple:
  fixes m :: "'a::len word"
  assumes "first_bit m s"
  shows "\<exists>q. unat m = 2 ^ s * q"
proof -
  have "take_bit s m = 0"
    using assms by (intro bit_word_eqI) (auto simp: bit_take_bit_iff first_bit_def)
  then have "take_bit s (unat m) = 0" by (simp flip: unsigned_take_bit_eq)
  then show ?thesis by (simp add: take_bit_eq_0_iff dvd_def)
qed

lemma power_passes: "\<not> not_power_of_2 (push_bit k 1)"
proof -
  have "push_bit k 1 - 1 = (mask k :: u64)" by (simp add: mask_eq_exp_minus_1)
  then show ?thesis
    by (auto simp: not_power_of_2_def and_zero_iff bit_mask_iff bit_push_bit_iff bit_1_iff simp del: push_bit_of_1)
qed

lemma len64: "LENGTH(64) = 64"
  by simp

lemma unat_run_end:
  fixes m :: "'a::len word"
  assumes "LENGTH('a) \<le> 64" "s < LENGTH('a)" "unat m = 2 ^ s * q"
  shows "2 ^ s * (q + 1) \<le> 2 ^ LENGTH('a)"
    "unat (ucast m + push_bit s 1 :: u64) = 2 ^ s * (q + 1) mod 2 ^ 64"
proof -
  have "2 ^ s * q < 2 ^ s * 2 ^ (LENGTH('a) - s)"
    using unat_less_pow [of m] assms(2,3) by (simp flip: power_add)
  then have "2 ^ s * (q + 1) \<le> (2 :: nat) ^ s * 2 ^ (LENGTH('a) - s)" by (intro mult_le_mono2) simp
  then show "2 ^ s * (q + 1) \<le> (2 :: nat) ^ LENGTH('a)" using assms(2) by (simp flip: power_add)
  have "unat m < 2 ^ 64"
    using less_le_trans [OF unat_less_pow [of m] power_increasing [OF assms(1)]] by simp
  then have "unat (ucast m :: u64) = 2 ^ s * q"
    using assms(3) by (simp add: unsigned_ucast_eq take_bit_nat_eq_self_iff)
  moreover have "unat (push_bit s 1 :: u64) = 2 ^ s"
    using unat_push_bit [of s "1 :: u64"] power_strict_increasing [of s 64 "2 :: nat"] assms(1,2) by simp
  ultimately show "unat (ucast m + push_bit s 1 :: u64) = 2 ^ s * (q + 1) mod 2 ^ 64"
    by (simp only: unat_word_ariths(1) distrib_left mult_1_right len64)
qed

text \<open>The compile-time checks accept exactly the masks that are a run of one bits.\<close>

theorem field_check_iff:
  fixes m :: "'a::len word"
  assumes L: "LENGTH('a) \<le> 64"
  shows "BF_FIELD_CHECK m (NOT 0) None \<longleftrightarrow> (\<exists>s w. 0 < w \<and> s + w \<le> LENGTH('a) \<and> m = field s w)"
proof
  assume ok: "BF_FIELD_CHECK m (NOT 0) None"
  then have "m \<noteq> 0" by (simp add: BF_FIELD_CHECK_def)
  then obtain s where s: "first_bit m s" "s < LENGTH('a)" by (rule first_bit_exists)
  let ?N = "ucast m + push_bit s 1 :: u64"
  have N: "?N AND (?N - 1) = 0"
    using ok builtin_ffsll_first [OF s(1)] by (simp add: BF_FIELD_CHECK_def not_power_of_2_def)
  obtain q where q: "unat m = 2 ^ s * q" using first_bit_multiple [OF s(1)] by blast
  note S = unat_run_end [OF L s(2) q]
  have "\<exists>j. 2 ^ s * (q + 1) = (2 :: nat) ^ j"
  proof (cases "2 ^ s * (q + 1) = (2 :: nat) ^ 64")
    case False
    have "2 ^ s * (q + 1) < (2 :: nat) ^ 64"
      using S(1) power_increasing [OF L, of "2 :: nat"] False by linarith
    then have "unat ?N = 2 ^ s * (q + 1)" using S(2) by simp
    moreover from this have "?N \<noteq> 0" by (intro notI) simp
    ultimately show ?thesis using single_bit_power [OF _ N] by metis
  qed blast
  then obtain j where j: "2 ^ s * (q + 1) = (2 :: nat) ^ j" by blast
  have "0 < q" using q \<open>m \<noteq> 0\<close> by (cases q) (auto simp: unat_eq_0)
  then have "(2 :: nat) ^ s < 2 ^ j" unfolding j [symmetric] by simp
  then have "s < j" by simp
  have "j \<le> LENGTH('a)" using S(1) unfolding j by simp
  have "unat m = unat (field s (j - s) :: 'a word)"
    using unat_field [of s "j - s", where 'a = 'a] \<open>s < j\<close> \<open>j \<le> LENGTH('a)\<close> j q by simp
  then have "m = field s (j - s)" by (rule unsigned_word_eqI)
  then show "\<exists>s w. 0 < w \<and> s + w \<le> LENGTH('a) \<and> m = field s w"
    using \<open>s < j\<close> \<open>j \<le> LENGTH('a)\<close> by (intro exI [of _ s] exI [of _ "j - s"]) simp
next
  assume "\<exists>s w. 0 < w \<and> s + w \<le> LENGTH('a) \<and> m = field s w"
  then obtain s w where m: "0 < w" "s + w \<le> LENGTH('a)" "m = field s w" by blast
  then have s: "s < LENGTH('a)" "m \<noteq> 0" "bf_shf m = s"
    using field_nonzero [OF m(1), of s, where 'a = 'a] bf_shf_field [OF m(1), of s, where 'a = 'a] by auto
  let ?N = "ucast m + push_bit s 1 :: u64"
  have "?N = push_bit (s + w) 1"
  proof (rule unsigned_word_eqI)
    have "unat m = 2 ^ s * (2 ^ w - 1)"
      using unat_field [OF m(2)] m(3) by (simp add: power_add algebra_simps)
    note N = unat_run_end(2) [OF L s(1) this]
    have e: "2 ^ s * (2 ^ w - 1 + 1) = (2 :: nat) ^ (s + w)" by (simp add: power_add)
    show "unat ?N = unat (push_bit (s + w) 1 :: u64)"
      unfolding N e unat_push_bit by (simp only: unat_1 mult_1_left len64)
  qed
  then have "\<not> not_power_of_2 ?N" by (simp only: power_passes not_False_eq_True)
  moreover have "ucast m \<le> (NOT 0 :: u64)" by simp
  ultimately show "BF_FIELD_CHECK m (NOT 0) None" using s by (simp add: BF_FIELD_CHECK_def)
qed

lemma check_field:
  assumes "LENGTH('a::len) \<le> 64" "0 < w" "s + w \<le> LENGTH('a)"
  shows "BF_FIELD_CHECK (field s w :: 'a word) (NOT 0) None"
  using field_check_iff [OF assms(1)] assms(2,3) by blast

lemma check_reg:
  fixes m :: "'a::len word"
  assumes "LENGTH('a) \<le> 64" "BF_FIELD_CHECK m (NOT 0) None"
  shows "BF_FIELD_CHECK m (ucast (NOT 0 :: 'a word)) (Some 0)"
proof -
  have "unat m \<le> unat (NOT 0 :: 'a word)" by (simp flip: word_le_nat_alt)
  moreover have "unat (ucast x :: u64) = unat x" for x :: "'a word"
    using less_le_trans [OF unat_less_pow [of x] power_increasing [OF assms(1)]]
    by (simp add: unsigned_ucast_eq take_bit_nat_eq_self_iff)
  ultimately have "ucast m \<le> (ucast (NOT 0 :: 'a word) :: u64)" by (simp only: word_le_nat_alt)
  then show ?thesis using assms(2) by (simp add: BF_FIELD_CHECK_def)
qed

text \<open>
  C14: A value that was prepared for a field and put where the field was clear is read back,
  cut to the width of the field, and other fields of the register are read as before.
\<close>

theorem field_get_prep:
  fixes reg :: "'a::len word"
  assumes "LENGTH('a) \<le> 64" "0 < w" "s + w \<le> LENGTH('a)" "reg AND field s w = 0"
  shows "\<exists>x. FIELD_PREP False (field s w :: 'a word) val = Some x \<and>
    FIELD_GET (field s w :: 'a word) (reg OR x) = Some (take_bit w (ucast val)) \<and>
    (\<forall>m :: 'a word. m AND field s w = 0 \<longrightarrow> FIELD_GET m (reg OR x) = FIELD_GET m reg)"
proof -
  let ?m = "field s w :: 'a word"
  let ?x = "push_bit s (ucast val) AND ?m"
  have shf: "bf_shf ?m = s" using assms(2,3) by (intro bf_shf_field) simp_all
  have "FIELD_PREP False ?m val = Some ?x"
    using check_field [OF assms(1-3)] by (simp add: FIELD_PREP_def shf)
  moreover have "ucast (drop_bit s (ucast (reg OR ?x) AND ucast ?m :: u64)) = (take_bit w (ucast val) :: 'a word)"
    using assms by (intro bit_word_eqI) (auto simp: word_bits bit_take_bit_iff bit_ucast_iff and_zero_iff)
  then have "FIELD_GET ?m (reg OR ?x) = Some (take_bit w (ucast val))"
    using check_reg [OF assms(1) check_field [OF assms(1-3)]] by (simp add: FIELD_GET_def shf)
  moreover have "FIELD_GET m (reg OR ?x) = FIELD_GET m reg" if "m AND ?m = 0" for m :: "'a word"
  proof -
    have "(ucast (reg OR ?x) AND ucast m :: u64) = ucast reg AND ucast m"
      using that by (intro bit_word_eqI) (auto simp: word_bits bit_ucast_iff and_zero_iff)
    then show ?thesis by (simp only: FIELD_GET_def)
  qed
  ultimately show ?thesis by blast
qed

lemma field_get_prep_witness:
  "\<exists>x. FIELD_PREP False (field 8 8 :: u32) 0x1AB = Some x \<and> FIELD_GET (field 8 8 :: u32) (0xFF00FF OR x) = Some 0xAB"
proof -
  have "(0xFF00FF :: u32) AND field 8 8 = 0"
    unfolding and_zero_iff by (auto simp: word_bits less_Suc_eq numeral_eq_Suc)
  from field_get_prep [OF _ _ _ this, of "0x1AB"] show ?thesis by (auto simp: take_bit_eq_mod)
qed

text \<open>
  \<open>FIELD_FIT\<close> looks only at those bits of the value that stay in the word when the
  value is shifted to its field, so that a value which is too wide is accepted when the bits
  beyond the field fall out of the word: any value fits a field at the top.
\<close>

theorem field_fit_spec:
  assumes "LENGTH('a::len) \<le> 64" "0 < w" "s + w \<le> LENGTH('a)"
  shows "FIELD_FIT False (field s w :: 'a word) val =
      Some (\<forall>i. w \<le> i \<longrightarrow> i < LENGTH('a) - s \<longrightarrow> \<not> bit val i) \<and>
    (s + w = LENGTH('a) \<longrightarrow> FIELD_FIT False (field s w :: 'a word) val = Some True)"
proof -
  have shf: "bf_shf (field s w :: 'a word) = s" using assms(2,3) by (intro bf_shf_field) simp_all
  have "push_bit s (ucast val) AND NOT (field s w :: 'a word) = 0 \<longleftrightarrow>
      (\<forall>i. w \<le> i \<longrightarrow> i < LENGTH('a) - s \<longrightarrow> \<not> bit val i)" (is "?L \<longleftrightarrow> ?R")
  proof
    assume L: ?L
    have "\<not> bit val i" if "w \<le> i" "i < LENGTH('a) - s" for i
      using L [unfolded and_zero_iff, rule_format, of "i + s"] that
      by (auto simp: word_bits bit_ucast_iff)
    then show ?R by blast
  next
    assume ?R
    then show ?L by (auto simp: and_zero_iff word_bits bit_ucast_iff)
  qed
  then show ?thesis
    using check_field [OF assms] assms(3) by (auto simp: FIELD_FIT_def shf)
qed

lemma field_fit_spec_witness:
  "FIELD_FIT False (field 16 16 :: u32) 0x10000 = Some True"
  using field_fit_spec [of 16 16 "0x10000", where 'a = 32] by simp

end
