(* ===== verification/Bitrev.thy ===== *)
theory Bitrev
  imports ByteOrder
begin

text \<open>
  Reversing the order of bits (\<open>include/linux/bitrev.h\<close>): macros for constants, which swap
  ever smaller groups of bits, and functions over a table of reversed bytes, which is defined
  outside the repository and is the argument \<open>tab\<close>.  The compiler's choice between them
  is the argument \<open>const\<close>.  The macros that choose name their local variable like those
  for constants do, and hand it to them, which declares \<open>u32 __x = __x\<close>: the inner variable
  is initialised with its own indeterminate value.
\<close>

definition bitrev8_raw :: "(u8 \<Rightarrow> u8) \<Rightarrow> u8 \<Rightarrow> u8" where
  "bitrev8_raw tab b = tab b"

definition bitrev16_raw :: "(u8 \<Rightarrow> u8) \<Rightarrow> u16 \<Rightarrow> u16" where
  "bitrev16_raw tab x =
     push_bit 8 (ucast (bitrev8_raw tab (ucast (x AND 0xff)))) OR ucast (bitrev8_raw tab (ucast (drop_bit 8 x)))"

definition bitrev32_raw :: "(u8 \<Rightarrow> u8) \<Rightarrow> u32 \<Rightarrow> u32" where
  "bitrev32_raw tab x =
     push_bit 16 (ucast (bitrev16_raw tab (ucast (x AND 0xffff)))) OR
     ucast (bitrev16_raw tab (ucast (drop_bit 16 x)))"

definition bitrev8x4_raw :: "(u8 \<Rightarrow> u8) \<Rightarrow> u32 \<Rightarrow> u32" where
  "bitrev8x4_raw tab x = bitrev32_raw tab (swab32 x)"

definition constant_bitrev32 :: "u32 \<Rightarrow> u32" where
  "constant_bitrev32 x =
     (let x = drop_bit 16 x OR push_bit 16 x;
          x = drop_bit 8 (x AND 0xFF00FF00) OR push_bit 8 (x AND 0x00FF00FF);
          x = drop_bit 4 (x AND 0xF0F0F0F0) OR push_bit 4 (x AND 0x0F0F0F0F);
          x = drop_bit 2 (x AND 0xCCCCCCCC) OR push_bit 2 (x AND 0x33333333);
          x = drop_bit 1 (x AND 0xAAAAAAAA) OR push_bit 1 (x AND 0x55555555)
      in x)"

definition constant_bitrev16 :: "u16 \<Rightarrow> u16" where
  "constant_bitrev16 x =
     (let x = drop_bit 8 x OR push_bit 8 x;
          x = drop_bit 4 (x AND 0xF0F0) OR push_bit 4 (x AND 0x0F0F);
          x = drop_bit 2 (x AND 0xCCCC) OR push_bit 2 (x AND 0x3333);
          x = drop_bit 1 (x AND 0xAAAA) OR push_bit 1 (x AND 0x5555)
      in x)"

definition constant_bitrev8x4 :: "u32 \<Rightarrow> u32" where
  "constant_bitrev8x4 x =
     (let x = drop_bit 4 (x AND 0xF0F0F0F0) OR push_bit 4 (x AND 0x0F0F0F0F);
          x = drop_bit 2 (x AND 0xCCCCCCCC) OR push_bit 2 (x AND 0x33333333);
          x = drop_bit 1 (x AND 0xAAAAAAAA) OR push_bit 1 (x AND 0x55555555)
      in x)"

definition constant_bitrev8 :: "u8 \<Rightarrow> u8" where
  "constant_bitrev8 x =
     (let x = drop_bit 4 x OR push_bit 4 x;
          x = drop_bit 2 (x AND 0xCC) OR push_bit 2 (x AND 0x33);
          x = drop_bit 1 (x AND 0xAA) OR push_bit 1 (x AND 0x55)
      in x)"

text \<open>The value of a variable in its own initialiser.\<close>

definition own_value :: "ub + 'a" where
  "own_value = Inl Uninitialised"

definition bitrev32 :: "(u8 \<Rightarrow> u8) \<Rightarrow> bool \<Rightarrow> u32 \<Rightarrow> ub + u32" where
  "bitrev32 tab const x =
     (if const then bindE own_value (\<lambda>x. Inr (constant_bitrev32 x)) else Inr (bitrev32_raw tab x))"

definition bitrev16 :: "(u8 \<Rightarrow> u8) \<Rightarrow> bool \<Rightarrow> u16 \<Rightarrow> ub + u16" where
  "bitrev16 tab const x =
     (if const then bindE own_value (\<lambda>x. Inr (constant_bitrev16 x)) else Inr (bitrev16_raw tab x))"

definition bitrev8x4 :: "(u8 \<Rightarrow> u8) \<Rightarrow> bool \<Rightarrow> u32 \<Rightarrow> ub + u32" where
  "bitrev8x4 tab const x =
     (if const then bindE own_value (\<lambda>x. Inr (constant_bitrev8x4 x)) else Inr (bitrev8x4_raw tab x))"

definition bitrev8 :: "(u8 \<Rightarrow> u8) \<Rightarrow> bool \<Rightarrow> u8 \<Rightarrow> ub + u8" where
  "bitrev8 tab const x =
     (if const then bindE own_value (\<lambda>x. Inr (constant_bitrev8 x)) else Inr (bitrev8_raw tab x))"

section \<open>Swapping neighbouring groups\<close>

text \<open>
  One step swaps groups of \<open>w\<close> bits, a power of two: a bit moves to the position that
  differs in one binary digit.
\<close>

definition swaps :: "nat \<Rightarrow> 'a::len word \<Rightarrow> 'a word \<Rightarrow> bool" where
  "swaps w m n \<longleftrightarrow> (\<forall>i<LENGTH('a). (bit m i \<longleftrightarrow> odd (i div w)) \<and> (bit n i \<longleftrightarrow> even (i div w)))"

definition partner :: "nat \<Rightarrow> nat \<Rightarrow> nat" where
  "partner w i = (if even (i div w) then i + w else i - w)"

lemma bit_swap_step:
  fixes x m n :: "'a::len word"
  assumes "swaps w m n" "0 < w" "2 * w dvd LENGTH('a)" "i < LENGTH('a)"
  shows "bit (drop_bit w (x AND m) OR push_bit w (x AND n)) i \<longleftrightarrow> bit x (partner w i)"
    "partner w i < LENGTH('a)"
proof -
  obtain q where q: "LENGTH('a) = 2 * w * q" using assms(3) by (auto elim: dvdE)
  have up: "i + w < LENGTH('a)" if ev: "even (i div w)"
  proof -
    obtain k where k: "i div w = 2 * k" using ev by (blast elim: evenE)
    have "i div (2 * w) = k" using k by (simp add: mult.commute[of 2] div_mult2_eq)
    moreover have "i div (2 * w) < q" using assms(2,4) q by (simp add: div_less_iff_less_mult mult.commute)
    moreover have "i mod w < w" using assms(2) by simp
    moreover have "i = w * (2 * k) + i mod w" using k by (metis mult_div_mod_eq)
    ultimately have "i + w < w * (2 * k + 2)" "2 * k + 2 \<le> 2 * q" by (simp_all add: algebra_simps)
    then show ?thesis using q mult_le_mono2 [of "2 * k + 2" "2 * q" w] by (simp add: mult.assoc mult.left_commute)
  qed
  have dn: "w \<le> i" if "odd (i div w)" using that by (metis div_less even_zero not_le)
  show "partner w i < LENGTH('a)" using up dn assms(4) by (auto simp: partner_def)
  have e: "(i + w) div w = i div w + 1" using assms(2) by (simp add: div_add_self2)
  have o: "w \<le> i \<Longrightarrow> (i - w) div w = i div w - 1" using assms(2) by (simp add: le_div_geq)
  show "bit (drop_bit w (x AND m) OR push_bit w (x AND n)) i \<longleftrightarrow> bit x (partner w i)"
  proof (cases "even (i div w)")
    case True
    have "\<not> bit n (i - w)" if "w \<le> i"
    proof -
      have "0 < i div w" using that assms(2) by (simp add: div_greater_zero_iff)
      then have "odd ((i - w) div w)" using True o [OF that] by simp
      moreover have "i - w < LENGTH('a)" using assms(4) by simp
      ultimately show ?thesis using assms(1) unfolding swaps_def by blast
    qed
    moreover have "bit m (i + w)" using assms(1) up [OF True] e True by (simp add: swaps_def)
    ultimately show ?thesis using True assms(4) by (auto simp: word_bits partner_def add.commute)
  next
    case False
    then have "bit n (i - w)" using assms(1,4) o dn by (simp add: swaps_def)
    moreover have "\<not> bit m (i + w)"
      using assms(1) e False bit_imp_le_length [of m "i + w"] by (auto simp: swaps_def)
    ultimately show ?thesis using False dn assms(4) by (auto simp: word_bits partner_def add.commute)
  qed
qed

lemma step_masks:
  "swaps 1 (0xAA :: u8) 0x55" "swaps 2 (0xCC :: u8) 0x33"
  "swaps 1 (0xAAAA :: u16) 0x5555" "swaps 2 (0xCCCC :: u16) 0x3333" "swaps 4 (0xF0F0 :: u16) 0x0F0F"
  "swaps 1 (0xAAAAAAAA :: u32) 0x55555555" "swaps 2 (0xCCCCCCCC :: u32) 0x33333333"
  "swaps 4 (0xF0F0F0F0 :: u32) 0x0F0F0F0F" "swaps 8 (0xFF00FF00 :: u32) 0x00FF00FF"
  by code_simp+

lemma bit_rotate_half:
  fixes x :: "'a::len word"
  assumes "LENGTH('a) = 2 * w" "i < LENGTH('a)" "0 < w"
  shows "bit (drop_bit w x OR push_bit w x) i \<longleftrightarrow> bit x (partner w i)" "partner w i < LENGTH('a)"
proof -
  have "i div w = (if i < w then 0 else 1)" using assms by (simp add: div_nat_eqI not_less)
  then have "partner w i = (if i < w then i + w else i - w)" by (simp add: partner_def)
  then show "bit (drop_bit w x OR push_bit w x) i \<longleftrightarrow> bit x (partner w i)" "partner w i < LENGTH('a)"
    using assms by (auto simp: word_bits add.commute dest: bit_imp_le_length)
qed

lemma steps8:
  fixes x :: u8
  shows "i < 8 \<Longrightarrow> bit (drop_bit 1 (x AND 0xAA) OR push_bit 1 (x AND 0x55)) i \<longleftrightarrow> bit x (partner 1 i)"
    "i < 8 \<Longrightarrow> bit (drop_bit 2 (x AND 0xCC) OR push_bit 2 (x AND 0x33)) i \<longleftrightarrow> bit x (partner 2 i)"
    "i < 8 \<Longrightarrow> bit (drop_bit 4 x OR push_bit 4 x) i \<longleftrightarrow> bit x (partner 4 i)"
    "i < 8 \<Longrightarrow> partner 1 i < 8"
    "i < 8 \<Longrightarrow> partner 2 i < 8"
    "i < 8 \<Longrightarrow> partner 4 i < 8"
  using bit_swap_step [OF step_masks(1), of i]
    bit_swap_step [OF step_masks(2), of i]
    bit_rotate_half [where 'a = 8 and w = 4, of i] by simp_all

lemma steps16:
  fixes x :: u16
  shows "i < 16 \<Longrightarrow> bit (drop_bit 1 (x AND 0xAAAA) OR push_bit 1 (x AND 0x5555)) i \<longleftrightarrow> bit x (partner 1 i)"
    "i < 16 \<Longrightarrow> bit (drop_bit 2 (x AND 0xCCCC) OR push_bit 2 (x AND 0x3333)) i \<longleftrightarrow> bit x (partner 2 i)"
    "i < 16 \<Longrightarrow> bit (drop_bit 4 (x AND 0xF0F0) OR push_bit 4 (x AND 0x0F0F)) i \<longleftrightarrow> bit x (partner 4 i)"
    "i < 16 \<Longrightarrow> bit (drop_bit 8 x OR push_bit 8 x) i \<longleftrightarrow> bit x (partner 8 i)"
    "i < 16 \<Longrightarrow> partner 1 i < 16"
    "i < 16 \<Longrightarrow> partner 2 i < 16"
    "i < 16 \<Longrightarrow> partner 4 i < 16"
    "i < 16 \<Longrightarrow> partner 8 i < 16"
  using bit_swap_step [OF step_masks(3), of i]
    bit_swap_step [OF step_masks(4), of i]
    bit_swap_step [OF step_masks(5), of i]
    bit_rotate_half [where 'a = 16 and w = 8, of i] by simp_all

lemma steps32:
  fixes x :: u32
  shows "i < 32 \<Longrightarrow> bit (drop_bit 1 (x AND 0xAAAAAAAA) OR push_bit 1 (x AND 0x55555555)) i \<longleftrightarrow> bit x (partner 1 i)"
    "i < 32 \<Longrightarrow> bit (drop_bit 2 (x AND 0xCCCCCCCC) OR push_bit 2 (x AND 0x33333333)) i \<longleftrightarrow> bit x (partner 2 i)"
    "i < 32 \<Longrightarrow> bit (drop_bit 4 (x AND 0xF0F0F0F0) OR push_bit 4 (x AND 0x0F0F0F0F)) i \<longleftrightarrow> bit x (partner 4 i)"
    "i < 32 \<Longrightarrow> bit (drop_bit 8 (x AND 0xFF00FF00) OR push_bit 8 (x AND 0x00FF00FF)) i \<longleftrightarrow> bit x (partner 8 i)"
    "i < 32 \<Longrightarrow> bit (drop_bit 16 x OR push_bit 16 x) i \<longleftrightarrow> bit x (partner 16 i)"
    "i < 32 \<Longrightarrow> partner 1 i < 32"
    "i < 32 \<Longrightarrow> partner 2 i < 32"
    "i < 32 \<Longrightarrow> partner 4 i < 32"
    "i < 32 \<Longrightarrow> partner 8 i < 32"
    "i < 32 \<Longrightarrow> partner 16 i < 32"
  using bit_swap_step [OF step_masks(6), of i]
    bit_swap_step [OF step_masks(7), of i]
    bit_swap_step [OF step_masks(8), of i]
    bit_swap_step [OF step_masks(9), of i]
    bit_rotate_half [where 'a = 32 and w = 16, of i] by simp_all

lemma upto_lists:
  "[0..<8] = [0, 1, 2, 3, 4, 5, 6, 7]"
  "[0..<16] = [0, 1, 2, 3, 4, 5, 6, 7, 8, 9, 10, 11, 12, 13, 14, 15]"
  "[0..<32] = [0, 1, 2, 3, 4, 5, 6, 7, 8, 9, 10, 11, 12, 13, 14, 15, 16, 17, 18, 19,
     20, 21, 22, 23, 24, 25, 26, 27, 28, 29, 30, 31]"
  by code_simp+

lemma partners:
  "i < 8 \<Longrightarrow> partner 4 (partner 2 (partner 1 i)) = 7 - i"
  "i < 16 \<Longrightarrow> partner 8 (partner 4 (partner 2 (partner 1 i))) = 15 - i"
  "i < 32 \<Longrightarrow> partner 16 (partner 8 (partner 4 (partner 2 (partner 1 i)))) = 31 - i"
  "i < 32 \<Longrightarrow> partner 4 (partner 2 (partner 1 i)) = 8 * (i div 8) + 7 - i mod 8"
proof -
  have "list_all (\<lambda>i. partner 4 (partner 2 (partner 1 i)) = 7 - i) [0..<8]"
    "list_all (\<lambda>i. partner 8 (partner 4 (partner 2 (partner 1 i))) = 15 - i) [0..<16]"
    "list_all (\<lambda>i. partner 16 (partner 8 (partner 4 (partner 2 (partner 1 i)))) = 31 - i) [0..<32]"
    "list_all (\<lambda>i. partner 4 (partner 2 (partner 1 i)) = 8 * (i div 8) + 7 - i mod 8) [0..<32]"
    unfolding upto_lists list.pred_inject by (simp_all add: partner_def)
  then show "i < 8 \<Longrightarrow> partner 4 (partner 2 (partner 1 i)) = 7 - i"
    "i < 16 \<Longrightarrow> partner 8 (partner 4 (partner 2 (partner 1 i))) = 15 - i"
    "i < 32 \<Longrightarrow> partner 16 (partner 8 (partner 4 (partner 2 (partner 1 i)))) = 31 - i"
    "i < 32 \<Longrightarrow> partner 4 (partner 2 (partner 1 i)) = 8 * (i div 8) + 7 - i mod 8"
    by (simp_all add: list_all_iff)
qed

lemma bit_constant_bitrev:
  "i < 8 \<Longrightarrow> bit (constant_bitrev8 b) i \<longleftrightarrow> bit b (7 - i)"
  "i < 16 \<Longrightarrow> bit (constant_bitrev16 y) i \<longleftrightarrow> bit y (15 - i)"
  "i < 32 \<Longrightarrow> bit (constant_bitrev32 x) i \<longleftrightarrow> bit x (31 - i)"
  "i < 32 \<Longrightarrow> bit (constant_bitrev8x4 x) i \<longleftrightarrow> bit x (8 * (i div 8) + 7 - i mod 8)"
  by (simp_all only: constant_bitrev8_def constant_bitrev16_def constant_bitrev32_def Let_def steps8
      steps16 steps32 partners(1-3))
    (simp_all only: constant_bitrev8x4_def Let_def steps32 partners(4))

section \<open>The functions over a table\<close>

definition reverses_bytes :: "(u8 \<Rightarrow> u8) \<Rightarrow> bool" where
  "reverses_bytes tab \<longleftrightarrow> (\<forall>b. \<forall>i<8. bit (tab b) i = bit b (7 - i))"

lemma bit_bitrev_raw:
  assumes "reverses_bytes tab"
  shows "i < 8 \<Longrightarrow> bit (bitrev8_raw tab b) i \<longleftrightarrow> bit b (7 - i)"
    "i < 16 \<Longrightarrow> bit (bitrev16_raw tab y) i \<longleftrightarrow> bit y (15 - i)"
    "i < 32 \<Longrightarrow> bit (bitrev32_raw tab x) i \<longleftrightarrow> bit x (31 - i)"
proof -
  have b8: "bit (bitrev8_raw tab b) i \<longleftrightarrow> bit b (7 - i)" if "i < 8" for b i
    using assms that by (simp add: reverses_bytes_def bitrev8_raw_def)
  have b16: "bit (bitrev16_raw tab y) i \<longleftrightarrow> bit y (15 - i)" if "i < 16" for y i
  proof (cases "i < 8")
    case True
    then show ?thesis
      by (auto simp: bitrev16_raw_def word_bits bit_ucast_iff b8 dest: bit_imp_le_length)
  next
    case False
    then have "7 - (i - 8) = 15 - i" "15 - i < 8" using that by simp_all
    then show ?thesis using False that
      by (auto simp: bitrev16_raw_def word_bits bit_ucast_iff b8 byte_masks dest: bit_imp_le_length)
  qed
  have b32: "bit (bitrev32_raw tab x) i \<longleftrightarrow> bit x (31 - i)" if "i < 32" for x i
  proof (cases "i < 16")
    case True
    then show ?thesis
      by (auto simp: bitrev32_raw_def word_bits bit_ucast_iff b16 dest: bit_imp_le_length)
  next
    case False
    then have "15 - (i - 16) = 31 - i" "31 - i < 16" using that by simp_all
    then show ?thesis using False that
      by (auto simp: bitrev32_raw_def word_bits bit_ucast_iff b16 byte_masks dest: bit_imp_le_length)
  qed
  show "i < 8 \<Longrightarrow> bit (bitrev8_raw tab b) i \<longleftrightarrow> bit b (7 - i)"
    "i < 16 \<Longrightarrow> bit (bitrev16_raw tab y) i \<longleftrightarrow> bit y (15 - i)"
    "i < 32 \<Longrightarrow> bit (bitrev32_raw tab x) i \<longleftrightarrow> bit x (31 - i)"
    by (rule b8 b16 b32; assumption)+
qed

lemma bit_swab32:
  assumes "i < 32"
  shows "bit (swab32 x) i \<longleftrightarrow> bit x (8 * (3 - i div 8) + i mod 8)"
proof -
  have byte: "byte (swab32 x) k = byte x (3 - k)" if "k < 4" for k
    using that byte_swab32 [of x] by (auto simp: less_Suc_eq numeral_eq_Suc)
  have "bit (swab32 x) (8 * (i div 8) + i mod 8) = bit (byte (swab32 x) (i div 8)) (i mod 8)"
    by (simp only: bit_byte) simp
  also have "\<dots> = bit (byte x (3 - i div 8)) (i mod 8)" using assms by (subst byte) simp_all
  finally show ?thesis by (simp add: bit_byte)
qed

lemma mirrored_byte:
  fixes i :: nat
  assumes "i < 32"
  shows "8 * (3 - (31 - i) div 8) + (31 - i) mod 8 = 8 * (i div 8) + 7 - i mod 8"
proof -
  have "list_all (\<lambda>i. 8 * (3 - (31 - i) div 8) + (31 - i) mod 8 = 8 * (i div 8) + 7 - i mod 8) [0..<32]"
    unfolding upto_lists list.pred_inject by simp
  then show ?thesis using assms by (simp add: list_all_iff)
qed

lemma bit_bitrev8x4_raw:
  assumes "reverses_bytes tab" "i < 32"
  shows "bit (bitrev8x4_raw tab x) i \<longleftrightarrow> bit x (8 * (i div 8) + 7 - i mod 8)"
proof -
  have "bit (bitrev8x4_raw tab x) i = bit (swab32 x) (31 - i)"
    using assms by (simp only: bitrev8x4_raw_def bit_bitrev_raw)
  also have "\<dots> = bit x (8 * (3 - (31 - i) div 8) + (31 - i) mod 8)" by (rule bit_swab32) simp
  also have "8 * (3 - (31 - i) div 8) + (31 - i) mod 8 = 8 * (i div 8) + 7 - i mod 8"
    using assms(2) by (rule mirrored_byte)
  finally show ?thesis .
qed

lemma raw_is_constant:
  assumes "reverses_bytes tab"
  shows "bitrev8_raw tab b = constant_bitrev8 b" "bitrev16_raw tab y = constant_bitrev16 y"
    "bitrev32_raw tab x = constant_bitrev32 x" "bitrev8x4_raw tab x = constant_bitrev8x4 x"
  by (rule bit_word_eqI, simp add: bit_bitrev_raw [OF assms] bit_bitrev8x4_raw [OF assms] bit_constant_bitrev)+

text \<open>
  C23: with a table that reverses bytes, the macros move each bit of a value that the compiler does
  not know to the mirrored position of its word, or of its byte for the macro that treats four
  bytes at once; these are the values of the macros for constants, and reversing twice gives
  the value back.  For an argument that the compiler does know every one of the four macros
  reads a variable that has no value.
\<close>

theorem bitrev_spec:
  assumes "reverses_bytes tab"
  shows "bitrev8 tab False b = Inr (constant_bitrev8 b) \<and> (\<forall>i<8. bit (constant_bitrev8 b) i = bit b (7 - i)) \<and>
    bitrev16 tab False y = Inr (constant_bitrev16 y) \<and> (\<forall>i<16. bit (constant_bitrev16 y) i = bit y (15 - i)) \<and>
    bitrev32 tab False x = Inr (constant_bitrev32 x) \<and> (\<forall>i<32. bit (constant_bitrev32 x) i = bit x (31 - i)) \<and>
    bitrev8x4 tab False x = Inr (constant_bitrev8x4 x) \<and>
    (\<forall>i<32. bit (constant_bitrev8x4 x) i = bit x (8 * (i div 8) + 7 - i mod 8)) \<and>
    bindE (bitrev32 tab False x) (bitrev32 tab False) = Inr x \<and>
    bitrev8 tab True b = Inl Uninitialised \<and> bitrev16 tab True y = Inl Uninitialised \<and>
    bitrev32 tab True x = Inl Uninitialised \<and> bitrev8x4 tab True x = Inl Uninitialised"
proof -
  have "constant_bitrev32 (constant_bitrev32 x) = x"
    by (rule bit_word_eqI) (simp add: bit_constant_bitrev)
  then show ?thesis
    by (simp add: bitrev8_def bitrev16_def bitrev32_def bitrev8x4_def own_value_def raw_is_constant [OF assms]
        bit_constant_bitrev)
qed

theorem bitrev_spec_witness:
  "bitrev32 constant_bitrev8 False 0x12345678 = Inr (constant_bitrev32 0x12345678) \<and>
   bindE (bitrev32 constant_bitrev8 False 0x12345678) (bitrev32 constant_bitrev8 False) = Inr 0x12345678"
proof -
  have "reverses_bytes constant_bitrev8" by (simp add: reverses_bytes_def bit_constant_bitrev)
  from bitrev_spec [OF this] show ?thesis by blast
qed

end
