(* ===== verification/Opcodes.thy ===== *)
theory Opcodes
  imports ByteOrder
begin

text \<open>
  ARM and Thumb instructions in memory (\<open>arch/arm/include/asm/opcodes.h\<close>): the conversion
  between an instruction as a number and the data that has to be stored for it, the classes of
  Thumb instructions, and the directives that put an instruction among the data of the
  assembler.  The C variants of two swaps need a header that is not in the tree; the ones of
  the assembler are complete.
\<close>

text \<open>\<open>CONFIG_CPU_ENDIAN_BE8\<close>, \<open>CONFIG_CPU_ENDIAN_BE32\<close>, or neither.\<close>

datatype cpu_endian = BE8 | BE32 | LE

definition data_order :: "cpu_endian \<Rightarrow> byte_order" where
  "data_order cfg = (if cfg = LE then LittleEndian else BigEndian)"

definition asm_opcode_swab32 :: "u32 \<Rightarrow> u32" where
  "asm_opcode_swab32 x =
     (push_bit 24 x AND 0xFF000000) OR (push_bit 8 x AND 0x00FF0000) OR
     (drop_bit 8 x AND 0x0000FF00) OR (drop_bit 24 x AND 0x000000FF)"

definition asm_opcode_swab16 :: "u32 \<Rightarrow> u32" where
  "asm_opcode_swab16 x = (push_bit 8 x AND 0xFF00) OR (drop_bit 8 x AND 0x00FF)"

definition asm_opcode_swahb32 :: "u32 \<Rightarrow> u32" where
  "asm_opcode_swahb32 x = (push_bit 8 x AND 0xFF00FF00) OR (drop_bit 8 x AND 0x00FF00FF)"

definition asm_opcode_swahw32 :: "u32 \<Rightarrow> u32" where
  "asm_opcode_swahw32 x = (push_bit 16 x AND 0xFFFF0000) OR (drop_bit 16 x AND 0x0000FFFF)"

definition asm_opcode_identity32 :: "u32 \<Rightarrow> u32" where
  "asm_opcode_identity32 x = x AND 0xFFFFFFFF"

definition asm_opcode_identity16 :: "u32 \<Rightarrow> u32" where
  "asm_opcode_identity16 x = x AND 0xFFFF"

definition asm_opcode_to_mem_arm :: "cpu_endian \<Rightarrow> u32 \<Rightarrow> u32" where
  "asm_opcode_to_mem_arm cfg x = (if cfg = BE8 then asm_opcode_swab32 x else asm_opcode_identity32 x)"

definition asm_opcode_to_mem_thumb16 :: "cpu_endian \<Rightarrow> u32 \<Rightarrow> u32" where
  "asm_opcode_to_mem_thumb16 cfg x = (if cfg = BE8 then asm_opcode_swab16 x else asm_opcode_identity16 x)"

text \<open>Not defined for BE32.\<close>

definition asm_opcode_to_mem_thumb32 :: "cpu_endian \<Rightarrow> (u32 \<Rightarrow> u32) option" where
  "asm_opcode_to_mem_thumb32 cfg =
     (case cfg of BE8 \<Rightarrow> Some asm_opcode_swahb32 | LE \<Rightarrow> Some asm_opcode_swahw32 | BE32 \<Rightarrow> None)"

definition opcode_to_mem_arm :: "cpu_endian \<Rightarrow> u32 \<Rightarrow> u32" where
  "opcode_to_mem_arm cfg x = (if cfg = BE8 then swab32 x else x)"

definition opcode_to_mem_thumb16 :: "cpu_endian \<Rightarrow> u16 \<Rightarrow> u16" where
  "opcode_to_mem_thumb16 cfg x = (if cfg = BE8 then swab16 x else x)"

definition mem_to_opcode_arm :: "cpu_endian \<Rightarrow> u32 \<Rightarrow> u32" where
  "mem_to_opcode_arm cfg x = opcode_to_mem_arm cfg x"

definition mem_to_opcode_thumb16 :: "cpu_endian \<Rightarrow> u16 \<Rightarrow> u16" where
  "mem_to_opcode_thumb16 cfg x = opcode_to_mem_thumb16 cfg x"

section \<open>Thumb instructions\<close>

definition opcode_is_thumb32 :: "u32 \<Rightarrow> bool" where
  "opcode_is_thumb32 x \<longleftrightarrow> x AND 0xF8000000 = 0xE8000000 \<or> x AND 0xF0000000 = 0xF0000000"

definition opcode_is_thumb16 :: "u32 \<Rightarrow> bool" where
  "opcode_is_thumb16 x \<longleftrightarrow>
     x AND 0xFFFF0000 = 0 \<and> \<not> (x AND 0xF800 = 0xE800 \<or> x AND 0xF000 = 0xF000)"

definition opcode_thumb32_first :: "u32 \<Rightarrow> u16" where
  "opcode_thumb32_first x = ucast (drop_bit 16 x)"

definition opcode_thumb32_second :: "u32 \<Rightarrow> u16" where
  "opcode_thumb32_second x = ucast x"

definition opcode_thumb32_compose :: "u16 \<Rightarrow> u16 \<Rightarrow> u32" where
  "opcode_thumb32_compose first second = push_bit 16 (ucast first) OR ucast second"

definition asm_opcode_thumb32_first :: "u32 \<Rightarrow> u32" where
  "asm_opcode_thumb32_first x = asm_opcode_identity16 (drop_bit 16 x)"

definition asm_opcode_thumb32_second :: "u32 \<Rightarrow> u32" where
  "asm_opcode_thumb32_second x = asm_opcode_identity16 x"

definition asm_opcode_thumb32_compose :: "u32 \<Rightarrow> u32 \<Rightarrow> u32" where
  "asm_opcode_thumb32_compose first second =
     push_bit 16 (asm_opcode_identity32 (asm_opcode_identity16 first)) OR
     asm_opcode_identity32 (asm_opcode_identity16 second)"

section \<open>Emitting an instruction\<close>

text \<open>The bytes that \<open>.long\<close> and \<open>.short\<close> put into memory, in the order of data.\<close>

definition raw_inst_arm :: "cpu_endian \<Rightarrow> u32 \<Rightarrow> u8 list" where
  "raw_inst_arm cfg x = object_bytes (data_order cfg) 4 x"

definition raw_inst_thumb16 :: "cpu_endian \<Rightarrow> u32 \<Rightarrow> u8 list" where
  "raw_inst_thumb16 cfg x = object_bytes (data_order cfg) 2 x"

definition raw_inst_thumb32 :: "cpu_endian \<Rightarrow> u32 \<Rightarrow> u32 \<Rightarrow> u8 list" where
  "raw_inst_thumb32 cfg first second =
     object_bytes (data_order cfg) 2 first @ object_bytes (data_order cfg) 2 second"

definition inst_arm :: "cpu_endian \<Rightarrow> u32 \<Rightarrow> u8 list" where
  "inst_arm cfg x = raw_inst_arm cfg (asm_opcode_to_mem_arm cfg x)"

definition inst_thumb16 :: "cpu_endian \<Rightarrow> u32 \<Rightarrow> u8 list" where
  "inst_thumb16 cfg x = raw_inst_thumb16 cfg (asm_opcode_to_mem_thumb16 cfg x)"

definition inst_thumb32 :: "cpu_endian \<Rightarrow> u32 \<Rightarrow> u8 list" where
  "inst_thumb32 cfg x =
     raw_inst_thumb32 cfg (asm_opcode_to_mem_thumb16 cfg (asm_opcode_thumb32_first x))
       (asm_opcode_to_mem_thumb16 cfg (asm_opcode_thumb32_second x))"

definition inst_arm_thumb16 :: "bool \<Rightarrow> cpu_endian \<Rightarrow> u32 \<Rightarrow> u32 \<Rightarrow> u8 list" where
  "inst_arm_thumb16 thumb2_kernel cfg arm_opcode thumb_opcode =
     (if thumb2_kernel then inst_thumb16 cfg thumb_opcode else inst_arm cfg arm_opcode)"

definition inst_arm_thumb32 :: "bool \<Rightarrow> cpu_endian \<Rightarrow> u32 \<Rightarrow> u32 \<Rightarrow> u8 list" where
  "inst_arm_thumb32 thumb2_kernel cfg arm_opcode thumb_opcode =
     (if thumb2_kernel then inst_thumb32 cfg thumb_opcode else inst_arm cfg arm_opcode)"

section \<open>Properties\<close>

lemma alternate_mask_eqs:
  "(0xFF00FF00 :: int) = push_bit 8 (mask 8) OR push_bit 24 (mask 8)"
  "(0x00FF00FF :: int) = mask 8 OR push_bit 16 (mask 8)"
  "(0xFFFF0000 :: int) = push_bit 16 (mask 16)"
  "(0xF8000000 :: int) = push_bit 27 (mask 5)" "(0xF0000000 :: int) = push_bit 28 (mask 4)"
  "(0xF800 :: int) = push_bit 11 (mask 5)" "(0xF000 :: int) = push_bit 12 (mask 4)"
  by (simp_all add: mask_eq_exp_minus_1 push_bit_eq_mult)

lemma alternate_masks:
  "bit (0xFF00FF00 :: int) n \<longleftrightarrow> 8 \<le> n \<and> n < 16 \<or> 24 \<le> n \<and> n < 32"
  "bit (0x00FF00FF :: int) n \<longleftrightarrow> n < 8 \<or> 16 \<le> n \<and> n < 24"
  "bit (0xFFFF0000 :: int) n \<longleftrightarrow> 16 \<le> n \<and> n < 32"
  unfolding alternate_mask_eqs by (auto simp: bit_or_iff bit_push_bit_iff bit_mask_iff)

lemmas swap_bits = asm_opcode_swab32_def asm_opcode_swab16_def asm_opcode_swahb32_def
  asm_opcode_swahw32_def asm_opcode_identity32_def asm_opcode_identity16_def alternate_masks

lemma byte_swaps:
  "byte (asm_opcode_swab32 x) 0 = byte x 3" "byte (asm_opcode_swab32 x) (Suc 0) = byte x 2"
  "byte (asm_opcode_swab32 x) 2 = byte x 1" "byte (asm_opcode_swab32 x) 3 = byte x 0"
  "byte (asm_opcode_swab16 x) 0 = byte x 1" "byte (asm_opcode_swab16 x) (Suc 0) = byte x 0"
  "byte (asm_opcode_swahb32 x) 0 = byte x 1" "byte (asm_opcode_swahb32 x) (Suc 0) = byte x 0"
  "byte (asm_opcode_swahb32 x) 2 = byte x 3" "byte (asm_opcode_swahb32 x) 3 = byte x 2"
  "byte (asm_opcode_swahw32 x) 0 = byte x 2" "byte (asm_opcode_swahw32 x) (Suc 0) = byte x 3"
  "byte (asm_opcode_swahw32 x) 2 = byte x 0" "byte (asm_opcode_swahw32 x) 3 = byte x 1"
  "byte (asm_opcode_identity16 x) 0 = byte x 0" "byte (asm_opcode_identity16 x) (Suc 0) = byte x 1"
  "byte (asm_opcode_identity16 (drop_bit 16 x)) 0 = byte x 2"
  "byte (asm_opcode_identity16 (drop_bit 16 x)) (Suc 0) = byte x 3"
  by (auto intro!: bit_word_eqI simp: swap_bits word_bits)

lemma below_4: "k < 4 \<Longrightarrow> k = 0 \<or> k = Suc 0 \<or> k = 2 \<or> k = (3 :: nat)"
  by linarith

lemma swab_agree:
  "asm_opcode_swab32 x = swab32 x" "ucast (asm_opcode_swab16 (ucast y)) = swab16 y"
  "asm_opcode_identity32 x = x" "ucast (asm_opcode_identity16 (ucast y)) = (y :: u16)"
proof -
  show "asm_opcode_swab32 x = swab32 x"
    by (rule word_eq_by_bytes [where n = 4]) (auto simp: byte_swaps byte_swab32 dest: below_4)
  show "ucast (asm_opcode_swab16 (ucast y)) = swab16 y"
    "asm_opcode_identity32 x = x" "ucast (asm_opcode_identity16 (ucast y)) = (y :: u16)"
    by (auto intro!: bit_word_eqI simp: swap_bits swab16_def word_bits bit_ucast_iff)
qed

lemma byte_upper: "byte (drop_bit 16 x) 0 = byte x 2" "byte (drop_bit 16 x) (Suc 0) = byte x 3"
  by (simp_all add: byte_def)

lemma bytes_of_halves:
  "le_bytes 2 (opcode_thumb32_first x) = [byte x 2, byte x 3]"
  "le_bytes 2 (opcode_thumb32_second x) = [byte x 0, byte x 1]"
  by (auto simp: le_bytes_def upt_bytes(1,2) opcode_thumb32_first_def opcode_thumb32_second_def
      intro!: bit_word_eqI simp: word_bits bit_ucast_iff)

lemma swaps_undo:
  "asm_opcode_swahb32 (asm_opcode_swahb32 x) = x" "asm_opcode_swahw32 (asm_opcode_swahw32 x) = x"
  by (rule word_eq_by_bytes [where n = 4]; auto simp: byte_swaps dest: below_4)+

lemmas inst_defs = inst_arm_def inst_thumb16_def inst_thumb32_def raw_inst_arm_def raw_inst_thumb16_def
  raw_inst_thumb32_def data_order_def asm_opcode_to_mem_arm_def asm_opcode_to_mem_thumb16_def
  asm_opcode_thumb32_first_def asm_opcode_thumb32_second_def

lemma emitted:
  "inst_arm cfg x = object_bytes (if cfg = BE32 then BigEndian else LittleEndian) 4 x"
  "inst_thumb16 cfg x = object_bytes (if cfg = BE32 then BigEndian else LittleEndian) 2 x"
  "inst_thumb32 cfg x = object_bytes (if cfg = BE32 then BigEndian else LittleEndian) 2 (opcode_thumb32_first x) @
     object_bytes (if cfg = BE32 then BigEndian else LittleEndian) 2 (opcode_thumb32_second x)"
  by (cases cfg; simp add: inst_defs bytes_of_halves le_bytes_def upt_bytes(1,2) byte_swaps byte_upper swab_agree(3))
    (cases cfg; simp add: inst_defs bytes_of_halves; simp add: le_bytes_def upt_bytes(1,2) byte_swaps byte_upper)+

lemma stored_thumb32:
  "case asm_opcode_to_mem_thumb32 cfg of None \<Rightarrow> cfg = BE32
   | Some to_mem \<Rightarrow> raw_inst_arm cfg (to_mem x) = inst_thumb32 cfg x \<and> to_mem (to_mem x) = x"
  by (cases cfg) (simp_all add: asm_opcode_to_mem_thumb32_def swaps_undo inst_defs,
      simp_all add: le_bytes_def upt_bytes(1,2) byte_swaps byte_upper)

lemma stored_arm:
  "object_bytes (data_order cfg) 4 (opcode_to_mem_arm cfg x) = inst_arm cfg x"
  "mem_to_opcode_arm cfg (opcode_to_mem_arm cfg x) = x"
  "mem_to_opcode_thumb16 cfg (opcode_to_mem_thumb16 cfg y) = y"
  by (simp_all add: inst_defs opcode_to_mem_arm_def swab_agree(1,3) mem_to_opcode_arm_def
      mem_to_opcode_thumb16_def opcode_to_mem_thumb16_def)

text \<open>
  C30: With BE8 or little-endian data an emitted instruction lies in memory with its
  halfwords or words in little-endian order, the leading halfword of a 32-bit Thumb instruction
  first; with BE32 it is big-endian.  Storing a converted Thumb instruction as one word does
  the same as emitting it as two halfwords, and the conversion from memory undoes the one to
  memory.
\<close>

theorem instructions_in_memory:
  "inst_arm cfg x = object_bytes (if cfg = BE32 then BigEndian else LittleEndian) 4 x \<and>
   inst_thumb16 cfg x = object_bytes (if cfg = BE32 then BigEndian else LittleEndian) 2 x \<and>
   inst_thumb32 cfg x = object_bytes (if cfg = BE32 then BigEndian else LittleEndian) 2 (opcode_thumb32_first x) @
     object_bytes (if cfg = BE32 then BigEndian else LittleEndian) 2 (opcode_thumb32_second x) \<and>
   (case asm_opcode_to_mem_thumb32 cfg of None \<Rightarrow> cfg = BE32
    | Some to_mem \<Rightarrow> raw_inst_arm cfg (to_mem x) = inst_thumb32 cfg x \<and> to_mem (to_mem x) = x) \<and>
   object_bytes (data_order cfg) 4 (opcode_to_mem_arm cfg x) = inst_arm cfg x \<and>
   mem_to_opcode_arm cfg (opcode_to_mem_arm cfg x) = x \<and>
   mem_to_opcode_thumb16 cfg (opcode_to_mem_thumb16 cfg y) = y"
  by (intro conjI emitted stored_thumb32 stored_arm)

lemma high_bits_test:
  fixes x :: u32
  assumes "k + n \<le> 32"
  shows "x AND push_bit k (mask n) = push_bit k c AND push_bit k (mask n) \<longleftrightarrow>
    unat x div 2 ^ k mod 2 ^ n = unat c mod 2 ^ n"
proof -
  have "x AND push_bit k (mask n) = push_bit k c AND push_bit k (mask n) \<longleftrightarrow>
      take_bit n (drop_bit k x) = take_bit n c"
  proof
    assume L: "x AND push_bit k (mask n) = push_bit k c AND push_bit k (mask n)"
    show "take_bit n (drop_bit k x) = take_bit n c"
    proof (rule bit_word_eqI)
      fix i
      have "bit (x AND push_bit k (mask n)) (i + k) = bit (push_bit k c AND push_bit k (mask n)) (i + k)"
        using L by simp
      then show "bit (take_bit n (drop_bit k x)) i = bit (take_bit n c) i"
        using assms by (auto simp: bit_take_bit_iff word_bits bit_mask_iff add.commute)
    qed
  next
    assume R: "take_bit n (drop_bit k x) = take_bit n c"
    show "x AND push_bit k (mask n) = push_bit k c AND push_bit k (mask n)"
    proof (rule bit_word_eqI)
      fix i
      have "bit (take_bit n (drop_bit k x)) (i - k) = bit (take_bit n c) (i - k)" using R by simp
      then show "bit (x AND push_bit k (mask n)) i = bit (push_bit k c AND push_bit k (mask n)) i"
        using assms by (auto simp: bit_take_bit_iff word_bits bit_mask_iff)
    qed
  qed
  also have "\<dots> \<longleftrightarrow> unat (take_bit n (drop_bit k x)) = unat (take_bit n c)" by (simp only: unsigned_word_eqI word_unat_eq_iff)
  also have "\<dots> \<longleftrightarrow> unat x div 2 ^ k mod 2 ^ n = unat c mod 2 ^ n"
    by (simp only: unsigned_take_bit_eq) (simp only: take_bit_eq_mod unat_drop_bit)
  finally show ?thesis .
qed

lemma thumb_masks:
  fixes x :: u32
  shows "x AND 0xF8000000 = 0xE8000000 \<longleftrightarrow> unat x div 2 ^ 27 = 29"
    "x AND 0xF0000000 = 0xF0000000 \<longleftrightarrow> unat x div 2 ^ 28 = 15"
    "x AND 0xF800 = 0xE800 \<longleftrightarrow> unat x div 2 ^ 11 mod 32 = 29"
    "x AND 0xF000 = 0xF000 \<longleftrightarrow> unat x div 2 ^ 12 mod 16 = 15"
    "x AND 0xFFFF0000 = 0 \<longleftrightarrow> unat x div 2 ^ 16 = 0"
proof -
  have m: "(0xF8000000 :: u32) = push_bit 27 (mask 5)" "(0xF0000000 :: u32) = push_bit 28 (mask 4)"
    "(0xF800 :: u32) = push_bit 11 (mask 5)" "(0xF000 :: u32) = push_bit 12 (mask 4)"
    "(0xFFFF0000 :: u32) = push_bit 16 (mask 16)"
    "(0xE8000000 :: u32) = push_bit 27 29 AND push_bit 27 (mask 5)"
    "(0xF0000000 :: u32) = push_bit 28 15 AND push_bit 28 (mask 4)"
    "(0xE800 :: u32) = push_bit 11 29 AND push_bit 11 (mask 5)"
    "(0xF000 :: u32) = push_bit 12 15 AND push_bit 12 (mask 4)"
    "(0 :: u32) = push_bit 16 0 AND push_bit 16 (mask 16)"
    by (simp_all add: mask_eq_exp_minus_1)
  have lt: "unat x < 2 ^ 32" using unat_less_pow [of x] by simp
  show "x AND 0xF8000000 = 0xE8000000 \<longleftrightarrow> unat x div 2 ^ 27 = 29"
    using high_bits_test [of 27 5 x 29] lt unfolding m(1,6) [symmetric] by (simp add: div_less_iff_less_mult)
  show "x AND 0xF0000000 = 0xF0000000 \<longleftrightarrow> unat x div 2 ^ 28 = 15"
    using high_bits_test [of 28 4 x 15] lt unfolding m(7) [symmetric] m(2) [symmetric]
    by (simp add: div_less_iff_less_mult)
  show "x AND 0xF800 = 0xE800 \<longleftrightarrow> unat x div 2 ^ 11 mod 32 = 29"
    using high_bits_test [of 11 5 x 29] unfolding m(3,8) [symmetric] by simp
  show "x AND 0xF000 = 0xF000 \<longleftrightarrow> unat x div 2 ^ 12 mod 16 = 15"
    using high_bits_test [of 12 4 x 15] unfolding m(9) [symmetric] m(4) [symmetric] by simp
  show "x AND 0xFFFF0000 = 0 \<longleftrightarrow> unat x div 2 ^ 16 = 0"
    using high_bits_test [of 16 16 x 0] lt unfolding m(5) [symmetric] by (simp add: div_less_iff_less_mult)
qed

lemma compose_halves:
  "opcode_thumb32_compose (opcode_thumb32_first x) (opcode_thumb32_second x) = x"
  "opcode_thumb32_first (opcode_thumb32_compose a b) = a"
  "opcode_thumb32_second (opcode_thumb32_compose a b) = b"
  "asm_opcode_thumb32_compose (asm_opcode_thumb32_first x) (asm_opcode_thumb32_second x) = x"
  by (auto intro!: bit_word_eqI simp: opcode_thumb32_compose_def opcode_thumb32_first_def
      opcode_thumb32_second_def asm_opcode_thumb32_compose_def asm_opcode_thumb32_first_def
      asm_opcode_thumb32_second_def swab_agree(3) asm_opcode_identity16_def alternate_masks word_bits bit_ucast_iff
      dest: bit_imp_le_length)

lemma unat_compose: "unat (opcode_thumb32_compose a b) = 65536 * unat a + unat b"
proof -
  have "opcode_thumb32_compose a b = push_bit 16 (ucast a) + ucast b"
    unfolding opcode_thumb32_compose_def
    by (rule disjunctive_add [symmetric]) (auto simp: bit_push_bit_iff bit_ucast_iff dest: bit_imp_le_length)
  moreover have "unat a < 65536" "unat b < 65536" using unat_less_pow [of a] unat_less_pow [of b] by simp_all
  moreover have "unat (push_bit 16 (ucast a) :: u32) = 65536 * unat a" "unat (ucast b :: u32) = unat b"
    using calculation by (simp_all add: unat_push_bit unsigned_ucast_eq take_bit_nat_eq_self)
  ultimately show ?thesis by (simp add: unat_add_exact)
qed

lemma div_eq_iff_range:
  fixes x d q :: nat
  assumes "0 < d"
  shows "x div d = q \<longleftrightarrow> q * d \<le> x \<and> x < (q + 1) * d"
proof
  assume "x div d = q"
  then show "q * d \<le> x \<and> x < (q + 1) * d"
    using div_times_less_eq_dividend [of x d] dividend_less_div_times [OF assms, of x]
    by (auto simp: algebra_simps)
next
  assume "q * d \<le> x \<and> x < (q + 1) * d"
  then show "x div d = q" by (intro div_nat_eqI) (simp_all add: algebra_simps)
qed

lemma thumb_ranges:
  "opcode_is_thumb32 x \<longleftrightarrow> 0xE8000000 \<le> x" "opcode_is_thumb16 x \<longleftrightarrow> x < 0xE800"
proof -
  have lt: "unat x < 2 ^ 32" using unat_less_pow [of x] by simp
  have "unat x div 2 ^ 27 = 29 \<longleftrightarrow> 3892314112 \<le> unat x \<and> unat x < 4026531840"
    "unat x div 2 ^ 28 = 15 \<longleftrightarrow> 4026531840 \<le> unat x"
    using lt by (subst div_eq_iff_range; simp)+
  then show "opcode_is_thumb32 x \<longleftrightarrow> 0xE8000000 \<le> x"
    unfolding opcode_is_thumb32_def thumb_masks by (simp add: word_le_nat_alt) linarith
  have "unat x div 2 ^ 11 mod 32 = 29 \<longleftrightarrow> 59392 \<le> unat x \<and> unat x < 61440"
    "unat x div 2 ^ 12 mod 16 = 15 \<longleftrightarrow> 61440 \<le> unat x" if "unat x < 65536"
  proof -
    have "unat x div 2 ^ 11 < 32" "unat x div 2 ^ 12 < 16"
      using that by (simp_all add: div_less_iff_less_mult)
    then show "unat x div 2 ^ 11 mod 32 = 29 \<longleftrightarrow> 59392 \<le> unat x \<and> unat x < 61440"
      "unat x div 2 ^ 12 mod 16 = 15 \<longleftrightarrow> 61440 \<le> unat x"
      using that by (simp only: mod_less, subst div_eq_iff_range; simp)+
  qed
  moreover have "unat x div 2 ^ 16 = 0 \<longleftrightarrow> unat x < 65536" by (simp add: div_eq_0_iff)
  ultimately show "opcode_is_thumb16 x \<longleftrightarrow> x < 0xE800"
    unfolding opcode_is_thumb16_def thumb_masks by (auto simp: word_less_nat_alt)
qed

text \<open>
  The classes of Thumb instructions are exactly the ranges that the header describes, a
  32-bit instruction is composed of its halves, and whether a halfword starts one depends on
  that halfword alone.
\<close>

theorem thumb_classes:
  "(opcode_is_thumb32 x \<longleftrightarrow> 0xE8000000 \<le> x) \<and> (opcode_is_thumb16 x \<longleftrightarrow> x < 0xE800) \<and>
   opcode_thumb32_compose (opcode_thumb32_first x) (opcode_thumb32_second x) = x \<and>
   opcode_thumb32_first (opcode_thumb32_compose a b) = a \<and> opcode_thumb32_second (opcode_thumb32_compose a b) = b \<and>
   asm_opcode_thumb32_compose (asm_opcode_thumb32_first x) (asm_opcode_thumb32_second x) = x \<and>
   (opcode_is_thumb32 (opcode_thumb32_compose a b) \<longleftrightarrow> \<not> opcode_is_thumb16 (ucast a))"
proof -
  have "unat (ucast a :: u32) = unat a" "unat b < 65536"
    using unat_less_pow [of a] unat_less_pow [of b] by (simp_all add: unsigned_ucast_eq take_bit_nat_eq_self)
  then have "opcode_is_thumb32 (opcode_thumb32_compose a b) \<longleftrightarrow> \<not> opcode_is_thumb16 (ucast a)"
    by (simp add: thumb_ranges word_le_nat_alt word_less_nat_alt unat_compose) linarith
  then show ?thesis by (simp only: thumb_ranges compose_halves)
qed

end
