(* ===== verification/Rounding.thy ===== *)
theory Rounding
  imports Division Align "HOL-Library.Signed_Division"
begin

text \<open>
  The arithmetic macros of \<open>include/linux/kernel.h\<close> (rounding to multiples, division,
  fractions, limits), error pointers (\<open>include/linux/err.h\<close>) and the two logarithms of
  \<open>arch/arm/include/asm/utils.h\<close>.  Macros without a type are modelled at \<open>unsigned int\<close>;
  where the code distinguishes signed operands there is a second definition.  The macro
  \<open>do_div\<close> of the target is an argument.
\<close>

section \<open>Rounding to multiples\<close>

definition udiv :: "u32 \<Rightarrow> u32 \<Rightarrow> ub + u32" where
  "udiv x y = (if y = 0 then Inl DivByZero else Inr (x div y))"

definition DIV_ROUND_UP :: "u32 \<Rightarrow> u32 \<Rightarrow> ub + u32" where
  "DIV_ROUND_UP n d = udiv (n + d - 1) d"

definition roundup :: "u32 \<Rightarrow> u32 \<Rightarrow> ub + u32" where
  "roundup x y = bindE (udiv (x + (y - 1)) y) (\<lambda>q. Inr (q * y))"

definition rounddown :: "u32 \<Rightarrow> u32 \<Rightarrow> ub + u32" where
  "rounddown x y = (if y = 0 then Inl DivByZero else Inr (x - x mod y))"

definition DIV_ROUND_DOWN_ULL :: "(u64 \<Rightarrow> u32 \<Rightarrow> ub + u64 \<times> u32) \<Rightarrow> u64 \<Rightarrow> u32 \<Rightarrow> ub + u64" where
  "DIV_ROUND_DOWN_ULL do_div ll d = bindE (do_div ll d) (\<lambda>(tmp, rem). Inr tmp)"

definition DIV_ROUND_UP_ULL :: "(u64 \<Rightarrow> u32 \<Rightarrow> ub + u64 \<times> u32) \<Rightarrow> u64 \<Rightarrow> u32 \<Rightarrow> ub + u64" where
  "DIV_ROUND_UP_ULL do_div ll d = DIV_ROUND_DOWN_ULL do_div (ll + ucast d - 1) d"

definition DIV_ROUND_UP_SECTOR_T :: "(u64 \<Rightarrow> u32 \<Rightarrow> ub + u64 \<times> u32) \<Rightarrow> u64 \<Rightarrow> u32 \<Rightarrow> ub + u64" where
  "DIV_ROUND_UP_SECTOR_T do_div ll d = DIV_ROUND_UP_ULL do_div ll d"

text \<open>
  The first operand of the choice asks whether a type is unsigned.  For signed operands the
  sum, the difference and the quotient may overflow.
\<close>

definition int_value :: "int \<Rightarrow> ub + int" where
  "int_value v = (if - (2 ^ 31) \<le> v \<and> v < 2 ^ 31 then Inr v else Inl SignedOverflow)"

definition DIV_ROUND_CLOSEST_signed :: "int \<Rightarrow> int \<Rightarrow> ub + int" where
  "DIV_ROUND_CLOSEST_signed x d =
     (if d = 0 then Inl DivByZero
      else bindE (int_value (if 0 < x then x + d sdiv 2 else x - d sdiv 2)) (\<lambda>s. int_value (s sdiv d)))"

definition DIV_ROUND_CLOSEST_unsigned :: "u32 \<Rightarrow> u32 \<Rightarrow> ub + u32" where
  "DIV_ROUND_CLOSEST_unsigned x d = udiv (x + d div 2) d"

definition DIV_ROUND_CLOSEST_ULL :: "(u64 \<Rightarrow> u32 \<Rightarrow> ub + u64 \<times> u32) \<Rightarrow> u64 \<Rightarrow> u32 \<Rightarrow> ub + u64" where
  "DIV_ROUND_CLOSEST_ULL do_div x d =
     bindE (do_div (x + ucast (d div 2)) d) (\<lambda>(tmp, rem). Inr tmp)"

definition mult_frac :: "u32 \<Rightarrow> u32 \<Rightarrow> u32 \<Rightarrow> ub + u32" where
  "mult_frac x numer denom =
     (if denom = 0 then Inl DivByZero
      else let quot = x div denom; rem = x mod denom
           in Inr (quot * numer + rem * numer div denom))"

section \<open>Limits\<close>

definition upper_32_bits :: "u64 \<Rightarrow> u32" where
  "upper_32_bits n = ucast (drop_bit 16 (drop_bit 16 n))"

definition lower_32_bits :: "u64 \<Rightarrow> u32" where
  "lower_32_bits n = ucast n"

definition abs_int :: "int \<Rightarrow> ub + int" where
  "abs_int x = int_value (if x < 0 then - x else x)"

definition abs64 :: "int \<Rightarrow> ub + int" where
  "abs64 x =
     (let r = (if x < 0 then - x else x)
      in if - (2 ^ 63) \<le> r \<and> r < 2 ^ 63 then Inr r else Inl SignedOverflow)"

definition c_min :: "'a::linorder \<Rightarrow> 'a \<Rightarrow> 'a" where
  "c_min x y = (if x < y then x else y)"

definition c_max :: "'a::linorder \<Rightarrow> 'a \<Rightarrow> 'a" where
  "c_max x y = (if y < x then x else y)"

definition min3 :: "'a::linorder \<Rightarrow> 'a \<Rightarrow> 'a \<Rightarrow> 'a" where
  "min3 x y z = c_min (c_min x y) z"

definition max3 :: "'a::linorder \<Rightarrow> 'a \<Rightarrow> 'a \<Rightarrow> 'a" where
  "max3 x y z = c_max (c_max x y) z"

definition min_not_zero :: "'a::len word \<Rightarrow> 'a word \<Rightarrow> 'a word" where
  "min_not_zero x y = (if x = 0 then y else if y = 0 then x else c_min x y)"

definition clamp :: "'a::linorder \<Rightarrow> 'a \<Rightarrow> 'a \<Rightarrow> 'a" where
  "clamp val lo hi = c_min (c_max val lo) hi"

text \<open>\<open>conv\<close> is the conversion to the type that the macro names.\<close>

definition min_t :: "('b \<Rightarrow> 'a::linorder) \<Rightarrow> 'b \<Rightarrow> 'b \<Rightarrow> 'a" where
  "min_t conv x y = (let min1 = conv x; min2 = conv y in if min1 < min2 then min1 else min2)"

definition max_t :: "('b \<Rightarrow> 'a::linorder) \<Rightarrow> 'b \<Rightarrow> 'b \<Rightarrow> 'a" where
  "max_t conv x y = (let max1 = conv x; max2 = conv y in if max2 < max1 then max1 else max2)"

definition clamp_t :: "('b \<Rightarrow> 'a::linorder) \<Rightarrow> 'b \<Rightarrow> 'b \<Rightarrow> 'b \<Rightarrow> 'a" where
  "clamp_t conv val lo hi = min_t (\<lambda>v. v) (max_t conv val lo) (conv hi)"

definition swap_values :: "'a \<times> 'a \<Rightarrow> 'a \<times> 'a" where
  "swap_values = (\<lambda>(a, b). let tmp = a; a = b; b = tmp in (a, b))"

definition container_of :: "u32 \<Rightarrow> u32 \<Rightarrow> u32" where
  "container_of ptr off = ptr - off"

definition REPEAT_BYTE :: "u32 \<Rightarrow> u32" where
  "REPEAT_BYTE x = (NOT 0 div 0xff) * x"

section \<open>Error pointers\<close>

definition MAX_ERRNO :: u32 where "MAX_ERRNO = 4095"

definition IS_ERR_VALUE :: "u32 \<Rightarrow> bool" where
  "IS_ERR_VALUE x \<longleftrightarrow> - MAX_ERRNO \<le> x"

definition ERR_PTR :: "s32 \<Rightarrow> u32" where "ERR_PTR error = error"
definition PTR_ERR :: "u32 \<Rightarrow> s32" where "PTR_ERR ptr = ptr"
definition IS_ERR :: "u32 \<Rightarrow> int" where "IS_ERR ptr = c_bool (IS_ERR_VALUE ptr)"
definition IS_ERR_OR_NULL :: "u32 \<Rightarrow> bool" where
  "IS_ERR_OR_NULL ptr \<longleftrightarrow> ptr = 0 \<or> IS_ERR_VALUE ptr"
definition ERR_CAST :: "u32 \<Rightarrow> u32" where "ERR_CAST ptr = ptr"

section \<open>Logarithms\<close>

function log_2_n_loop :: "u32 \<Rightarrow> int \<Rightarrow> int" where
  "log_2_n_loop temp log2n =
     (if temp \<noteq> 0 then log_2_n_loop (drop_bit 1 temp) (log2n + 1) else log2n)"
  by auto
termination
  by (relation "measure (\<lambda>(temp, log2n). unat temp)") (simp_all add: unat_drop_bit unat_gt_0)

declare log_2_n_loop.simps [simp del]

definition log_2_n_round_up :: "u32 \<Rightarrow> int" where
  "log_2_n_round_up n =
     (let log2n = log_2_n_loop n (- 1)
      in if n AND (n - 1) \<noteq> 0 then log2n + 1 else log2n)"

definition log_2_n_round_down :: "u32 \<Rightarrow> int" where
  "log_2_n_round_down n = log_2_n_loop n (- 1)"

section \<open>Properties\<close>

lemma unat_pred_sum:
  fixes n d :: "'a::len word"
  assumes "d \<noteq> 0" "unat n + unat d \<le> 2 ^ LENGTH('a)"
  shows "unat (n + d - 1) = unat n + unat d - 1" "n + (d - 1) = n + d - 1"
proof -
  have d: "0 < unat d" using assms(1) by (simp add: unat_gt_0)
  have "unat (d - 1) = unat d - 1" using unat_sub_exact [of 1 d] d by (simp add: word_le_nat_alt)
  then have "unat (n + (d - 1)) = unat n + unat d - 1"
    using assms(2) d by (subst unat_add_exact) simp_all
  moreover show "n + (d - 1) = n + d - 1" by simp
  ultimately show "unat (n + d - 1) = unat n + unat d - 1" by simp
qed

lemma ceil_least:
  fixes n d k :: nat
  assumes "0 < d"
  shows "n \<le> k * d \<longleftrightarrow> (n + d - 1) div d \<le> k"
proof -
  have "(n + d - 1) div d \<le> k \<longleftrightarrow> n + d - 1 < (k + 1) * d"
    using div_less_iff_less_mult [OF assms, of "n + d - 1" "k + 1"] by (simp add: less_Suc_eq_le)
  then show ?thesis using assms by auto
qed

lemma unat_numeral_2: "unat (2 :: u32) = 2"
  by simp

lemma unat_half: "unat ((d :: u32) div 2) = unat d div 2"
  by (simp only: unat_div_distrib unat_numeral_2)

lemma unat_floor:
  fixes n d :: u32
  shows "unat (n - n mod d) = unat n div unat d * unat d"
proof -
  have "n mod d \<le> n" by (simp add: word_le_nat_alt unat_mod_distrib)
  then have "unat (n - n mod d) = unat n - unat n mod unat d" by (simp only: unat_sub_exact unat_mod_distrib)
  also have "\<dots> = unat n div unat d * unat d" by (rule minus_mod_eq_div_mult)
  finally show ?thesis .
qed

context long_division
begin

lemma round_up_long:
  assumes "d \<noteq> 0" "unat ll + unat d \<le> 2 ^ 64"
  shows "\<exists>q. DIV_ROUND_UP_ULL dv ll d = Inr q \<and> unat q = (unat ll + unat d - 1) div unat d"
proof -
  have d: "unat (ucast d :: u64) = unat d" by (rule unat_ucast32)
  have "(ucast d :: u64) \<noteq> 0" using d assms(1) by (metis unat_0 unat_eq_0)
  then have e: "unat (ll + ucast d - 1) = unat ll + unat d - 1"
    using unat_pred_sum(1) [of "ucast d" ll] assms(2) d by simp
  obtain q r where "dv (ll + ucast d - 1) d = Inr (q, r)" "unat q = unat (ll + ucast d - 1) div unat d"
    using quotient_remainder [OF assms(1)] by blast
  then show ?thesis unfolding e by (simp add: DIV_ROUND_UP_ULL_def DIV_ROUND_DOWN_ULL_def)
qed

lemma round_closest_long:
  assumes "d \<noteq> 0" "unat x + unat d div 2 < 2 ^ 64"
  shows "\<exists>q. DIV_ROUND_CLOSEST_ULL dv x d = Inr q \<and> unat q = (unat x + unat d div 2) div unat d"
proof -
  have "unat (ucast (d div 2) :: u64) = unat d div 2" by (simp only: unat_ucast32 unat_half)
  then have e: "unat (x + ucast (d div 2)) = unat x + unat d div 2"
    using unat_add_exact [of x "ucast (d div 2)"] assms(2) by simp
  obtain q r where "dv (x + ucast (d div 2)) d = Inr (q, r)" "unat q = unat (x + ucast (d div 2)) div unat d"
    using quotient_remainder [OF assms(1)] by blast
  then show ?thesis unfolding e by (simp add: DIV_ROUND_CLOSEST_ULL_def)
qed

end

text \<open>
  While the sum with the divisor fits the type, the quotient that is rounded up is
  the least that covers the dividend, for both widths and each \<open>do_div\<close>, and the rounded
  multiples enclose the value.
\<close>

theorem rounding_multiples:
  assumes "target_division dv" "d \<noteq> 0" "unat n + unat d \<le> 2 ^ 32" "unat ll + unat d \<le> 2 ^ 64"
  shows "\<exists>q r s Q. DIV_ROUND_UP n d = Inr q \<and> roundup n d = Inr r \<and> rounddown n d = Inr s \<and>
    DIV_ROUND_UP_ULL dv ll d = Inr Q \<and>
    (\<forall>k. unat n \<le> k * unat d \<longleftrightarrow> unat q \<le> k) \<and> (\<forall>k. unat ll \<le> k * unat d \<longleftrightarrow> unat Q \<le> k) \<and>
    r = q * d \<and> (unat q * unat d < 2 ^ 32 \<longrightarrow> unat n \<le> unat r \<and> unat r < unat n + unat d) \<and>
    unat d dvd unat s \<and> unat s \<le> unat n \<and> unat n < unat s + unat d"
proof -
  have d: "0 < unat d" using assms(2) by (simp add: unat_gt_0)
  obtain Q where Q: "DIV_ROUND_UP_ULL dv ll d = Inr Q" "unat Q = (unat ll + unat d - 1) div unat d"
    using long_division.round_up_long [OF target_long_division [OF assms(1)] assms(2,4)] by blast
  let ?q = "(n + d - 1) div d"
  have sum: "unat (n + d - 1) = unat n + unat d - 1" "n + (d - 1) = n + d - 1"
    using unat_pred_sum [OF assms(2)] assms(3) by simp_all
  then have q: "unat ?q = (unat n + unat d - 1) div unat d" by (simp add: unat_div_distrib)
  have "unat (?q * d) = unat ?q * unat d" if "unat ?q * unat d < 2 ^ 32"
    using that by (simp add: unat_mult_exact)
  then have "unat ?q * unat d < 2 ^ 32 \<longrightarrow> unat n \<le> unat (?q * d) \<and> unat (?q * d) < unat n + unat d"
    using round_up_bounds [OF d, of "unat n"] q by simp
  moreover have "unat n < unat n div unat d * unat d + unat d"
    using dividend_less_div_times [OF d, of "unat n"] by simp
  moreover have "unat n div unat d * unat d \<le> unat n" by simp
  moreover have "DIV_ROUND_UP n d = Inr ?q" "roundup n d = Inr (?q * d)" "rounddown n d = Inr (n - n mod d)"
    using assms(2) by (simp_all only: DIV_ROUND_UP_def roundup_def rounddown_def udiv_def sum(2) if_False bindE_simps)
  moreover have "\<forall>k. unat n \<le> k * unat d \<longleftrightarrow> unat ?q \<le> k" "\<forall>k. unat ll \<le> k * unat d \<longleftrightarrow> unat Q \<le> k"
    unfolding q Q(2) by (rule allI, rule ceil_least [OF d])+
  moreover have "unat d dvd unat (n - n mod d)" unfolding unat_floor by simp
  ultimately show ?thesis using Q(1) unfolding unat_floor [symmetric] by blast
qed

lemma rounding_multiples_witness:
  "\<exists>q. DIV_ROUND_UP 10 3 = Inr q \<and> (\<forall>k. 10 \<le> k * 3 \<longleftrightarrow> unat q \<le> k)"
  using rounding_multiples [of do_div64 3 10 "2 ^ 40"] by (auto simp: target_division_def)

text \<open>Rounding to the closest integer.\<close>

lemma closest_nat:
  fixes x d :: nat
  assumes "0 < d"
  shows "2 * \<bar>int x - int ((x + d div 2) div d) * int d\<bar> \<le> int d"
proof -
  define p h where "p = (x + d div 2) div d * d" and "h = d div 2"
  have "p \<le> x + h" "x + h < p + d" "2 * h \<le> d" "d \<le> 2 * h + 1"
    using div_times_less_eq_dividend [of "x + d div 2" d] dividend_less_div_times [OF assms, of "x + d div 2"]
    unfolding p_def h_def by linarith+
  then have "int p \<le> int x + int h" "int x + int h < int p + int d" "2 * int h \<le> int d"
    "int d \<le> 2 * int h + 1" by linarith+
  then have "2 * (int x - int p) \<le> int d" "2 * (int p - int x) \<le> int d" by presburger+
  then have "2 * \<bar>int x - int p\<bar> \<le> int d" by (simp add: abs_if)
  then show ?thesis by (simp only: p_def of_nat_mult)
qed

lemma nonneg_quotient_le:
  fixes a d :: int
  assumes "0 \<le> a" "0 < d"
  shows "0 \<le> a div d" "a div d \<le> a"
proof -
  show "0 \<le> a div d" using assms by (simp add: pos_imp_zdiv_nonneg_iff)
  have "nat a div nat d \<le> nat a" by (rule div_le_dividend)
  then show "a div d \<le> a" using assms by (simp add: nat_div_distrib [symmetric])
qed

lemma closest_signed:
  assumes "0 < d" "\<bar>x\<bar> + d div 2 < 2 ^ 31"
  shows "DIV_ROUND_CLOSEST_signed x d =
    Inr (if 0 < x then int ((nat x + nat d div 2) div nat d) else - int ((nat (- x) + nat d div 2) div nat d))"
proof -
  have h: "d sdiv 2 = d div 2" using assms(1) by (simp add: signed_divide_int_def)
  define y where "y = \<bar>x\<bar> + d div 2"
  have y: "0 \<le> y" "y < 2 ^ 31" using assms by (simp_all add: y_def)
  have q: "0 \<le> y div d" "y div d < 2 ^ 31"
    using nonneg_quotient_le [OF y(1) assms(1)] y(2) by linarith+
  have n: "int ((nat \<bar>x\<bar> + nat d div 2) div nat d) = y div d"
    using assms(1) by (simp add: y_def zdiv_int)
  show ?thesis
  proof (cases "0 < x")
    case True
    then have "x + d sdiv 2 = y" "y sdiv d = y div d" "nat \<bar>x\<bar> = nat x"
      using h y(1) assms(1) by (simp_all add: y_def signed_divide_int_def sgn_if)
    then show ?thesis
      using True n y q assms(1) by (simp add: DIV_ROUND_CLOSEST_signed_def int_value_def)
  next
    case False
    then have "x - d sdiv 2 = - y" "(- y) sdiv d = - (y div d)" "nat \<bar>x\<bar> = nat (- x)"
      using h y(1) assms(1) by (simp_all add: y_def signed_divide_int_def sgn_if)
    then show ?thesis
      using False n y q assms(1) by (simp add: DIV_ROUND_CLOSEST_signed_def int_value_def)
  qed
qed

lemma closest_signed_symmetric:
  assumes "0 < d" "\<bar>x\<bar> + d div 2 < 2 ^ 31"
  shows "\<exists>q. DIV_ROUND_CLOSEST_signed x d = Inr q \<and> DIV_ROUND_CLOSEST_signed (- x) d = Inr (- q) \<and>
    2 * \<bar>x - q * d\<bar> \<le> d"
proof -
  define k where "k = int ((nat \<bar>x\<bar> + nat d div 2) div nat d)"
  have k: "2 * \<bar>\<bar>x\<bar> - k * d\<bar> \<le> d"
    using closest_nat [of "nat d" "nat \<bar>x\<bar>"] assms(1) by (simp add: k_def)
  note c = closest_signed [OF assms] closest_signed [OF assms(1), of "- x"]
  consider "0 < x" | "x = 0" | "x < 0" by linarith
  then show ?thesis
  proof cases
    case 1
    then have "DIV_ROUND_CLOSEST_signed x d = Inr k" "DIV_ROUND_CLOSEST_signed (- x) d = Inr (- k)"
      using c assms(2) by (simp_all add: k_def)
    moreover have "2 * \<bar>x - k * d\<bar> \<le> d" using k 1 by simp
    ultimately show ?thesis by blast
  next
    case 2
    have "nat d div 2 < nat d" using assms(1) by simp
    then have "(0 + nat d div 2) div nat d = 0" by simp
    then show ?thesis using c(1) 2 assms(1) by simp
  next
    case 3
    then have "DIV_ROUND_CLOSEST_signed x d = Inr (- k)" "DIV_ROUND_CLOSEST_signed (- x) d = Inr k"
      using c assms(2) by (simp_all add: k_def)
    moreover have "x - (- k) * d = - (\<bar>x\<bar> - k * d)" using 3 by simp
    then have "\<bar>x - (- k) * d\<bar> = \<bar>\<bar>x\<bar> - k * d\<bar>" by (simp only: abs_minus_cancel)
    ultimately show ?thesis using k by (intro exI [of _ "- k"]) simp
  qed
qed

text \<open>
  While nothing overflows, \<open>DIV_ROUND_CLOSEST\<close> of a positive divisor is at most half a
  divisor away from the dividend, for signed and unsigned types and the 64-bit variant, and
  rounds negative dividends as their absolute values.
\<close>

theorem round_closest_spec:
  assumes "target_division dv" "d \<noteq> 0"
  shows "(0 < D \<and> \<bar>x\<bar> + D div 2 < 2 ^ 31 \<longrightarrow>
      (\<exists>q. DIV_ROUND_CLOSEST_signed x D = Inr q \<and> DIV_ROUND_CLOSEST_signed (- x) D = Inr (- q) \<and>
        2 * \<bar>x - q * D\<bar> \<le> D)) \<and>
    (unat y + unat d div 2 < 2 ^ 32 \<longrightarrow>
      (\<exists>q. DIV_ROUND_CLOSEST_unsigned y d = Inr q \<and>
        2 * \<bar>int (unat y) - int (unat q) * int (unat d)\<bar> \<le> int (unat d))) \<and>
    (unat z + unat d div 2 < 2 ^ 64 \<longrightarrow>
      (\<exists>q. DIV_ROUND_CLOSEST_ULL dv z d = Inr q \<and>
        2 * \<bar>int (unat z) - int (unat q) * int (unat d)\<bar> \<le> int (unat d)))"
proof (intro conjI impI)
  assume "0 < D \<and> \<bar>x\<bar> + D div 2 < 2 ^ 31"
  then show "\<exists>q. DIV_ROUND_CLOSEST_signed x D = Inr q \<and> DIV_ROUND_CLOSEST_signed (- x) D = Inr (- q) \<and>
      2 * \<bar>x - q * D\<bar> \<le> D" using closest_signed_symmetric by blast
next
  have d: "0 < unat d" using assms(2) by (simp add: unat_gt_0)
  assume "unat y + unat d div 2 < 2 ^ 32"
  then have "unat ((y + d div 2) div d) = (unat y + unat d div 2) div unat d"
    by (simp only: unat_div_distrib unat_half) (simp add: unat_add_exact unat_half)
  then show "\<exists>q. DIV_ROUND_CLOSEST_unsigned y d = Inr q \<and>
      2 * \<bar>int (unat y) - int (unat q) * int (unat d)\<bar> \<le> int (unat d)"
    using closest_nat [OF d, of "unat y"] assms(2) unfolding DIV_ROUND_CLOSEST_unsigned_def udiv_def
    by (metis (no_types))
next
  have d: "0 < unat d" using assms(2) by (simp add: unat_gt_0)
  assume "unat z + unat d div 2 < 2 ^ 64"
  then show "\<exists>q. DIV_ROUND_CLOSEST_ULL dv z d = Inr q \<and>
      2 * \<bar>int (unat z) - int (unat q) * int (unat d)\<bar> \<le> int (unat d)"
    using long_division.round_closest_long [OF target_long_division [OF assms(1)] assms(2)]
      closest_nat [OF d, of "unat z"] by metis
qed

text \<open>
  \<open>mult_frac\<close> is the exact fraction, rounded down, when the result and the product of
  the remainder fit a word, also where the product of the two factors does not.
\<close>

theorem mult_frac_spec:
  assumes "denom \<noteq> 0" "unat (x mod denom) * unat numer < 2 ^ 32"
    and "unat x * unat numer div unat denom < 2 ^ 32"
  shows "\<exists>r. mult_frac x numer denom = Inr r \<and> unat r = unat x * unat numer div unat denom"
proof -
  let ?X = "unat x" and ?N = "unat numer" and ?D = "unat denom"
  have D: "0 < ?D" using assms(1) by (simp add: unat_gt_0)
  have "?X * ?N = (?X div ?D * ?D + ?X mod ?D) * ?N" by (simp only: div_mult_mod_eq)
  also have "\<dots> = ?X mod ?D * ?N + ?D * (?X div ?D * ?N)"
    by (simp only: distrib_right distrib_left ac_simps)
  finally have e: "?X * ?N div ?D = ?X div ?D * ?N + ?X mod ?D * ?N div ?D"
    using D by (simp only: div_mult_self2 add.commute)
  have q: "unat (x div denom) = ?X div ?D" "unat (x mod denom) = ?X mod ?D" by (simp_all add: unat_div_distrib unat_mod_distrib)
  have "unat (x div denom * numer) = ?X div ?D * ?N"
    using assms(3) e by (subst unat_mult_exact) (simp_all add: q)
  moreover have "unat (x mod denom * numer div denom) = ?X mod ?D * ?N div ?D"
    using assms(2) by (simp add: unat_div_distrib unat_mult_exact q)
  ultimately have "unat (x div denom * numer + x mod denom * numer div denom) = ?X * ?N div ?D"
    using assms(3) e by (subst unat_add_exact) simp_all
  then show ?thesis using assms(1) by (simp add: mult_frac_def Let_def)
qed

lemma mult_frac_spec_witness:
  "\<exists>r. mult_frac 3000000000 7 10 = Inr r \<and> unat r = 2100000000"
  using mult_frac_spec [of 10 3000000000 7] by simp

section \<open>Logarithms and error pointers\<close>

lemma log_2_n_loop_0 [simp]: "log_2_n_loop 0 k = k"
  by (subst log_2_n_loop.simps) simp

lemma log_2_n_loop_value:
  "2 ^ m \<le> unat temp \<Longrightarrow> unat temp < 2 ^ Suc m \<Longrightarrow> log_2_n_loop temp k = k + int m + 1"
proof (induction m arbitrary: temp k)
  case 0
  then have "temp = 1" by (metis One_nat_def le_antisym less_Suc_eq_le one_add_one plus_1_eq_Suc power_0 power_one_right unat_1 word_unat_eq_iff)
  then show ?case by (subst log_2_n_loop.simps) simp
next
  case (Suc m)
  have "temp \<noteq> 0" using Suc.prems(1) by (metis le_zero_eq power_not_zero unat_0 zero_neq_numeral)
  moreover have "2 ^ m \<le> unat (drop_bit 1 temp)" "unat (drop_bit 1 temp) < 2 ^ Suc m"
    using Suc.prems unfolding unat_drop_bit by (simp_all add: less_mult_imp_div_less)
  ultimately show ?case using Suc.IH [of "drop_bit 1 temp" "k + 1"] by (subst log_2_n_loop.simps) simp
qed

text \<open>
  For a positive argument the two functions are the binary logarithm rounded up and
  down; for 0 both return -1.
\<close>

theorem log_2_n_spec:
  "(n \<noteq> 0 \<longrightarrow> (\<exists>m. log_2_n_round_down n = int m \<and> 2 ^ m \<le> unat n \<and> unat n < 2 ^ Suc m)) \<and>
   (n \<noteq> 0 \<longrightarrow> (\<exists>m. log_2_n_round_up n = int m \<and> unat n \<le> 2 ^ m \<and> (m = 0 \<or> 2 ^ (m - 1) < unat n))) \<and>
   log_2_n_round_down 0 = - 1 \<and> log_2_n_round_up 0 = - 1"
proof (intro conjI impI)
  assume n: "n \<noteq> 0"
  obtain m where "last_bit n m" using last_bit_exists [OF n] by blast
  note m = last_bit_bounds [OF this]
  then have down: "log_2_n_loop n (- 1) = int m" using log_2_n_loop_value [of m n "- 1"] by simp
  then show "\<exists>m. log_2_n_round_down n = int m \<and> 2 ^ m \<le> unat n \<and> unat n < 2 ^ Suc m"
    using m unfolding log_2_n_round_down_def by blast
  show "\<exists>m. log_2_n_round_up n = int m \<and> unat n \<le> 2 ^ m \<and> (m = 0 \<or> 2 ^ (m - 1) < unat n)"
  proof (cases "n AND (n - 1) = 0")
    case True
    then obtain k where k: "unat n = 2 ^ k" using n is_power_of_2_iff [of n] by (auto simp: is_power_of_2_def)
    then have "(2 :: nat) ^ m \<le> 2 ^ k" "(2 :: nat) ^ k < 2 ^ Suc m" using m by simp_all
    then have "k = m" using power_le_imp_le_exp [of 2 m k] power_less_imp_less_exp [of "2 :: nat" k "Suc m"] by simp
    then show ?thesis
      using True k down by (intro exI [of _ m]) (cases m; simp add: log_2_n_round_up_def)
  next
    case False
    then have "unat n \<noteq> 2 ^ m"
      using n is_power_of_2_iff [of n] bit_imp_le_length [of n m] \<open>last_bit n m\<close>
      by (auto simp: is_power_of_2_def last_bit_def)
    then show ?thesis
      using False m down by (intro exI [of _ "Suc m"]) (simp add: log_2_n_round_up_def)
  qed
qed (simp_all add: log_2_n_round_down_def log_2_n_round_up_def)

lemma log_2_n_spec_witness:
  "\<exists>m. log_2_n_round_up 9 = int m \<and> 9 \<le> (2 :: nat) ^ m \<and> (m = 0 \<or> 2 ^ (m - 1) < (9 :: nat))"
  using log_2_n_spec [of 9] by simp

text \<open>
  An error code between 1 and 4095, turned into a pointer, is recognised and read back, and
  no aligned address below the last page is taken for one.
\<close>

theorem err_ptr_round_trip:
  "(1 \<le> e \<and> e \<le> 4095 \<longrightarrow> IS_ERR (ERR_PTR (- of_nat e)) = 1 \<and> sint (PTR_ERR (ERR_CAST (ERR_PTR (- of_nat e)))) = - int e) \<and>
   (unat p < 2 ^ 32 - 4095 \<longrightarrow> IS_ERR p = 0 \<and> (IS_ERR_OR_NULL p \<longleftrightarrow> p = 0))"
proof (intro conjI impI)
  have m: "unat (- MAX_ERRNO) = 2 ^ 32 - 4095" by (simp add: MAX_ERRNO_def)
  show "IS_ERR p = 0" "IS_ERR_OR_NULL p \<longleftrightarrow> p = 0" if "unat p < 2 ^ 32 - 4095"
    using that by (simp_all add: IS_ERR_def IS_ERR_OR_NULL_def IS_ERR_VALUE_def word_le_nat_alt m)
  assume e: "1 \<le> e \<and> e \<le> 4095"
  have "of_nat (2 ^ 32 - e) + of_nat e = (of_nat (2 ^ 32) :: u32)"
    unfolding of_nat_add [symmetric] using e by simp
  also have "\<dots> = 0" by simp
  finally have "- of_nat e = (of_nat (2 ^ 32 - e) :: u32)" by (metis add.commute neg_eq_iff_add_eq_0)
  moreover have "unat (of_nat (2 ^ 32 - e) :: u32) = 2 ^ 32 - e"
    unfolding unat_of_nat using e by (intro mod_less) simp
  ultimately have "unat (- of_nat e :: u32) = 2 ^ 32 - e" by (simp only:)
  then show "IS_ERR (ERR_PTR (- of_nat e)) = 1"
    using e by (simp add: IS_ERR_def IS_ERR_VALUE_def ERR_PTR_def word_le_nat_alt m) linarith
  have "sint (- of_nat e :: u32) = sint (of_int (- int e) :: u32)" by simp
  also have "\<dots> = signed_take_bit 31 (- int e)" unfolding signed_of_int by simp
  also have "\<dots> = - int e" using e by (intro signed_take_bit_int_eq_self) simp_all
  finally show "sint (PTR_ERR (ERR_CAST (ERR_PTR (- of_nat e)))) = - int e"
    by (simp add: PTR_ERR_def ERR_CAST_def ERR_PTR_def)
qed

lemma err_ptr_round_trip_witness:
  "IS_ERR (ERR_PTR (- of_nat 22)) = 1 \<and> sint (PTR_ERR (ERR_CAST (ERR_PTR (- of_nat 22)))) = - 22"
  using err_ptr_round_trip [of 22 0] by simp

end
