(* ===== verification/Malloc.thy ===== *)
theory Malloc
  imports Unaligned
begin

text \<open>
  The macros with which the allocator clears and copies chunks (\<open>include/malloc.h\<close>), in both
  configurations: unrolled stores for small chunks with the library's functions for large
  ones, and Duff's device.  \<open>INTERNAL_SIZE_T\<close> is \<open>size_t\<close>, 32 bits.  \<open>memset\<close> and
  \<open>memcpy\<close> are those of the standard library; copying overlapping objects is undefined.
\<close>

section \<open>The library's functions\<close>

definition memset :: "nat \<Rightarrow> u8 \<Rightarrow> nat \<Rightarrow> bytemem \<Rightarrow> bytemem" where
  "memset p c n m = poke (replicate n c) p m"

definition overlap :: "nat \<Rightarrow> nat \<Rightarrow> nat \<Rightarrow> bool" where
  "overlap p q n \<longleftrightarrow> n \<noteq> 0 \<and> p < q + n \<and> q < p + n"

definition copy_object :: "nat \<Rightarrow> nat \<Rightarrow> nat \<Rightarrow> bytemem \<Rightarrow> ub + bytemem" where
  "copy_object dest src n m = (if overlap dest src n then Inl Overlap else Inr (poke (window m src n) dest m))"

section \<open>Unrolled stores\<close>

text \<open>The statement \<open>*mz++ = 0\<close> on the pointer and memory, and \<open>*mcdst++ = *mcsrc++\<close> on both pointers and memory.\<close>

definition zero_word :: "byte_order \<Rightarrow> nat \<times> bytemem \<Rightarrow> nat \<times> bytemem" where
  "zero_word ord = (\<lambda>(mz, m). (mz + 4, native_store ord 4 (0 :: u32) mz m))"

definition copy_word :: "byte_order \<Rightarrow> nat \<times> nat \<times> bytemem \<Rightarrow> nat \<times> nat \<times> bytemem" where
  "copy_word ord = (\<lambda>(mcdst, mcsrc, m).
     (mcdst + 4, mcsrc + 4, native_store ord 4 (native_load ord 4 m mcsrc :: u32) mcdst m))"

text \<open>The statements of a macro up to the last one.\<close>

definition unrolled :: "('s \<Rightarrow> 's) \<Rightarrow> u32 \<Rightarrow> 's \<Rightarrow> 's" where
  "unrolled stmt sz s =
     (let s1 = (if 5 * 4 \<le> sz
                then let s2 = stmt (stmt s)
                     in if 7 * 4 \<le> sz
                        then let s3 = stmt (stmt s2)
                             in if 9 * 4 \<le> sz then stmt (stmt s3) else s3
                        else s2
                else s)
      in stmt (stmt s1))"

definition MALLOC_ZERO :: "byte_order \<Rightarrow> nat \<Rightarrow> u32 \<Rightarrow> bytemem \<Rightarrow> bytemem" where
  "MALLOC_ZERO ord charp nbytes m =
     (if nbytes \<le> 9 * 4
      then let (mz, m1) = unrolled (zero_word ord) nbytes (charp, m)
           in native_store ord 4 (0 :: u32) mz m1
      else memset charp 0 (unat nbytes) m)"

definition MALLOC_COPY :: "byte_order \<Rightarrow> nat \<Rightarrow> nat \<Rightarrow> u32 \<Rightarrow> bytemem \<Rightarrow> ub + bytemem" where
  "MALLOC_COPY ord dest src nbytes m =
     (if nbytes \<le> 9 * 4
      then let (mcdst, mcsrc, m1) = unrolled (copy_word ord) nbytes (dest, src, m)
           in Inr (native_store ord 4 (native_load ord 4 m1 mcsrc :: u32) mcdst m1)
      else copy_object dest src (unat nbytes) m)"

section \<open>Duff's device\<close>

text \<open>
  Entering the loop at the label \<open>case k\<close> runs the \<open>k\<close> statements from there on, at
  \<open>case 0\<close> all eight of them; then the counter decides about another eight.
\<close>

definition statements_from :: "int \<Rightarrow> nat" where
  "statements_from mctmp = (if mctmp = 0 then 8 else nat mctmp)"

function duff :: "('s \<Rightarrow> 's) \<Rightarrow> int \<Rightarrow> int \<Rightarrow> 's \<Rightarrow> 's" where
  "duff stmt mctmp mcn s =
     (let s1 = (stmt ^^ statements_from mctmp) s
      in if mcn \<le> 0 then s1 else duff stmt 0 (mcn - 1) s1)"
  by pat_completeness auto
termination by (relation "measure (\<lambda>(stmt, mctmp, mcn, s). nat mcn)") auto

declare duff.simps [simp del]

definition duff_count :: "u32 \<Rightarrow> int \<times> int" where
  "duff_count nbytes =
     (let mctmp = uint (nbytes div 4)
      in if mctmp < 8 then (mctmp, 0) else (mctmp mod 8, (mctmp - 1) div 8))"

definition MALLOC_ZERO_duff :: "byte_order \<Rightarrow> nat \<Rightarrow> u32 \<Rightarrow> bytemem \<Rightarrow> bytemem" where
  "MALLOC_ZERO_duff ord charp nbytes m =
     (let (mctmp, mcn) = duff_count nbytes
      in snd (duff (zero_word ord) mctmp mcn (charp, m)))"

definition MALLOC_COPY_duff :: "byte_order \<Rightarrow> nat \<Rightarrow> nat \<Rightarrow> u32 \<Rightarrow> bytemem \<Rightarrow> bytemem" where
  "MALLOC_COPY_duff ord dest src nbytes m =
     (let (mctmp, mcn) = duff_count nbytes
      in snd (snd (duff (copy_word ord) mctmp mcn (dest, src, m))))"

section \<open>How many statements run\<close>

text \<open>The words of a chunk, as each macro counts them.\<close>

definition unrolled_words :: "u32 \<Rightarrow> nat" where
  "unrolled_words sz = 3 + (if 20 \<le> sz then 2 else 0) + (if 28 \<le> sz then 2 else 0) + (if 36 \<le> sz then 2 else 0)"

lemma unrolled_steps: "stmt (unrolled stmt sz s) = (stmt ^^ unrolled_words sz) s"
proof -
  have "(36 :: u32) \<le> sz \<Longrightarrow> 28 \<le> sz" "(28 :: u32) \<le> sz \<Longrightarrow> 20 \<le> sz"
    by (simp_all add: word_le_nat_alt)
  then show ?thesis
    by (simp add: unrolled_def unrolled_words_def Let_def numeral_eq_Suc)
qed

lemma unrolled_words_odd:
  assumes "odd k" "3 \<le> k" "k \<le> 9"
  shows "unrolled_words (of_nat (4 * k)) = k"
proof -
  have "k = 3 \<or> k = 5 \<or> k = 7 \<or> k = 9" using assms by presburger
  then show ?thesis by (elim disjE) (simp_all add: unrolled_words_def)
qed

lemma duff_steps: "duff stmt t (int n) s = (stmt ^^ (statements_from t + 8 * n)) s"
proof (induction n arbitrary: t s)
  case 0
  then show ?case by (simp add: duff.simps [of stmt t])
next
  case (Suc n)
  have "duff stmt t (int (Suc n)) s = (stmt ^^ (8 + 8 * n)) ((stmt ^^ statements_from t) s)"
    using Suc [of 0] by (simp add: duff.simps [of stmt t] Let_def statements_from_def)
  also have "\<dots> = (stmt ^^ (8 + 8 * n + statements_from t)) s"
    by (simp add: funpow_add)
  finally show ?case by (simp add: add.commute add.left_commute)
qed

lemma uint_words: "uint (nbytes div 4 :: u32) = int (unat nbytes div 4)"
proof -
  have "unat (nbytes div 4) = unat nbytes div 4" by (simp add: unat_div)
  then show ?thesis by (metis uint_nat)
qed

lemma duff_count_small:
  assumes "duff_count nbytes = (t, c)" "unat nbytes div 4 < 8"
  shows "t = int (unat nbytes div 4)" "c = 0"
proof -
  have "int (unat nbytes div 4) < 8" using assms(2) by linarith
  then show "t = int (unat nbytes div 4)" "c = 0"
    using assms(1) unfolding duff_count_def uint_words Let_def by (simp_all only: if_True prod.inject)
qed

lemma duff_count_large:
  assumes "duff_count nbytes = (t, c)" "unat nbytes div 4 = Suc v" "\<not> Suc v < 8"
  shows "t = int (Suc v mod 8)" "c = int (v div 8)"
proof -
  have u: "uint (nbytes div 4) = int (Suc v)" by (simp only: uint_words assms(2))
  have "t = int (Suc v) mod 8" "c = (int (Suc v) - 1) div 8"
    using assms(1,3) unfolding duff_count_def u Let_def by simp_all
  then show "t = int (Suc v mod 8)" "c = int (v div 8)" by (simp_all add: zmod_int zdiv_int)
qed

lemma duff_words:
  assumes "duff_count nbytes = (t, c)" "4 \<le> nbytes"
  shows "duff stmt t c s = (stmt ^^ (unat nbytes div 4)) s"
proof -
  have "1 \<le> unat nbytes div 4" using assms(2) by (simp add: word_le_nat_alt)
  then obtain v where v: "unat nbytes div 4 = Suc v" by (cases "unat nbytes div 4") auto
  show ?thesis
  proof (cases "Suc v < 8")
    case True
    note tc = duff_count_small [OF assms(1)]
    have "t = int (Suc v)" "c = int 0" using tc True v by simp_all
    moreover have "statements_from (int (Suc v)) = Suc v" by (simp add: statements_from_def nat_add_distrib)
    ultimately show ?thesis using duff_steps [of stmt t 0 s] by (simp only: v) simp
  next
    case False
    note tc = duff_count_large [OF assms(1) v False]
    have "statements_from t + 8 * (v div 8) = Suc v"
    proof (cases "Suc v mod 8 = 0")
      case True
      then obtain q where "Suc v = 8 * q" by auto
      then obtain q' where "v = 8 * q' + 7" by (cases q) auto
      then show ?thesis using tc by (simp add: statements_from_def)
    next
      case False
      then have "v div 8 = Suc v div 8" by (simp add: div_Suc)
      then show ?thesis using tc False by (simp add: statements_from_def)
    qed
    then show ?thesis using duff_steps [of stmt t "v div 8" s] by (simp only: tc v)
  qed
qed

lemma duff_words_0: "duff_count nbytes = (t, c) \<Longrightarrow> nbytes < 4 \<Longrightarrow> duff stmt t c s = (stmt ^^ 8) s"
proof -
  assume d: "duff_count nbytes = (t, c)" "nbytes < 4"
  have "nbytes div 4 = 0" using d(2) by (simp add: word_less_nat_alt unat_div word_arith_nat_div)
  then show ?thesis using d(1) duff_steps [of stmt 0 0 s] by (simp add: duff_count_def statements_from_def)
qed

section \<open>What the statements store\<close>

lemma poke_nil: "length bs = 0 \<Longrightarrow> poke bs p m = m"
  by (rule ext) (rule poke_frame, simp, arith)

lemma object_bytes_0: "object_bytes ord 4 (0 :: u32) = replicate 4 0"
  by (cases ord) (simp_all add: le_bytes_def byte_def upt_bytes numeral_eq_Suc)

lemma zero_words: "(zero_word ord ^^ k) (p, m) = (p + 4 * k, poke (replicate (4 * k) 0) p m)"
proof (induction k)
  case 0
  show ?case by (simp add: poke_nil)
next
  case (Suc k)
  have "replicate (4 * k) 0 @ replicate 4 0 = replicate (4 * Suc k) (0 :: u8)"
    by (simp only: replicate_add [symmetric]) (simp add: add.commute)
  then show ?case
    using Suc poke_append(2) [of "replicate (4 * k) 0" "replicate 4 0" p m]
    by (simp add: zero_word_def native_store_def object_bytes_0)
qed

text \<open>Copying forwards is right for separate objects, and for a destination below the source.\<close>

definition forward :: "nat \<Rightarrow> nat \<Rightarrow> nat \<Rightarrow> bool" where
  "forward dest src n \<longleftrightarrow> dest \<le> src \<or> src + n \<le> dest"

lemma zero_word_apply: "zero_word ord (p, m) = (p + 4, native_store ord 4 (0 :: u32) p m)"
  by (simp add: zero_word_def)

lemma copy_word_apply:
  "copy_word ord (d, s, m) = (d + 4, s + 4, native_store ord 4 (native_load ord 4 m s :: u32) d m)"
  by (simp add: copy_word_def)

lemma copy_word_poke: "copy_word ord (d, s, m) = (d + 4, s + 4, poke (window m s 4) d m)"
  by (simp add: copy_word_def native_store_def object_bytes_native_load)

lemma window_beside:
  assumes "d + length bs \<le> s \<or> s + n \<le> d"
  shows "window (poke bs d m) s n = window m s n"
  by (rule window_eqI) (use assms in \<open>auto simp: poke_def\<close>)

lemma copy_words:
  "forward d s (4 * k) \<Longrightarrow> (copy_word ord ^^ k) (d, s, m) = (d + 4 * k, s + 4 * k, poke (window m s (4 * k)) d m)"
proof (induction k arbitrary: d s m)
  case 0
  show ?case by (simp add: poke_nil)
next
  case (Suc k)
  let ?m = "poke (window m s 4) d m"
  have f: "forward (d + 4) (s + 4) (4 * k)" and w: "window ?m (s + 4) (4 * k) = window m (s + 4) (4 * k)"
    using Suc.prems by (auto simp: forward_def intro!: window_beside)
  have "(copy_word ord ^^ Suc k) (d, s, m) = (copy_word ord ^^ k) (d + 4, s + 4, ?m)"
    by (simp only: funpow_Suc_right o_apply copy_word_poke)
  also have "\<dots> = (d + 4 + 4 * k, s + 4 + 4 * k, poke (window m (s + 4) (4 * k)) (d + 4) ?m)"
    using Suc.IH [OF f] w by simp
  also have "poke (window m (s + 4) (4 * k)) (d + 4) ?m = poke (window m s (4 + 4 * k)) d m"
    by (simp add: window_append poke_append(2))
  finally show ?case by simp
qed

section \<open>What the macros guarantee\<close>

text \<open>The chunks that the comment above the macros speaks of: an odd number of at least three words.\<close>

definition chunk_size :: "u32 \<Rightarrow> bool" where
  "chunk_size nbytes \<longleftrightarrow> 4 dvd unat nbytes \<and> odd (unat nbytes div 4) \<and> 3 \<le> unat nbytes div 4"

lemma small_chunk:
  assumes "chunk_size nbytes" "nbytes \<le> 9 * 4"
  shows "unrolled_words nbytes = unat nbytes div 4"
proof -
  have "unat nbytes div 4 \<le> 9" using assms(2) by (simp add: word_le_nat_alt)
  moreover have "of_nat (4 * (unat nbytes div 4)) = nbytes" using assms(1) by (simp add: chunk_size_def)
  ultimately show ?thesis using unrolled_words_odd [of "unat nbytes div 4"] assms(1) by (simp add: chunk_size_def)
qed

lemma MALLOC_ZERO_small:
  assumes "nbytes \<le> 9 * 4"
  shows "MALLOC_ZERO ord p nbytes m = poke (replicate (4 * unrolled_words nbytes) 0) p m"
proof -
  obtain q m1 where u: "unrolled (zero_word ord) nbytes (p, m) = (q, m1)" by fastforce
  have "zero_word ord (q, m1) = (p + 4 * unrolled_words nbytes, poke (replicate (4 * unrolled_words nbytes) 0) p m)"
    by (metis u unrolled_steps zero_words)
  then show ?thesis using assms by (simp add: MALLOC_ZERO_def u zero_word_apply)
qed

lemma MALLOC_COPY_small:
  assumes "nbytes \<le> 9 * 4" "forward d s (4 * unrolled_words nbytes)"
  shows "MALLOC_COPY ord d s nbytes m = Inr (poke (window m s (4 * unrolled_words nbytes)) d m)"
proof -
  obtain d1 s1 m1 where u: "unrolled (copy_word ord) nbytes (d, s, m) = (d1, s1, m1)" by (metis prod_cases3)
  have "snd (snd (copy_word ord (d1, s1, m1))) = poke (window m s (4 * unrolled_words nbytes)) d m"
    using copy_words [OF assms(2)] by (metis u unrolled_steps snd_conv)
  then show ?thesis using assms(1) by (simp add: MALLOC_COPY_def u copy_word_apply)
qed

lemma MALLOC_duff_words:
  assumes "4 \<le> nbytes"
  shows "MALLOC_ZERO_duff ord p nbytes m = poke (replicate (4 * (unat nbytes div 4)) 0) p m"
    and "forward d s (4 * (unat nbytes div 4)) \<Longrightarrow>
      MALLOC_COPY_duff ord d s nbytes m = poke (window m s (4 * (unat nbytes div 4))) d m"
proof -
  obtain t c where tc: "duff_count nbytes = (t, c)" by fastforce
  note w = duff_words [OF tc assms]
  show "MALLOC_ZERO_duff ord p nbytes m = poke (replicate (4 * (unat nbytes div 4)) 0) p m"
    by (simp add: MALLOC_ZERO_duff_def tc w zero_words)
  show "forward d s (4 * (unat nbytes div 4)) \<Longrightarrow>
      MALLOC_COPY_duff ord d s nbytes m = poke (window m s (4 * (unat nbytes div 4))) d m"
    by (simp add: MALLOC_COPY_duff_def tc w copy_words)
qed

text \<open>
  C38: for the chunks that the comment allows, the macros of both configurations do the same:
  they clear, and copy between separate objects, exactly the bytes of the chunk.  Where the
  destination lies below the source and overlaps it, Duff's device copies right, and so do the
  unrolled stores; for more than nine words the other configuration hands the overlapping
  objects to \<open>memcpy\<close>, which is undefined.
\<close>

theorem malloc_macros_agree:
  assumes "chunk_size nbytes" "forward d s (unat nbytes)"
  shows "MALLOC_ZERO ord p nbytes m = memset p 0 (unat nbytes) m \<and>
    MALLOC_ZERO_duff ord p nbytes m = memset p 0 (unat nbytes) m \<and>
    MALLOC_COPY_duff ord d s nbytes m = poke (window m s (unat nbytes)) d m \<and>
    MALLOC_COPY ord d s nbytes m =
      (if 9 * 4 < nbytes \<and> overlap d s (unat nbytes) then Inl Overlap
       else Inr (poke (window m s (unat nbytes)) d m))"
proof -
  have n: "4 * (unat nbytes div 4) = unat nbytes" "4 \<le> nbytes"
    using assms(1) by (simp_all add: chunk_size_def word_le_nat_alt) linarith
  have small: "\<not> 9 * 4 < nbytes \<Longrightarrow> nbytes \<le> 9 * 4" by (simp add: not_less)
  have "MALLOC_ZERO ord p nbytes m = memset p 0 (unat nbytes) m"
    using MALLOC_ZERO_small [of nbytes ord p m] small_chunk [OF assms(1)] n(1)
    by (cases "nbytes \<le> 9 * 4") (simp_all add: MALLOC_ZERO_def memset_def)
  moreover have "MALLOC_COPY ord d s nbytes m =
      (if 9 * 4 < nbytes \<and> overlap d s (unat nbytes) then Inl Overlap
       else Inr (poke (window m s (unat nbytes)) d m))"
  proof (cases "nbytes \<le> 9 * 4")
    case True
    then show ?thesis
      using MALLOC_COPY_small [OF True, of d s ord m] small_chunk [OF assms(1) True] n(1) assms(2) by (simp add: not_less)
  next
    case False
    then have "9 * 4 < nbytes" by (simp add: not_le)
    then show ?thesis using False by (simp add: MALLOC_COPY_def copy_object_def)
  qed
  ultimately show ?thesis
    using MALLOC_duff_words [OF n(2)] n(1) assms(2) by (simp add: memset_def)
qed

theorem malloc_macros_agree_witness:
  "MALLOC_COPY LittleEndian 100 104 20 (\<lambda>_. 7) = Inr (MALLOC_COPY_duff LittleEndian 100 104 20 (\<lambda>_. 7)) \<and>
   MALLOC_COPY LittleEndian 100 104 44 (\<lambda>_. 7) = Inl Overlap \<and>
   MALLOC_ZERO LittleEndian 100 20 (\<lambda>_. 7) = MALLOC_ZERO_duff LittleEndian 100 20 (\<lambda>_. 7)"
proof -
  have "chunk_size 20" "chunk_size 44" "forward 100 104 n" for n by (simp_all add: chunk_size_def forward_def)
  from malloc_macros_agree [OF this(1,3), of LittleEndian 100 "\<lambda>_. 7"] malloc_macros_agree [OF this(2,3), of LittleEndian 100 "\<lambda>_. 7"]
  show ?thesis by (simp add: overlap_def)
qed

text \<open>
  outside of that contract bytes beyond the chunk are written: one word makes the unrolled
  macro clear three, and so do two; of four or six words it leaves the last one out; and Duff's
  device takes an empty chunk for one of eight words.
\<close>

theorem malloc_macros_contract:
  "MALLOC_ZERO ord p 4 m = memset p 0 12 m \<and> MALLOC_ZERO ord p 8 m = memset p 0 12 m \<and>
   MALLOC_ZERO ord p 16 m = memset p 0 12 m \<and> MALLOC_ZERO ord p 24 m = memset p 0 20 m \<and>
   MALLOC_ZERO_duff ord p 0 m = memset p 0 32 m \<and> MALLOC_ZERO_duff ord p 3 m = memset p 0 32 m"
proof -
  have "MALLOC_ZERO_duff ord p n m = memset p 0 32 m" if "n < 4" for n
    using duff_words_0 [OF surjective_pairing that, of "zero_word ord" "(p, m)"]
    by (simp add: MALLOC_ZERO_duff_def case_prod_beta zero_words memset_def)
  then show ?thesis by (simp add: MALLOC_ZERO_small unrolled_words_def memset_def)
qed

end
