(* ===== verification/Hexdump.thy ===== *)
theory Hexdump
  imports Prelude
begin

text \<open>
  Character classes (\<open>include/linux/ctype.h\<close>) and hexadecimal text (\<open>include/hexdump.h\<close>).
  The tables \<open>_ctype\<close> and \<open>hex_asc\<close> are declared, but not defined, by the headers: functions on
  their index.  A buffer is the list of what lies between a pointer into it and its end; a
  function that advances its pointer yields the bytes it wrote and the rest of the buffer.
\<close>

section \<open>Character classes\<close>

type_synonym ctype = "u8 \<Rightarrow> u8"

definition CT_U :: u8 where "CT_U = 0x01"
definition CT_L :: u8 where "CT_L = 0x02"
definition CT_D :: u8 where "CT_D = 0x04"
definition CT_C :: u8 where "CT_C = 0x08"
definition CT_P :: u8 where "CT_P = 0x10"
definition CT_S :: u8 where "CT_S = 0x20"
definition CT_X :: u8 where "CT_X = 0x40"
definition CT_SP :: u8 where "CT_SP = 0x80"

definition ismask :: "ctype \<Rightarrow> u8 \<Rightarrow> u8" where
  "ismask ct c = ct c"

definition isalnum :: "ctype \<Rightarrow> u8 \<Rightarrow> bool" where
  "isalnum ct c \<longleftrightarrow> ismask ct c AND (CT_U OR CT_L OR CT_D) \<noteq> 0"

definition isalpha :: "ctype \<Rightarrow> u8 \<Rightarrow> bool" where
  "isalpha ct c \<longleftrightarrow> ismask ct c AND (CT_U OR CT_L) \<noteq> 0"

definition iscntrl :: "ctype \<Rightarrow> u8 \<Rightarrow> bool" where
  "iscntrl ct c \<longleftrightarrow> ismask ct c AND CT_C \<noteq> 0"

definition isdigit :: "ctype \<Rightarrow> u8 \<Rightarrow> bool" where
  "isdigit ct c \<longleftrightarrow> ismask ct c AND CT_D \<noteq> 0"

definition isgraph :: "ctype \<Rightarrow> u8 \<Rightarrow> bool" where
  "isgraph ct c \<longleftrightarrow> ismask ct c AND (CT_P OR CT_U OR CT_L OR CT_D) \<noteq> 0"

definition islower :: "ctype \<Rightarrow> u8 \<Rightarrow> bool" where
  "islower ct c \<longleftrightarrow> ismask ct c AND CT_L \<noteq> 0"

definition isprint :: "ctype \<Rightarrow> u8 \<Rightarrow> bool" where
  "isprint ct c \<longleftrightarrow> ismask ct c AND (CT_P OR CT_U OR CT_L OR CT_D OR CT_SP) \<noteq> 0"

definition ispunct :: "ctype \<Rightarrow> u8 \<Rightarrow> bool" where
  "ispunct ct c \<longleftrightarrow> ismask ct c AND CT_P \<noteq> 0"

definition isspace :: "ctype \<Rightarrow> u8 \<Rightarrow> bool" where
  "isspace ct c \<longleftrightarrow> ismask ct c AND CT_S \<noteq> 0"

definition isupper :: "ctype \<Rightarrow> u8 \<Rightarrow> bool" where
  "isupper ct c \<longleftrightarrow> ismask ct c AND CT_U \<noteq> 0"

definition isxdigit :: "ctype \<Rightarrow> u8 \<Rightarrow> bool" where
  "isxdigit ct c \<longleftrightarrow> ismask ct c AND (CT_D OR CT_X) \<noteq> 0"

definition isblank :: "u8 \<Rightarrow> bool" where
  "isblank c \<longleftrightarrow> c = 0x20 \<or> c = 0x09"

definition isascii :: "u8 \<Rightarrow> bool" where
  "isascii c \<longleftrightarrow> c \<le> 0x7f"

definition toascii :: "u8 \<Rightarrow> u8" where
  "toascii c = c AND 0x7f"

text \<open>The letters differ by 32; the difference is an \<open>int\<close> that the assignment cuts.\<close>

definition tolower :: "ctype \<Rightarrow> u8 \<Rightarrow> u8" where
  "tolower ct c = (if isupper ct c then c - (0x41 - 0x61) else c)"

definition toupper :: "ctype \<Rightarrow> u8 \<Rightarrow> u8" where
  "toupper ct c = (if islower ct c then c - (0x61 - 0x41) else c)"

section \<open>Hexadecimal text\<close>

definition hex_asc_lo :: "(nat \<Rightarrow> u8) \<Rightarrow> u8 \<Rightarrow> u8" where
  "hex_asc_lo hex_asc x = hex_asc (unat (x AND 0x0f))"

definition hex_asc_hi :: "(nat \<Rightarrow> u8) \<Rightarrow> u8 \<Rightarrow> u8" where
  "hex_asc_hi hex_asc x = hex_asc (unat (drop_bit 4 (x AND 0xf0)))"

fun hex_byte_pack :: "(nat \<Rightarrow> u8) \<Rightarrow> u8 list \<Rightarrow> u8 \<Rightarrow> ub + (u8 list \<times> u8 list)" where
  "hex_byte_pack hex_asc (b0 # b1 # buf) byt = Inr ([hex_asc_hi hex_asc byt, hex_asc_lo hex_asc byt], buf)"
| "hex_byte_pack hex_asc buf byt = Inl OutOfBounds"

definition hex_to_bin :: "ctype \<Rightarrow> u8 \<Rightarrow> int" where
  "hex_to_bin ct ch =
     (if 0x30 \<le> ch \<and> ch \<le> 0x39 then uint ch - 0x30
      else let ch = tolower ct ch
           in if 0x61 \<le> ch \<and> ch \<le> 0x66 then uint ch - 0x61 + 10 else - 1)"

text \<open>The result, what was written, and the rest of the destination.\<close>

fun hex2bin :: "ctype \<Rightarrow> u8 list \<Rightarrow> u8 list \<Rightarrow> nat \<Rightarrow> ub + (int \<times> u8 list \<times> u8 list)" where
  "hex2bin ct dst src 0 = Inr (0, [], dst)"
| "hex2bin ct dst (c0 # c1 # src) (Suc count) =
     (let hi = hex_to_bin ct c0; lo = hex_to_bin ct c1
      in if hi < 0 \<or> lo < 0 then Inr (- 1, [], dst)
         else case dst of
             [] \<Rightarrow> Inl OutOfBounds
           | d # dst \<Rightarrow> bindE (hex2bin ct dst src count) (\<lambda>(r, bs, rest).
               Inr (r, of_int (push_bit 4 hi OR lo) # bs, rest)))"
| "hex2bin ct dst src (Suc count) = Inl OutOfBounds"

fun bin2hex :: "(nat \<Rightarrow> u8) \<Rightarrow> u8 list \<Rightarrow> u8 list \<Rightarrow> nat \<Rightarrow> ub + (u8 list \<times> u8 list)" where
  "bin2hex hex_asc dst src 0 = Inr ([], dst)"
| "bin2hex hex_asc dst (b # src) (Suc count) =
     bindE (hex_byte_pack hex_asc dst b) (\<lambda>(cs, dst).
       bindE (bin2hex hex_asc dst src count) (\<lambda>(txt, rest). Inr (cs @ txt, rest)))"
| "bin2hex hex_asc dst [] (Suc count) = Inl OutOfBounds"

section \<open>What the tables hold\<close>

definition ascii_letters :: "ctype \<Rightarrow> bool" where
  "ascii_letters ct \<longleftrightarrow> (\<forall>c \<le> 0x7f. isupper ct c = (0x41 \<le> c \<and> c \<le> 0x5a))"

definition ascii_digits :: "(nat \<Rightarrow> u8) \<Rightarrow> bool" where
  "ascii_digits hex_asc \<longleftrightarrow> (\<forall>d<16. hex_asc d = (if d < 10 then 0x30 + of_nat d else 0x61 + of_nat (d - 10)))"

lemma hex_digit:
  assumes "ascii_letters ct" "ascii_digits hex_asc" "d < 16"
  shows "hex_to_bin ct (hex_asc d) = int d"
proof -
  have d: "d \<in> set [0..<16]" using assms(3) by simp
  have "\<not> isupper ct c" if "0x61 \<le> c" "c \<le> 0x66" for c
    using assms(1) that by (auto simp: ascii_letters_def word_le_nat_alt)
  then show ?thesis
    using d assms(2) by (auto simp: upt_rec ascii_digits_def hex_to_bin_def tolower_def Let_def)
qed

lemma unjoin_byte:
  fixes b :: u8
  shows "of_int (push_bit 4 (uint (drop_bit 4 (b AND 0xf0))) OR uint (b AND 0x0f)) = b"
proof -
  have "of_int (push_bit 4 (uint (drop_bit 4 (b AND 0xf0))) OR uint (b AND 0x0f)) =
      push_bit 4 (drop_bit 4 (b AND 0xf0)) OR (b AND 0x0f)"
    by (simp add: of_int_or_eq of_int_push_bit word_of_int_uint)
  also have "\<dots> = b"
  proof (rule bit_word_eqI)
    fix i
    assume "i < LENGTH(8)"
    then have "i = 0 \<or> i = 1 \<or> i = 2 \<or> i = 3 \<or> i = 4 \<or> i = 5 \<or> i = 6 \<or> i = 7" by simp arith
    then show "bit (push_bit 4 (drop_bit 4 (b AND 0xf0)) OR (b AND 0x0f)) i = bit b i"
      by (elim disjE) (simp_all add: bit_or_iff bit_and_iff bit_push_bit_iff bit_drop_bit_eq)
  qed
  finally show ?thesis .
qed

lemma packed_byte:
  assumes "ascii_letters ct" "ascii_digits hex_asc"
  shows "hex_to_bin ct (hex_asc_hi hex_asc b) = uint (drop_bit 4 (b AND 0xf0))"
    and "hex_to_bin ct (hex_asc_lo hex_asc b) = uint (b AND 0x0f)"
proof -
  have "unat (b AND 0x0f) < 16"
    using unat_and_mask [of b 4] by (simp add: mask_eq_exp_minus_1)
  then show "hex_to_bin ct (hex_asc_lo hex_asc b) = uint (b AND 0x0f)"
    using hex_digit [OF assms, of "unat (b AND 0x0f)"] by (simp add: hex_asc_lo_def)
  have "unat (drop_bit 4 (b AND 0xf0)) < 16"
    using unsigned_less [of "b AND 0xf0", where 'a = nat] by (simp only: unat_drop_bit_eq) (simp add: drop_bit_eq_div)
  then show "hex_to_bin ct (hex_asc_hi hex_asc b) = uint (drop_bit 4 (b AND 0xf0))"
    using hex_digit [OF assms, of "unat (drop_bit 4 (b AND 0xf0))"] by (simp add: hex_asc_hi_def)
qed

definition text_of :: "(nat \<Rightarrow> u8) \<Rightarrow> u8 list \<Rightarrow> u8 list" where
  "text_of hex_asc bs = concat (map (\<lambda>b. [hex_asc_hi hex_asc b, hex_asc_lo hex_asc b]) bs)"

lemma bin2hex_text:
  "n \<le> length src \<Longrightarrow> 2 * n \<le> length dst \<Longrightarrow>
    bin2hex hex_asc dst src n = Inr (text_of hex_asc (take n src), drop (2 * n) dst)"
proof (induction hex_asc dst src n rule: bin2hex.induct)
  case (2 hex_asc dst b src count)
  then obtain d0 d1 ds where "dst = d0 # d1 # ds" by (cases dst; cases "tl dst") auto
  then show ?case using 2 by (simp add: text_of_def)
qed (simp_all add: text_of_def)

lemma hex2bin_text:
  assumes "ascii_letters ct" "ascii_digits hex_asc"
  shows "length bs \<le> length dst \<Longrightarrow>
    hex2bin ct dst (text_of hex_asc bs @ more) (length bs) = Inr (0, bs, drop (length bs) dst)"
proof (induction bs arbitrary: dst)
  case (Cons b bs)
  then obtain d ds where dst: "dst = d # ds" by (cases dst) auto
  then show ?case
    using Cons packed_byte [OF assms, of b] unjoin_byte [of b] by (simp add: text_of_def)
qed (simp add: text_of_def)

definition is_hex :: "ctype \<Rightarrow> u8 \<Rightarrow> bool" where
  "is_hex ct c \<longleftrightarrow> 0 \<le> hex_to_bin ct c"

lemma terminator: "ascii_letters ct \<Longrightarrow> hex_to_bin ct 0 = - 1"
  by (auto simp: hex_to_bin_def tolower_def ascii_letters_def Let_def)

lemma hex2bin_short:
  assumes "ascii_letters ct" "\<forall>c\<in>set ds. is_hex ct c" "length ds < 2 * count" "length ds div 2 \<le> length dst"
  shows "if even (length ds) then hex2bin ct dst (ds @ [0]) count = Inl OutOfBounds
    else \<exists>bs rest. hex2bin ct dst (ds @ [0]) count = Inr (- 1, bs, rest)"
  using assms(2-4)
proof (induction count arbitrary: ds dst)
  case (Suc count)
  consider "ds = []" | c where "ds = [c]" | c0 c1 ds' where "ds = c0 # c1 # ds'"
    by (cases ds; cases "tl ds") auto
  then show ?case
  proof cases
    case 3
    obtain d dst' where "dst = d # dst'" using Suc.prems(3) 3 by (cases dst) auto
    then show ?thesis using Suc.IH [of ds' dst'] Suc.prems 3 by (auto simp: is_hex_def)
  qed (use terminator [OF assms(1)] in simp_all)
qed simp

text \<open>
  C26: binary data survive the way through text: the text has two digits for every byte, and
  reading it back, whatever follows it, yields the data and writes nothing beyond them.
\<close>

theorem hex_round_trip:
  assumes "ascii_letters ct" "ascii_digits hex_asc" "n \<le> length src" "2 * n \<le> length dst" "n \<le> length dst'"
  shows "\<exists>txt. bin2hex hex_asc dst src n = Inr (txt, drop (2 * n) dst) \<and> length txt = 2 * n \<and>
    hex2bin ct dst' (txt @ more) n = Inr (0, take n src, drop n dst')"
proof -
  have "length (text_of hex_asc bs) = 2 * length bs" for bs by (induction bs) (simp_all add: text_of_def)
  then show ?thesis
    using bin2hex_text [OF assms(3,4)] hex2bin_text [OF assms(1,2), of "take n src" dst' more] assms(3,5) by simp
qed

definition sample_ctype :: ctype where
  "sample_ctype c = (if 0x41 \<le> c \<and> c \<le> 0x5a then CT_U else 0)"

definition sample_digits :: "nat \<Rightarrow> u8" where
  "sample_digits d = (if d < 10 then 0x30 + of_nat d else 0x61 + of_nat (d - 10))"

lemma sample_tables: "ascii_letters sample_ctype" "ascii_digits sample_digits"
  by (simp_all add: ascii_letters_def ascii_digits_def sample_ctype_def sample_digits_def isupper_def ismask_def CT_U_def)

theorem hex_round_trip_witness:
  "\<exists>txt. bin2hex sample_digits [0, 0, 0, 0, 0] [0xC0, 0xDE] 2 = Inr (txt, [0]) \<and>
    hex2bin sample_ctype [1, 2, 3] (txt @ [0]) 2 = Inr (0, [0xC0, 0xDE], [3])"
  using hex_round_trip [OF sample_tables, of 2 "[0xC0, 0xDE]" "[0, 0, 0, 0, 0]" "[1, 2, 3]" "[0]"] by auto

text \<open>
  text that is too short is noticed only when its length is odd: a terminated string with an
  odd number of digits gives -1, but for one with an even number the function reads the byte
  behind the terminator before it looks at the terminator.
\<close>

theorem hex2bin_reads_past_end:
  assumes "ascii_letters ct" "\<forall>c\<in>set ds. is_hex ct c" "length ds < 2 * count" "length ds div 2 \<le> length dst"
  shows "(even (length ds) \<longleftrightarrow> hex2bin ct dst (ds @ [0]) count = Inl OutOfBounds) \<and>
    (odd (length ds) \<longleftrightarrow> (\<exists>bs rest. hex2bin ct dst (ds @ [0]) count = Inr (- 1, bs, rest)))"
  using hex2bin_short [OF assms] by (cases "even (length ds)") auto

theorem hex2bin_reads_past_end_witness:
  "hex2bin sample_ctype [0, 0] [0x31, 0x32, 0] 2 = Inl OutOfBounds"
proof -
  have "is_hex sample_ctype 0x31" "is_hex sample_ctype 0x32" by (simp_all add: is_hex_def hex_to_bin_def)
  then show ?thesis using hex2bin_reads_past_end [OF sample_tables(1), of "[0x31, 0x32]" 2 "[0, 0]"] by simp
qed

end
