(* ===== verification/DebugUart.thy ===== *)
theory DebugUart
  imports Hexdump
begin

text \<open>
  The functions that \<open>DEBUG_UART_FUNCS\<close> adds to a serial driver (\<open>include/debug_uart.h\<close>):
  characters, strings and numbers before anything else works.  The driver's two functions, the
  board's initialisation and the register access are outside the header and are arguments;
  \<open>'w\<close> is the state of the world.
\<close>

record 'w uart_driver =
  debug_uart_putc :: "int \<Rightarrow> 'w \<Rightarrow> 'w"
  driver_uart_init :: "'w \<Rightarrow> 'w"

section \<open>Characters and strings\<close>

definition put_printable :: "'w uart_driver \<Rightarrow> int \<Rightarrow> 'w \<Rightarrow> 'w" where
  "put_printable drv ch w = debug_uart_putc drv ch (if ch = 10 then debug_uart_putc drv 13 w else w)"

definition printch :: "'w uart_driver \<Rightarrow> int \<Rightarrow> 'w \<Rightarrow> 'w" where
  "printch drv ch = put_printable drv ch"

text \<open>A string is the memory from its first byte on.\<close>

fun printascii :: "'w uart_driver \<Rightarrow> u8 list \<Rightarrow> 'w \<Rightarrow> ub + 'w" where
  "printascii drv [] w = Inl OutOfBounds"
| "printascii drv (c # str) w = (if c = 0 then Inr w else printascii drv str (put_printable drv (uint c) w))"

section \<open>Numbers\<close>

definition printhex1 :: "'w uart_driver \<Rightarrow> u32 \<Rightarrow> 'w \<Rightarrow> 'w" where
  "printhex1 drv digit w =
     (let digit = digit AND 0xf
      in debug_uart_putc drv (uint (if 9 < digit then digit - 10 + 97 else digit + 48)) w)"

text \<open>The number of digits is an \<open>int\<close>; a shift by 32 or more is undefined.\<close>

function printhex :: "'w uart_driver \<Rightarrow> u32 \<Rightarrow> int \<Rightarrow> 'w \<Rightarrow> ub + 'w" where
  "printhex drv val digits w =
     (if 0 < digits
      then if 32 \<le> 4 * (digits - 1) then Inl BadShift
           else printhex drv val (digits - 1) (printhex1 drv (drop_bit (nat (4 * (digits - 1))) val) w)
      else Inr w)"
  by pat_completeness auto
termination by (relation "measure (\<lambda>(drv, val, digits, w). nat digits)") auto

declare printhex.simps [simp del]

definition printhex2 :: "'w uart_driver \<Rightarrow> u32 \<Rightarrow> 'w \<Rightarrow> ub + 'w" where
  "printhex2 drv val = printhex drv val 2"

definition printhex4 :: "'w uart_driver \<Rightarrow> u32 \<Rightarrow> 'w \<Rightarrow> ub + 'w" where
  "printhex4 drv val = printhex drv val 4"

definition printhex8 :: "'w uart_driver \<Rightarrow> u32 \<Rightarrow> 'w \<Rightarrow> ub + 'w" where
  "printhex8 drv val = printhex drv val 8"

lemma unat_div_10: "10 < val \<Longrightarrow> unat (val div 10 :: u32) < unat val"
  by (simp add: unat_div word_less_nat_alt)

function printdec :: "'w uart_driver \<Rightarrow> u32 \<Rightarrow> 'w \<Rightarrow> 'w" where
  "printdec drv val w =
     (let (val, w) =
            (if 10 < val then (val mod 10, printdec drv (val div 10) w)
             else if val = 10 then (0, debug_uart_putc drv 49 w)
             else (val, w))
      in debug_uart_putc drv (uint (48 + val)) w)"
  by pat_completeness auto
termination by (relation "measure (\<lambda>(drv, val, w). unat val)") (auto simp: unat_div_10)

declare printdec.simps [simp del]

section \<open>Registers and initialisation\<close>

text \<open>Without \<open>CONFIG_DEBUG_UART_BOARD_INIT\<close> the board's function does nothing.\<close>

definition board_debug_uart_init :: "'w \<Rightarrow> 'w" where
  "board_debug_uart_init w = w"

definition announcement :: "u8 list" where
  "announcement = map (\<lambda>c. of_nat (of_char c)) ''<debug_uart> '' @ [0]"

definition debug_uart_init :: "('w \<Rightarrow> 'w) \<Rightarrow> bool \<Rightarrow> 'w uart_driver \<Rightarrow> 'w \<Rightarrow> ub + 'w" where
  "debug_uart_init board_init DEBUG_UART_ANNOUNCE drv w =
     (let w2 = driver_uart_init drv (board_init w)
      in if DEBUG_UART_ANNOUNCE then printascii drv announcement w2 else Inr w2)"

definition register_addr :: "u32 \<Rightarrow> nat \<Rightarrow> u32 \<Rightarrow> u32" where
  "register_addr com_port shift reg = com_port + (reg - com_port) * push_bit shift 1"

definition serial_dout :: "(u32 \<Rightarrow> nat \<Rightarrow> int \<Rightarrow> 'w \<Rightarrow> 'w) \<Rightarrow> u32 \<Rightarrow> nat \<Rightarrow> u32 \<Rightarrow> int \<Rightarrow> 'w \<Rightarrow> 'w" where
  "serial_dout serial_out_shift com_port shift reg val = serial_out_shift (register_addr com_port shift reg) shift val"

definition serial_din :: "(u32 \<Rightarrow> nat \<Rightarrow> 'w \<Rightarrow> int \<times> 'w) \<Rightarrow> u32 \<Rightarrow> nat \<Rightarrow> u32 \<Rightarrow> 'w \<Rightarrow> int \<times> 'w" where
  "serial_din serial_in_shift com_port shift reg = serial_in_shift (register_addr com_port shift reg) shift"

section \<open>What is printed\<close>

text \<open>Sending the characters of a list, the first one first.\<close>

definition send :: "'w uart_driver \<Rightarrow> int list \<Rightarrow> 'w \<Rightarrow> 'w" where
  "send drv cs = fold (debug_uart_putc drv) cs"

lemma send_simps [simp]:
  "send drv [] w = w" "send drv (c # cs) w = send drv cs (debug_uart_putc drv c w)"
  "send drv (cs @ ds) w = send drv ds (send drv cs w)"
  by (simp_all add: send_def)

fun crlf :: "u8 list \<Rightarrow> int list" where
  "crlf [] = []"
| "crlf (c # cs) = (if c = 10 then [13, 10] else [uint c]) @ crlf cs"

lemma printascii_sends: "0 \<notin> set cs \<Longrightarrow> printascii drv (cs @ 0 # rest) w = Inr (send drv (crlf cs) w)"
proof (induction cs arbitrary: w)
  case (Cons c cs)
  have "uint c = 10 \<longleftrightarrow> c = 10" by (simp add: word_uint_eq_iff)
  then show ?case using Cons by (simp add: put_printable_def)
qed simp

lemma digit_code: "d < 10 \<Longrightarrow> uint (48 + of_nat d :: u32) = of_char (digit_char d)"
proof -
  assume d: "d < 10"
  then have "(of_char (digit_char d) :: nat) = 48 + d" by (simp add: digit_char_def)
  then have "(of_char (digit_char d) :: int) = 48 + int d" by (metis of_nat_of_char of_nat_add of_nat_numeral)
  moreover have "unat (48 + of_nat d :: u32) = 48 + d"
    using d by (subst unat_add_lem [THEN iffD1]) (simp_all add: unat_of_nat)
  ultimately show ?thesis by (simp add: uint_nat)
qed

lemma printdec_sends: "printdec drv val w = send drv (map of_char (show_nat (unat val))) w"
proof (induction drv val w rule: printdec.induct)
  case (1 drv val w)
  have "unat val < 10 \<longleftrightarrow> val < 10" by (simp add: word_less_nat_alt)
  then consider (rec) "10 < val" | (ten) "val = 10" | (one) "unat val < 10"
    using less_linear [of val 10] by blast
  then show ?case
  proof cases
    case rec
    have "unat (val mod 10) = unat val mod 10" by (simp add: unat_mod)
    then have "val mod 10 = of_nat (unat val mod 10)" by (metis of_nat_unat ucast_id)
    then have "uint (48 + val mod 10) = of_char (digit_char (unat val mod 10))"
      using digit_code [of "unat val mod 10"] by simp
    moreover have "show_nat (unat val) = show_nat (unat val div 10) @ [digit_char (unat val mod 10)]"
      using rec by (subst show_nat.simps) (simp add: word_less_nat_alt)
    ultimately show ?thesis
      using 1 [OF rec] rec by (simp add: printdec.simps [of drv val] unat_div)
  next
    case ten
    then show ?thesis by (simp add: printdec.simps [of drv 10] show_nat.simps)
  next
    case one
    then have "\<not> 10 < val" "val \<noteq> 10" by (auto simp: word_less_nat_alt)
    moreover have "show_nat (unat val) = [digit_char (unat val)]" using one by (simp add: show_nat.simps)
    ultimately show ?thesis using digit_code [OF one] by (simp add: printdec.simps [of drv val])
  qed
qed

text \<open>The hexadecimal digits of a word, the first one first.\<close>

definition nibble :: "u32 \<Rightarrow> nat \<Rightarrow> nat" where
  "nibble val k = unat (drop_bit (4 * k) val AND 0xf)"

definition hex_code :: "nat \<Rightarrow> int" where
  "hex_code d = int (if 9 < d then d - 10 + 97 else d + 48)"

definition hex_text :: "u32 \<Rightarrow> nat \<Rightarrow> int list" where
  "hex_text val n = map (\<lambda>k. hex_code (nibble val k)) (rev [0..<n])"

lemma nibble_less: "nibble val k < 16"
  using unat_and_mask [of "drop_bit (4 * k) val" 4] by (simp add: nibble_def mask_eq_exp_minus_1)

lemma printhex1_sends: "printhex1 drv (drop_bit (4 * k) val) w = debug_uart_putc drv (hex_code (nibble val k)) w"
proof -
  let ?d = "drop_bit (4 * k) val AND 0xf"
  have d: "?d = of_nat (nibble val k)" by (simp add: nibble_def)
  have "nibble val k \<in> set [0..<16]" using nibble_less by simp
  then have "uint (if 9 < ?d then ?d - 10 + 97 else ?d + 48) = hex_code (nibble val k)"
    unfolding d by (auto simp: upt_rec hex_code_def)
  then show ?thesis by (simp add: printhex1_def)
qed

lemma printhex_sends: "n \<le> 8 \<Longrightarrow> printhex drv val (int n) w = Inr (send drv (hex_text val n) w)"
proof (induction n arbitrary: w)
  case 0
  show ?case by (simp add: printhex.simps [of drv val 0] hex_text_def)
next
  case (Suc n)
  have "nat (4 * int n) = 4 * n" by simp
  then show ?case
    using Suc by (simp add: printhex.simps [of drv val "1 + int n"] hex_text_def printhex1_sends)
qed

text \<open>Reading hexadecimal text with the conversion of \<open>hexdump.h\<close>.\<close>

definition read_hex :: "ctype \<Rightarrow> int list \<Rightarrow> int" where
  "read_hex ct cs = foldl (\<lambda>a c. 16 * a + hex_to_bin ct (of_int c)) 0 cs"

lemma hex_code_digit:
  assumes "d < 16" "ascii_letters ct"
  shows "hex_to_bin ct (of_int (hex_code d)) = int d"
proof -
  have "of_int (hex_code d) = sample_digits d"
    by (cases "9 < d") (simp_all add: hex_code_def sample_digits_def add.commute)
  then show ?thesis using hex_digit [OF assms(2) sample_tables(2) assms(1)] by simp
qed

lemma nibble_value: "nibble val k = unat val div 2 ^ (4 * k) mod 2 ^ 4"
proof -
  have "drop_bit (4 * k) val AND 0xf = take_bit 4 (drop_bit (4 * k) val)"
    by (simp add: take_bit_eq_mask mask_eq_exp_minus_1)
  then show ?thesis
    by (simp only: nibble_def unsigned_take_bit_eq unat_drop_bit_eq) (simp only: take_bit_eq_mod drop_bit_eq_div)
qed

lemma read_hex_text_from:
  assumes "ascii_letters ct"
  shows "foldl (\<lambda>a c. 16 * a + hex_to_bin ct (of_int c)) a (hex_text val n) =
    a * 2 ^ (4 * n) + int (unat val mod 2 ^ (4 * n))"
proof (induction n arbitrary: a)
  case 0
  show ?case by (simp add: hex_text_def)
next
  case (Suc n)
  have "unat val mod 2 ^ (4 * Suc n) = unat val mod (2 ^ (4 * n) * 2 ^ 4)" by (simp add: power_add mult.commute)
  also have "\<dots> = 2 ^ (4 * n) * nibble val n + unat val mod 2 ^ (4 * n)"
    by (simp only: mod_mult2_eq nibble_value)
  finally have "int (unat val mod 2 ^ (4 * Suc n)) =
      2 ^ (4 * n) * int (nibble val n) + int (unat val mod 2 ^ (4 * n))" by simp
  moreover have "hex_text val (Suc n) = hex_code (nibble val n) # hex_text val n" by (simp add: hex_text_def)
  ultimately show ?case
    using Suc [of "16 * a + int (nibble val n)"] hex_code_digit [OF nibble_less assms, of val n]
    by (simp add: algebra_simps power_add)
qed

text \<open>
  C39: what the early console prints.  Strings end at their terminator, with a carriage return
  before every line feed; numbers are printed in decimal as \<open>%u\<close> does, without leading zeros;
  and in hexadecimal with the digits asked for, which read back give the value, or its low part
  where it has more digits.
\<close>

theorem debug_uart_prints:
  assumes "0 \<notin> set cs" "ascii_letters ct" "n \<le> 8"
  shows "printascii drv (cs @ 0 # rest) w = Inr (send drv (crlf cs) w) \<and>
    printdec drv val w = send drv (map of_char (show_nat (unat val))) w \<and>
    (\<exists>txt. printhex drv val (int n) w = Inr (send drv txt w) \<and> length txt = n \<and>
      read_hex ct txt = uint val mod 16 ^ n)"
proof -
  have "(2 :: int) ^ (4 * n) = 16 ^ n" by (simp add: power_mult)
  moreover have "int (unat val mod 2 ^ (4 * n)) = int (unat val) mod 2 ^ (4 * n)" by (simp add: zmod_int)
  ultimately have "int (unat val mod 2 ^ (4 * n)) = uint val mod 16 ^ n" by (simp only: uint_nat)
  then have r: "read_hex ct (hex_text val n) = uint val mod 16 ^ n"
    using read_hex_text_from [OF assms(2), of 0 val n] unfolding read_hex_def by (simp only: mult_zero_left add_0)
  have l: "length (hex_text val n) = n" by (simp add: hex_text_def)
  show ?thesis
    by (intro conjI exI [of _ "hex_text val n"] printascii_sends [OF assms(1)] printdec_sends
        printhex_sends [OF assms(3)] l r)
qed

definition sample_uart :: "int list uart_driver" where
  "sample_uart = \<lparr>debug_uart_putc = (\<lambda>c w. w @ [c]), driver_uart_init = (\<lambda>w. w)\<rparr>"

theorem debug_uart_prints_witness:
  "printascii sample_uart [0x4f, 0x4b, 0x0a, 0] [] = Inr [0x4f, 0x4b, 0x0d, 0x0a] \<and>
   (\<exists>txt. printhex sample_uart 0xC0DE 4 [] = Inr (send sample_uart txt []) \<and> read_hex sample_ctype txt = 0xC0DE)"
proof -
  have "(0 :: u8) \<notin> set [0x4f, 0x4b, 0x0a]" by simp
  from debug_uart_prints [OF this sample_tables(1), where n = 4 and drv = sample_uart and rest = "[]"
      and w = "[]" and val = "0xC0DE"]
  show ?thesis by (auto simp: sample_uart_def)
qed

end
