(* ===== verification/Blk.thy ===== *)
theory Blk
  imports Prelude
begin

text \<open>
  Block devices without the driver model, and the block cache in front of them
  (\<open>include/blk.h\<close>).  The cache and the drivers are outside the repository: records of
  functions on the state of the world, which holds the media, the memory and the cache.
  Block numbers are words of the width of \<open>lbaint_t\<close>, 32 or 64 bits; \<open>ulong\<close> has 32.
\<close>

section \<open>The block layer\<close>

record ('n, 'w) cache_ops =
  blkcache_read :: "int \<Rightarrow> int \<Rightarrow> 'n \<Rightarrow> 'n \<Rightarrow> u32 \<Rightarrow> u32 \<Rightarrow> 'w \<Rightarrow> int \<times> 'w"
  blkcache_fill :: "int \<Rightarrow> int \<Rightarrow> 'n \<Rightarrow> 'n \<Rightarrow> u32 \<Rightarrow> u32 \<Rightarrow> 'w \<Rightarrow> 'w"
  blkcache_invalidate :: "int \<Rightarrow> int \<Rightarrow> 'w \<Rightarrow> 'w"

text \<open>The descriptor's function pointers get the descriptor itself, which is left out.\<close>

record ('n, 'w) blk_desc =
  if_type :: int
  devnum :: int
  blksz :: u32
  block_read :: "'n \<Rightarrow> 'n \<Rightarrow> u32 \<Rightarrow> 'w \<Rightarrow> u32 \<times> 'w"
  block_write :: "'n \<Rightarrow> 'n \<Rightarrow> u32 \<Rightarrow> 'w \<Rightarrow> u32 \<times> 'w"
  block_erase :: "'n \<Rightarrow> 'n \<Rightarrow> 'w \<Rightarrow> u32 \<times> 'w"

definition blk_dread ::
  "('l::len word, 'w) cache_ops \<Rightarrow> ('l word, 'w) blk_desc \<Rightarrow> 'l word \<Rightarrow> 'l word \<Rightarrow> u32 \<Rightarrow> 'w \<Rightarrow> u32 \<times> 'w" where
  "blk_dread c block_dev start blkcnt buffer w =
     (let (hit, w1) = blkcache_read c (if_type block_dev) (devnum block_dev) start blkcnt (blksz block_dev) buffer w
      in if hit \<noteq> 0 then (ucast blkcnt, w1)
         else let (blks_read, w2) = block_read block_dev start blkcnt buffer w1
              in (blks_read,
                  if ucast blks_read = blkcnt
                  then blkcache_fill c (if_type block_dev) (devnum block_dev) start blkcnt (blksz block_dev) buffer w2
                  else w2))"

definition blk_dwrite ::
  "('l::len word, 'w) cache_ops \<Rightarrow> ('l word, 'w) blk_desc \<Rightarrow> 'l word \<Rightarrow> 'l word \<Rightarrow> u32 \<Rightarrow> 'w \<Rightarrow> u32 \<times> 'w" where
  "blk_dwrite c block_dev start blkcnt buffer w =
     block_write block_dev start blkcnt buffer (blkcache_invalidate c (if_type block_dev) (devnum block_dev) w)"

definition blk_derase ::
  "('l::len word, 'w) cache_ops \<Rightarrow> ('l word, 'w) blk_desc \<Rightarrow> 'l word \<Rightarrow> 'l word \<Rightarrow> 'w \<Rightarrow> u32 \<times> 'w" where
  "blk_derase c block_dev start blkcnt w =
     block_erase block_dev start blkcnt (blkcache_invalidate c (if_type block_dev) (devnum block_dev) w)"

text \<open>Without \<open>CONFIG_BLOCK_CACHE\<close> the cache consists of three functions that do nothing.\<close>

definition no_block_cache :: "('n, 'w) cache_ops" where
  "no_block_cache = \<lparr>
     blkcache_read = (\<lambda>iftype dev start blkcnt blksz buffer w. (0, w)),
     blkcache_fill = (\<lambda>iftype dev start blkcnt blksz buffer w. w),
     blkcache_invalidate = (\<lambda>iftype dev w. w)\<rparr>"

section \<open>What the block layer relies on\<close>

text \<open>
  \<open>medium w k n\<close> is block \<open>n\<close> of device \<open>k\<close>, \<open>buf w p sz i\<close> the \<open>i\<close>-th block of size
  \<open>sz\<close> in memory at \<open>p\<close>, and \<open>entries w k n\<close> what the cache holds for a block.
\<close>

type_synonym dev_key = "int \<times> int"

definition key :: "('n, 'w) blk_desc \<Rightarrow> dev_key" where
  "key d = (if_type d, devnum d)"

definition blocks_of :: "'l::len word \<Rightarrow> 'l word \<Rightarrow> 'l word list" where
  "blocks_of start blkcnt = map (\<lambda>i. start + of_nat i) [0..<unat blkcnt]"

definition honest_read ::
  "('w \<Rightarrow> dev_key \<Rightarrow> 'l word \<Rightarrow> 'b) \<Rightarrow> ('w \<Rightarrow> u32 \<Rightarrow> u32 \<Rightarrow> nat \<Rightarrow> 'b) \<Rightarrow>
   ('w \<Rightarrow> dev_key \<Rightarrow> 'l word \<Rightarrow> 'b option) \<Rightarrow> ('l::len word, 'w) blk_desc \<Rightarrow> bool" where
  "honest_read medium buf entries d \<longleftrightarrow> (\<forall>start blkcnt p w r w'. block_read d start blkcnt p w = (r, w') \<longrightarrow>
     medium w' = medium w \<and> entries w' = entries w \<and>
     (ucast r = blkcnt \<longrightarrow> (\<forall>i<unat blkcnt. buf w' p (blksz d) i = medium w (key d) (start + of_nat i))))"

definition honest_write ::
  "('w \<Rightarrow> dev_key \<Rightarrow> 'l word \<Rightarrow> 'b) \<Rightarrow> ('w \<Rightarrow> u32 \<Rightarrow> u32 \<Rightarrow> nat \<Rightarrow> 'b) \<Rightarrow>
   ('w \<Rightarrow> dev_key \<Rightarrow> 'l word \<Rightarrow> 'b option) \<Rightarrow> ('l::len word, 'w) blk_desc \<Rightarrow> bool" where
  "honest_write medium buf entries d \<longleftrightarrow> (\<forall>start blkcnt p w r w'. block_write d start blkcnt p w = (r, w') \<longrightarrow>
     entries w' = entries w \<and>
     (\<forall>k n. (k \<noteq> key d \<or> n \<notin> set (blocks_of start blkcnt)) \<longrightarrow> medium w' k n = medium w k n) \<and>
     (ucast r = blkcnt \<longrightarrow> (\<forall>i<unat blkcnt. medium w' (key d) (start + of_nat i) = buf w p (blksz d) i)))"

definition honest_erase ::
  "('w \<Rightarrow> dev_key \<Rightarrow> 'l word \<Rightarrow> 'b) \<Rightarrow> ('w \<Rightarrow> dev_key \<Rightarrow> 'l word \<Rightarrow> 'b option) \<Rightarrow>
   ('l::len word, 'w) blk_desc \<Rightarrow> bool" where
  "honest_erase medium entries d \<longleftrightarrow> (\<forall>start blkcnt w r w'. block_erase d start blkcnt w = (r, w') \<longrightarrow>
     entries w' = entries w \<and>
     (\<forall>k n. (k \<noteq> key d \<or> n \<notin> set (blocks_of start blkcnt)) \<longrightarrow> medium w' k n = medium w k n))"

definition honest_driver ::
  "('w \<Rightarrow> dev_key \<Rightarrow> 'l word \<Rightarrow> 'b) \<Rightarrow> ('w \<Rightarrow> u32 \<Rightarrow> u32 \<Rightarrow> nat \<Rightarrow> 'b) \<Rightarrow>
   ('w \<Rightarrow> dev_key \<Rightarrow> 'l word \<Rightarrow> 'b option) \<Rightarrow> ('l::len word, 'w) blk_desc \<Rightarrow> bool" where
  "honest_driver medium buf entries d \<longleftrightarrow>
     honest_read medium buf entries d \<and> honest_write medium buf entries d \<and> honest_erase medium entries d"

lemma honest_readD:
  assumes "honest_driver medium buf entries d" "block_read d start blkcnt p w = (r, w')"
  shows "medium w' = medium w" "entries w' = entries w"
    and "ucast r = blkcnt \<Longrightarrow> i < unat blkcnt \<Longrightarrow> buf w' p (blksz d) i = medium w (key d) (start + of_nat i)"
  using assms unfolding honest_driver_def honest_read_def by blast+

lemma honest_writeD:
  assumes "honest_driver medium buf entries d" "block_write d start blkcnt p w = (r, w')"
  shows "entries w' = entries w"
    and "k \<noteq> key d \<or> n \<notin> set (blocks_of start blkcnt) \<Longrightarrow> medium w' k n = medium w k n"
    and "ucast r = blkcnt \<Longrightarrow> i < unat blkcnt \<Longrightarrow> medium w' (key d) (start + of_nat i) = buf w p (blksz d) i"
  using assms unfolding honest_driver_def honest_write_def by blast+

lemma honest_eraseD:
  assumes "honest_driver medium buf entries d" "block_erase d start blkcnt w = (r, w')"
  shows "entries w' = entries w"
    and "k \<noteq> key d \<or> n \<notin> set (blocks_of start blkcnt) \<Longrightarrow> medium w' k n = medium w k n"
  using assms unfolding honest_driver_def honest_erase_def by blast+

definition coherent ::
  "('w \<Rightarrow> dev_key \<Rightarrow> 'n \<Rightarrow> 'b) \<Rightarrow> ('w \<Rightarrow> dev_key \<Rightarrow> 'n \<Rightarrow> 'b option) \<Rightarrow> 'w \<Rightarrow> bool" where
  "coherent medium entries w \<longleftrightarrow> (\<forall>k n b. entries w k n = Some b \<longrightarrow> medium w k n = b)"

lemma coherentD: "coherent medium entries w \<Longrightarrow> entries w k n = Some b \<Longrightarrow> medium w k n = b"
  by (simp only: coherent_def)

section \<open>Sequences of operations\<close>

datatype ('n, 'w) blk_op =
    Read "('n, 'w) blk_desc" 'n 'n u32
  | Write "('n, 'w) blk_desc" 'n 'n u32
  | Erase "('n, 'w) blk_desc" 'n 'n

fun op_desc :: "('n, 'w) blk_op \<Rightarrow> ('n, 'w) blk_desc" where
  "op_desc (Read d start blkcnt p) = d"
| "op_desc (Write d start blkcnt p) = d"
| "op_desc (Erase d start blkcnt) = d"

fun blk_step :: "('l::len word, 'w) cache_ops \<Rightarrow> ('l word, 'w) blk_op \<Rightarrow> 'w \<Rightarrow> 'w" where
  "blk_step c (Read d start blkcnt p) w = snd (blk_dread c d start blkcnt p w)"
| "blk_step c (Write d start blkcnt p) w = snd (blk_dwrite c d start blkcnt p w)"
| "blk_step c (Erase d start blkcnt) w = snd (blk_derase c d start blkcnt w)"

text \<open>The blocks of device \<open>k\<close> that an operation may change.\<close>

fun changes :: "dev_key \<Rightarrow> ('l::len word, 'w) blk_op \<Rightarrow> 'l word set" where
  "changes k (Read d start blkcnt p) = {}"
| "changes k (Write d start blkcnt p) = (if key d = k then set (blocks_of start blkcnt) else {})"
| "changes k (Erase d start blkcnt) = (if key d = k then set (blocks_of start blkcnt) else {})"

section \<open>Coherence\<close>

text \<open>
  The cache may drop what it holds at any time, may miss at any time, and may keep what it is
  given.  A hit yields cached blocks; invalidating drops all of a device's blocks.
\<close>

locale block_cache =
  fixes c :: "('l::len word, 'w) cache_ops"
    and medium :: "'w \<Rightarrow> dev_key \<Rightarrow> 'l word \<Rightarrow> 'b"
    and buf :: "'w \<Rightarrow> u32 \<Rightarrow> u32 \<Rightarrow> nat \<Rightarrow> 'b"
    and entries :: "'w \<Rightarrow> dev_key \<Rightarrow> 'l word \<Rightarrow> 'b option"
  assumes read_frame: "blkcache_read c t u start blkcnt sz p w = (hit, w') \<Longrightarrow>
      medium w' = medium w \<and> (\<forall>k n. entries w' k n = entries w k n \<or> entries w' k n = None)"
    and read_hit: "blkcache_read c t u start blkcnt sz p w = (hit, w') \<Longrightarrow> hit \<noteq> 0 \<Longrightarrow>
      \<forall>i<unat blkcnt. entries w (t, u) (start + of_nat i) = Some (buf w' p sz i)"
    and fill: "w' = blkcache_fill c t u start blkcnt sz p w \<Longrightarrow> medium w' = medium w \<and> buf w' = buf w \<and>
      (\<forall>k n. entries w' k n = entries w k n \<or> entries w' k n = None \<or>
        (\<exists>i<unat blkcnt. k = (t, u) \<and> n = start + of_nat i \<and> entries w' k n = Some (buf w p sz i)))"
    and invalidate: "w' = blkcache_invalidate c t u w \<Longrightarrow> medium w' = medium w \<and> buf w' = buf w \<and>
      (\<forall>n. entries w' (t, u) n = None) \<and> (\<forall>k n. entries w' k n = entries w k n \<or> entries w' k n = None)"
begin

abbreviation coh :: "'w \<Rightarrow> bool" where
  "coh \<equiv> coherent medium entries"

lemma coherent_drop:
  assumes "coh w" "medium w' = medium w" "\<forall>k n. entries w' k n = entries w k n \<or> entries w' k n = None"
  shows "coh w'"
  unfolding coherent_def
proof (intro allI impI)
  fix k n b
  assume "entries w' k n = Some b"
  then have "entries w k n = Some b" using assms(3) by (metis option.distinct(1))
  then show "medium w' k n = b" using coherentD [OF assms(1)] assms(2) by simp
qed

lemma coherent_fill:
  assumes "coh w" "\<forall>i<unat blkcnt. buf w p sz i = medium w (t, u) (start + of_nat i)"
  shows "coh (blkcache_fill c t u start blkcnt sz p w)"
  unfolding coherent_def
proof (intro allI impI)
  let ?w' = "blkcache_fill c t u start blkcnt sz p w"
  fix k n b
  assume b: "entries ?w' k n = Some b"
  from fill [OF refl, of t u start blkcnt sz p w]
  have m: "medium ?w' = medium w"
    and e: "entries ?w' k n = entries w k n \<or> entries ?w' k n = None \<or>
      (\<exists>i<unat blkcnt. k = (t, u) \<and> n = start + of_nat i \<and> entries ?w' k n = Some (buf w p sz i))" by blast+
  from e b consider "entries w k n = Some b"
    | i where "i < unat blkcnt" "k = (t, u)" "n = start + of_nat i" "b = buf w p sz i" by auto
  then show "medium ?w' k n = b"
    by cases (use m assms(2) coherentD [OF assms(1)] in simp_all)
qed

lemma dread_spec:
  assumes "coh w" "honest_driver medium buf entries d" "blk_dread c d start blkcnt p w = (r, w')"
  shows "coh w' \<and> medium w' = medium w \<and>
    (ucast r = blkcnt \<longrightarrow> (\<forall>i<unat blkcnt. buf w' p (blksz d) i = medium w (key d) (start + of_nat i)))"
proof -
  obtain hit w1 where h: "blkcache_read c (if_type d) (devnum d) start blkcnt (blksz d) p w = (hit, w1)" by fastforce
  note f = read_frame [OF h]
  have c1: "coh w1" using f by (intro coherent_drop [OF assms(1)]) auto
  show ?thesis
  proof (cases "hit = 0")
    case False
    then have "w' = w1" using assms(3) h by (simp add: blk_dread_def)
    moreover have "buf w1 p (blksz d) i = medium w (key d) (start + of_nat i)" if "i < unat blkcnt" for i
      using read_hit [OF h False] that assms(1) by (simp add: coherent_def key_def)
    ultimately show ?thesis using c1 f by simp
  next
    case True
    obtain q w2 where b: "block_read d start blkcnt p w1 = (q, w2)" by fastforce
    note m = honest_readD [OF assms(2) b]
    have c2: "coh w2" using c1 m(1,2) by (simp add: coherent_def)
    have r: "r = q" and w': "w' = (if ucast q = blkcnt
        then blkcache_fill c (if_type d) (devnum d) start blkcnt (blksz d) p w2 else w2)"
      using assms(3) h b True by (simp_all add: blk_dread_def split: if_splits)
    show ?thesis
    proof (cases "ucast q = blkcnt")
      case full: True
      have d: "\<forall>i<unat blkcnt. buf w2 p (blksz d) i = medium w2 (if_type d, devnum d) (start + of_nat i)"
        using m(3) [OF full] m(1) by (simp add: key_def)
      show ?thesis
        using coherent_fill [OF c2 d] fill [OF refl, of "if_type d" "devnum d" start blkcnt "blksz d" p w2] full w' m f
        by simp
    qed (use w' c2 m f r in simp)
  qed
qed

lemma invalidated_coherent:
  assumes "coh w" "w1 = blkcache_invalidate c (if_type d) (devnum d) w" "entries w' = entries w1"
    and "\<And>k n. k \<noteq> key d \<Longrightarrow> medium w' k n = medium w1 k n"
  shows "coh w'"
  unfolding coherent_def
proof (intro allI impI)
  fix k n b
  assume b: "entries w' k n = Some b"
  note i = invalidate [OF assms(2)]
  have "k \<noteq> key d" using b i assms(3) by (auto simp: key_def)
  moreover have "entries w k n = Some b" using b i assms(3) by (metis option.distinct(1))
  ultimately show "medium w' k n = b" using i assms(4) coherentD [OF assms(1)] by simp
qed

lemma dwrite_spec:
  assumes "coh w" "honest_driver medium buf entries d" "blk_dwrite c d start blkcnt p w = (r, w')"
  shows "coh w' \<and> (\<forall>k n. (k \<noteq> key d \<or> n \<notin> set (blocks_of start blkcnt)) \<longrightarrow> medium w' k n = medium w k n) \<and>
    (ucast r = blkcnt \<longrightarrow> (\<forall>i<unat blkcnt. medium w' (key d) (start + of_nat i) = buf w p (blksz d) i))"
proof -
  let ?w1 = "blkcache_invalidate c (if_type d) (devnum d) w"
  note i = invalidate [OF refl, of "if_type d" "devnum d" w]
  note m = honest_writeD [OF assms(2), of start blkcnt p ?w1 r w', OF assms(3) [unfolded blk_dwrite_def]]
  have "coh w'" using m by (intro invalidated_coherent [OF assms(1) refl]) auto
  then show ?thesis using m i by simp
qed

lemma derase_spec:
  assumes "coh w" "honest_driver medium buf entries d" "blk_derase c d start blkcnt w = (r, w')"
  shows "coh w' \<and> (\<forall>k n. (k \<noteq> key d \<or> n \<notin> set (blocks_of start blkcnt)) \<longrightarrow> medium w' k n = medium w k n)"
proof -
  let ?w1 = "blkcache_invalidate c (if_type d) (devnum d) w"
  note i = invalidate [OF refl, of "if_type d" "devnum d" w]
  note m = honest_eraseD [OF assms(2), of start blkcnt ?w1 r w', OF assms(3) [unfolded blk_derase_def]]
  have "coh w'" using m by (intro invalidated_coherent [OF assms(1) refl]) auto
  then show ?thesis using m i by simp
qed

lemma step_spec:
  assumes "coh w" "honest_driver medium buf entries (op_desc x)"
  shows "coh (blk_step c x w) \<and> (\<forall>k n. n \<notin> changes k x \<longrightarrow> medium (blk_step c x w) k n = medium w k n)"
proof (cases x)
  case (Read d start blkcnt p)
  then show ?thesis using dread_spec [OF assms(1), of d start blkcnt p, OF _ surjective_pairing] assms(2) by simp
next
  case (Write d start blkcnt p)
  then show ?thesis using dwrite_spec [OF assms(1), of d start blkcnt p, OF _ surjective_pairing] assms(2) by auto
next
  case (Erase d start blkcnt)
  then show ?thesis using derase_spec [OF assms(1), of d start blkcnt, OF _ surjective_pairing] assms(2) by auto
qed

lemma run_spec:
  assumes "coh w" "\<forall>x\<in>set xs. honest_driver medium buf entries (op_desc x)"
  shows "coh (fold (blk_step c) xs w) \<and>
    (\<forall>k n. (\<forall>x\<in>set xs. n \<notin> changes k x) \<longrightarrow> medium (fold (blk_step c) xs w) k n = medium w k n)"
  using assms
proof (induction xs arbitrary: w)
  case (Cons x xs)
  then show ?case using step_spec [of w x] by simp
qed simp

end

interpretation uncached: block_cache no_block_cache medium buf "\<lambda>w k n. None" for medium buf
  by unfold_locales (auto simp: no_block_cache_def)

section \<open>What the block layer guarantees\<close>

text \<open>
  C8: the block cache is transparent.  What a complete write stored is what a complete read of
  the same blocks yields, whatever reads, writes and erasures of this and other devices lie
  between, as long as none of them changes these blocks; and no read, cached or not, ever
  yields anything but the contents of the medium.
\<close>

theorem blk_reads_what_was_written:
  fixes c :: "('l::len word, 'w) cache_ops"
  assumes "block_cache c medium buf entries" "coherent medium entries w"
    and "honest_driver medium buf entries d" "\<forall>x\<in>set xs. honest_driver medium buf entries (op_desc x)"
    and "blk_dwrite c d start blkcnt p w = (r, w1)" "ucast r = blkcnt"
    and "\<forall>x\<in>set xs. changes (key d) x \<inter> set (blocks_of start blkcnt) = {}"
    and "blk_dread c d start blkcnt q (fold (blk_step c) xs w1) = (r', w2)" "ucast r' = blkcnt"
  shows "\<forall>i<unat blkcnt. buf w2 q (blksz d) i = buf w p (blksz d) i \<and>
    buf w2 q (blksz d) i = medium w2 (key d) (start + of_nat i)"
proof (intro allI impI)
  fix i
  assume i: "i < unat blkcnt"
  let ?n = "start + of_nat i"
  note W = block_cache.dwrite_spec [OF assms(1-3,5)]
  have c1: "coherent medium entries w1" and v: "medium w1 (key d) ?n = buf w p (blksz d) i"
    using W assms(6) i by blast+
  note X = block_cache.run_spec [OF assms(1) c1 assms(4)]
  have "?n \<in> set (blocks_of start blkcnt)" using i by (auto simp: blocks_of_def)
  then have "medium (fold (blk_step c) xs w1) (key d) ?n = medium w1 (key d) ?n"
    using X assms(7) by blast
  moreover have "medium w2 = medium (fold (blk_step c) xs w1)"
    and "buf w2 q (blksz d) i = medium (fold (blk_step c) xs w1) (key d) ?n"
    using block_cache.dread_spec [OF assms(1) conjunct1 [OF X] assms(3,8)] assms(9) i by blast+
  ultimately show "buf w2 q (blksz d) i = buf w p (blksz d) i \<and> buf w2 q (blksz d) i = medium w2 (key d) ?n"
    using v by simp
qed

text \<open>A disk of one-byte blocks with a cache of everything that was ever read.\<close>

record ram_world =
  ram_medium :: "dev_key \<Rightarrow> u32 \<Rightarrow> u8"
  ram_buf :: "u32 \<Rightarrow> u32 \<Rightarrow> nat \<Rightarrow> u8"
  ram_entries :: "dev_key \<Rightarrow> u32 \<Rightarrow> u8 option"

definition in_blocks :: "u32 \<Rightarrow> u32 \<Rightarrow> u32 \<Rightarrow> bool" where
  "in_blocks start blkcnt n \<longleftrightarrow> unat (n - start) < unat blkcnt"

definition ram_cache :: "(u32, ram_world) cache_ops" where
  "ram_cache = \<lparr>
     blkcache_read = (\<lambda>t u start blkcnt sz p w.
       if blkcnt = 1 \<and> ram_entries w (t, u) start \<noteq> None
       then (1, w\<lparr>ram_buf := (\<lambda>p' sz' i. if p' = p then the (ram_entries w (t, u) start) else ram_buf w p' sz' i)\<rparr>)
       else (0, w)),
     blkcache_fill = (\<lambda>t u start blkcnt sz p w. w\<lparr>ram_entries := (\<lambda>k n.
       if k = (t, u) \<and> in_blocks start blkcnt n then Some (ram_buf w p sz (unat (n - start))) else ram_entries w k n)\<rparr>),
     blkcache_invalidate = (\<lambda>t u w. w\<lparr>ram_entries := (\<lambda>k n. if k = (t, u) then None else ram_entries w k n)\<rparr>)\<rparr>"

definition ram_disk :: "int \<Rightarrow> (u32, ram_world) blk_desc" where
  "ram_disk u = \<lparr>if_type = 0, devnum = u, blksz = 1,
     block_read = (\<lambda>start blkcnt p w. (blkcnt, w\<lparr>ram_buf := (\<lambda>p' sz i.
       if p' = p then ram_medium w (0, u) (start + of_nat i) else ram_buf w p' sz i)\<rparr>)),
     block_write = (\<lambda>start blkcnt p w. (blkcnt, w\<lparr>ram_medium := (\<lambda>k n.
       if k = (0, u) \<and> in_blocks start blkcnt n then ram_buf w p 1 (unat (n - start)) else ram_medium w k n)\<rparr>)),
     block_erase = (\<lambda>start blkcnt w. (blkcnt, w\<lparr>ram_medium := (\<lambda>k n.
       if k = (0, u) \<and> in_blocks start blkcnt n then 0xFF else ram_medium w k n)\<rparr>))\<rparr>"

lemma unat_of_index: "i < unat (blkcnt :: u32) \<Longrightarrow> unat (of_nat i :: u32) = i"
  by (metis le_unat_uoi less_imp_le)

lemma in_blocks_iff: "in_blocks start blkcnt n \<longleftrightarrow> n \<in> set (blocks_of start blkcnt)"
proof
  assume "in_blocks start blkcnt n"
  then have "unat (n - start) \<in> {0..<unat blkcnt}" by (simp add: in_blocks_def)
  moreover have "n = start + of_nat (unat (n - start))" by simp
  ultimately show "n \<in> set (blocks_of start blkcnt)"
    unfolding blocks_of_def set_map set_upt by (rule rev_image_eqI)
next
  assume "n \<in> set (blocks_of start blkcnt)"
  then show "in_blocks start blkcnt n" by (auto simp: in_blocks_def blocks_of_def unat_of_index)
qed

lemma ram_disk_honest: "honest_driver ram_medium ram_buf ram_entries (ram_disk u)"
  by (auto simp: honest_driver_def honest_read_def honest_write_def honest_erase_def ram_disk_def key_def
      in_blocks_def unat_of_index simp flip: in_blocks_iff)

lemma ram_cache_laws: "block_cache ram_cache ram_medium ram_buf ram_entries"
proof
  fix t u and start blkcnt sz p :: u32 and hit w w'
  assume "blkcache_read ram_cache t u start blkcnt sz p w = (hit, w')"
  then show "ram_medium w' = ram_medium w \<and>
      (\<forall>k n. ram_entries w' k n = ram_entries w k n \<or> ram_entries w' k n = None)"
    by (auto simp: ram_cache_def split: if_splits)
next
  fix t u and start blkcnt sz p :: u32 and hit w w'
  assume "blkcache_read ram_cache t u start blkcnt sz p w = (hit, w')" "hit \<noteq> 0"
  then show "\<forall>i<unat blkcnt. ram_entries w (t, u) (start + of_nat i) = Some (ram_buf w' p sz i)"
    by (auto simp: ram_cache_def split: if_splits)
next
  fix t u and start blkcnt sz p :: u32 and w w'
  assume w': "w' = blkcache_fill ram_cache t u start blkcnt sz p w"
  have "\<exists>i<unat blkcnt. n = start + of_nat i \<and> ram_buf w p sz (unat (n - start)) = ram_buf w p sz i"
    if "in_blocks start blkcnt n" for n
    using that by (intro exI [of _ "unat (n - start)"]) (simp add: in_blocks_def)
  then show "ram_medium w' = ram_medium w \<and> ram_buf w' = ram_buf w \<and>
      (\<forall>k n. ram_entries w' k n = ram_entries w k n \<or> ram_entries w' k n = None \<or>
        (\<exists>i<unat blkcnt. k = (t, u) \<and> n = start + of_nat i \<and> ram_entries w' k n = Some (ram_buf w p sz i)))"
    using w' by (auto simp: ram_cache_def)
next
  fix t u and w w'
  assume "w' = blkcache_invalidate ram_cache t u w"
  then show "ram_medium w' = ram_medium w \<and> ram_buf w' = ram_buf w \<and> (\<forall>n. ram_entries w' (t, u) n = None) \<and>
      (\<forall>k n. ram_entries w' k n = ram_entries w k n \<or> ram_entries w' k n = None)"
    by (auto simp: ram_cache_def)
qed

definition ram_start :: ram_world where
  "ram_start = \<lparr>ram_medium = (\<lambda>k n. 0), ram_buf = (\<lambda>p sz i. if p = 0x100 then 7 else 9),
     ram_entries = (\<lambda>k n. None)\<rparr>"

theorem blk_reads_what_was_written_witness:
  "ram_buf (snd (blk_dread ram_cache (ram_disk 1) 5 1 0x400
     (fold (blk_step ram_cache) [Erase (ram_disk 1) 6 1, Read (ram_disk 1) 5 1 0x200, Write (ram_disk 2) 5 1 0x300]
       (snd (blk_dwrite ram_cache (ram_disk 1) 5 1 0x100 ram_start))))) 0x400 1 0 = 7"
proof -
  let ?xs = "[Erase (ram_disk 1) 6 1, Read (ram_disk 1) 5 1 0x200, Write (ram_disk 2) 5 1 0x300]"
  let ?w1 = "snd (blk_dwrite ram_cache (ram_disk 1) 5 1 0x100 ram_start)"
  have c: "coherent ram_medium ram_entries ram_start" by (simp add: coherent_def ram_start_def)
  have w: "blk_dwrite ram_cache (ram_disk 1) 5 1 0x100 ram_start = (1, ?w1)"
    by (simp add: blk_dwrite_def ram_disk_def)
  have r: "blk_dread ram_cache (ram_disk 1) 5 1 0x400 (fold (blk_step ram_cache) ?xs ?w1) =
      (1, snd (blk_dread ram_cache (ram_disk 1) 5 1 0x400 (fold (blk_step ram_cache) ?xs ?w1)))"
    by (simp add: blk_dread_def ram_disk_def split: prod.split)
  have h: "\<forall>x\<in>set ?xs. honest_driver ram_medium ram_buf ram_entries (op_desc x)"
    by (simp_all add: ram_disk_honest)
  have d: "\<forall>x\<in>set ?xs. changes (key (ram_disk 1)) x \<inter> set (blocks_of 5 1) = {}"
    by (simp_all add: key_def ram_disk_def [of 1] ram_disk_def [of 2] blocks_of_def)
  have "blksz (ram_disk 1) = 1" by (simp add: ram_disk_def)
  then show ?thesis
    using blk_reads_what_was_written [OF ram_cache_laws c ram_disk_honest h w _ d r] by (simp add: ram_start_def)
qed

end
