(* ===== verification/Phy.thy ===== *)
theory Phy
  imports Prelude
begin

text \<open>
  Ethernet PHYs: access to the registers of a PHY through its management bus, with the
  indirect way to the registers of its MMDs (\<open>include/phy.h\<close>), the resolution of
  autonegotiation (\<open>include/linux/mii.h\<close>) and the names of the interfaces
  (\<open>include/phy_interface.h\<close>).  The bus and the accessors that a driver may bring are
  functions on the state of the world.
\<close>

section \<open>Registers\<close>

definition EINVAL :: int where "EINVAL = 22"
definition MDIO_DEVAD_NONE :: int where "MDIO_DEVAD_NONE = - 1"
definition MII_MMD_CTRL :: int where "MII_MMD_CTRL = 0x0d"
definition MII_MMD_DATA :: int where "MII_MMD_DATA = 0x0e"
definition MII_MMD_CTRL_NOINCR :: u32 where "MII_MMD_CTRL_NOINCR = 0x4000"

definition PHY_DEFAULT_FEATURES :: u32 where
  "PHY_DEFAULT_FEATURES = push_bit 6 1 OR push_bit 7 1 OR push_bit 9 1"

definition PHY_10BT_FEATURES :: u32 where
  "PHY_10BT_FEATURES = push_bit 0 1 OR push_bit 1 1"

definition PHY_100BT_FEATURES :: u32 where
  "PHY_100BT_FEATURES = push_bit 2 1 OR push_bit 3 1"

definition PHY_1000BT_FEATURES :: u32 where
  "PHY_1000BT_FEATURES = push_bit 4 1 OR push_bit 5 1"

definition PHY_BASIC_FEATURES :: u32 where
  "PHY_BASIC_FEATURES = PHY_10BT_FEATURES OR PHY_100BT_FEATURES OR PHY_DEFAULT_FEATURES"

definition PHY_GBIT_FEATURES :: u32 where
  "PHY_GBIT_FEATURES = PHY_BASIC_FEATURES OR PHY_1000BT_FEATURES"

definition PHY_10G_FEATURES :: u32 where
  "PHY_10G_FEATURES = PHY_GBIT_FEATURES OR push_bit 12 1"

text \<open>The arguments of \<open>read\<close> are the address of the PHY, the MMD and the register.\<close>

record 'w mii_dev =
  bus_read :: "int \<Rightarrow> int \<Rightarrow> int \<Rightarrow> 'w \<Rightarrow> int \<times> 'w"
  bus_write :: "int \<Rightarrow> int \<Rightarrow> int \<Rightarrow> u16 \<Rightarrow> 'w \<Rightarrow> int \<times> 'w"

record 'w phy_driver =
  features :: u32
  read_mmd :: "(int \<Rightarrow> int \<Rightarrow> 'w \<Rightarrow> int \<times> 'w) option"
  write_mmd :: "(int \<Rightarrow> int \<Rightarrow> u16 \<Rightarrow> 'w \<Rightarrow> int \<times> 'w) option"

record 'w phy_device =
  bus :: "'w mii_dev"
  drv :: "'w phy_driver"
  addr :: int

definition phy_read :: "'w phy_device \<Rightarrow> int \<Rightarrow> int \<Rightarrow> 'w \<Rightarrow> int \<times> 'w" where
  "phy_read phydev devad regnum = bus_read (bus phydev) (addr phydev) devad regnum"

definition phy_write :: "'w phy_device \<Rightarrow> int \<Rightarrow> int \<Rightarrow> u16 \<Rightarrow> 'w \<Rightarrow> int \<times> 'w" where
  "phy_write phydev devad regnum val = bus_write (bus phydev) (addr phydev) devad regnum val"

definition phy_mmd_start_indirect :: "'w phy_device \<Rightarrow> int \<Rightarrow> int \<Rightarrow> 'w \<Rightarrow> 'w" where
  "phy_mmd_start_indirect phydev devad regnum w =
     (let w1 = snd (phy_write phydev MDIO_DEVAD_NONE MII_MMD_CTRL (of_int devad) w);
          w2 = snd (phy_write phydev MDIO_DEVAD_NONE MII_MMD_DATA (of_int regnum) w1)
      in snd (phy_write phydev MDIO_DEVAD_NONE MII_MMD_CTRL (ucast (of_int devad OR MII_MMD_CTRL_NOINCR)) w2))"

definition direct_access :: "'w phy_device \<Rightarrow> int \<Rightarrow> bool" where
  "direct_access phydev devad \<longleftrightarrow>
     features (drv phydev) AND PHY_10G_FEATURES = PHY_10G_FEATURES \<or> devad = MDIO_DEVAD_NONE \<or> devad = 0"

definition phy_read_mmd :: "'w phy_device \<Rightarrow> int \<Rightarrow> int \<Rightarrow> 'w \<Rightarrow> int \<times> 'w" where
  "phy_read_mmd phydev devad regnum w =
     (if uint (NOT 0 :: u16) < regnum \<or> 32 < devad then (- EINVAL, w)
      else case read_mmd (drv phydev) of
        Some f \<Rightarrow> f devad regnum w
      | None \<Rightarrow>
          if direct_access phydev devad then phy_read phydev devad regnum w
          else phy_read phydev MDIO_DEVAD_NONE MII_MMD_DATA (phy_mmd_start_indirect phydev devad regnum w))"

definition phy_write_mmd :: "'w phy_device \<Rightarrow> int \<Rightarrow> int \<Rightarrow> u16 \<Rightarrow> 'w \<Rightarrow> int \<times> 'w" where
  "phy_write_mmd phydev devad regnum val w =
     (if uint (NOT 0 :: u16) < regnum \<or> 32 < devad then (- EINVAL, w)
      else case write_mmd (drv phydev) of
        Some f \<Rightarrow> f devad regnum val w
      | None \<Rightarrow>
          if direct_access phydev devad then phy_write phydev devad regnum val w
          else phy_write phydev MDIO_DEVAD_NONE MII_MMD_DATA val (phy_mmd_start_indirect phydev devad regnum w))"

section \<open>Interfaces\<close>

datatype phy_interface_t =
    PHY_INTERFACE_MODE_MII
  | PHY_INTERFACE_MODE_GMII
  | PHY_INTERFACE_MODE_SGMII
  | PHY_INTERFACE_MODE_SGMII_2500
  | PHY_INTERFACE_MODE_QSGMII
  | PHY_INTERFACE_MODE_TBI
  | PHY_INTERFACE_MODE_RMII
  | PHY_INTERFACE_MODE_RGMII
  | PHY_INTERFACE_MODE_RGMII_ID
  | PHY_INTERFACE_MODE_RGMII_RXID
  | PHY_INTERFACE_MODE_RGMII_TXID
  | PHY_INTERFACE_MODE_RTBI
  | PHY_INTERFACE_MODE_XGMII
  | PHY_INTERFACE_MODE_XAUI
  | PHY_INTERFACE_MODE_RXAUI
  | PHY_INTERFACE_MODE_SFI
  | PHY_INTERFACE_MODE_INTERNAL
  | PHY_INTERFACE_MODE_25G_AUI
  | PHY_INTERFACE_MODE_XLAUI
  | PHY_INTERFACE_MODE_CAUI2
  | PHY_INTERFACE_MODE_CAUI4
  | PHY_INTERFACE_MODE_NONE
  | PHY_INTERFACE_MODE_COUNT

primrec mode_no :: "phy_interface_t \<Rightarrow> nat" where
  "mode_no PHY_INTERFACE_MODE_MII = 0"
| "mode_no PHY_INTERFACE_MODE_GMII = 1"
| "mode_no PHY_INTERFACE_MODE_SGMII = 2"
| "mode_no PHY_INTERFACE_MODE_SGMII_2500 = 3"
| "mode_no PHY_INTERFACE_MODE_QSGMII = 4"
| "mode_no PHY_INTERFACE_MODE_TBI = 5"
| "mode_no PHY_INTERFACE_MODE_RMII = 6"
| "mode_no PHY_INTERFACE_MODE_RGMII = 7"
| "mode_no PHY_INTERFACE_MODE_RGMII_ID = 8"
| "mode_no PHY_INTERFACE_MODE_RGMII_RXID = 9"
| "mode_no PHY_INTERFACE_MODE_RGMII_TXID = 10"
| "mode_no PHY_INTERFACE_MODE_RTBI = 11"
| "mode_no PHY_INTERFACE_MODE_XGMII = 12"
| "mode_no PHY_INTERFACE_MODE_XAUI = 13"
| "mode_no PHY_INTERFACE_MODE_RXAUI = 14"
| "mode_no PHY_INTERFACE_MODE_SFI = 15"
| "mode_no PHY_INTERFACE_MODE_INTERNAL = 16"
| "mode_no PHY_INTERFACE_MODE_25G_AUI = 17"
| "mode_no PHY_INTERFACE_MODE_XLAUI = 18"
| "mode_no PHY_INTERFACE_MODE_CAUI2 = 19"
| "mode_no PHY_INTERFACE_MODE_CAUI4 = 20"
| "mode_no PHY_INTERFACE_MODE_NONE = 21"
| "mode_no PHY_INTERFACE_MODE_COUNT = 22"

text \<open>The order of the enumeration, which the code compares by.\<close>

instantiation phy_interface_t :: linorder
begin

definition less_eq_phy_interface_t :: "phy_interface_t \<Rightarrow> phy_interface_t \<Rightarrow> bool" where
  "less_eq_phy_interface_t a b \<longleftrightarrow> mode_no a \<le> mode_no b"

definition less_phy_interface_t :: "phy_interface_t \<Rightarrow> phy_interface_t \<Rightarrow> bool" where
  "less_phy_interface_t a b \<longleftrightarrow> mode_no a < mode_no b"

lemma mode_no_inj: "mode_no a = mode_no b \<Longrightarrow> a = b"
  by (cases a; cases b) simp_all

instance
  by intro_classes (auto simp: less_eq_phy_interface_t_def less_phy_interface_t_def intro: mode_no_inj)

end

definition phy_interface_strings :: "string list" where
  "phy_interface_strings = [''mii'', ''gmii'', ''sgmii'', ''sgmii-2500'', ''qsgmii'', ''tbi'',
     ''rmii'', ''rgmii'', ''rgmii-id'', ''rgmii-rxid'', ''rgmii-txid'', ''rtbi'',
     ''xgmii'', ''xaui'', ''rxaui'', ''sfi'', ''internal'', ''25g-aui'',
     ''xlaui4'', ''caui2'', ''caui4'', '''']"

definition phy_string_for_interface :: "phy_interface_t \<Rightarrow> string" where
  "phy_string_for_interface i =
     phy_interface_strings ! mode_no (if i > PHY_INTERFACE_MODE_NONE then PHY_INTERFACE_MODE_NONE else i)"

definition is_10g_interface :: "phy_interface_t \<Rightarrow> int" where
  "is_10g_interface interface = c_bool (interface = PHY_INTERFACE_MODE_XGMII)"

section \<open>Autonegotiation\<close>

definition LPA_10HALF :: u32 where "LPA_10HALF = 0x0020"
definition LPA_10FULL :: u32 where "LPA_10FULL = 0x0040"
definition LPA_100HALF :: u32 where "LPA_100HALF = 0x0080"
definition LPA_100FULL :: u32 where "LPA_100FULL = 0x0100"
definition LPA_100BASE4 :: u32 where "LPA_100BASE4 = 0x0200"
definition LPA_DUPLEX :: u32 where "LPA_DUPLEX = LPA_10FULL OR LPA_100FULL"
definition ADVERTISE_PAUSE_CAP :: u16 where "ADVERTISE_PAUSE_CAP = 0x0400"
definition ADVERTISE_PAUSE_ASYM :: u16 where "ADVERTISE_PAUSE_ASYM = 0x0800"
definition FLOW_CTRL_TX :: u8 where "FLOW_CTRL_TX = 0x01"
definition FLOW_CTRL_RX :: u8 where "FLOW_CTRL_RX = 0x02"

definition mii_nway_result :: "u32 \<Rightarrow> u32" where
  "mii_nway_result negotiated =
     (if negotiated AND LPA_100FULL \<noteq> 0 then LPA_100FULL
      else if negotiated AND LPA_100BASE4 \<noteq> 0 then LPA_100BASE4
      else if negotiated AND LPA_100HALF \<noteq> 0 then LPA_100HALF
      else if negotiated AND LPA_10FULL \<noteq> 0 then LPA_10FULL
      else LPA_10HALF)"

definition mii_duplex :: "u32 \<Rightarrow> u32 \<Rightarrow> u32" where
  "mii_duplex duplex_lock negotiated =
     (if duplex_lock \<noteq> 0 then 1
      else if mii_nway_result negotiated AND LPA_DUPLEX \<noteq> 0 then 1
      else 0)"

definition mii_resolve_flowctrl_fdx :: "u16 \<Rightarrow> u16 \<Rightarrow> u8" where
  "mii_resolve_flowctrl_fdx lcladv rmtadv =
     (if lcladv AND rmtadv AND ADVERTISE_PAUSE_CAP \<noteq> 0 then FLOW_CTRL_TX OR FLOW_CTRL_RX
      else if lcladv AND rmtadv AND ADVERTISE_PAUSE_ASYM \<noteq> 0
      then if lcladv AND ADVERTISE_PAUSE_CAP \<noteq> 0 then FLOW_CTRL_RX
           else if rmtadv AND ADVERTISE_PAUSE_CAP \<noteq> 0 then FLOW_CTRL_TX
           else 0
      else 0)"

lemmas mii_constants = LPA_10HALF_def LPA_10FULL_def LPA_100HALF_def LPA_100FULL_def LPA_100BASE4_def
  LPA_DUPLEX_def ADVERTISE_PAUSE_CAP_def ADVERTISE_PAUSE_ASYM_def FLOW_CTRL_TX_def FLOW_CTRL_RX_def

section \<open>The registers behind the control and the data register\<close>

text \<open>
  A PHY as clause 22 of IEEE 802.3 describes it: register 13 selects an MMD (bits 0 to 4) and
  a function (bits 14 and 15), register 14 is the address register of the selected MMD, or the
  register that it points at; two of the functions advance the address.
\<close>

record mmd_regs =
  ctl :: u16
  adrs :: "nat \<Rightarrow> u16"
  regs :: "nat \<Rightarrow> u16 \<Rightarrow> u16"

definition mmd_sel :: "mmd_regs \<Rightarrow> nat" where
  "mmd_sel s = unat (take_bit 5 (ctl s))"

definition mmd_fun :: "mmd_regs \<Rightarrow> u16" where
  "mmd_fun s = drop_bit 14 (ctl s)"

definition advance :: "bool \<Rightarrow> mmd_regs \<Rightarrow> mmd_regs" where
  "advance b s = (if b then s\<lparr>adrs := (adrs s)(mmd_sel s := adrs s (mmd_sel s) + 1)\<rparr> else s)"

definition data_write :: "u16 \<Rightarrow> mmd_regs \<Rightarrow> mmd_regs" where
  "data_write v s =
     (if mmd_fun s = 0 then s\<lparr>adrs := (adrs s)(mmd_sel s := v)\<rparr>
      else advance (2 \<le> mmd_fun s)
        (s\<lparr>regs := (regs s)(mmd_sel s := (regs s (mmd_sel s))(adrs s (mmd_sel s) := v))\<rparr>))"

definition data_read :: "mmd_regs \<Rightarrow> u16 \<times> mmd_regs" where
  "data_read s =
     (if mmd_fun s = 0 then (adrs s (mmd_sel s), s)
      else (regs s (mmd_sel s) (adrs s (mmd_sel s)), advance (mmd_fun s = 2) s))"

definition mmd_phy :: "'w mii_dev \<Rightarrow> int \<Rightarrow> ('w \<Rightarrow> mmd_regs) \<Rightarrow> bool" where
  "mmd_phy b a view \<longleftrightarrow>
     (\<forall>v w. \<exists>w'. bus_write b a (- 1) 13 v w = (0, w') \<and> view w' = (view w)\<lparr>ctl := v\<rparr>) \<and>
     (\<forall>v w. \<exists>w'. bus_write b a (- 1) 14 v w = (0, w') \<and> view w' = data_write v (view w)) \<and>
     (\<forall>w. \<exists>w'. bus_read b a (- 1) 14 w = (uint (fst (data_read (view w))), w') \<and>
        view w' = snd (data_read (view w)))"

lemma mmd_phyD:
  assumes "mmd_phy (bus d) (addr d) view"
  shows "\<exists>w'. phy_write d MDIO_DEVAD_NONE MII_MMD_CTRL v w = (0, w') \<and> view w' = (view w)\<lparr>ctl := v\<rparr>"
    and "\<exists>w'. phy_write d MDIO_DEVAD_NONE MII_MMD_DATA v w = (0, w') \<and> view w' = data_write v (view w)"
    and "\<exists>w'. phy_read d MDIO_DEVAD_NONE MII_MMD_DATA w = (uint (fst (data_read (view w))), w') \<and>
      view w' = snd (data_read (view w))"
  using assms unfolding mmd_phy_def phy_write_def phy_read_def MDIO_DEVAD_NONE_def MII_MMD_CTRL_def MII_MMD_DATA_def
  by simp_all

lemma last_register [simp]: "uint (- 1 :: u16) = 65535"
  by (simp add: unsigned_minus_1_eq_mask mask_eq_exp_minus_1)

lemma small_devad:
  assumes "0 \<le> devad" "devad \<le> 32"
  shows "mmd_sel (s\<lparr>ctl := of_int devad\<rparr>) = nat devad mod 32" "mmd_fun (s\<lparr>ctl := of_int devad\<rparr>) = 0"
    and "mmd_sel (s\<lparr>ctl := ucast (of_int devad OR MII_MMD_CTRL_NOINCR)\<rparr>) = nat devad mod 32"
    and "mmd_fun (s\<lparr>ctl := ucast (of_int devad OR MII_MMD_CTRL_NOINCR)\<rparr>) = 1"
proof -
  define n where "n = nat devad"
  have n: "devad = int n" "n \<le> 32" using assms by (simp_all add: n_def)
  have u: "unat (of_nat n :: u16) = n" using n(2) by (simp add: unat_of_nat)
  have c: "ucast ((of_nat n :: u32) OR MII_MMD_CTRL_NOINCR) = (of_nat n OR 0x4000 :: u16)"
    by (simp add: MII_MMD_CTRL_NOINCR_def unsigned_or_eq unsigned_of_nat take_bit_nat_eq_self n(2) le_less_trans [OF n(2)])
  have t: "unat (take_bit 5 (of_nat n :: u16)) = n mod 32"
    by (simp only: unsigned_take_bit_eq u) (simp add: take_bit_eq_mod)
  have f: "drop_bit 14 (of_nat n :: u16) = 0"
    by (rule word_unat_eq_iff [THEN iffD2], simp only: unat_drop_bit_eq u) (use n(2) in \<open>simp add: drop_bit_eq_div\<close>)
  show "mmd_sel (s\<lparr>ctl := of_int devad\<rparr>) = nat devad mod 32" "mmd_fun (s\<lparr>ctl := of_int devad\<rparr>) = 0"
    using t f n by (simp_all add: mmd_sel_def mmd_fun_def)
  show "mmd_sel (s\<lparr>ctl := ucast (of_int devad OR MII_MMD_CTRL_NOINCR)\<rparr>) = nat devad mod 32"
    "mmd_fun (s\<lparr>ctl := ucast (of_int devad OR MII_MMD_CTRL_NOINCR)\<rparr>) = 1"
    using t f n c by (simp_all add: mmd_sel_def mmd_fun_def take_bit_or drop_bit_or)
qed

lemma start_indirect:
  assumes "mmd_phy (bus d) (addr d) view" "0 \<le> devad" "devad \<le> 32"
  shows "view (phy_mmd_start_indirect d devad regnum w) =
    (view w)\<lparr>ctl := ucast (of_int devad OR MII_MMD_CTRL_NOINCR), adrs := (adrs (view w))(nat devad mod 32 := of_int regnum)\<rparr>"
proof -
  obtain w1 where w1: "phy_write d MDIO_DEVAD_NONE MII_MMD_CTRL (of_int devad) w = (0, w1)"
    "view w1 = (view w)\<lparr>ctl := of_int devad\<rparr>" using mmd_phyD(1) [OF assms(1)] by blast
  obtain w2 where w2: "phy_write d MDIO_DEVAD_NONE MII_MMD_DATA (of_int regnum) w1 = (0, w2)"
    "view w2 = data_write (of_int regnum) (view w1)" using mmd_phyD(2) [OF assms(1)] by blast
  obtain w3 where w3: "phy_write d MDIO_DEVAD_NONE MII_MMD_CTRL (ucast (of_int devad OR MII_MMD_CTRL_NOINCR)) w2 = (0, w3)"
    "view w3 = (view w2)\<lparr>ctl := ucast (of_int devad OR MII_MMD_CTRL_NOINCR)\<rparr>" using mmd_phyD(1) [OF assms(1)] by blast
  have "phy_mmd_start_indirect d devad regnum w = w3"
    by (simp add: phy_mmd_start_indirect_def w1(1) w2(1) w3(1))
  then show ?thesis using small_devad [OF assms(2,3)] by (simp add: w1(2) w2(2) w3(2) data_write_def)
qed

definition indirect_only :: "'w phy_device \<Rightarrow> bool" where
  "indirect_only d \<longleftrightarrow> read_mmd (drv d) = None \<and> write_mmd (drv d) = None \<and>
     features (drv d) AND PHY_10G_FEATURES \<noteq> PHY_10G_FEATURES"

lemma read_mmd_value:
  assumes "mmd_phy (bus d) (addr d) view" "indirect_only d" "1 \<le> devad" "devad \<le> 32" "regnum \<le> 65535"
  shows "\<exists>w'. phy_read_mmd d devad regnum w = (uint (regs (view w) (nat devad mod 32) (of_int regnum)), w') \<and>
    regs (view w') = regs (view w)"
proof -
  let ?w1 = "phy_mmd_start_indirect d devad regnum w"
  obtain w' where w': "phy_read d MDIO_DEVAD_NONE MII_MMD_DATA ?w1 = (uint (fst (data_read (view ?w1))), w')"
    "view w' = snd (data_read (view ?w1))" using mmd_phyD(3) [OF assms(1)] by blast
  have v: "view ?w1 = (view w)\<lparr>adrs := (adrs (view w))(nat devad mod 32 := of_int regnum)\<rparr>
      \<lparr>ctl := ucast (of_int devad OR MII_MMD_CTRL_NOINCR)\<rparr>"
    using start_indirect [OF assms(1) _ assms(4)] assms(3) by simp
  have "phy_read_mmd d devad regnum w = phy_read d MDIO_DEVAD_NONE MII_MMD_DATA ?w1"
    using assms(2-5) by (simp add: phy_read_mmd_def indirect_only_def direct_access_def MDIO_DEVAD_NONE_def)
  then show ?thesis using w' small_devad(3,4) [of devad] assms(3,4) by (simp add: v data_read_def advance_def)
qed

lemma write_mmd_value:
  assumes "mmd_phy (bus d) (addr d) view" "indirect_only d" "1 \<le> devad" "devad \<le> 32" "regnum \<le> 65535"
  shows "\<exists>w'. phy_write_mmd d devad regnum val w = (0, w') \<and> regs (view w') = (regs (view w))
    (nat devad mod 32 := (regs (view w) (nat devad mod 32))(of_int regnum := val))"
proof -
  let ?w1 = "phy_mmd_start_indirect d devad regnum w"
  obtain w' where w': "phy_write d MDIO_DEVAD_NONE MII_MMD_DATA val ?w1 = (0, w')"
    "view w' = data_write val (view ?w1)" using mmd_phyD(2) [OF assms(1)] by blast
  have v: "view ?w1 = (view w)\<lparr>adrs := (adrs (view w))(nat devad mod 32 := of_int regnum)\<rparr>
      \<lparr>ctl := ucast (of_int devad OR MII_MMD_CTRL_NOINCR)\<rparr>"
    using start_indirect [OF assms(1) _ assms(4)] assms(3) by simp
  have "phy_write_mmd d devad regnum val w = phy_write d MDIO_DEVAD_NONE MII_MMD_DATA val ?w1"
    using assms(2-5) by (simp add: phy_write_mmd_def indirect_only_def direct_access_def MDIO_DEVAD_NONE_def)
  then show ?thesis using w' small_devad(3,4) [of devad] assms(3,4) by (simp add: v data_write_def advance_def)
qed

text \<open>
  C11: on a PHY that keeps the rules of clause 22, the sequence of four bus accesses makes the
  registers of the MMDs readable and writable like an array: a write changes the named register
  and no other, and a read of any register yields its value and changes none.  Both accept 32 as
  the number of an MMD, which reaches MMD 0, and refuse what is larger, and register numbers
  beyond 16 bits, without an access.
\<close>

theorem phy_mmd_array:
  assumes "mmd_phy (bus d) (addr d) view" "indirect_only d" "1 \<le> devad" "devad \<le> 32" "regnum \<le> 65535"
    and "1 \<le> devad'" "devad' \<le> 32" "regnum' \<le> 65535" "65535 < bad_reg" "32 < bad_dev"
  shows "\<exists>w1 w2. phy_write_mmd d devad regnum val w = (0, w1) \<and>
    regs (view w1) = (regs (view w))(nat devad mod 32 := (regs (view w) (nat devad mod 32))(of_int regnum := val)) \<and>
    phy_read_mmd d devad' regnum' w1 = (uint (regs (view w1) (nat devad' mod 32) (of_int regnum')), w2) \<and>
    regs (view w2) = regs (view w1) \<and>
    phy_read_mmd d k bad_reg w2 = (- EINVAL, w2) \<and> phy_write_mmd d k bad_reg val w2 = (- EINVAL, w2) \<and>
    phy_read_mmd d bad_dev r w2 = (- EINVAL, w2) \<and> phy_write_mmd d bad_dev r val w2 = (- EINVAL, w2)"
proof -
  obtain w1 where w1: "phy_write_mmd d devad regnum val w = (0, w1)"
    "regs (view w1) = (regs (view w))(nat devad mod 32 := (regs (view w) (nat devad mod 32))(of_int regnum := val))"
    using write_mmd_value [OF assms(1-5)] by blast
  obtain w2 where w2: "phy_read_mmd d devad' regnum' w1 = (uint (regs (view w1) (nat devad' mod 32) (of_int regnum')), w2)"
    "regs (view w2) = regs (view w1)" using read_mmd_value [OF assms(1,2,6-8)] by blast
  have "phy_read_mmd d k bad_reg w2 = (- EINVAL, w2)" "phy_write_mmd d k bad_reg val w2 = (- EINVAL, w2)"
    "phy_read_mmd d bad_dev r w2 = (- EINVAL, w2)" "phy_write_mmd d bad_dev r val w2 = (- EINVAL, w2)"
    using assms(9,10) by (simp_all add: phy_read_mmd_def phy_write_mmd_def)
  with w1 w2 show ?thesis by blast
qed

text \<open>A PHY that consists of these registers only, and one on a bus whose next access fails.\<close>

definition plain_bus :: "mmd_regs mii_dev" where
  "plain_bus = \<lparr>
     bus_read = (\<lambda>a k r s. if r = 14 then (uint (fst (data_read s)), snd (data_read s)) else (0, s)),
     bus_write = (\<lambda>a k r v s. if r = 13 then (0, s\<lparr>ctl := v\<rparr>) else (0, data_write v s))\<rparr>"

definition flaky_bus :: "(bool \<times> mmd_regs) mii_dev" where
  "flaky_bus = \<lparr>
     bus_read = (\<lambda>a k r (f, s). map_prod id (Pair False) (if f then (- 5, s) else bus_read plain_bus a k r s)),
     bus_write = (\<lambda>a k r v (f, s). map_prod id (Pair False) (if f then (- 5, s) else bus_write plain_bus a k r v s))\<rparr>"

definition phy_on :: "'w mii_dev \<Rightarrow> 'w phy_device" where
  "phy_on b = \<lparr>bus = b, drv = \<lparr>features = PHY_GBIT_FEATURES, read_mmd = None, write_mmd = None\<rparr>, addr = 1\<rparr>"

definition cleared :: mmd_regs where
  "cleared = \<lparr>ctl = 0, adrs = (\<lambda>k. 0), regs = (\<lambda>k r. 0)\<rparr>"

lemmas feature_sets = PHY_10G_FEATURES_def PHY_GBIT_FEATURES_def PHY_BASIC_FEATURES_def PHY_10BT_FEATURES_def
  PHY_100BT_FEATURES_def PHY_1000BT_FEATURES_def PHY_DEFAULT_FEATURES_def

lemma phy_on_facts [simp]:
  "bus (phy_on b) = b" "addr (phy_on b) = 1" "indirect_only (phy_on b)"
  by (simp_all add: phy_on_def indirect_only_def feature_sets)

theorem phy_mmd_array_witness:
  "\<exists>w1 w2. phy_write_mmd (phy_on plain_bus) 3 0x14 5 cleared = (0, w1) \<and>
    phy_read_mmd (phy_on plain_bus) 3 0x14 w1 = (5, w2)"
proof -
  have "mmd_phy (bus (phy_on plain_bus)) (addr (phy_on plain_bus)) id"
    by (simp add: mmd_phy_def plain_bus_def)
  from phy_mmd_array [OF this phy_on_facts(3), where devad = 3 and regnum = "0x14" and devad' = 3 and regnum' = "0x14"
      and bad_reg = 65536 and bad_dev = 33 and val = 5 and w = cleared and k = 1 and r = 1]
  obtain w1 w2 where "phy_write_mmd (phy_on plain_bus) 3 0x14 5 cleared = (0, w1)"
    "regs w1 = (regs cleared)(3 := (regs cleared 3)(0x14 := 5))"
    "phy_read_mmd (phy_on plain_bus) 3 0x14 w1 = (uint (regs w1 3 0x14), w2)" by auto
  then show ?thesis by simp
qed

lemma phy_mmd_errors_lost:
  "fst (phy_write_mmd (phy_on flaky_bus) 3 0x14 5 (True, cleared)) = 0 \<and>
   regs (snd (snd (phy_write_mmd (phy_on flaky_bus) 3 0x14 5 (True, cleared)))) 3 0x14 = 0"
proof -
  have "\<not> direct_access (phy_on flaky_bus) 3"
    by (simp add: direct_access_def phy_on_def feature_sets MDIO_DEVAD_NONE_def)
  then show ?thesis
    by (simp add: phy_write_mmd_def phy_mmd_start_indirect_def phy_write_def MII_MMD_CTRL_def MII_MMD_DATA_def
        MII_MMD_CTRL_NOINCR_def flaky_bus_def plain_bus_def phy_on_def cleared_def data_write_def mmd_fun_def mmd_sel_def
        advance_def)
qed

section \<open>Resolution\<close>

lemma single_bit_tests:
  "x AND LPA_100FULL = 0 \<longleftrightarrow> \<not> bit x 8" "x AND LPA_100BASE4 = 0 \<longleftrightarrow> \<not> bit x 9"
  "x AND LPA_100HALF = 0 \<longleftrightarrow> \<not> bit x 7" "x AND LPA_10FULL = 0 \<longleftrightarrow> \<not> bit x 6"
  "y AND ADVERTISE_PAUSE_CAP = 0 \<longleftrightarrow> \<not> bit y 10" "y AND ADVERTISE_PAUSE_ASYM = 0 \<longleftrightarrow> \<not> bit y 11"
proof -
  have c: "LPA_100FULL = push_bit 8 1" "LPA_100BASE4 = push_bit 9 1" "LPA_100HALF = push_bit 7 1"
    "LPA_10FULL = push_bit 6 1" "ADVERTISE_PAUSE_CAP = push_bit 10 1" "ADVERTISE_PAUSE_ASYM = push_bit 11 1"
    by (simp_all add: mii_constants)
  show "x AND LPA_100FULL = 0 \<longleftrightarrow> \<not> bit x 8" "x AND LPA_100BASE4 = 0 \<longleftrightarrow> \<not> bit x 9"
    "x AND LPA_100HALF = 0 \<longleftrightarrow> \<not> bit x 7" "x AND LPA_10FULL = 0 \<longleftrightarrow> \<not> bit x 6"
    "y AND ADVERTISE_PAUSE_CAP = 0 \<longleftrightarrow> \<not> bit y 10" "y AND ADVERTISE_PAUSE_ASYM = 0 \<longleftrightarrow> \<not> bit y 11"
    unfolding c by (simp_all add: bit_iff_and_push_bit_not_eq_0)
qed

lemma common_bit_tests:
  "x AND y AND ADVERTISE_PAUSE_CAP = 0 \<longleftrightarrow> \<not> (bit x 10 \<and> bit y 10)"
  "x AND y AND ADVERTISE_PAUSE_ASYM = 0 \<longleftrightarrow> \<not> (bit x 11 \<and> bit y 11)"
  using single_bit_tests(5,6) [of "x AND y"] by (simp_all add: and.assoc bit_and_iff)

text \<open>
  the duplex mode follows the order of IEEE 802.3: a full duplex result at 100 Mbit/s counts
  always, at 10 Mbit/s only without any 100 Mbit/s mode; and flow control is resolved by the table of the standard:
  both directions when both sides can pause, one direction when both can do so asymmetrically and
  exactly one can pause; the two ends of a link never disagree.
\<close>

theorem mii_resolution:
  "(mii_duplex lock neg = 1 \<longleftrightarrow> lock \<noteq> 0 \<or> bit neg 8 \<or> (bit neg 6 \<and> \<not> bit neg 7 \<and> \<not> bit neg 9)) \<and>
   (mii_duplex lock neg = 0 \<or> mii_duplex lock neg = 1) \<and>
   (bit (mii_resolve_flowctrl_fdx l r) 0 \<longleftrightarrow> bit r 10 \<and> (bit l 10 \<or> bit l 11 \<and> bit r 11)) \<and>
   (bit (mii_resolve_flowctrl_fdx l r) 1 \<longleftrightarrow> bit l 10 \<and> (bit r 10 \<or> bit l 11 \<and> bit r 11)) \<and>
   (bit (mii_resolve_flowctrl_fdx l r) 0 \<longleftrightarrow> bit (mii_resolve_flowctrl_fdx r l) 1)"
proof -
  have d: "LPA_100FULL AND LPA_DUPLEX \<noteq> 0" "LPA_10FULL AND LPA_DUPLEX \<noteq> 0" "LPA_100BASE4 AND LPA_DUPLEX = 0"
    "LPA_100HALF AND LPA_DUPLEX = 0" "LPA_10HALF AND LPA_DUPLEX = 0" by (simp_all add: mii_constants)
  have f: "bit FLOW_CTRL_TX 0" "\<not> bit FLOW_CTRL_TX 1" "\<not> bit FLOW_CTRL_RX 0" "bit FLOW_CTRL_RX 1"
    by (simp_all add: mii_constants)
  have t: "bit (mii_resolve_flowctrl_fdx l r) 0 \<longleftrightarrow> bit r 10 \<and> (bit l 10 \<or> bit l 11 \<and> bit r 11)"
    and x: "bit (mii_resolve_flowctrl_fdx l r) 1 \<longleftrightarrow> bit l 10 \<and> (bit r 10 \<or> bit l 11 \<and> bit r 11)" for l r
    unfolding mii_resolve_flowctrl_fdx_def common_bit_tests single_bit_tests using f by (auto simp: bit_or_iff)
  have "mii_duplex lock neg = (if lock \<noteq> 0 \<or> bit neg 8 \<or> (bit neg 6 \<and> \<not> bit neg 7 \<and> \<not> bit neg 9) then 1 else 0)"
    unfolding mii_duplex_def mii_nway_result_def single_bit_tests using d by simp
  then show ?thesis unfolding t x by auto
qed

text \<open>The names of the interfaces are distinct, and there is one for every value.\<close>

lemma interface_names:
  "distinct phy_interface_strings \<and> (phy_string_for_interface i = [] \<longleftrightarrow> i \<ge> PHY_INTERFACE_MODE_NONE)"
  by (cases i) (simp_all add: phy_interface_strings_def phy_string_for_interface_def less_phy_interface_t_def less_eq_phy_interface_t_def)

end
