(* ===== verification/Boot.thy ===== *)
theory Boot
  imports Prelude
begin

text \<open>
  Starting the machine: the list of initialisation functions (\<open>include/initcall.h\<close>) and the
  boot counter (\<open>include/bootcount.h\<close>).  The functions of the list, the storage of the
  counter and the environment are outside the repository: functions on the state of the world.
  What is printed is left out.
\<close>

section \<open>Initialisation functions\<close>

text \<open>
  The sequence is an array of function pointers whose end the code recognises by a null pointer
  (\<open>None\<close>); running past the array is an error.
\<close>

fun initcall_run_list :: "('w \<Rightarrow> int \<times> 'w) option list \<Rightarrow> 'w \<Rightarrow> ub + (int \<times> 'w)" where
  "initcall_run_list [] w = Inl OutOfBounds"
| "initcall_run_list (None # fs) w = Inr (0, w)"
| "initcall_run_list (Some f # fs) w =
     (let (ret, w1) = f w
      in if ret \<noteq> 0 then Inr (- 1, w1) else initcall_run_list fs w1)"

definition calls :: "('w \<Rightarrow> int \<times> 'w) list \<Rightarrow> 'w \<Rightarrow> 'w" where
  "calls fs w = fold (\<lambda>f w. snd (f w)) fs w"

definition call_result :: "('w \<Rightarrow> int \<times> 'w) list \<Rightarrow> 'w \<Rightarrow> nat \<Rightarrow> int" where
  "call_result fs w i = fst ((fs ! i) (calls (take i fs) w))"

lemma calls_Cons [simp]: "calls (f # fs) w = calls fs (snd (f w))"
  by (simp add: calls_def)

lemma calls_Nil [simp]: "calls [] w = w"
  by (simp add: calls_def)

lemma call_result_Cons [simp]:
  "call_result (f # fs) w 0 = fst (f w)"
  "call_result (f # fs) w (Suc i) = call_result fs (snd (f w)) i"
  by (simp_all add: call_result_def)

lemma run_list_ok:
  "\<forall>i<length fs. call_result fs w i = 0 \<Longrightarrow> initcall_run_list (map Some fs @ None # rest) w = Inr (0, calls fs w)"
proof (induction fs arbitrary: w)
  case (Cons f fs)
  have "fst (f w) = 0" using Cons.prems by fastforce
  moreover have "\<forall>i<length fs. call_result fs (snd (f w)) i = 0" using Cons.prems by fastforce
  ultimately show ?case using Cons.IH by (simp add: case_prod_beta)
qed simp

lemma run_list_fails:
  assumes "k < length fs" "call_result fs w k \<noteq> 0" "\<forall>i<k. call_result fs w i = 0"
  shows "initcall_run_list (map Some fs @ rest) w = Inr (- 1, calls (take (Suc k) fs) w)"
  using assms
proof (induction fs arbitrary: w k)
  case (Cons f fs)
  show ?case
  proof (cases k)
    case 0
    then show ?thesis using Cons.prems by (simp add: case_prod_beta)
  next
    case (Suc j)
    have "fst (f w) = 0" using Cons.prems(3) Suc by fastforce
    moreover have "\<forall>i<j. call_result fs (snd (f w)) i = 0" using Cons.prems(3) Suc by fastforce
    ultimately show ?thesis using Cons.IH [of j "snd (f w)"] Cons.prems Suc by (simp add: case_prod_beta)
  qed
qed simp

section \<open>The boot counter\<close>

definition GD_FLG_SPL_INIT :: u32 where
  "GD_FLG_SPL_INIT = 0x00400"

record config =
  SPL_BUILD :: bool
  SPL_BOOTCOUNT_LIMIT :: bool
  BOOTCOUNT_LIMIT :: bool

record 'w boot_io =
  flags :: u32
  count_load :: "'w \<Rightarrow> u32 \<times> 'w"
  count_store :: "u32 \<Rightarrow> 'w \<Rightarrow> 'w"
  env_get_ulong :: "string \<Rightarrow> u32 \<Rightarrow> u32 \<Rightarrow> 'w \<Rightarrow> u32"
  env_set_ulong :: "string \<Rightarrow> u32 \<Rightarrow> 'w \<Rightarrow> 'w"

definition counting :: "config \<Rightarrow> bool" where
  "counting cfg \<longleftrightarrow> SPL_BOOTCOUNT_LIMIT cfg \<or> BOOTCOUNT_LIMIT cfg"

definition bootcount_store :: "config \<Rightarrow> 'w boot_io \<Rightarrow> u32 \<Rightarrow> 'w \<Rightarrow> 'w" where
  "bootcount_store cfg io a w =
     (if SPL_BUILD cfg \<and> \<not> SPL_BOOTCOUNT_LIMIT cfg then w else count_store io a w)"

definition bootcount_load :: "config \<Rightarrow> 'w boot_io \<Rightarrow> 'w \<Rightarrow> u32 \<times> 'w" where
  "bootcount_load cfg io w =
     (if SPL_BUILD cfg \<and> \<not> SPL_BOOTCOUNT_LIMIT cfg then (0, w) else count_load io w)"

definition bootcount_error :: "config \<Rightarrow> 'w boot_io \<Rightarrow> 'w \<Rightarrow> int \<times> 'w" where
  "bootcount_error cfg io w =
     (if counting cfg
      then let (bootcount, w1) = bootcount_load cfg io w;
               bootlimit = env_get_ulong io ''bootlimit'' 10 0 w1
           in if bootlimit \<noteq> 0 \<and> bootlimit < bootcount then (1, w1) else (0, w1)
      else (0, w))"

definition bootcount_inc :: "config \<Rightarrow> 'w boot_io \<Rightarrow> 'w \<Rightarrow> 'w" where
  "bootcount_inc cfg io w =
     (if counting cfg
      then let (bootcount, w1) = bootcount_load cfg io w
           in if flags io AND GD_FLG_SPL_INIT \<noteq> 0
              then bootcount_store cfg io (bootcount + 1) w1
              else if \<not> SPL_BUILD cfg
              then if \<not> SPL_BOOTCOUNT_LIMIT cfg
                   then env_set_ulong io ''bootcount'' (bootcount + 1) (bootcount_store cfg io (bootcount + 1) w1)
                   else env_set_ulong io ''bootcount'' bootcount w1
              else w1
      else w)"

text \<open>
  One start of the machine: the first stage, built with \<open>SPL_BUILD\<close>, which sets its flag, and
  then the main program, which does not.
\<close>

definition spl_stage :: "config \<Rightarrow> 'w boot_io \<Rightarrow> 'w \<Rightarrow> 'w" where
  "spl_stage cfg io = bootcount_inc (cfg\<lparr>SPL_BUILD := True\<rparr>) (io\<lparr>flags := GD_FLG_SPL_INIT\<rparr>)"

definition main_stage :: "config \<Rightarrow> 'w boot_io \<Rightarrow> 'w \<Rightarrow> 'w" where
  "main_stage cfg io = bootcount_inc (cfg\<lparr>SPL_BUILD := False\<rparr>) (io\<lparr>flags := 0\<rparr>)"

definition start :: "config \<Rightarrow> 'w boot_io \<Rightarrow> 'w \<Rightarrow> 'w" where
  "start cfg io w = main_stage cfg io (spl_stage cfg io w)"

text \<open>What the storage and the environment promise.\<close>

definition keeps_count :: "'w boot_io \<Rightarrow> ('w \<Rightarrow> u32) \<Rightarrow> ('w \<Rightarrow> string \<Rightarrow> u32 option) \<Rightarrow> bool" where
  "keeps_count io count env \<longleftrightarrow>
     (\<forall>w. fst (count_load io w) = count w \<and> count (snd (count_load io w)) = count w \<and> env (snd (count_load io w)) = env w) \<and>
     (\<forall>a w. count (count_store io a w) = a \<and> env (count_store io a w) = env w) \<and>
     (\<forall>n a w. count (env_set_ulong io n a w) = count w \<and> env (env_set_ulong io n a w) = (env w)(n \<mapsto> a)) \<and>
     (\<forall>n b d w. env_get_ulong io n b d w = (case env w n of None \<Rightarrow> d | Some v \<Rightarrow> v))"

definition limit_of :: "(string \<Rightarrow> u32 option) \<Rightarrow> u32" where
  "limit_of e = (case e ''bootlimit'' of None \<Rightarrow> 0 | Some v \<Rightarrow> v)"

lemma start_counts:
  assumes "keeps_count io count env" "counting cfg"
  shows "count (start cfg io w) = count w + 1 \<and> env (start cfg io w) = (env w)(''bootcount'' \<mapsto> count w + 1)"
  using assms
  by (auto simp: start_def main_stage_def spl_stage_def bootcount_inc_def bootcount_load_def bootcount_store_def
      counting_def keeps_count_def GD_FLG_SPL_INIT_def case_prod_beta)

lemma starts_count:
  assumes "keeps_count io count env" "counting cfg"
  shows "count ((start cfg io ^^ n) w) = count w + of_nat n \<and>
    (\<forall>v. v \<noteq> ''bootcount'' \<longrightarrow> env ((start cfg io ^^ n) w) v = env w v) \<and>
    (n \<noteq> 0 \<longrightarrow> env ((start cfg io ^^ n) w) ''bootcount'' = Some (count w + of_nat n))"
proof (induction n)
  case (Suc n)
  then show ?case using start_counts [OF assms, of "(start cfg io ^^ n) w"] by (simp add: algebra_simps)
qed simp

text \<open>
  C18: whether the first stage counts or the main program, a start of the machine is counted
  exactly once, and the environment of the main program has the same number; so the limit is reported
  as exceeded exactly from the start on whose number is above it, until the 32-bit counter wraps.
  Without a limit in the environment it is never reported.
\<close>

theorem starts_are_counted:
  assumes "keeps_count io count env" "counting cfg" "unat (count w) + n < 2 ^ 32"
  shows "unat (count ((start cfg io ^^ n) w)) = unat (count w) + n \<and>
    (n \<noteq> 0 \<longrightarrow> env ((start cfg io ^^ n) w) ''bootcount'' = Some (count ((start cfg io ^^ n) w))) \<and>
    fst (bootcount_error (cfg\<lparr>SPL_BUILD := False\<rparr>) io ((start cfg io ^^ n) w)) =
      c_bool (limit_of (env w) \<noteq> 0 \<and> unat (limit_of (env w)) < unat (count w) + n)"
proof -
  let ?w = "(start cfg io ^^ n) w"
  note s = starts_count [OF assms(1,2), of n w]
  have u: "unat (count ?w) = unat (count w) + n"
    using s assms(3) by (simp add: unat_add_lem [THEN iffD1] unat_of_nat)
  have e: "env ?w ''bootlimit'' = env w ''bootlimit''" using s by simp
  have "env_get_ulong io ''bootlimit'' 10 0 (snd (count_load io ?w)) = limit_of (env w)"
    using assms(1) e by (simp add: keeps_count_def limit_of_def)
  moreover have "fst (count_load io ?w) = count ?w" using assms(1) by (simp add: keeps_count_def)
  ultimately have "fst (bootcount_error (cfg\<lparr>SPL_BUILD := False\<rparr>) io ?w) =
      c_bool (limit_of (env w) \<noteq> 0 \<and> limit_of (env w) < count ?w)"
    using assms(2) by (simp add: bootcount_error_def bootcount_load_def counting_def case_prod_beta Let_def)
  then show ?thesis using u s by (simp add: word_less_nat_alt)
qed

definition sample_io :: "(u32 \<times> (string \<Rightarrow> u32 option)) boot_io" where
  "sample_io = \<lparr>flags = 0, count_load = (\<lambda>w. (fst w, w)), count_store = (\<lambda>a w. (a, snd w)),
     env_get_ulong = (\<lambda>n b d w. case snd w n of None \<Rightarrow> d | Some v \<Rightarrow> v),
     env_set_ulong = (\<lambda>n a w. (fst w, (snd w)(n \<mapsto> a)))\<rparr>"

theorem starts_are_counted_witness:
  "fst (bootcount_error \<lparr>SPL_BUILD = False, SPL_BOOTCOUNT_LIMIT = True, BOOTCOUNT_LIMIT = True\<rparr> sample_io
     ((start \<lparr>SPL_BUILD = False, SPL_BOOTCOUNT_LIMIT = True, BOOTCOUNT_LIMIT = True\<rparr> sample_io ^^ 4)
       (0, [''bootlimit'' \<mapsto> 3]))) = 1"
proof -
  have "keeps_count sample_io fst snd" by (simp add: keeps_count_def sample_io_def)
  from starts_are_counted [OF this, of "\<lparr>SPL_BUILD = False, SPL_BOOTCOUNT_LIMIT = True, BOOTCOUNT_LIMIT = True\<rparr>"
      "(0, [''bootlimit'' \<mapsto> 3])" 4]
  show ?thesis by (simp add: counting_def limit_of_def)
qed

text \<open>
  the list of initialisation functions runs in order until one returns a value other than
  0; nothing after it runs, and the result is -1; if none does, the result is 0 and all have run.
\<close>

theorem initcalls_stop_at_failure:
  "\<exists>ret w'. initcall_run_list (map Some fs @ None # rest) w = Inr (ret, w') \<and>
    (ret = 0 \<and> w' = calls fs w \<and> (\<forall>i<length fs. call_result fs w i = 0) \<or>
     ret = - 1 \<and> (\<exists>k<length fs. w' = calls (take (Suc k) fs) w \<and> call_result fs w k \<noteq> 0 \<and>
       (\<forall>i<k. call_result fs w i = 0)))"
proof (cases "\<forall>i<length fs. call_result fs w i = 0")
  case True
  then show ?thesis using run_list_ok [OF True] by blast
next
  case False
  define k where "k = (LEAST i. i < length fs \<and> call_result fs w i \<noteq> 0)"
  have k: "k < length fs" "call_result fs w k \<noteq> 0"
    using False LeastI_ex [of "\<lambda>i. i < length fs \<and> call_result fs w i \<noteq> 0"] unfolding k_def by blast+
  have "call_result fs w i = 0" if "i < k" for i
    using that k(1) not_less_Least [of i "\<lambda>i. i < length fs \<and> call_result fs w i \<noteq> 0"] unfolding k_def by force
  then show ?thesis using run_list_fails [OF k] k by blast
qed

theorem initcalls_stop_at_failure_witness:
  "initcall_run_list (map Some [\<lambda>w. (0, w + 1), \<lambda>w. (5, w + 10), \<lambda>w. (0, w + 100)] @ [None]) (0 :: int) = Inr (- 1, 11)"
  using initcalls_stop_at_failure [of "[\<lambda>w. (0, w + 1), \<lambda>w. (5, w + 10), \<lambda>w. (0, w + 100)]" "[]" "0 :: int"] by simp

end
