(* ===== verification/IoMem.thy ===== *)
theory IoMem
  imports Unaligned
begin

text \<open>
  Access to memory-mapped registers: the macros and functions of \<open>arch/arm/include/asm/io.h\<close>.
  The volatile accesses to an address and the barriers are functions on the state of the world;
  \<open>io\<close> and \<open>mem_isa\<close> are the address maps of a machine.  At the end the device is memory of
  a host of either byte order, and the macros are shown to work on the bytes they name.
\<close>

section \<open>Accesses\<close>

record 'w mmio =
  getb :: "u32 \<Rightarrow> 'w \<Rightarrow> u8 \<times> 'w"
  getw :: "u32 \<Rightarrow> 'w \<Rightarrow> u16 \<times> 'w"
  getl :: "u32 \<Rightarrow> 'w \<Rightarrow> u32 \<times> 'w"
  getq :: "u32 \<Rightarrow> 'w \<Rightarrow> u64 \<times> 'w"
  putb :: "u8 \<Rightarrow> u32 \<Rightarrow> 'w \<Rightarrow> 'w"
  putw :: "u16 \<Rightarrow> u32 \<Rightarrow> 'w \<Rightarrow> 'w"
  putl :: "u32 \<Rightarrow> u32 \<Rightarrow> 'w \<Rightarrow> 'w"
  putq :: "u64 \<Rightarrow> u32 \<Rightarrow> 'w \<Rightarrow> 'w"
  dmb :: "'w \<Rightarrow> 'w"
  dsb :: "'w \<Rightarrow> 'w"

definition mb :: "'w mmio \<Rightarrow> 'w \<Rightarrow> 'w" where
  "mb I w = dsb I w"

definition iormb :: "'w mmio \<Rightarrow> 'w \<Rightarrow> 'w" where
  "iormb I w = dmb I w"

definition iowmb :: "'w mmio \<Rightarrow> 'w \<Rightarrow> 'w" where
  "iowmb I w = dmb I w"

definition raw_writeb :: "'w mmio \<Rightarrow> u8 \<Rightarrow> u32 \<Rightarrow> 'w \<Rightarrow> 'w" where
  "raw_writeb I v a w = putb I v a w"

definition raw_readb :: "'w mmio \<Rightarrow> u32 \<Rightarrow> 'w \<Rightarrow> u8 \<times> 'w" where
  "raw_readb I a w = getb I a w"

definition raw_writew :: "'w mmio \<Rightarrow> u16 \<Rightarrow> u32 \<Rightarrow> 'w \<Rightarrow> 'w" where
  "raw_writew I v a w = putw I v a w"

definition raw_readw :: "'w mmio \<Rightarrow> u32 \<Rightarrow> 'w \<Rightarrow> u16 \<times> 'w" where
  "raw_readw I a w = getw I a w"

definition raw_writel :: "'w mmio \<Rightarrow> u32 \<Rightarrow> u32 \<Rightarrow> 'w \<Rightarrow> 'w" where
  "raw_writel I v a w = putl I v a w"

definition raw_readl :: "'w mmio \<Rightarrow> u32 \<Rightarrow> 'w \<Rightarrow> u32 \<times> 'w" where
  "raw_readl I a w = getl I a w"

definition raw_writeq :: "'w mmio \<Rightarrow> u64 \<Rightarrow> u32 \<Rightarrow> 'w \<Rightarrow> 'w" where
  "raw_writeq I v a w = putq I v a w"

definition raw_readq :: "'w mmio \<Rightarrow> u32 \<Rightarrow> 'w \<Rightarrow> u64 \<times> 'w" where
  "raw_readq I a w = getq I a w"

definition writeb :: "'w mmio \<Rightarrow> u8 \<Rightarrow> u32 \<Rightarrow> 'w \<Rightarrow> u8 \<times> 'w" where
  "writeb I v c w = (v, putb I v c (iowmb I w))"

definition readb :: "'w mmio \<Rightarrow> u32 \<Rightarrow> 'w \<Rightarrow> u8 \<times> 'w" where
  "readb I c w = (let (v, w1) = getb I c w in (v, iormb I w1))"

definition writew :: "'w mmio \<Rightarrow> u16 \<Rightarrow> u32 \<Rightarrow> 'w \<Rightarrow> u16 \<times> 'w" where
  "writew I v c w = (v, putw I v c (iowmb I w))"

definition readw :: "'w mmio \<Rightarrow> u32 \<Rightarrow> 'w \<Rightarrow> u16 \<times> 'w" where
  "readw I c w = (let (v, w1) = getw I c w in (v, iormb I w1))"

definition writel :: "'w mmio \<Rightarrow> u32 \<Rightarrow> u32 \<Rightarrow> 'w \<Rightarrow> u32 \<times> 'w" where
  "writel I v c w = (v, putl I v c (iowmb I w))"

definition readl :: "'w mmio \<Rightarrow> u32 \<Rightarrow> 'w \<Rightarrow> u32 \<times> 'w" where
  "readl I c w = (let (v, w1) = getl I c w in (v, iormb I w1))"

definition writeq :: "'w mmio \<Rightarrow> u64 \<Rightarrow> u32 \<Rightarrow> 'w \<Rightarrow> u64 \<times> 'w" where
  "writeq I v c w = (v, putq I v c (iowmb I w))"

definition readq :: "'w mmio \<Rightarrow> u32 \<Rightarrow> 'w \<Rightarrow> u64 \<times> 'w" where
  "readq I c w = (let (v, w1) = getq I c w in (v, iormb I w1))"

definition readb_relaxed :: "'w mmio \<Rightarrow> u32 \<Rightarrow> 'w \<Rightarrow> u8 \<times> 'w" where
  "readb_relaxed I c w = raw_readb I c w"

definition writeb_relaxed :: "'w mmio \<Rightarrow> u8 \<Rightarrow> u32 \<Rightarrow> 'w \<Rightarrow> 'w" where
  "writeb_relaxed I v c w = raw_writeb I v c w"

definition readw_relaxed :: "'w mmio \<Rightarrow> conversions \<Rightarrow> u32 \<Rightarrow> 'w \<Rightarrow> u16 \<times> 'w" where
  "readw_relaxed I H c w = map_prod (le16_to_cpu H) id (raw_readw I c w)"

definition writew_relaxed :: "'w mmio \<Rightarrow> conversions \<Rightarrow> u16 \<Rightarrow> u32 \<Rightarrow> 'w \<Rightarrow> 'w" where
  "writew_relaxed I H v c w = raw_writew I (cpu_to_le16 H v) c w"

definition readl_relaxed :: "'w mmio \<Rightarrow> conversions \<Rightarrow> u32 \<Rightarrow> 'w \<Rightarrow> u32 \<times> 'w" where
  "readl_relaxed I H c w = map_prod (le32_to_cpu H) id (raw_readl I c w)"

definition writel_relaxed :: "'w mmio \<Rightarrow> conversions \<Rightarrow> u32 \<Rightarrow> u32 \<Rightarrow> 'w \<Rightarrow> 'w" where
  "writel_relaxed I H v c w = raw_writel I (cpu_to_le32 H v) c w"

definition readq_relaxed :: "'w mmio \<Rightarrow> conversions \<Rightarrow> u32 \<Rightarrow> 'w \<Rightarrow> u64 \<times> 'w" where
  "readq_relaxed I H c w = map_prod (le64_to_cpu H) id (raw_readq I c w)"

definition writeq_relaxed :: "'w mmio \<Rightarrow> conversions \<Rightarrow> u64 \<Rightarrow> u32 \<Rightarrow> 'w \<Rightarrow> 'w" where
  "writeq_relaxed I H v c w = raw_writeq I (cpu_to_le64 H v) c w"

section \<open>Registers of a given byte order\<close>

definition out_le64 :: "'w mmio \<Rightarrow> conversions \<Rightarrow> u32 \<Rightarrow> u64 \<Rightarrow> 'w \<Rightarrow> 'w" where
  "out_le64 I H a v w = raw_writeq I (cpu_to_le64 H v) a w"

definition in_le64 :: "'w mmio \<Rightarrow> conversions \<Rightarrow> u32 \<Rightarrow> 'w \<Rightarrow> u64 \<times> 'w" where
  "in_le64 I H a w = map_prod (le64_to_cpu H) id (raw_readq I a w)"

definition out_le32 :: "'w mmio \<Rightarrow> conversions \<Rightarrow> u32 \<Rightarrow> u32 \<Rightarrow> 'w \<Rightarrow> 'w" where
  "out_le32 I H a v w = raw_writel I (cpu_to_le32 H v) a w"

definition in_le32 :: "'w mmio \<Rightarrow> conversions \<Rightarrow> u32 \<Rightarrow> 'w \<Rightarrow> u32 \<times> 'w" where
  "in_le32 I H a w = map_prod (le32_to_cpu H) id (raw_readl I a w)"

definition out_le16 :: "'w mmio \<Rightarrow> conversions \<Rightarrow> u32 \<Rightarrow> u16 \<Rightarrow> 'w \<Rightarrow> 'w" where
  "out_le16 I H a v w = raw_writew I (cpu_to_le16 H v) a w"

definition in_le16 :: "'w mmio \<Rightarrow> conversions \<Rightarrow> u32 \<Rightarrow> 'w \<Rightarrow> u16 \<times> 'w" where
  "in_le16 I H a w = map_prod (le16_to_cpu H) id (raw_readw I a w)"

definition out_be32 :: "'w mmio \<Rightarrow> conversions \<Rightarrow> u32 \<Rightarrow> u32 \<Rightarrow> 'w \<Rightarrow> 'w" where
  "out_be32 I H a v w = raw_writel I (cpu_to_be32 H v) a w"

definition in_be32 :: "'w mmio \<Rightarrow> conversions \<Rightarrow> u32 \<Rightarrow> 'w \<Rightarrow> u32 \<times> 'w" where
  "in_be32 I H a w = map_prod (be32_to_cpu H) id (raw_readl I a w)"

definition out_be16 :: "'w mmio \<Rightarrow> conversions \<Rightarrow> u32 \<Rightarrow> u16 \<Rightarrow> 'w \<Rightarrow> 'w" where
  "out_be16 I H a v w = raw_writew I (cpu_to_be16 H v) a w"

definition in_be16 :: "'w mmio \<Rightarrow> conversions \<Rightarrow> u32 \<Rightarrow> 'w \<Rightarrow> u16 \<times> 'w" where
  "in_be16 I H a w = map_prod (be16_to_cpu H) id (raw_readw I a w)"

definition out_32 :: "'w mmio \<Rightarrow> u32 \<Rightarrow> u32 \<Rightarrow> 'w \<Rightarrow> 'w" where
  "out_32 I a v w = raw_writel I v a w"

definition in_32 :: "'w mmio \<Rightarrow> u32 \<Rightarrow> 'w \<Rightarrow> u32 \<times> 'w" where
  "in_32 I a w = raw_readl I a w"

definition out_16 :: "'w mmio \<Rightarrow> u32 \<Rightarrow> u16 \<Rightarrow> 'w \<Rightarrow> 'w" where
  "out_16 I a v w = raw_writew I v a w"

definition in_16 :: "'w mmio \<Rightarrow> u32 \<Rightarrow> 'w \<Rightarrow> u16 \<times> 'w" where
  "in_16 I a w = raw_readw I a w"

definition out_8 :: "'w mmio \<Rightarrow> u32 \<Rightarrow> u8 \<Rightarrow> 'w \<Rightarrow> 'w" where
  "out_8 I a v w = raw_writeb I v a w"

definition in_8 :: "'w mmio \<Rightarrow> u32 \<Rightarrow> 'w \<Rightarrow> u8 \<times> 'w" where
  "in_8 I a w = raw_readb I a w"

text \<open>The macros paste the name of the access functions together; here they are arguments.\<close>

definition clrbits :: "('w \<Rightarrow> 'v::len word \<times> 'w) \<Rightarrow> ('v word \<Rightarrow> 'w \<Rightarrow> 'w) \<Rightarrow> 'v word \<Rightarrow> 'w \<Rightarrow> 'w" where
  "clrbits inp out clear w = (let (v, w1) = inp w in out (v AND NOT clear) w1)"

definition setbits :: "('w \<Rightarrow> 'v::len word \<times> 'w) \<Rightarrow> ('v word \<Rightarrow> 'w \<Rightarrow> 'w) \<Rightarrow> 'v word \<Rightarrow> 'w \<Rightarrow> 'w" where
  "setbits inp out set_mask w = (let (v, w1) = inp w in out (v OR set_mask) w1)"

definition clrsetbits ::
  "('w \<Rightarrow> 'v::len word \<times> 'w) \<Rightarrow> ('v word \<Rightarrow> 'w \<Rightarrow> 'w) \<Rightarrow> 'v word \<Rightarrow> 'v word \<Rightarrow> 'w \<Rightarrow> 'w" where
  "clrsetbits inp out clear set_mask w = (let (v, w1) = inp w in out ((v AND NOT clear) OR set_mask) w1)"

definition clrbits_le32 :: "'w mmio \<Rightarrow> conversions \<Rightarrow> u32 \<Rightarrow> u32 \<Rightarrow> 'w \<Rightarrow> 'w" where
  "clrbits_le32 I H addr clear = clrbits (in_le32 I H addr) (out_le32 I H addr) clear"

definition setbits_le32 :: "'w mmio \<Rightarrow> conversions \<Rightarrow> u32 \<Rightarrow> u32 \<Rightarrow> 'w \<Rightarrow> 'w" where
  "setbits_le32 I H addr set_mask = setbits (in_le32 I H addr) (out_le32 I H addr) set_mask"

definition clrsetbits_le32 :: "'w mmio \<Rightarrow> conversions \<Rightarrow> u32 \<Rightarrow> u32 \<Rightarrow> u32 \<Rightarrow> 'w \<Rightarrow> 'w" where
  "clrsetbits_le32 I H addr clear set_mask = clrsetbits (in_le32 I H addr) (out_le32 I H addr) clear set_mask"

definition clrbits_le16 :: "'w mmio \<Rightarrow> conversions \<Rightarrow> u32 \<Rightarrow> u16 \<Rightarrow> 'w \<Rightarrow> 'w" where
  "clrbits_le16 I H addr clear = clrbits (in_le16 I H addr) (out_le16 I H addr) clear"

definition setbits_le16 :: "'w mmio \<Rightarrow> conversions \<Rightarrow> u32 \<Rightarrow> u16 \<Rightarrow> 'w \<Rightarrow> 'w" where
  "setbits_le16 I H addr set_mask = setbits (in_le16 I H addr) (out_le16 I H addr) set_mask"

definition clrsetbits_le16 :: "'w mmio \<Rightarrow> conversions \<Rightarrow> u32 \<Rightarrow> u16 \<Rightarrow> u16 \<Rightarrow> 'w \<Rightarrow> 'w" where
  "clrsetbits_le16 I H addr clear set_mask = clrsetbits (in_le16 I H addr) (out_le16 I H addr) clear set_mask"

definition clrbits_be32 :: "'w mmio \<Rightarrow> conversions \<Rightarrow> u32 \<Rightarrow> u32 \<Rightarrow> 'w \<Rightarrow> 'w" where
  "clrbits_be32 I H addr clear = clrbits (in_be32 I H addr) (out_be32 I H addr) clear"

definition setbits_be32 :: "'w mmio \<Rightarrow> conversions \<Rightarrow> u32 \<Rightarrow> u32 \<Rightarrow> 'w \<Rightarrow> 'w" where
  "setbits_be32 I H addr set_mask = setbits (in_be32 I H addr) (out_be32 I H addr) set_mask"

definition clrsetbits_be32 :: "'w mmio \<Rightarrow> conversions \<Rightarrow> u32 \<Rightarrow> u32 \<Rightarrow> u32 \<Rightarrow> 'w \<Rightarrow> 'w" where
  "clrsetbits_be32 I H addr clear set_mask = clrsetbits (in_be32 I H addr) (out_be32 I H addr) clear set_mask"

definition clrbits_be16 :: "'w mmio \<Rightarrow> conversions \<Rightarrow> u32 \<Rightarrow> u16 \<Rightarrow> 'w \<Rightarrow> 'w" where
  "clrbits_be16 I H addr clear = clrbits (in_be16 I H addr) (out_be16 I H addr) clear"

definition setbits_be16 :: "'w mmio \<Rightarrow> conversions \<Rightarrow> u32 \<Rightarrow> u16 \<Rightarrow> 'w \<Rightarrow> 'w" where
  "setbits_be16 I H addr set_mask = setbits (in_be16 I H addr) (out_be16 I H addr) set_mask"

definition clrsetbits_be16 :: "'w mmio \<Rightarrow> conversions \<Rightarrow> u32 \<Rightarrow> u16 \<Rightarrow> u16 \<Rightarrow> 'w \<Rightarrow> 'w" where
  "clrsetbits_be16 I H addr clear set_mask = clrsetbits (in_be16 I H addr) (out_be16 I H addr) clear set_mask"

definition clrbits_32 :: "'w mmio \<Rightarrow> u32 \<Rightarrow> u32 \<Rightarrow> 'w \<Rightarrow> 'w" where
  "clrbits_32 I addr clear = clrbits (in_32 I addr) (out_32 I addr) clear"

definition setbits_32 :: "'w mmio \<Rightarrow> u32 \<Rightarrow> u32 \<Rightarrow> 'w \<Rightarrow> 'w" where
  "setbits_32 I addr set_mask = setbits (in_32 I addr) (out_32 I addr) set_mask"

definition clrsetbits_32 :: "'w mmio \<Rightarrow> u32 \<Rightarrow> u32 \<Rightarrow> u32 \<Rightarrow> 'w \<Rightarrow> 'w" where
  "clrsetbits_32 I addr clear set_mask = clrsetbits (in_32 I addr) (out_32 I addr) clear set_mask"

definition clrbits_16 :: "'w mmio \<Rightarrow> u32 \<Rightarrow> u16 \<Rightarrow> 'w \<Rightarrow> 'w" where
  "clrbits_16 I addr clear = clrbits (in_16 I addr) (out_16 I addr) clear"

definition setbits_16 :: "'w mmio \<Rightarrow> u32 \<Rightarrow> u16 \<Rightarrow> 'w \<Rightarrow> 'w" where
  "setbits_16 I addr set_mask = setbits (in_16 I addr) (out_16 I addr) set_mask"

definition clrsetbits_16 :: "'w mmio \<Rightarrow> u32 \<Rightarrow> u16 \<Rightarrow> u16 \<Rightarrow> 'w \<Rightarrow> 'w" where
  "clrsetbits_16 I addr clear set_mask = clrsetbits (in_16 I addr) (out_16 I addr) clear set_mask"

definition clrbits_8 :: "'w mmio \<Rightarrow> u32 \<Rightarrow> u8 \<Rightarrow> 'w \<Rightarrow> 'w" where
  "clrbits_8 I addr clear = clrbits (in_8 I addr) (out_8 I addr) clear"

definition setbits_8 :: "'w mmio \<Rightarrow> u32 \<Rightarrow> u8 \<Rightarrow> 'w \<Rightarrow> 'w" where
  "setbits_8 I addr set_mask = setbits (in_8 I addr) (out_8 I addr) set_mask"

definition clrsetbits_8 :: "'w mmio \<Rightarrow> u32 \<Rightarrow> u8 \<Rightarrow> u8 \<Rightarrow> 'w \<Rightarrow> 'w" where
  "clrsetbits_8 I addr clear set_mask = clrsetbits (in_8 I addr) (out_8 I addr) clear set_mask"

section \<open>Bursts\<close>

text \<open>
  The loops count an \<open>int\<close> down to zero; the buffer is the list of its remaining elements,
  and running past it is an error, which is where a negative count ends.
\<close>

fun write_burst :: "('v \<Rightarrow> 'w \<Rightarrow> 'w) \<Rightarrow> 'v list \<Rightarrow> int \<Rightarrow> 'w \<Rightarrow> ub + 'w" where
  "write_burst put [] len w = (if len = 0 then Inr w else Inl OutOfBounds)"
| "write_burst put (x # buf) len w = (if len = 0 then Inr w else write_burst put buf (len - 1) (put x w))"

fun read_burst :: "('w \<Rightarrow> 'v \<times> 'w) \<Rightarrow> 'v list \<Rightarrow> int \<Rightarrow> 'w \<Rightarrow> ub + ('v list \<times> 'w)" where
  "read_burst get [] len w = (if len = 0 then Inr ([], w) else Inl OutOfBounds)"
| "read_burst get (x # buf) len w =
     (if len = 0 then Inr (x # buf, w)
      else let (v, w1) = get w
           in bindE (read_burst get buf (len - 1) w1) (\<lambda>(vs, w2). Inr (v # vs, w2)))"

definition raw_writesb :: "'w mmio \<Rightarrow> u32 \<Rightarrow> u8 list \<Rightarrow> int \<Rightarrow> 'w \<Rightarrow> ub + 'w" where
  "raw_writesb I addr = write_burst (\<lambda>v. putb I v addr)"

definition raw_readsb :: "'w mmio \<Rightarrow> u32 \<Rightarrow> u8 list \<Rightarrow> int \<Rightarrow> 'w \<Rightarrow> ub + (u8 list \<times> 'w)" where
  "raw_readsb I addr = read_burst (getb I addr)"

definition raw_writesw :: "'w mmio \<Rightarrow> u32 \<Rightarrow> u16 list \<Rightarrow> int \<Rightarrow> 'w \<Rightarrow> ub + 'w" where
  "raw_writesw I addr = write_burst (\<lambda>v. putw I v addr)"

definition raw_readsw :: "'w mmio \<Rightarrow> u32 \<Rightarrow> u16 list \<Rightarrow> int \<Rightarrow> 'w \<Rightarrow> ub + (u16 list \<times> 'w)" where
  "raw_readsw I addr = read_burst (getw I addr)"

definition raw_writesl :: "'w mmio \<Rightarrow> u32 \<Rightarrow> u32 list \<Rightarrow> int \<Rightarrow> 'w \<Rightarrow> ub + 'w" where
  "raw_writesl I addr = write_burst (\<lambda>v. putl I v addr)"

definition raw_readsl :: "'w mmio \<Rightarrow> u32 \<Rightarrow> u32 list \<Rightarrow> int \<Rightarrow> 'w \<Rightarrow> ub + (u32 list \<times> 'w)" where
  "raw_readsl I addr = read_burst (getl I addr)"

section \<open>Input and output space\<close>

definition outb :: "'w mmio \<Rightarrow> (u32 \<Rightarrow> u32) \<Rightarrow> u8 \<Rightarrow> u32 \<Rightarrow> 'w \<Rightarrow> 'w" where
  "outb I io v p w = raw_writeb I v (io p) w"

definition inb :: "'w mmio \<Rightarrow> (u32 \<Rightarrow> u32) \<Rightarrow> u32 \<Rightarrow> 'w \<Rightarrow> u32 \<times> 'w" where
  "inb I io p w = map_prod ucast id (raw_readb I (io p) w)"

definition outw :: "'w mmio \<Rightarrow> conversions \<Rightarrow> (u32 \<Rightarrow> u32) \<Rightarrow> u16 \<Rightarrow> u32 \<Rightarrow> 'w \<Rightarrow> 'w" where
  "outw I H io v p w = raw_writew I (cpu_to_le16 H v) (io p) w"

definition inw :: "'w mmio \<Rightarrow> conversions \<Rightarrow> (u32 \<Rightarrow> u32) \<Rightarrow> u32 \<Rightarrow> 'w \<Rightarrow> u32 \<times> 'w" where
  "inw I H io p w = map_prod (\<lambda>v. ucast (le16_to_cpu H v)) id (raw_readw I (io p) w)"

definition outl :: "'w mmio \<Rightarrow> conversions \<Rightarrow> (u32 \<Rightarrow> u32) \<Rightarrow> u32 \<Rightarrow> u32 \<Rightarrow> 'w \<Rightarrow> 'w" where
  "outl I H io v p w = raw_writel I (cpu_to_le32 H v) (io p) w"

definition inl :: "'w mmio \<Rightarrow> conversions \<Rightarrow> (u32 \<Rightarrow> u32) \<Rightarrow> u32 \<Rightarrow> 'w \<Rightarrow> u32 \<times> 'w" where
  "inl I H io p w = map_prod (\<lambda>v. ucast (le32_to_cpu H v)) id (raw_readl I (io p) w)"

definition outsb :: "'w mmio \<Rightarrow> (u32 \<Rightarrow> u32) \<Rightarrow> u32 \<Rightarrow> u8 list \<Rightarrow> int \<Rightarrow> 'w \<Rightarrow> ub + 'w" where
  "outsb I io p d l = raw_writesb I (io p) d l"

definition insb :: "'w mmio \<Rightarrow> (u32 \<Rightarrow> u32) \<Rightarrow> u32 \<Rightarrow> u8 list \<Rightarrow> int \<Rightarrow> 'w \<Rightarrow> ub + (u8 list \<times> 'w)" where
  "insb I io p d l = raw_readsb I (io p) d l"

definition outsw :: "'w mmio \<Rightarrow> (u32 \<Rightarrow> u32) \<Rightarrow> u32 \<Rightarrow> u16 list \<Rightarrow> int \<Rightarrow> 'w \<Rightarrow> ub + 'w" where
  "outsw I io p d l = raw_writesw I (io p) d l"

definition insw :: "'w mmio \<Rightarrow> (u32 \<Rightarrow> u32) \<Rightarrow> u32 \<Rightarrow> u16 list \<Rightarrow> int \<Rightarrow> 'w \<Rightarrow> ub + (u16 list \<times> 'w)" where
  "insw I io p d l = raw_readsw I (io p) d l"

definition outsl :: "'w mmio \<Rightarrow> (u32 \<Rightarrow> u32) \<Rightarrow> u32 \<Rightarrow> u32 list \<Rightarrow> int \<Rightarrow> 'w \<Rightarrow> ub + 'w" where
  "outsl I io p d l = raw_writesl I (io p) d l"

definition insl :: "'w mmio \<Rightarrow> (u32 \<Rightarrow> u32) \<Rightarrow> u32 \<Rightarrow> u32 list \<Rightarrow> int \<Rightarrow> 'w \<Rightarrow> ub + (u32 list \<times> 'w)" where
  "insl I io p d l = raw_readsl I (io p) d l"

definition isa_readb :: "'w mmio \<Rightarrow> (u32 \<Rightarrow> u32) \<Rightarrow> u32 \<Rightarrow> 'w \<Rightarrow> u8 \<times> 'w" where
  "isa_readb I mem_isa addr w = raw_readb I (mem_isa addr) w"

definition isa_writeb :: "'w mmio \<Rightarrow> (u32 \<Rightarrow> u32) \<Rightarrow> u8 \<Rightarrow> u32 \<Rightarrow> 'w \<Rightarrow> 'w" where
  "isa_writeb I mem_isa val addr w = raw_writeb I val (mem_isa addr) w"

definition isa_readw :: "'w mmio \<Rightarrow> (u32 \<Rightarrow> u32) \<Rightarrow> u32 \<Rightarrow> 'w \<Rightarrow> u16 \<times> 'w" where
  "isa_readw I mem_isa addr w = raw_readw I (mem_isa addr) w"

definition isa_writew :: "'w mmio \<Rightarrow> (u32 \<Rightarrow> u32) \<Rightarrow> u16 \<Rightarrow> u32 \<Rightarrow> 'w \<Rightarrow> 'w" where
  "isa_writew I mem_isa val addr w = raw_writew I val (mem_isa addr) w"

definition isa_readl :: "'w mmio \<Rightarrow> (u32 \<Rightarrow> u32) \<Rightarrow> u32 \<Rightarrow> 'w \<Rightarrow> u32 \<times> 'w" where
  "isa_readl I mem_isa addr w = raw_readl I (mem_isa addr) w"

definition isa_writel :: "'w mmio \<Rightarrow> (u32 \<Rightarrow> u32) \<Rightarrow> u32 \<Rightarrow> u32 \<Rightarrow> 'w \<Rightarrow> 'w" where
  "isa_writel I mem_isa val addr w = raw_writel I val (mem_isa addr) w"

fun isa_check_signature ::
  "'w mmio \<Rightarrow> (u32 \<Rightarrow> u32) \<Rightarrow> u32 \<Rightarrow> u8 list \<Rightarrow> int \<Rightarrow> 'w \<Rightarrow> ub + (int \<times> 'w)" where
  "isa_check_signature I mem_isa io_addr [] len w = Inl OutOfBounds"
| "isa_check_signature I mem_isa io_addr (s # signature) len w =
     (let (v, w1) = isa_readb I mem_isa io_addr w
      in if v \<noteq> s then Inr (0, w1)
         else if len - 1 \<noteq> 0 then isa_check_signature I mem_isa (io_addr + 1) signature (len - 1) w1
         else Inr (1, w1))"

section \<open>Memory as a device\<close>

definition mem_io :: "byte_order \<Rightarrow> bytemem mmio" where
  "mem_io ord = \<lparr>
     getb = (\<lambda>a m. (m (unat a), m)),
     getw = (\<lambda>a m. (native_load ord 2 m (unat a), m)),
     getl = (\<lambda>a m. (native_load ord 4 m (unat a), m)),
     getq = (\<lambda>a m. (native_load ord 8 m (unat a), m)),
     putb = (\<lambda>v a m. m(unat a := v)),
     putw = (\<lambda>v a m. native_store ord 2 v (unat a) m),
     putl = (\<lambda>v a m. native_store ord 4 v (unat a) m),
     putq = (\<lambda>v a m. native_store ord 8 v (unat a) m),
     dmb = (\<lambda>m. m), dsb = (\<lambda>m. m)\<rparr>"

lemma native_codec: "LENGTH('a::len) = 8 * n \<Longrightarrow>
  byte_codec n (native_load ord n) (native_store ord n :: 'a word \<Rightarrow> _) (object_bytes ord n)"
  by (rule codecI) (simp_all add: object_bytes_native_load native_store_def object_bytes_eq_iff)

interpretation native16: byte_codec 2 "native_load ord 2 :: _ \<Rightarrow> _ \<Rightarrow> u16" "native_store ord 2" "object_bytes ord 2" for ord
  by (rule native_codec) simp

interpretation native32: byte_codec 4 "native_load ord 4 :: _ \<Rightarrow> _ \<Rightarrow> u32" "native_store ord 4" "object_bytes ord 4" for ord
  by (rule native_codec) simp

lemma mem_loads_le:
  "in_le64 (mem_io ord) (host_header ord) a m = (get_unaligned_le64 m (unat a), m)"
  "in_le32 (mem_io ord) (host_header ord) a m = (get_unaligned_le32 m (unat a), m)"
  "in_le16 (mem_io ord) (host_header ord) a m = (get_unaligned_le16 m (unat a), m)"
  by (simp_all add: in_le64_def in_le32_def in_le16_def raw_readq_def raw_readl_def raw_readw_def mem_io_def)
    (simp_all only: native_conversions(1-3) host_order.undo [OF host_order_header])

lemma mem_loads_be:
  "in_be32 (mem_io ord) (host_header ord) a m = (get_unaligned_be32 m (unat a), m)"
  "in_be16 (mem_io ord) (host_header ord) a m = (get_unaligned_be16 m (unat a), m)"
  by (simp_all add: in_be32_def in_be16_def raw_readl_def raw_readw_def mem_io_def)
    (simp_all only: native_conversions(4,5) host_order.undo [OF host_order_header])

lemmas mem_loads = mem_loads_le mem_loads_be

lemma mem_stores:
  "out_le64 (mem_io ord) (host_header ord) a z m = poke (le_bytes 8 z) (unat a) m"
  "out_le32 (mem_io ord) (host_header ord) a y m = poke (le_bytes 4 y) (unat a) m"
  "out_le16 (mem_io ord) (host_header ord) a x m = poke (le_bytes 2 x) (unat a) m"
  "out_be32 (mem_io ord) (host_header ord) a y m = poke (rev (le_bytes 4 y)) (unat a) m"
  "out_be16 (mem_io ord) (host_header ord) a x m = poke (rev (le_bytes 2 x)) (unat a) m"
  by (simp_all add: out_le64_def out_le32_def out_le16_def out_be32_def out_be16_def raw_writeq_def raw_writel_def
      raw_writew_def mem_io_def native_store_def host_order.stores_le [OF host_order_header]
      host_order.stores_be [OF host_order_header])

text \<open>The bytes of a register after bits are cleared and set.\<close>

definition new_bytes :: "nat \<Rightarrow> 'v::len word \<Rightarrow> 'v word \<Rightarrow> u8 list \<Rightarrow> u8 list" where
  "new_bytes n c s bs = map (\<lambda>k. (bs ! k AND NOT (byte c k)) OR byte s k) [0..<n]"

lemma byte_update:
  fixes x :: "'v::len word"
  assumes "8 * k + 8 \<le> LENGTH('v)"
  shows "byte ((x AND NOT c) OR s) k = (byte x k AND NOT (byte c k)) OR byte s k"
  by (rule bit_word_eqI) (use assms in \<open>auto simp: word_bits\<close>)

lemma le_bytes_update:
  fixes x :: "'v::len word"
  assumes "8 * n \<le> LENGTH('v)" "le_bytes n x = bs"
  shows "le_bytes n ((x AND NOT c) OR s) = new_bytes n c s bs"
proof (rule nth_equalityI)
  fix k
  assume "k < length (le_bytes n ((x AND NOT c) OR s))"
  then show "le_bytes n ((x AND NOT c) OR s) ! k = new_bytes n c s bs ! k"
    using assms by (auto simp: new_bytes_def byte_update)
qed (simp add: new_bytes_def)

text \<open>
  C20: on a host of either byte order the macros for little-endian registers clear and set the
  named bits of the bytes at the address, the byte with the low bits first, and the macros for
  big-endian registers those of the bytes in the opposite order; no other byte changes.
\<close>

theorem register_bits:
  "clrsetbits_le32 (mem_io ord) (host_header ord) a c s m =
     poke (new_bytes 4 c s (window m (unat a) 4)) (unat a) m \<and>
   clrsetbits_be32 (mem_io ord) (host_header ord) a c s m =
     poke (rev (new_bytes 4 c s (rev (window m (unat a) 4)))) (unat a) m \<and>
   clrsetbits_le16 (mem_io ord) (host_header ord) a c' s' m =
     poke (new_bytes 2 c' s' (window m (unat a) 2)) (unat a) m \<and>
   clrsetbits_be16 (mem_io ord) (host_header ord) a c' s' m =
     poke (rev (new_bytes 2 c' s' (rev (window m (unat a) 2)))) (unat a) m \<and>
   setbits_le32 (mem_io ord) (host_header ord) a s m = clrsetbits_le32 (mem_io ord) (host_header ord) a 0 s m \<and>
   setbits_be32 (mem_io ord) (host_header ord) a s m = clrsetbits_be32 (mem_io ord) (host_header ord) a 0 s m \<and>
   clrbits_le32 (mem_io ord) (host_header ord) a c m = clrsetbits_le32 (mem_io ord) (host_header ord) a c 0 m \<and>
   clrbits_be32 (mem_io ord) (host_header ord) a c m = clrsetbits_be32 (mem_io ord) (host_header ord) a c 0 m"
proof (intro conjI)
  note macros = clrsetbits_le32_def clrsetbits_be32_def clrsetbits_le16_def clrsetbits_be16_def clrsetbits_def
    mem_loads mem_stores
  have w: "le_bytes 4 (get_unaligned_le32 m p) = window m p 4" "le_bytes 4 (get_unaligned_be32 m p) = rev (window m p 4)"
    "le_bytes 2 (get_unaligned_le16 m p) = window m p 2" "le_bytes 2 (get_unaligned_be16 m p) = rev (window m p 2)" for p
    using le32.get_img be32.get_img le16.get_img be16.get_img by (simp_all add: rev_swap)
  show "clrsetbits_le32 (mem_io ord) (host_header ord) a c s m =
     poke (new_bytes 4 c s (window m (unat a) 4)) (unat a) m"
    by (simp add: macros le_bytes_update w)
  show "clrsetbits_be32 (mem_io ord) (host_header ord) a c s m =
     poke (rev (new_bytes 4 c s (rev (window m (unat a) 4)))) (unat a) m"
    by (simp add: macros le_bytes_update w)
  show "clrsetbits_le16 (mem_io ord) (host_header ord) a c' s' m =
     poke (new_bytes 2 c' s' (window m (unat a) 2)) (unat a) m"
    by (simp add: macros le_bytes_update w)
  show "clrsetbits_be16 (mem_io ord) (host_header ord) a c' s' m =
     poke (rev (new_bytes 2 c' s' (rev (window m (unat a) 2)))) (unat a) m"
    by (simp add: macros le_bytes_update w)
qed (simp_all add: setbits_le32_def setbits_be32_def clrbits_le32_def clrbits_be32_def clrsetbits_le32_def
    clrsetbits_be32_def setbits_def clrbits_def clrsetbits_def)

section \<open>Bursts and signatures\<close>

lemma write_burst_prefix: "write_burst put (xs @ rest) (int (length xs)) w = Inr (fold put xs w)"
proof (induction xs arbitrary: w)
  case Nil
  then show ?case by (cases rest) simp_all
next
  case (Cons x xs)
  then show ?case by simp
qed

lemma burst_negative:
  "len < 0 \<Longrightarrow> write_burst put buf len w = Inl OutOfBounds" "len < 0 \<Longrightarrow> read_burst get buf len w = Inl OutOfBounds"
  by (induction buf arbitrary: len w) (auto simp: case_prod_beta)

definition is_fifo :: "'w mmio \<Rightarrow> u32 \<Rightarrow> ('w \<Rightarrow> u32 list) \<Rightarrow> bool" where
  "is_fifo I addr q \<longleftrightarrow>
     (\<forall>v w. q (putl I v addr w) = q w @ [v]) \<and>
     (\<forall>w v vs. q w = v # vs \<longrightarrow> fst (getl I addr w) = v \<and> q (snd (getl I addr w)) = vs)"

lemma fold_fifo: "is_fifo I addr q \<Longrightarrow> q (fold (\<lambda>v. putl I v addr) xs w) = q w @ xs"
  by (induction xs arbitrary: w) (simp_all add: is_fifo_def)

lemma read_fifo:
  assumes "is_fifo I addr q" "q w = xs @ ys" "length xs \<le> length buf"
  shows "\<exists>w'. read_burst (getl I addr) buf (int (length xs)) w = Inr (xs @ drop (length xs) buf, w') \<and> q w' = ys"
  using assms(2,3)
proof (induction xs arbitrary: w buf)
  case Nil
  then show ?case by (cases buf) auto
next
  case (Cons x xs)
  obtain b bs where buf: "buf = b # bs" using Cons.prems by (cases buf) auto
  have g: "fst (getl I addr w) = x" "q (snd (getl I addr w)) = xs @ ys"
    using assms(1) Cons.prems by (simp_all add: is_fifo_def)
  from Cons.IH [OF g(2), of bs] Cons.prems buf
  obtain w' where "read_burst (getl I addr) bs (int (length xs)) (snd (getl I addr w)) = Inr (xs @ drop (length xs) bs, w')"
    "q w' = ys" by auto
  then show ?case using g(1) by (simp add: buf case_prod_beta)
qed

text \<open>
  C21: a burst to one address and a burst from one address move words in the order of the buffer:
  through a device that is a queue, what \<open>writesl\<close> sends from a buffer is what \<open>readsl\<close>
  then stores into another one, and nothing beyond the count is sent or overwritten.  A negative
  count runs past every buffer.
\<close>

theorem burst_through_fifo:
  assumes "is_fifo I addr q" "q w = []" "length xs \<le> length buf" "len < 0"
  shows "\<exists>w1 w2. raw_writesl I addr (xs @ rest) (int (length xs)) w = Inr w1 \<and>
    raw_readsl I addr buf (int (length xs)) w1 = Inr (xs @ drop (length xs) buf, w2) \<and> q w2 = [] \<and>
    raw_writesl I addr buf len w = Inl OutOfBounds"
proof -
  have "raw_writesl I addr (xs @ rest) (int (length xs)) w = Inr (fold (\<lambda>v. putl I v addr) xs w)"
    by (simp only: raw_writesl_def write_burst_prefix)
  moreover have "q (fold (\<lambda>v. putl I v addr) xs w) = xs @ []" using fold_fifo [OF assms(1)] assms(2) by simp
  moreover have "raw_writesl I addr buf len w = Inl OutOfBounds"
    using assms(4) by (simp add: raw_writesl_def burst_negative)
  ultimately show ?thesis
    using read_fifo [OF assms(1) _ assms(3), of "fold (\<lambda>v. putl I v addr) xs w" "[]"] unfolding raw_readsl_def by blast
qed

definition queue_io :: "u32 list mmio" where
  "queue_io = \<lparr>getb = (\<lambda>a w. (0, w)), getw = (\<lambda>a w. (0, w)), getl = (\<lambda>a w. (hd w, tl w)), getq = (\<lambda>a w. (0, w)),
     putb = (\<lambda>v a w. w), putw = (\<lambda>v a w. w), putl = (\<lambda>v a w. w @ [v]), putq = (\<lambda>v a w. w),
     dmb = (\<lambda>w. w), dsb = (\<lambda>w. w)\<rparr>"

theorem burst_through_fifo_witness:
  "\<exists>w1 w2. raw_writesl queue_io 0 [1, 2, 3] 2 [] = Inr w1 \<and> raw_readsl queue_io 0 [7, 8, 9] 2 w1 = Inr ([1, 2, 9], w2)"
proof -
  have "is_fifo queue_io 0 id" by (simp add: is_fifo_def queue_io_def)
  from burst_through_fifo [OF this, of "[]" "[1, 2]" "[7, 8, 9]" "- 1" "[3]"] show ?thesis by auto
qed

lemma isa_readb_mem [simp]: "isa_readb (mem_io ord) f a m = (m (unat (f a)), m)"
  by (simp add: isa_readb_def raw_readb_def mem_io_def)

lemma signature_check:
  assumes "0 < n" "n \<le> length sig" "unat addr + n < 2 ^ 32"
  shows "isa_check_signature (mem_io ord) id addr sig (int n) m = Inr (c_bool (window m (unat addr) n = take n sig), m)"
  using assms
proof (induction sig arbitrary: addr n)
  case (Cons s sig)
  obtain j where j: "n = Suc j" using Cons.prems(1) by (cases n) auto
  have w: "window m (unat addr) (Suc j) = m (unat addr) # window m (unat addr + 1) j"
    by (simp add: window_def upt_conv_Cons map_Suc_upt [symmetric] del: upt_Suc)
  have next_addr: "unat (addr + 1) = unat addr + 1"
    using Cons.prems(3) j by (simp add: unat_add_exact)
  show ?case
  proof (cases "j = 0")
    case True
    then show ?thesis by (simp add: j w c_bool_def window_def)
  next
    case False
    then show ?thesis using Cons.IH [of j "addr + 1"] Cons.prems j by (simp add: w next_addr c_bool_def)
  qed
qed simp

lemma signature_overrun:
  assumes "len \<le> 0" "unat addr + length sig < 2 ^ 32" "window m (unat addr) (length sig) = sig"
  shows "isa_check_signature (mem_io ord) id addr sig len m = Inl OutOfBounds"
  using assms
proof (induction sig arbitrary: addr len)
  case (Cons s sig)
  have w: "window m (unat addr) (length (s # sig)) = m (unat addr) # window m (unat addr + 1) (length sig)"
    by (simp add: window_def upt_conv_Cons map_Suc_upt [symmetric] del: upt_Suc)
  have "unat (addr + 1) = unat addr + 1" using Cons.prems(2) by (simp add: unat_add_exact)
  then show ?case using Cons.IH [of "len - 1" "addr + 1"] Cons.prems w by simp
qed simp

text \<open>
  the signature of a card is found exactly when the bytes at the address are those of the
  signature.  With length 0 the loop does not stop at the end of a signature that matches, but
  compares beyond it.
\<close>

theorem isa_signature_spec:
  assumes "0 < n" "n \<le> length sig" "unat addr + length sig < 2 ^ 32" "window m' (unat addr) (length sig) = sig"
  shows "isa_check_signature (mem_io ord) id addr sig (int n) m =
      Inr (c_bool (window m (unat addr) n = take n sig), m) \<and>
    isa_check_signature (mem_io ord) id addr sig 0 m' = Inl OutOfBounds"
  using signature_check [of n sig addr ord m] signature_overrun [of 0 addr sig m' ord] assms by simp

theorem isa_signature_spec_witness:
  "isa_check_signature (mem_io BigEndian) id 0x1000 [0x55, 0xAA] 2 ((\<lambda>a. 0)(0x1000 := 0x55, 0x1001 := 0xAA)) =
    Inr (1, (\<lambda>a. 0)(0x1000 := 0x55, 0x1001 := 0xAA))"
proof -
  let ?m = "(\<lambda>a. 0)(0x1000 := 0x55, 0x1001 := 0xAA) :: bytemem"
  have w: "window ?m 0x1000 2 = [0x55, 0xAA]" by (simp add: window_def upt_conv_Cons)
  from isa_signature_spec [of 2 "[0x55, 0xAA]" "0x1000" ?m BigEndian ?m] w w [unfolded numeral_2_eq_2] show ?thesis by (simp del: isa_check_signature.simps)
qed

text \<open>On a big-endian host the relaxed accessors swap and the others do not.\<close>

lemma relaxed_swaps:
  "readl (mem_io BigEndian) a m = (get_unaligned_be32 m (unat a), m) \<and>
   readl_relaxed (mem_io BigEndian) (host_header BigEndian) a m = (get_unaligned_le32 m (unat a), m)"
proof -
  have "native_load BigEndian 4 m (unat a) = get_unaligned_be32 m (unat a)"
    using native_conversions(5) [of BigEndian m "unat a"] by (simp add: big_endian_h_def)
  moreover have "readl_relaxed (mem_io BigEndian) (host_header BigEndian) a m = in_le32 (mem_io BigEndian) (host_header BigEndian) a m"
    by (simp only: readl_relaxed_def in_le32_def)
  ultimately show ?thesis
    using mem_loads_le(2) [of BigEndian a m] by (simp add: readl_def mem_io_def iormb_def)
qed

end
