(* ===== verification/Headers.thy ===== *)
theory Headers
  imports Unaligned
begin

text \<open>
  Headers of boot images in memory: the legacy image header of \<open>include/image.h\<close> and the header of
  a flattened device tree (\<open>scripts/dtc/libfdt\<close>: \<open>libfdt_env.h\<close>, \<open>fdt.h\<close>, \<open>libfdt.h\<close>).  Both are
  structures of big-endian words; a field is an offset, and the functions that a macro generates
  for the fields are one definition over the field.
\<close>

section \<open>Words in network order at an offset\<close>

definition load32 :: "byte_order \<Rightarrow> bytemem \<Rightarrow> u32 \<Rightarrow> nat \<Rightarrow> u32" where
  "load32 ord m p off = native_load ord 4 m (unat p + off)"

definition store32 :: "byte_order \<Rightarrow> u32 \<Rightarrow> u32 \<Rightarrow> nat \<Rightarrow> bytemem \<Rightarrow> bytemem" where
  "store32 ord v p off m = native_store ord 4 v (unat p + off) m"

section \<open>The legacy image header\<close>

datatype ih_word = ih_magic | ih_hcrc | ih_time | ih_size | ih_load | ih_ep | ih_dcrc
datatype ih_byte = ih_os | ih_arch | ih_type | ih_comp

primrec word_off :: "ih_word \<Rightarrow> nat" where
  "word_off ih_magic = 0"
| "word_off ih_hcrc = 4"
| "word_off ih_time = 8"
| "word_off ih_size = 12"
| "word_off ih_load = 16"
| "word_off ih_ep = 20"
| "word_off ih_dcrc = 24"

primrec byte_off :: "ih_byte \<Rightarrow> nat" where
  "byte_off ih_os = 28"
| "byte_off ih_arch = 29"
| "byte_off ih_type = 30"
| "byte_off ih_comp = 31"

definition ih_name :: nat where "ih_name = 32"
definition IH_NMLEN :: nat where "IH_NMLEN = 32"
definition IH_MAGIC :: u32 where "IH_MAGIC = 0x27051956"
definition IH_ARCH_ARM :: u8 where "IH_ARCH_ARM = 2"
definition IH_ARCH_ARM64 :: u8 where "IH_ARCH_ARM64 = 22"
definition IH_ARCH_DEFAULT :: u8 where "IH_ARCH_DEFAULT = IH_ARCH_ARM"

definition uimage_to_cpu :: "byte_order \<Rightarrow> u32 \<Rightarrow> u32" where
  "uimage_to_cpu ord x = be32_to_cpu (host_header ord) x"

definition cpu_to_uimage :: "byte_order \<Rightarrow> u32 \<Rightarrow> u32" where
  "cpu_to_uimage ord x = cpu_to_be32 (host_header ord) x"

definition image_get_header_size :: u32 where
  "image_get_header_size = of_nat (ih_name + IH_NMLEN)"

definition image_get_l :: "byte_order \<Rightarrow> ih_word \<Rightarrow> bytemem \<Rightarrow> u32 \<Rightarrow> u32" where
  "image_get_l ord f m hdr = uimage_to_cpu ord (load32 ord m hdr (word_off f))"

definition image_get_b :: "ih_byte \<Rightarrow> bytemem \<Rightarrow> u32 \<Rightarrow> u8" where
  "image_get_b f m hdr = m (unat hdr + byte_off f)"

definition image_set_l :: "byte_order \<Rightarrow> ih_word \<Rightarrow> u32 \<Rightarrow> u32 \<Rightarrow> bytemem \<Rightarrow> bytemem" where
  "image_set_l ord f hdr val m = store32 ord (cpu_to_uimage ord val) hdr (word_off f) m"

definition image_set_b :: "ih_byte \<Rightarrow> u32 \<Rightarrow> u8 \<Rightarrow> bytemem \<Rightarrow> bytemem" where
  "image_set_b f hdr val m = m(unat hdr + byte_off f := val)"

definition image_get_name :: "u32 \<Rightarrow> nat" where
  "image_get_name hdr = unat hdr + ih_name"

definition image_get_data_size :: "byte_order \<Rightarrow> bytemem \<Rightarrow> u32 \<Rightarrow> u32" where
  "image_get_data_size ord m hdr = image_get_l ord ih_size m hdr"

definition image_get_data :: "u32 \<Rightarrow> u32" where
  "image_get_data hdr = hdr + image_get_header_size"

definition image_get_image_size :: "byte_order \<Rightarrow> bytemem \<Rightarrow> u32 \<Rightarrow> u32" where
  "image_get_image_size ord m hdr = image_get_l ord ih_size m hdr + image_get_header_size"

definition image_get_image_end :: "byte_order \<Rightarrow> bytemem \<Rightarrow> u32 \<Rightarrow> u32" where
  "image_get_image_end ord m hdr = hdr + image_get_image_size ord m hdr"

text \<open>The library function: the source is a string without its terminator.\<close>

definition strncpy :: "nat \<Rightarrow> u8 list \<Rightarrow> nat \<Rightarrow> bytemem \<Rightarrow> bytemem" where
  "strncpy dst src n m = poke (take n (src @ replicate n 0)) dst m"

definition image_set_name :: "u32 \<Rightarrow> u8 list \<Rightarrow> bytemem \<Rightarrow> bytemem" where
  "image_set_name hdr name m = strncpy (image_get_name hdr) name IH_NMLEN m"

definition image_check_magic :: "byte_order \<Rightarrow> bytemem \<Rightarrow> u32 \<Rightarrow> bool" where
  "image_check_magic ord m hdr \<longleftrightarrow> image_get_l ord ih_magic m hdr = IH_MAGIC"

definition image_check_type :: "bytemem \<Rightarrow> u32 \<Rightarrow> u8 \<Rightarrow> bool" where
  "image_check_type m hdr t \<longleftrightarrow> image_get_b ih_type m hdr = t"

definition image_check_arch :: "bytemem \<Rightarrow> u32 \<Rightarrow> u8 \<Rightarrow> bool" where
  "image_check_arch m hdr arch \<longleftrightarrow> image_get_b ih_arch m hdr = arch \<or>
     (image_get_b ih_arch m hdr = IH_ARCH_ARM \<and> arch = IH_ARCH_ARM64)"

definition image_check_os :: "bytemem \<Rightarrow> u32 \<Rightarrow> u8 \<Rightarrow> bool" where
  "image_check_os m hdr os \<longleftrightarrow> image_get_b ih_os m hdr = os"

definition image_check_target_arch :: "bytemem \<Rightarrow> u32 \<Rightarrow> bool" where
  "image_check_target_arch m hdr \<longleftrightarrow> image_check_arch m hdr IH_ARCH_DEFAULT"

section \<open>The header of a flattened device tree\<close>

definition EXTRACT_BYTE :: "byte_order \<Rightarrow> nat \<Rightarrow> 'a::len word \<Rightarrow> nat \<Rightarrow> u64" where
  "EXTRACT_BYTE ord sz x n = ucast (object_bytes ord sz x ! n)"

definition CPU_TO_FDT16 :: "byte_order \<Rightarrow> u16 \<Rightarrow> u64" where
  "CPU_TO_FDT16 ord x = push_bit 8 (EXTRACT_BYTE ord 2 x 0) OR EXTRACT_BYTE ord 2 x 1"

definition CPU_TO_FDT32 :: "byte_order \<Rightarrow> u32 \<Rightarrow> u64" where
  "CPU_TO_FDT32 ord x = push_bit 24 (EXTRACT_BYTE ord 4 x 0) OR push_bit 16 (EXTRACT_BYTE ord 4 x 1) OR
     push_bit 8 (EXTRACT_BYTE ord 4 x 2) OR EXTRACT_BYTE ord 4 x 3"

definition CPU_TO_FDT64 :: "byte_order \<Rightarrow> u64 \<Rightarrow> u64" where
  "CPU_TO_FDT64 ord x = push_bit 56 (EXTRACT_BYTE ord 8 x 0) OR push_bit 48 (EXTRACT_BYTE ord 8 x 1) OR
     push_bit 40 (EXTRACT_BYTE ord 8 x 2) OR push_bit 32 (EXTRACT_BYTE ord 8 x 3) OR
     push_bit 24 (EXTRACT_BYTE ord 8 x 4) OR push_bit 16 (EXTRACT_BYTE ord 8 x 5) OR
     push_bit 8 (EXTRACT_BYTE ord 8 x 6) OR EXTRACT_BYTE ord 8 x 7"

definition fdt16_to_cpu :: "byte_order \<Rightarrow> u16 \<Rightarrow> u16" where "fdt16_to_cpu ord x = ucast (CPU_TO_FDT16 ord x)"
definition cpu_to_fdt16 :: "byte_order \<Rightarrow> u16 \<Rightarrow> u16" where "cpu_to_fdt16 ord x = ucast (CPU_TO_FDT16 ord x)"
definition fdt32_to_cpu :: "byte_order \<Rightarrow> u32 \<Rightarrow> u32" where "fdt32_to_cpu ord x = ucast (CPU_TO_FDT32 ord x)"
definition cpu_to_fdt32 :: "byte_order \<Rightarrow> u32 \<Rightarrow> u32" where "cpu_to_fdt32 ord x = ucast (CPU_TO_FDT32 ord x)"
definition fdt64_to_cpu :: "byte_order \<Rightarrow> u64 \<Rightarrow> u64" where "fdt64_to_cpu ord x = CPU_TO_FDT64 ord x"
definition cpu_to_fdt64 :: "byte_order \<Rightarrow> u64 \<Rightarrow> u64" where "cpu_to_fdt64 ord x = CPU_TO_FDT64 ord x"

datatype fdt_field = magic | totalsize | off_dt_struct | off_dt_strings | off_mem_rsvmap | version
  | last_comp_version | boot_cpuid_phys | size_dt_strings | size_dt_struct

primrec fdt_off :: "fdt_field \<Rightarrow> nat" where
  "fdt_off magic = 0"
| "fdt_off totalsize = 4"
| "fdt_off off_dt_struct = 8"
| "fdt_off off_dt_strings = 12"
| "fdt_off off_mem_rsvmap = 16"
| "fdt_off version = 20"
| "fdt_off last_comp_version = 24"
| "fdt_off boot_cpuid_phys = 28"
| "fdt_off size_dt_strings = 32"
| "fdt_off size_dt_struct = 36"

definition fdt_get_header :: "byte_order \<Rightarrow> fdt_field \<Rightarrow> bytemem \<Rightarrow> u32 \<Rightarrow> u32" where
  "fdt_get_header ord f m fdt = fdt32_to_cpu ord (load32 ord m fdt (fdt_off f))"

definition fdt_set_hdr :: "byte_order \<Rightarrow> fdt_field \<Rightarrow> u32 \<Rightarrow> u32 \<Rightarrow> bytemem \<Rightarrow> bytemem" where
  "fdt_set_hdr ord f fdt val m = store32 ord (cpu_to_fdt32 ord val) fdt (fdt_off f) m"

definition fit_get_size :: "byte_order \<Rightarrow> bytemem \<Rightarrow> u32 \<Rightarrow> u32" where
  "fit_get_size ord m fit = fdt_get_header ord totalsize m fit"

section \<open>Fields do not interfere\<close>

lemma image_access:
  "image_get_l ord f m hdr = get_unaligned_be32 m (unat hdr + word_off f)"
  "image_set_l ord f hdr val m = put_unaligned_be32 val (unat hdr + word_off f) m"
  by (simp_all add: image_get_l_def uimage_to_cpu_def load32_def native_conversions(5) host_order.undo [OF host_order_header]
      image_set_l_def cpu_to_uimage_def store32_def native_store_def host_order.stores_be [OF host_order_header] put_poke)

lemma be32_agree: "(\<And>k. k < 4 \<Longrightarrow> m (p + k) = m' (p + k)) \<Longrightarrow> get_unaligned_be32 m p = get_unaligned_be32 m' p"
  using be32.get_img be32.img_inj by (metis (no_types, lifting) length_window window_eqI window_nth)

lemma word_off_apart: "f \<noteq> g \<Longrightarrow> word_off f + 4 \<le> word_off g \<or> word_off g + 4 \<le> word_off f"
  by (cases f; cases g) simp_all

lemma word_off_bound: "word_off f + 4 \<le> 28"
  by (cases f) simp_all

lemma byte_off_range: "28 \<le> byte_off f" "byte_off f < 32"
  by (cases f; simp)+

lemma byte_off_inj: "byte_off f = byte_off g \<longleftrightarrow> f = g"
  by (cases f; cases g) simp_all

lemma image_words:
  "image_get_l ord f (image_set_l ord g hdr val m) hdr = (if f = g then val else image_get_l ord f m hdr)"
  using word_off_apart [of f g] by (auto simp: image_access be32.get_put intro!: be32.get_frame)

lemma image_word_byte: "image_get_b f (image_set_l ord g hdr val m) hdr = image_get_b f m hdr"
  using word_off_bound [of g] byte_off_range [of f] by (simp add: image_get_b_def image_access be32.put_frame)

lemma image_byte_word: "image_get_l ord f (image_set_b g hdr b m) hdr = image_get_l ord f m hdr"
  using word_off_bound [of f] byte_off_range [of g]
  by (auto simp: image_access image_set_b_def intro!: be32_agree)

lemma image_bytes:
  "image_get_b f (image_set_b g hdr b m) hdr = (if f = g then b else image_get_b f m hdr)"
  by (simp add: image_get_b_def image_set_b_def byte_off_inj)

lemma image_name_frame:
  "image_get_l ord f (image_set_name hdr name m) hdr = image_get_l ord f m hdr"
  "image_get_b g (image_set_name hdr name m) hdr = image_get_b g m hdr"
  using word_off_bound [of f] byte_off_range [of g]
  by (auto simp: image_access image_get_b_def image_set_name_def strncpy_def image_get_name_def ih_name_def poke_frame
      intro!: be32_agree)

text \<open>
  C27: on a host of either byte order the header is an array of independent fields: what a setter
  stores is what the getter of the same field returns, and no other getter notices, nor does a
  name; a word lies in memory with its most significant byte first.
\<close>

theorem image_header_fields:
  "image_get_l ord f (image_set_l ord g hdr val m) hdr = (if f = g then val else image_get_l ord f m hdr) \<and>
   image_get_b f' (image_set_b g' hdr b m) hdr = (if f' = g' then b else image_get_b f' m hdr) \<and>
   image_get_b f' (image_set_l ord g hdr val m) hdr = image_get_b f' m hdr \<and>
   image_get_l ord f (image_set_b g' hdr b m) hdr = image_get_l ord f m hdr \<and>
   image_get_l ord f (image_set_name hdr name m) hdr = image_get_l ord f m hdr \<and>
   image_get_b f' (image_set_name hdr name m) hdr = image_get_b f' m hdr \<and>
   window (image_set_l ord f hdr val m) (unat hdr + word_off f) 4 = rev (le_bytes 4 val) \<and>
   image_get_image_size ord (image_set_l ord ih_size hdr val m) hdr = val + 64 \<and>
   image_check_magic ord (image_set_l ord ih_magic hdr IH_MAGIC m) hdr"
  by (simp add: image_words image_word_byte image_byte_word image_bytes image_name_frame image_get_image_size_def
      image_get_header_size_def ih_name_def IH_NMLEN_def image_check_magic_def)
    (simp add: image_access be32.put_img)

text \<open>
  a name of up to 31 characters is stored as a terminated string, padded with zeros; of a
  longer one the first 32 characters are stored, and then the field has no terminator.
\<close>

theorem image_name_spec:
  assumes "0 \<notin> set name"
  shows "window (image_set_name hdr name m) (image_get_name hdr) IH_NMLEN = take 32 (name @ replicate 32 0) \<and>
    (if length name < 32
     then takeWhile (\<lambda>c. c \<noteq> 0) (window (image_set_name hdr name m) (image_get_name hdr) IH_NMLEN) = name
     else 0 \<notin> set (window (image_set_name hdr name m) (image_get_name hdr) IH_NMLEN))"
proof -
  have l: "length (take 32 (name @ replicate 32 0)) = 32" by simp
  have w: "window (image_set_name hdr name m) (image_get_name hdr) IH_NMLEN = take 32 (name @ replicate 32 0)"
    using window_poke [of "take 32 (name @ replicate 32 0)" "image_get_name hdr" m, unfolded l]
    by (simp add: image_set_name_def strncpy_def IH_NMLEN_def)
  have "takeWhile (\<lambda>c. c \<noteq> 0) (name @ replicate k 0) = name" for k
  proof -
    have "takeWhile (\<lambda>c. c \<noteq> 0) (name @ replicate k 0) = name @ takeWhile (\<lambda>c. c \<noteq> 0) (replicate k 0)"
      by (rule takeWhile_append2) (use assms in auto)
    then show ?thesis by (cases k) simp_all
  qed
  then have "takeWhile (\<lambda>c. c \<noteq> 0) (take 32 (name @ replicate 32 0)) = name" if "length name < 32"
    using that by simp
  moreover have "0 \<notin> set (take 32 (name @ replicate 32 0))" if "\<not> length name < 32"
    using assms that by (auto dest: in_set_takeD)
  ultimately show ?thesis unfolding w by simp
qed

theorem image_name_spec_witness:
  "0 \<notin> set (window (image_set_name 0x1000 (replicate 40 0x41) (\<lambda>a. 0)) (image_get_name 0x1000) IH_NMLEN)"
  using image_name_spec [of "replicate 40 0x41" "0x1000" "\<lambda>a. 0"] by simp

section \<open>The conversions of libfdt\<close>

lemma joined_bytes:
  fixes a b c d :: u8
  defines "x \<equiv> ucast (push_bit 24 (ucast a) OR push_bit 16 (ucast b) OR push_bit 8 (ucast c) OR ucast d :: u64) :: u32"
  shows "byte x 0 = d" "byte x (Suc 0) = c" "byte x 2 = b" "byte x 3 = a"
  unfolding x_def by (auto intro!: bit_word_eqI simp: word_bits)

lemma joined_bytes_2:
  fixes a b :: u8
  defines "x \<equiv> ucast (push_bit 8 (ucast a) OR ucast b :: u64) :: u16"
  shows "byte x 0 = b" "byte x (Suc 0) = a"
  unfolding x_def by (auto intro!: bit_word_eqI simp: word_bits)

lemma joined_bytes_8:
  fixes a b c d e f g h :: u8
  defines "x \<equiv> push_bit 56 (ucast a) OR push_bit 48 (ucast b) OR push_bit 40 (ucast c) OR push_bit 32 (ucast d) OR
    push_bit 24 (ucast e) OR push_bit 16 (ucast f) OR push_bit 8 (ucast g) OR ucast h :: u64"
  shows "byte x 0 = h" "byte x (Suc 0) = g" "byte x 2 = f" "byte x 3 = e"
    "byte x 4 = d" "byte x 5 = c" "byte x 6 = b" "byte x 7 = a"
  unfolding x_def by (auto intro!: bit_word_eqI simp: word_bits)

lemma list_of_8:
  "length bs = 8 \<Longrightarrow> [bs ! 0, bs ! Suc 0, bs ! 2, bs ! 3, bs ! 4, bs ! 5, bs ! 6, bs ! 7] = bs"
  by (rule nth_equalityI) (auto simp: less_Suc_eq numeral_eq_Suc)

lemma list_of_4: "length bs = 4 \<Longrightarrow> [bs ! 0, bs ! Suc 0, bs ! 2, bs ! 3] = bs"
  by (rule nth_equalityI) (auto simp: less_Suc_eq numeral_eq_Suc)

lemma list_of_2: "length bs = 2 \<Longrightarrow> [bs ! 0, bs ! Suc 0] = bs"
  by (rule nth_equalityI) (auto simp: less_Suc_eq numeral_eq_Suc)

lemma le_bytes_fdt:
  "le_bytes 4 (cpu_to_fdt32 ord y) = rev (object_bytes ord 4 y)"
  "le_bytes 2 (cpu_to_fdt16 ord x) = rev (object_bytes ord 2 x)"
  "le_bytes 8 (cpu_to_fdt64 ord z) = rev (object_bytes ord 8 z)"
proof -
  let ?b = "object_bytes ord 4 y"
  have "rev (le_bytes 4 (cpu_to_fdt32 ord y)) = [?b ! 0, ?b ! Suc 0, ?b ! 2, ?b ! 3]"
    by (simp add: le_bytes_def upt_bytes cpu_to_fdt32_def CPU_TO_FDT32_def EXTRACT_BYTE_def joined_bytes)
  then show "le_bytes 4 (cpu_to_fdt32 ord y) = rev ?b" by (simp add: list_of_4 rev_swap)
  let ?c = "object_bytes ord 2 x"
  have "rev (le_bytes 2 (cpu_to_fdt16 ord x)) = [?c ! 0, ?c ! Suc 0]"
    by (simp add: le_bytes_def upt_bytes cpu_to_fdt16_def CPU_TO_FDT16_def EXTRACT_BYTE_def joined_bytes_2)
  then show "le_bytes 2 (cpu_to_fdt16 ord x) = rev ?c" by (simp add: list_of_2 rev_swap)
  let ?d = "object_bytes ord 8 z"
  have "rev (le_bytes 8 (cpu_to_fdt64 ord z)) = [?d ! 0, ?d ! Suc 0, ?d ! 2, ?d ! 3, ?d ! 4, ?d ! 5, ?d ! 6, ?d ! 7]"
    by (simp add: le_bytes_def upt_bytes cpu_to_fdt64_def CPU_TO_FDT64_def EXTRACT_BYTE_def joined_bytes_8)
  then show "le_bytes 8 (cpu_to_fdt64 ord z) = rev ?d" by (simp add: list_of_8 rev_swap)
qed

lemma be_of_bytes:
  "le_bytes 2 x' = rev (object_bytes ord 2 x) \<Longrightarrow> x' = cpu_to_be16 (host_header ord) x"
  "le_bytes 4 y' = rev (object_bytes ord 4 y) \<Longrightarrow> y' = cpu_to_be32 (host_header ord) y"
  "le_bytes 8 z' = rev (object_bytes ord 8 z) \<Longrightarrow> z' = cpu_to_be64 (host_header ord) z"
proof -
  have o: "object_bytes ord n v' = rev (le_bytes n v)" if "le_bytes n v' = rev (object_bytes ord n v)" for n and v v' :: "'v::len word"
    using that by (cases ord) simp_all
  note stores = host_order.stores_be [OF host_order_header, of ord]
  show "le_bytes 2 x' = rev (object_bytes ord 2 x) \<Longrightarrow> x' = cpu_to_be16 (host_header ord) x"
    using o [of 2 x' x] stores(1) [of x] object_bytes_eq_iff [of 2 ord x' "cpu_to_be16 (host_header ord) x"] by simp
  show "le_bytes 4 y' = rev (object_bytes ord 4 y) \<Longrightarrow> y' = cpu_to_be32 (host_header ord) y"
    using o [of 4 y' y] stores(2) [of y] object_bytes_eq_iff [of 4 ord y' "cpu_to_be32 (host_header ord) y"] by simp
  show "le_bytes 8 z' = rev (object_bytes ord 8 z) \<Longrightarrow> z' = cpu_to_be64 (host_header ord) z"
    using o [of 8 z' z] stores(3) [of z] object_bytes_eq_iff [of 8 ord z' "cpu_to_be64 (host_header ord) z"] by simp
qed

lemma fdt_is_be:
  "cpu_to_fdt16 ord x = cpu_to_be16 (host_header ord) x" "fdt16_to_cpu ord x = be16_to_cpu (host_header ord) x"
  "cpu_to_fdt32 ord y = cpu_to_be32 (host_header ord) y" "fdt32_to_cpu ord y = be32_to_cpu (host_header ord) y"
  "cpu_to_fdt64 ord z = cpu_to_be64 (host_header ord) z" "fdt64_to_cpu ord z = be64_to_cpu (host_header ord) z"
proof -
  show c: "cpu_to_fdt16 ord x = cpu_to_be16 (host_header ord) x" "cpu_to_fdt32 ord y = cpu_to_be32 (host_header ord) y"
    "cpu_to_fdt64 ord z = cpu_to_be64 (host_header ord) z" by (intro be_of_bytes le_bytes_fdt)+
  have "fdt16_to_cpu ord x = cpu_to_fdt16 ord x" "fdt32_to_cpu ord y = cpu_to_fdt32 ord y" "fdt64_to_cpu ord z = cpu_to_fdt64 ord z"
    by (simp_all add: fdt16_to_cpu_def cpu_to_fdt16_def fdt32_to_cpu_def cpu_to_fdt32_def fdt64_to_cpu_def cpu_to_fdt64_def)
  then show "fdt16_to_cpu ord x = be16_to_cpu (host_header ord) x" "fdt32_to_cpu ord y = be32_to_cpu (host_header ord) y"
    "fdt64_to_cpu ord z = be64_to_cpu (host_header ord) z" using c by (cases ord; simp add: host_tables)+
qed

lemma fdt_off_apart: "f \<noteq> g \<Longrightarrow> fdt_off f + 4 \<le> fdt_off g \<or> fdt_off g + 4 \<le> fdt_off f"
  by (cases f; cases g) simp_all

lemma fdt_access:
  "fdt_get_header ord f m fdt = get_unaligned_be32 m (unat fdt + fdt_off f)"
  "fdt_set_hdr ord f fdt val m = put_unaligned_be32 val (unat fdt + fdt_off f) m"
  by (simp_all add: fdt_get_header_def fdt_is_be load32_def native_conversions(5) host_order.undo [OF host_order_header]
      fdt_set_hdr_def store32_def native_store_def host_order.stores_be [OF host_order_header] put_poke)

text \<open>
  the conversions of libfdt, which pick a word apart byte by byte, are those of the host header
  on hosts of either byte order; so the header of a device tree is an array of independent
  big-endian fields.
\<close>

theorem fdt_header_fields:
  "fdt16_to_cpu ord x = be16_to_cpu (host_header ord) x \<and> fdt32_to_cpu ord y = be32_to_cpu (host_header ord) y \<and>
   fdt64_to_cpu ord z = be64_to_cpu (host_header ord) z \<and> cpu_to_fdt64 ord z = cpu_to_be64 (host_header ord) z \<and>
   fdt_get_header ord f (fdt_set_hdr ord g fdt val m) fdt = (if f = g then val else fdt_get_header ord f m fdt) \<and>
   window (fdt_set_hdr ord f fdt val m) (unat fdt + fdt_off f) 4 = rev (le_bytes 4 val) \<and>
   fit_get_size ord (fdt_set_hdr ord totalsize fdt val m) fdt = val"
proof -
  have "fdt_get_header ord f (fdt_set_hdr ord g fdt val m) fdt = (if f = g then val else fdt_get_header ord f m fdt)" for f g
    using fdt_off_apart [of f g] by (auto simp: fdt_access be32.get_put intro!: be32.get_frame)
  moreover have "window (fdt_set_hdr ord f fdt val m) (unat fdt + fdt_off f) 4 = rev (le_bytes 4 val)"
    by (simp only: fdt_access be32.put_img)
  ultimately show ?thesis by (simp add: fdt_is_be fit_get_size_def)
qed

end
