(* ===== verification/NetAddr.thy ===== *)
theory NetAddr
  imports Unaligned
begin

text \<open>
  Addresses in packets (\<open>include/net.h\<close>): copying IP addresses between packets of any alignment, and
  the classes of Ethernet addresses.  \<open>memcpy\<close> and \<open>memcmp\<close> are those of the standard library; the random
  numbers, the timer and the address of the discovery protocol are outside the header.  An
  Ethernet address is a list of at least six bytes.
\<close>

section \<open>IP addresses\<close>

definition memcpy :: "nat \<Rightarrow> nat \<Rightarrow> nat \<Rightarrow> bytemem \<Rightarrow> bytemem" where
  "memcpy to frm n m = poke (window m frm n) to m"

text \<open>Copying into and out of a local word is reading and storing its object.\<close>

definition net_read_ip :: "byte_order \<Rightarrow> bytemem \<Rightarrow> nat \<Rightarrow> u32" where
  "net_read_ip ord m frm = native_load ord 4 m frm"

definition net_read_u32 :: "byte_order \<Rightarrow> bytemem \<Rightarrow> nat \<Rightarrow> u32" where
  "net_read_u32 ord m frm = native_load ord 4 m frm"

definition net_write_ip :: "byte_order \<Rightarrow> nat \<Rightarrow> u32 \<Rightarrow> bytemem \<Rightarrow> bytemem" where
  "net_write_ip ord to ip m = native_store ord 4 ip to m"

definition net_copy_ip :: "nat \<Rightarrow> nat \<Rightarrow> bytemem \<Rightarrow> bytemem" where
  "net_copy_ip to frm m = memcpy to frm 4 m"

definition net_copy_u32 :: "nat \<Rightarrow> nat \<Rightarrow> bytemem \<Rightarrow> bytemem" where
  "net_copy_u32 to frm m = memcpy to frm 4 m"

section \<open>Ethernet addresses\<close>

definition ARP_HLEN :: nat where "ARP_HLEN = 6"

definition is_cdp_packet :: "u8 list \<Rightarrow> u8 list \<Rightarrow> int" where
  "is_cdp_packet net_cdp_ethaddr ethaddr = c_bool (take ARP_HLEN ethaddr = take ARP_HLEN net_cdp_ethaddr)"

definition is_zero_ethaddr :: "u8 list \<Rightarrow> bool" where
  "is_zero_ethaddr a \<longleftrightarrow> a ! 0 OR a ! 1 OR a ! 2 OR a ! 3 OR a ! 4 OR a ! 5 = 0"

definition is_multicast_ethaddr :: "u8 list \<Rightarrow> bool" where
  "is_multicast_ethaddr a \<longleftrightarrow> 0x01 AND a ! 0 \<noteq> 0"

definition is_broadcast_ethaddr :: "u8 list \<Rightarrow> bool" where
  "is_broadcast_ethaddr a \<longleftrightarrow> a ! 0 AND a ! 1 AND a ! 2 AND a ! 3 AND a ! 4 AND a ! 5 = 0xff"

definition is_valid_ethaddr :: "u8 list \<Rightarrow> bool" where
  "is_valid_ethaddr a \<longleftrightarrow> \<not> is_multicast_ethaddr a \<and> \<not> is_zero_ethaddr a"

text \<open>\<open>rand_r\<close> yields an \<open>int\<close> and the next seed.\<close>

primrec random_bytes :: "(u32 \<Rightarrow> u32 \<times> u32) \<Rightarrow> nat \<Rightarrow> u32 \<Rightarrow> u8 list" where
  "random_bytes rand_r 0 seed = []"
| "random_bytes rand_r (Suc n) seed =
     (let (r, seed1) = rand_r seed in ucast r # random_bytes rand_r n seed1)"

definition net_random_ethaddr :: "(u32 \<Rightarrow> u32 \<times> u32) \<Rightarrow> u64 \<Rightarrow> u8 list" where
  "net_random_ethaddr rand_r ticks =
     (let addr = random_bytes rand_r 6 (ucast ticks);
          addr = addr[0 := addr ! 0 AND 0xfe]
      in addr[0 := addr ! 0 OR 0x02])"

section \<open>Properties\<close>

text \<open>
  an address that is read from a packet is the big-endian word at any address, on hosts of
  both byte orders once it is converted; writing back what was read is the copy, and a copy
  changes only the four bytes it writes.
\<close>

theorem net_ip_wire:
  "ntohl (host_header ord) (net_read_ip ord m p) = get_unaligned_be32 m p \<and>
   net_write_ip ord q (htonl (host_header ord) x) m = put_unaligned_be32 x q m \<and>
   net_write_ip ord q (net_read_u32 ord m p) m = net_copy_ip q p m \<and>
   window (net_copy_u32 q p m) q 4 = window m p 4"
  using window_poke [of "window m p 4" q m]
  by (simp add: net_read_ip_def net_read_u32_def net_write_ip_def net_copy_ip_def net_copy_u32_def memcpy_def
      native_store_def object_bytes_native_load ntohl_def htonl_def native_conversions(5) host_order.undo [OF host_order_header]
      host_order.stores_be [OF host_order_header] put_poke be32.get_img)

lemma length_random_bytes [simp]: "length (random_bytes rand_r n seed) = n"
  by (induction n arbitrary: seed) (simp_all add: case_prod_beta)

lemma multicast_bit: "is_multicast_ethaddr a \<longleftrightarrow> bit (a ! 0) 0"
  by (simp add: is_multicast_ethaddr_def even_iff_mod_2_eq_zero and.commute [of 1] and_one_eq bit_0)

lemma six_bytes: "length a = 6 \<Longrightarrow> a = [a ! 0, a ! 1, a ! 2, a ! 3, a ! 4, a ! 5]"
  by (rule nth_equalityI) (auto simp: less_Suc_eq numeral_eq_Suc)

lemma or_zero: "(x :: 'a::len word) OR y = 0 \<longleftrightarrow> x = 0 \<and> y = 0"
  by (auto simp: bit_eq_iff bit_or_iff)

lemma and_ones: "(x :: u8) AND y = 0xff \<longleftrightarrow> x = 0xff \<and> y = 0xff"
proof -
  have ones: "(0xff :: u8) = - 1" by simp
  show ?thesis unfolding ones by (auto simp: bit_eq_iff bit_and_iff)
qed

text \<open>
  C36: the predicates mean what they say: the zero address, the broadcast address, which is a
  multicast address, and the valid ones, which exclude both; and whatever the random numbers are,
  a generated address is valid and marked as locally assigned.
\<close>

theorem ethaddr_classes:
  assumes "length a = 6"
  shows "(is_zero_ethaddr a \<longleftrightarrow> a = replicate 6 0) \<and> (is_broadcast_ethaddr a \<longleftrightarrow> a = replicate 6 0xff) \<and>
    (is_multicast_ethaddr a \<longleftrightarrow> bit (a ! 0) 0) \<and>
    (is_valid_ethaddr a \<longleftrightarrow> \<not> bit (a ! 0) 0 \<and> a \<noteq> replicate 6 0) \<and>
    \<not> (is_broadcast_ethaddr a \<and> is_valid_ethaddr a) \<and>
    is_valid_ethaddr (net_random_ethaddr rand_r ticks) \<and> bit (net_random_ethaddr rand_r ticks ! 0) 1"
proof -
  have z: "is_zero_ethaddr a \<longleftrightarrow> a = replicate 6 0"
    by (subst six_bytes [OF assms]) (simp add: is_zero_ethaddr_def or_zero numeral_eq_Suc)
  have b: "is_broadcast_ethaddr a \<longleftrightarrow> a = replicate 6 0xff"
    by (subst six_bytes [OF assms]) (simp add: is_broadcast_ethaddr_def and_ones numeral_eq_Suc)
  let ?r = "net_random_ethaddr rand_r ticks"
  have r: "?r ! 0 = (random_bytes rand_r 6 (ucast ticks) ! 0 AND 0xfe) OR 0x02"
    by (simp add: net_random_ethaddr_def Let_def)
  have "\<not> bit (?r ! 0) 0" "bit (?r ! 0) 1"
    unfolding r by (simp_all add: bit_or_iff bit_and_iff)
  moreover from this have "\<not> is_zero_ethaddr ?r"
    by (auto simp: is_zero_ethaddr_def or_zero)
  ultimately show ?thesis using z b by (auto simp: is_valid_ethaddr_def multicast_bit)
qed

theorem ethaddr_classes_witness:
  "is_valid_ethaddr [0x02, 0, 0, 0, 0, 1] \<and> is_valid_ethaddr (net_random_ethaddr (\<lambda>s. (s, s + 1)) 5)"
  using ethaddr_classes [of "[0x02, 0, 0, 0, 0, 1]" "\<lambda>s. (s, s + 1)" 5] by (simp add: numeral_eq_Suc)

end
