(* ===== verification/Usb.thy ===== *)
theory Usb
  imports Unaligned
begin

text \<open>
  Endpoint descriptors of USB devices (\<open>include/linux/usb/ch9.h\<close>): packed structures in memory, read
  at the offsets of their fields on a host of either byte order.
\<close>

section \<open>Endpoints\<close>

definition USB_DIR_OUT :: u8 where "USB_DIR_OUT = 0"
definition USB_DIR_IN :: u8 where "USB_DIR_IN = 0x80"
definition USB_ENDPOINT_NUMBER_MASK :: u8 where "USB_ENDPOINT_NUMBER_MASK = 0x0f"
definition USB_ENDPOINT_DIR_MASK :: u8 where "USB_ENDPOINT_DIR_MASK = 0x80"
definition USB_ENDPOINT_XFERTYPE_MASK :: u8 where "USB_ENDPOINT_XFERTYPE_MASK = 0x03"
definition USB_ENDPOINT_XFER_CONTROL :: u8 where "USB_ENDPOINT_XFER_CONTROL = 0"
definition USB_ENDPOINT_XFER_ISOC :: u8 where "USB_ENDPOINT_XFER_ISOC = 1"
definition USB_ENDPOINT_XFER_BULK :: u8 where "USB_ENDPOINT_XFER_BULK = 2"
definition USB_ENDPOINT_XFER_INT :: u8 where "USB_ENDPOINT_XFER_INT = 3"
definition USB_ENDPOINT_INTRTYPE :: u8 where "USB_ENDPOINT_INTRTYPE = 0x30"
definition USB_EP_MAXP_MULT_SHIFT :: nat where "USB_EP_MAXP_MULT_SHIFT = 11"

definition USB_EP_MAXP_MULT_MASK :: int where
  "USB_EP_MAXP_MULT_MASK = push_bit USB_EP_MAXP_MULT_SHIFT 3"

definition USB_EP_MAXP_MULT :: "int \<Rightarrow> int" where
  "USB_EP_MAXP_MULT m = drop_bit USB_EP_MAXP_MULT_SHIFT (m AND USB_EP_MAXP_MULT_MASK)"

text \<open>The fields that the functions read, at their offsets in the packed structure.\<close>

definition bEndpointAddress :: "bytemem \<Rightarrow> nat \<Rightarrow> u8" where "bEndpointAddress m epd = m (epd + 2)"
definition ep_bmAttributes :: "bytemem \<Rightarrow> nat \<Rightarrow> u8" where "ep_bmAttributes m epd = m (epd + 3)"

definition wMaxPacketSize :: "byte_order \<Rightarrow> bytemem \<Rightarrow> nat \<Rightarrow> u16" where
  "wMaxPacketSize ord m epd = native_load ord 2 m (epd + 4)"

definition usb_endpoint_num :: "bytemem \<Rightarrow> nat \<Rightarrow> int" where
  "usb_endpoint_num m epd = uint (bEndpointAddress m epd AND USB_ENDPOINT_NUMBER_MASK)"

definition usb_endpoint_type :: "bytemem \<Rightarrow> nat \<Rightarrow> int" where
  "usb_endpoint_type m epd = uint (ep_bmAttributes m epd AND USB_ENDPOINT_XFERTYPE_MASK)"

definition usb_endpoint_dir_in :: "bytemem \<Rightarrow> nat \<Rightarrow> bool" where
  "usb_endpoint_dir_in m epd \<longleftrightarrow> bEndpointAddress m epd AND USB_ENDPOINT_DIR_MASK = USB_DIR_IN"

definition usb_endpoint_dir_out :: "bytemem \<Rightarrow> nat \<Rightarrow> bool" where
  "usb_endpoint_dir_out m epd \<longleftrightarrow> bEndpointAddress m epd AND USB_ENDPOINT_DIR_MASK = USB_DIR_OUT"

definition usb_endpoint_xfer_bulk :: "bytemem \<Rightarrow> nat \<Rightarrow> bool" where
  "usb_endpoint_xfer_bulk m epd \<longleftrightarrow> ep_bmAttributes m epd AND USB_ENDPOINT_XFERTYPE_MASK = USB_ENDPOINT_XFER_BULK"

definition usb_endpoint_xfer_control :: "bytemem \<Rightarrow> nat \<Rightarrow> bool" where
  "usb_endpoint_xfer_control m epd \<longleftrightarrow> ep_bmAttributes m epd AND USB_ENDPOINT_XFERTYPE_MASK = USB_ENDPOINT_XFER_CONTROL"

definition usb_endpoint_xfer_int :: "bytemem \<Rightarrow> nat \<Rightarrow> bool" where
  "usb_endpoint_xfer_int m epd \<longleftrightarrow> ep_bmAttributes m epd AND USB_ENDPOINT_XFERTYPE_MASK = USB_ENDPOINT_XFER_INT"

definition usb_endpoint_xfer_isoc :: "bytemem \<Rightarrow> nat \<Rightarrow> bool" where
  "usb_endpoint_xfer_isoc m epd \<longleftrightarrow> ep_bmAttributes m epd AND USB_ENDPOINT_XFERTYPE_MASK = USB_ENDPOINT_XFER_ISOC"

definition usb_endpoint_is_bulk_in :: "bytemem \<Rightarrow> nat \<Rightarrow> bool" where
  "usb_endpoint_is_bulk_in m epd \<longleftrightarrow> usb_endpoint_xfer_bulk m epd \<and> usb_endpoint_dir_in m epd"

definition usb_endpoint_is_bulk_out :: "bytemem \<Rightarrow> nat \<Rightarrow> bool" where
  "usb_endpoint_is_bulk_out m epd \<longleftrightarrow> usb_endpoint_xfer_bulk m epd \<and> usb_endpoint_dir_out m epd"

definition usb_endpoint_is_int_in :: "bytemem \<Rightarrow> nat \<Rightarrow> bool" where
  "usb_endpoint_is_int_in m epd \<longleftrightarrow> usb_endpoint_xfer_int m epd \<and> usb_endpoint_dir_in m epd"

definition usb_endpoint_is_int_out :: "bytemem \<Rightarrow> nat \<Rightarrow> bool" where
  "usb_endpoint_is_int_out m epd \<longleftrightarrow> usb_endpoint_xfer_int m epd \<and> usb_endpoint_dir_out m epd"

definition usb_endpoint_is_isoc_in :: "bytemem \<Rightarrow> nat \<Rightarrow> bool" where
  "usb_endpoint_is_isoc_in m epd \<longleftrightarrow> usb_endpoint_xfer_isoc m epd \<and> usb_endpoint_dir_in m epd"

definition usb_endpoint_is_isoc_out :: "bytemem \<Rightarrow> nat \<Rightarrow> bool" where
  "usb_endpoint_is_isoc_out m epd \<longleftrightarrow> usb_endpoint_xfer_isoc m epd \<and> usb_endpoint_dir_out m epd"

definition usb_endpoint_maxp :: "byte_order \<Rightarrow> bytemem \<Rightarrow> nat \<Rightarrow> int" where
  "usb_endpoint_maxp ord m epd = uint (le16_to_cpu (host_header ord) (wMaxPacketSize ord m epd))"

definition usb_endpoint_maxp_mult :: "byte_order \<Rightarrow> bytemem \<Rightarrow> nat \<Rightarrow> int" where
  "usb_endpoint_maxp_mult ord m epd =
     (let maxp = uint (le16_to_cpu (host_header ord) (wMaxPacketSize ord m epd)) in USB_EP_MAXP_MULT maxp + 1)"

definition usb_endpoint_interrupt_type :: "bytemem \<Rightarrow> nat \<Rightarrow> int" where
  "usb_endpoint_interrupt_type m epd = uint (ep_bmAttributes m epd AND USB_ENDPOINT_INTRTYPE)"

section \<open>Companion descriptors\<close>

definition comp_bmAttributes :: "bytemem \<Rightarrow> nat \<Rightarrow> u8" where "comp_bmAttributes m desc = m (desc + 3)"

text \<open>A null pointer is \<open>None\<close>; the shift is one of \<open>int\<close>, which 31 places overflow.\<close>

definition usb_ss_max_streams :: "bytemem \<Rightarrow> nat option \<Rightarrow> ub + int" where
  "usb_ss_max_streams m desc =
     (case desc of
        None \<Rightarrow> Inr 0
      | Some p \<Rightarrow>
          let max_streams = uint (comp_bmAttributes m p AND 0x1f)
          in if max_streams = 0 then Inr 0
             else if 2 ^ 31 \<le> (2 :: int) ^ nat max_streams then Inl SignedOverflow
             else Inr (2 ^ nat max_streams))"

definition USB_SS_MULT :: "int \<Rightarrow> int" where
  "USB_SS_MULT p = 1 + (p AND 0x3)"

section \<open>Properties\<close>

lemmas xfer_defs = usb_endpoint_xfer_bulk_def usb_endpoint_xfer_control_def usb_endpoint_xfer_int_def
  usb_endpoint_xfer_isoc_def USB_ENDPOINT_XFERTYPE_MASK_def USB_ENDPOINT_XFER_CONTROL_def USB_ENDPOINT_XFER_ISOC_def
  USB_ENDPOINT_XFER_BULK_def USB_ENDPOINT_XFER_INT_def

lemma low_two_bits: "(x :: u8) AND 3 = 0 \<or> x AND 3 = 1 \<or> x AND 3 = 2 \<or> x AND 3 = 3"
proof -
  have "unat (x AND mask 2) = unat x mod 4" using unat_and_mask [of x 2] by simp
  then have "unat (x AND 3) < 4" by (simp add: mask_eq_exp_minus_1)
  then have "unat (x AND 3) = unat (0 :: u8) \<or> unat (x AND 3) = unat (1 :: u8) \<or>
      unat (x AND 3) = unat (2 :: u8) \<or> unat (x AND 3) = unat (3 :: u8)" by simp arith
  then show ?thesis by (simp only: word_unat_eq_iff)
qed

lemma top_bit: "(x :: u8) AND 0x80 = (if bit x 7 then 0x80 else 0)"
proof -
  have c: "(0x80 :: u8) = push_bit 7 1" by simp
  have b: "bit (0x80 :: u8) n = (n = 7)" for n
    unfolding c by (simp only: bit_push_bit_iff bit_1_iff) auto
  show ?thesis
  proof (cases "bit x 7")
    case True
    then have "x AND 0x80 = 0x80" by (intro bit_word_eqI) (auto simp only: bit_and_iff b)
    then show ?thesis using True by simp
  next
    case False
    then have "\<not> bit (x AND 0x80) n" for n by (auto simp only: bit_and_iff b)
    then have "x AND 0x80 = 0" by (intro bit_word_eqI) (simp only: bit_0_eq bot_apply bot_bool_def)
    then show ?thesis using False by simp
  qed
qed

lemma mult_field: "USB_EP_MAXP_MULT (int n) = int (n div 2048 mod 4)"
proof -
  have "drop_bit 11 USB_EP_MAXP_MULT_MASK = mask 2"
    by (simp add: USB_EP_MAXP_MULT_MASK_def USB_EP_MAXP_MULT_SHIFT_def mask_eq_exp_minus_1)
  then have "USB_EP_MAXP_MULT (int n) = drop_bit 11 (int n) AND mask 2"
    by (simp add: USB_EP_MAXP_MULT_def USB_EP_MAXP_MULT_SHIFT_def drop_bit_and)
  then show ?thesis
    by (simp add: take_bit_eq_mask [symmetric] take_bit_eq_mod drop_bit_eq_div zdiv_int zmod_int)
qed

text \<open>
  every endpoint has exactly one transfer type and exactly one direction, and a number
  below 16; its word for the packet size is the little-endian one of the descriptor on hosts of both
  byte orders; \<open>usb_endpoint_maxp\<close> returns all of it, so that it is the size in bits 0 to 10
  plus 2048 for each additional transaction, and more when reserved bits are set.
\<close>

theorem usb_endpoint_spec:
  "(usb_endpoint_xfer_control m e \<longleftrightarrow> usb_endpoint_type m e = 0) \<and> (usb_endpoint_xfer_isoc m e \<longleftrightarrow> usb_endpoint_type m e = 1) \<and>
   (usb_endpoint_xfer_bulk m e \<longleftrightarrow> usb_endpoint_type m e = 2) \<and> (usb_endpoint_xfer_int m e \<longleftrightarrow> usb_endpoint_type m e = 3) \<and>
   usb_endpoint_type m e \<in> {0, 1, 2, 3} \<and>
   usb_endpoint_dir_out m e = (\<not> usb_endpoint_dir_in m e) \<and> usb_endpoint_num m e \<in> {0..15} \<and>
   usb_endpoint_maxp ord m e = uint (get_unaligned_le16 m (e + 4)) \<and>
   usb_endpoint_maxp ord m e = usb_endpoint_maxp ord m e mod 2048 +
     2048 * (usb_endpoint_maxp_mult ord m e - 1) + 8192 * (usb_endpoint_maxp ord m e div 8192) \<and>
   usb_endpoint_maxp_mult ord m e \<in> {1..4}"
proof -
  have maxp: "le16_to_cpu (host_header ord) (wMaxPacketSize ord m e) = get_unaligned_le16 m (e + 4)"
    by (simp add: wMaxPacketSize_def native_conversions(1) host_order.undo [OF host_order_header])
  define n where "n = unat (get_unaligned_le16 m (e + 4))"
  have u: "uint (get_unaligned_le16 m (e + 4)) = int n" by (simp add: n_def)
  have mp: "usb_endpoint_maxp ord m e = int n" and mu: "usb_endpoint_maxp_mult ord m e = int (n div 2048 mod 4) + 1"
    by (simp_all only: usb_endpoint_maxp_def usb_endpoint_maxp_mult_def maxp u mult_field Let_def)
  have split: "n = n mod 2048 + 2048 * (n div 2048 mod 4) + 8192 * (n div 8192)"
  proof -
    have "n = n mod 2048 + 2048 * (n div 2048)" by simp
    moreover have "n div 2048 = n div 2048 mod 4 + 4 * (n div 2048 div 4)" by simp
    moreover have "n div 2048 div 4 = n div 8192" by (simp add: div_mult2_eq [symmetric])
    ultimately show ?thesis by linarith
  qed
  have "usb_endpoint_num m e \<le> 15" "0 \<le> usb_endpoint_num m e"
    using word_and_le1 [of "bEndpointAddress m e" "0x0f"]
    by (simp_all add: usb_endpoint_num_def USB_ENDPOINT_NUMBER_MASK_def word_le_def)
  moreover have "usb_endpoint_maxp ord m e = usb_endpoint_maxp ord m e mod 2048 +
      2048 * (usb_endpoint_maxp_mult ord m e - 1) + 8192 * (usb_endpoint_maxp ord m e div 8192)"
  proof -
    have "int n = int (n mod 2048) + 2048 * int (n div 2048 mod 4) + 8192 * int (n div 8192)" using split by linarith
    then show ?thesis unfolding mp mu by (simp add: zmod_int zdiv_int)
  qed
  moreover have "usb_endpoint_dir_out m e = (\<not> usb_endpoint_dir_in m e)"
    by (simp add: usb_endpoint_dir_out_def usb_endpoint_dir_in_def USB_DIR_IN_def USB_DIR_OUT_def USB_ENDPOINT_DIR_MASK_def top_bit)
  moreover have "usb_endpoint_type m e \<in> {0, 1, 2, 3}"
    using low_two_bits [of "ep_bmAttributes m e"]
    by (elim disjE) (simp_all add: usb_endpoint_type_def USB_ENDPOINT_XFERTYPE_MASK_def)
  moreover have "usb_endpoint_xfer_control m e \<longleftrightarrow> usb_endpoint_type m e = 0" "usb_endpoint_xfer_isoc m e \<longleftrightarrow> usb_endpoint_type m e = 1"
    "usb_endpoint_xfer_bulk m e \<longleftrightarrow> usb_endpoint_type m e = 2" "usb_endpoint_xfer_int m e \<longleftrightarrow> usb_endpoint_type m e = 3"
    by (simp_all only: xfer_defs usb_endpoint_type_def word_uint_eq_iff) simp_all
  moreover have "usb_endpoint_maxp ord m e = uint (get_unaligned_le16 m (e + 4))" by (simp only: mp u)
  moreover have "usb_endpoint_maxp_mult ord m e \<in> {1..4}" unfolding mu by simp
  moreover have "usb_endpoint_num m e \<in> {0..15}" using calculation(1,2) by simp
  ultimately show ?thesis by - (intro conjI; assumption)
qed

lemma usb_streams_31:
  "m (p + 3) AND 0x1f = 0x1f \<Longrightarrow> usb_ss_max_streams m (Some p) = Inl SignedOverflow"
  by (simp add: usb_ss_max_streams_def comp_bmAttributes_def)

end
