(* ===== verification/Mtd.thy ===== *)
theory Mtd
  imports Division
begin

text \<open>
  The description of a flash device (\<open>include/linux/mtd/mtd.h\<close>): where an offset lies in
  its erase blocks and pages, what the device can do, and what the errors of its operations mean.
  The division is the macro \<open>do_div\<close> of either kind of target, an argument.
\<close>

section \<open>The device\<close>

record ('w, 'c) mtd_info =
  mtd_type :: nat
  erasesize :: u32
  writesize :: u32
  erasesize_shift :: u32
  writesize_shift :: u32
  erasesize_mask :: u32
  writesize_mask :: u32
  parent :: "u32 option"
  mtd_read_oob :: "'c option"
  mtd_write_oob :: "'c option"
  mtd_block_isbad :: "'c option"
  mtd_sync_op :: "('w \<Rightarrow> 'w) option"

definition MTD_NANDFLASH :: nat where "MTD_NANDFLASH = 4"
definition MTD_MLCNANDFLASH :: nat where "MTD_MLCNANDFLASH = 8"
definition EBADMSG :: int where "EBADMSG = 74"
definition EUCLEAN :: int where "EUCLEAN = 117"

definition mtd_is_partition :: "('w, 'c) mtd_info \<Rightarrow> bool" where
  "mtd_is_partition mtd \<longleftrightarrow> parent mtd \<noteq> None"

definition mtd_sync :: "('w, 'c) mtd_info \<Rightarrow> 'w \<Rightarrow> 'w" where
  "mtd_sync mtd w = (case mtd_sync_op mtd of None \<Rightarrow> w | Some f \<Rightarrow> f w)"

text \<open>A shift of a 64-bit value is defined below 64 places.\<close>

definition shift_right :: "u64 \<Rightarrow> u32 \<Rightarrow> ub + u64" where
  "shift_right sz n = (if 64 \<le> n then Inl BadShift else Inr (drop_bit (unat n) sz))"

definition mtd_div_by_eb :: "(u64 \<Rightarrow> u32 \<Rightarrow> ub + u64 \<times> u32) \<Rightarrow> u64 \<Rightarrow> ('w, 'c) mtd_info \<Rightarrow> ub + u32" where
  "mtd_div_by_eb do_div sz mtd =
     (if erasesize_shift mtd \<noteq> 0
      then bindE (shift_right sz (erasesize_shift mtd)) (\<lambda>q. Inr (ucast q))
      else bindE (do_div sz (erasesize mtd)) (\<lambda>(sz, rem). Inr (ucast sz)))"

definition mtd_mod_by_eb :: "(u64 \<Rightarrow> u32 \<Rightarrow> ub + u64 \<times> u32) \<Rightarrow> u64 \<Rightarrow> ('w, 'c) mtd_info \<Rightarrow> ub + u32" where
  "mtd_mod_by_eb do_div sz mtd =
     (if erasesize_shift mtd \<noteq> 0 then Inr (ucast (sz AND ucast (erasesize_mask mtd)))
      else bindE (do_div sz (erasesize mtd)) (\<lambda>(sz, rem). Inr rem))"

definition mtd_div_by_ws :: "(u64 \<Rightarrow> u32 \<Rightarrow> ub + u64 \<times> u32) \<Rightarrow> u64 \<Rightarrow> ('w, 'c) mtd_info \<Rightarrow> ub + u32" where
  "mtd_div_by_ws do_div sz mtd =
     (if writesize_shift mtd \<noteq> 0
      then bindE (shift_right sz (writesize_shift mtd)) (\<lambda>q. Inr (ucast q))
      else bindE (do_div sz (writesize mtd)) (\<lambda>(sz, rem). Inr (ucast sz)))"

definition mtd_mod_by_ws :: "(u64 \<Rightarrow> u32 \<Rightarrow> ub + u64 \<times> u32) \<Rightarrow> u64 \<Rightarrow> ('w, 'c) mtd_info \<Rightarrow> ub + u32" where
  "mtd_mod_by_ws do_div sz mtd =
     (if writesize_shift mtd \<noteq> 0 then Inr (ucast (sz AND ucast (writesize_mask mtd)))
      else bindE (do_div sz (writesize mtd)) (\<lambda>(sz, rem). Inr rem))"

definition mtd_has_oob :: "('w, 'c) mtd_info \<Rightarrow> bool" where
  "mtd_has_oob mtd \<longleftrightarrow> mtd_read_oob mtd \<noteq> None \<and> mtd_write_oob mtd \<noteq> None"

definition mtd_type_is_nand :: "('w, 'c) mtd_info \<Rightarrow> bool" where
  "mtd_type_is_nand mtd \<longleftrightarrow> mtd_type mtd = MTD_NANDFLASH \<or> mtd_type mtd = MTD_MLCNANDFLASH"

definition mtd_can_have_bb :: "('w, 'c) mtd_info \<Rightarrow> int" where
  "mtd_can_have_bb mtd = c_bool (mtd_block_isbad mtd \<noteq> None)"

definition mtd_is_bitflip :: "int \<Rightarrow> bool" where
  "mtd_is_bitflip err \<longleftrightarrow> err = - EUCLEAN"

definition mtd_is_eccerr :: "int \<Rightarrow> bool" where
  "mtd_is_eccerr err \<longleftrightarrow> err = - EBADMSG"

definition mtd_is_bitflip_or_eccerr :: "int \<Rightarrow> bool" where
  "mtd_is_bitflip_or_eccerr err \<longleftrightarrow> mtd_is_bitflip err \<or> mtd_is_eccerr err"

section \<open>Blocks and pages\<close>

text \<open>
  A unit, its shift and its mask agree: the shift is 0, which makes the code divide, or the
  logarithm of the unit.
\<close>

definition unit_ok :: "u32 \<Rightarrow> u32 \<Rightarrow> u32 \<Rightarrow> bool" where
  "unit_ok s sh msk \<longleftrightarrow> s \<noteq> 0 \<and>
     (sh \<noteq> 0 \<longrightarrow> unat sh < 32 \<and> unat s = 2 ^ unat sh \<and> unat msk = 2 ^ unat sh - 1)"

lemma shift_is_division:
  assumes "unit_ok s sh msk" "sh \<noteq> 0"
  shows "\<exists>q. shift_right sz sh = Inr q \<and> unat q = unat sz div unat s"
    and "unat (ucast (sz AND ucast msk) :: u32) = unat sz mod unat s"
proof -
  have sh: "unat sh < 32" "unat s = 2 ^ unat sh" "unat msk = 2 ^ unat sh - 1" using assms by (simp_all add: unit_ok_def)
  have "\<not> 64 \<le> sh" using sh(1) by (simp add: word_le_nat_alt)
  then show "\<exists>q. shift_right sz sh = Inr q \<and> unat q = unat sz div unat s"
    by (simp add: shift_right_def unat_drop_bit sh(2))
  have "unat (mask (unat sh) :: u64) = unat (- 1 AND mask (unat sh) :: u64)" by simp
  also have "\<dots> = 2 ^ unat sh - 1"
  proof -
    have "unat (- 1 :: u64) = 2 ^ 64 - 1" by (simp add: unsigned_minus_1_eq_mask mask_eq_exp_minus_1)
    moreover have "(2 ^ 64 - 1) mod 2 ^ k = (2 ^ k - 1 :: nat)" if "k < 32" for k
      using that mask_mod_exp [of 64 k, where 'a = nat] by (simp add: min_def)
    ultimately show ?thesis using sh(1) by (simp only: unat_and_mask)
  qed
  finally have "ucast msk = (mask (unat sh) :: u64)"
    by (intro word_unat_eq_iff [THEN iffD2]) (simp only: unat_ucast32 sh(3))
  then have "unat (sz AND ucast msk) = unat sz mod unat s" by (simp only: unat_and_mask sh(2))
  moreover have "unat sz mod unat s < 2 ^ 32"
  proof -
    have "unat sz mod unat s < unat s" using sh(2) by simp
    also have "unat s < 2 ^ 32" using unat_less_pow [of s] by simp
    finally show ?thesis .
  qed
  ultimately show "unat (ucast (sz AND ucast msk) :: u32) = unat sz mod unat s"
    by (simp add: unat_ucast_down)
qed

definition coordinates :: "ub + u32 \<Rightarrow> ub + u32 \<Rightarrow> u32 \<Rightarrow> u64 \<Rightarrow> bool" where
  "coordinates dv md s sz \<longleftrightarrow> (\<exists>q r. dv = Inr q \<and> md = Inr r \<and>
     unat q = unat sz div unat s \<and> unat r = unat sz mod unat s)"

context long_division
begin

lemma unit_coordinates:
  assumes "unit_ok s sh msk" "unat sz div unat s < 2 ^ 32"
  shows "coordinates
    (if sh \<noteq> 0 then bindE (shift_right sz sh) (\<lambda>q. Inr (ucast q)) else bindE (dv sz s) (\<lambda>(sz, rem). Inr (ucast sz)))
    (if sh \<noteq> 0 then Inr (ucast (sz AND ucast msk)) else bindE (dv sz s) (\<lambda>(sz, rem). Inr rem)) s sz"
proof (cases "sh = 0")
  case True
  have "s \<noteq> 0" using assms(1) by (simp add: unit_ok_def)
  from quotient_remainder [OF this, of sz]
  obtain q r where "dv sz s = Inr (q, r)" "unat q = unat sz div unat s" "unat r = unat sz mod unat s" .
  then show ?thesis using True assms(2) by (simp add: coordinates_def unat_ucast_down)
next
  case False
  from shift_is_division(1) [OF assms(1) False, of sz]
  obtain q where "shift_right sz sh = Inr q" "unat q = unat sz div unat s" by blast
  then show ?thesis
    using False assms(2) shift_is_division(2) [OF assms(1) False, of sz] by (simp add: coordinates_def unat_ucast_down)
qed

end

text \<open>
  C28: block number and offset in the block of a position, and page number and offset in the page,
  are its quotient and remainder, whether they are computed by shifts and masks or by division, on
  both kinds of target, as long as the numbers fit 32 bits.
\<close>

theorem mtd_coordinates:
  assumes "target_division do_div" "unit_ok (erasesize mtd) (erasesize_shift mtd) (erasesize_mask mtd)"
    and "unit_ok (writesize mtd) (writesize_shift mtd) (writesize_mask mtd)"
    and "unat sz div unat (erasesize mtd) < 2 ^ 32" "unat sz div unat (writesize mtd) < 2 ^ 32"
  shows "coordinates (mtd_div_by_eb do_div sz mtd) (mtd_mod_by_eb do_div sz mtd) (erasesize mtd) sz \<and>
    coordinates (mtd_div_by_ws do_div sz mtd) (mtd_mod_by_ws do_div sz mtd) (writesize mtd) sz"
proof -
  note ld = target_long_division [OF assms(1)]
  show ?thesis
    using long_division.unit_coordinates [OF ld assms(2,4)] long_division.unit_coordinates [OF ld assms(3,5)]
    by (simp add: mtd_div_by_eb_def mtd_mod_by_eb_def mtd_div_by_ws_def mtd_mod_by_ws_def)
qed

definition sample_mtd :: "(unit, unit) mtd_info" where
  "sample_mtd = \<lparr>mtd_type = MTD_NANDFLASH, erasesize = 0x20000, writesize = 2112, erasesize_shift = 17,
     writesize_shift = 0, erasesize_mask = 0x1FFFF, writesize_mask = 0, parent = None, mtd_read_oob = None,
     mtd_write_oob = None, mtd_block_isbad = None, mtd_sync_op = None\<rparr>"

theorem mtd_coordinates_witness:
  "coordinates (mtd_div_by_eb do_div64 0x50007 sample_mtd) (mtd_mod_by_eb do_div64 0x50007 sample_mtd) 0x20000 0x50007"
  using mtd_coordinates [of do_div64 sample_mtd "0x50007"]
  by (simp add: target_division_def unit_ok_def sample_mtd_def)

end
