(* ===== verification/Frames.thy ===== *)
theory Frames
  imports Rounding
begin

text \<open>
  Frame descriptors of the data path acceleration hardware (\<open>include/fsl-mc/fsl_dpaa_fd.h\<close>): one
  word holds a buffer pool number in its lower half and, above it, an offset of 12 bits and
  flags.  The flags of a dequeue result come from a function of another file.
\<close>

section \<open>Descriptors\<close>

record dpaa_fd =
  addr_lo :: u32
  addr_hi :: u32
  fd_len :: u32
  bpid_offset :: u32
  frc :: u32
  ctrl :: u32
  flc_lo :: u32
  flc_hi :: u32

definition ldpaa_fd_get_addr :: "dpaa_fd \<Rightarrow> u64" where
  "ldpaa_fd_get_addr fd = push_bit 32 (ucast (addr_hi fd)) + ucast (addr_lo fd)"

definition ldpaa_fd_set_addr :: "u64 \<Rightarrow> dpaa_fd \<Rightarrow> dpaa_fd" where
  "ldpaa_fd_set_addr addr fd = fd\<lparr>addr_hi := upper_32_bits addr, addr_lo := lower_32_bits addr\<rparr>"

definition ldpaa_fd_get_len :: "dpaa_fd \<Rightarrow> u32" where
  "ldpaa_fd_get_len fd = fd_len fd"

definition ldpaa_fd_set_len :: "u32 \<Rightarrow> dpaa_fd \<Rightarrow> dpaa_fd" where
  "ldpaa_fd_set_len n fd = fd\<lparr>fd_len := n\<rparr>"

definition ldpaa_fd_get_offset :: "dpaa_fd \<Rightarrow> u16" where
  "ldpaa_fd_get_offset fd = ucast (drop_bit 16 (bpid_offset fd)) AND 0x0FFF"

definition ldpaa_fd_set_offset :: "u16 \<Rightarrow> dpaa_fd \<Rightarrow> dpaa_fd" where
  "ldpaa_fd_set_offset offs fd =
     (let fd = fd\<lparr>bpid_offset := bpid_offset fd AND 0xF000FFFF\<rparr>
      in fd\<lparr>bpid_offset := bpid_offset fd OR push_bit 16 (ucast offs)\<rparr>)"

definition ldpaa_fd_get_bpid :: "dpaa_fd \<Rightarrow> u16" where
  "ldpaa_fd_get_bpid fd = ucast (bpid_offset fd AND 0xFFFF)"

definition ldpaa_fd_set_bpid :: "u16 \<Rightarrow> dpaa_fd \<Rightarrow> dpaa_fd" where
  "ldpaa_fd_set_bpid bpid fd =
     (let fd = fd\<lparr>bpid_offset := bpid_offset fd AND 0xFFFF0000\<rparr>
      in fd\<lparr>bpid_offset := bpid_offset fd OR ucast bpid\<rparr>)"

section \<open>Dequeue results\<close>

definition LDPAA_DQ_STAT_VOLATILE :: u32 where "LDPAA_DQ_STAT_VOLATILE = 0x02"
definition LDPAA_DQ_STAT_EXPIRED :: u32 where "LDPAA_DQ_STAT_EXPIRED = 0x01"

definition ldpaa_dq_is_pull :: "('dq \<Rightarrow> u32) \<Rightarrow> 'dq \<Rightarrow> u32" where
  "ldpaa_dq_is_pull ldpaa_dq_flags dq = ldpaa_dq_flags dq AND LDPAA_DQ_STAT_VOLATILE"

definition ldpaa_dq_is_pull_complete :: "('dq \<Rightarrow> u32) \<Rightarrow> 'dq \<Rightarrow> u32" where
  "ldpaa_dq_is_pull_complete ldpaa_dq_flags dq = ldpaa_dq_flags dq AND LDPAA_DQ_STAT_EXPIRED"

section \<open>Fields\<close>

lemma frame_mask_eqs:
  "(0xF000FFFF :: u32) = NOT (push_bit 16 (mask 12))" "(0x0FFF :: u16) = mask 12"
  "(0xFFFF :: u32) = mask 16" "(0xFFFF0000 :: u32) = NOT (mask 16)"
  by (simp_all add: mask_eq_exp_minus_1)

lemma bit_offset: "bit (ldpaa_fd_get_offset fd) n \<longleftrightarrow> n < 12 \<and> bit (bpid_offset fd) (16 + n)"
  unfolding ldpaa_fd_get_offset_def frame_mask_eqs
  by (auto simp: bit_and_iff bit_mask_iff bit_unsigned_iff bit_drop_bit_eq add.commute)

lemma bit_bpid: "bit (ldpaa_fd_get_bpid fd) n \<longleftrightarrow> n < 16 \<and> bit (bpid_offset fd) n"
  unfolding ldpaa_fd_get_bpid_def frame_mask_eqs by (auto simp: bit_and_iff bit_mask_iff bit_unsigned_iff)

lemma bit_set_offset:
  "n < 32 \<Longrightarrow> bit (bpid_offset (ldpaa_fd_set_offset offs fd)) n \<longleftrightarrow>
    (\<not> (16 \<le> n \<and> n < 28) \<and> bit (bpid_offset fd) n) \<or> (16 \<le> n \<and> bit offs (n - 16))"
  unfolding ldpaa_fd_set_offset_def frame_mask_eqs
  by (auto simp: bit_and_iff bit_or_iff bit_mask_iff bit_not_iff bit_push_bit_iff bit_unsigned_iff)

lemma bit_set_bpid:
  "n < 32 \<Longrightarrow> bit (bpid_offset (ldpaa_fd_set_bpid bpid fd)) n \<longleftrightarrow> (if n < 16 then bit bpid n else bit (bpid_offset fd) n)"
  unfolding ldpaa_fd_set_bpid_def frame_mask_eqs
  by (auto simp: bit_and_iff bit_or_iff bit_mask_iff bit_not_iff bit_unsigned_iff dest: bit_imp_le_length)

lemma addr_join: "push_bit 32 (ucast (upper_32_bits a)) + ucast (lower_32_bits a) = (a :: u64)"
proof -
  have "push_bit 32 (ucast (upper_32_bits a)) + ucast (lower_32_bits a) =
      push_bit 32 (ucast (upper_32_bits a)) OR (ucast (lower_32_bits a) :: u64)"
    by (rule disjunctive_add_eq_or, rule bit_word_eqI) (auto simp: bit_and_iff bit_push_bit_iff bit_unsigned_iff dest: bit_imp_le_length)
  also have "\<dots> = a"
    by (rule bit_word_eqI)
      (auto simp: upper_32_bits_def lower_32_bits_def bit_or_iff bit_push_bit_iff bit_unsigned_iff bit_drop_bit_eq)
  finally show ?thesis .
qed

lemma top_bits_eqI: "(\<And>n. 28 \<le> n \<Longrightarrow> n < 32 \<Longrightarrow> bit x n = bit y n) \<Longrightarrow> drop_bit 28 x = drop_bit 28 (y :: u32)"
proof (rule bit_word_eqI)
  fix i
  assume same: "\<And>n. 28 \<le> n \<Longrightarrow> n < 32 \<Longrightarrow> bit x n = bit y n" and "i < LENGTH(32)"
  show "bit (drop_bit 28 x) i = bit (drop_bit 28 y) i"
  proof (cases "28 + i < 32")
    case False
    then have "\<not> bit x (28 + i)" "\<not> bit y (28 + i)" using bit_imp_le_length by fastforce+
    then show ?thesis by (simp add: bit_drop_bit_eq)
  qed (simp add: bit_drop_bit_eq same)
qed

text \<open>What no setter is to change: the flags above the offset, and the other words.\<close>

definition fd_rest :: "dpaa_fd \<Rightarrow> u32 \<times> u32 \<times> u32 \<times> u32 \<times> u32" where
  "fd_rest fd = (drop_bit 28 (bpid_offset fd), frc fd, ctrl fd, flc_lo fd, flc_hi fd)"

lemmas fd_accessors = ldpaa_fd_get_addr_def ldpaa_fd_set_addr_def ldpaa_fd_get_len_def ldpaa_fd_set_len_def
  ldpaa_fd_get_offset_def ldpaa_fd_set_offset_def ldpaa_fd_get_bpid_def ldpaa_fd_set_bpid_def fd_rest_def Let_def

lemma flags_set_bpid: "drop_bit 28 (bpid_offset (ldpaa_fd_set_bpid b fd)) = drop_bit 28 (bpid_offset fd)"
  by (rule top_bits_eqI) (simp add: bit_set_bpid)

lemma flags_set_offset:
  "drop_bit 28 (bpid_offset (ldpaa_fd_set_offset offs fd)) = drop_bit 28 (bpid_offset fd) OR ucast (drop_bit 12 offs)"
proof (rule bit_word_eqI)
  fix i
  assume "i < LENGTH(32)"
  show "bit (drop_bit 28 (bpid_offset (ldpaa_fd_set_offset offs fd))) i =
      bit (drop_bit 28 (bpid_offset fd) OR ucast (drop_bit 12 offs)) i"
  proof (cases "28 + i < 32")
    case True
    then show ?thesis by (auto simp: bit_drop_bit_eq bit_set_offset bit_or_iff bit_unsigned_iff)
  next
    case False
    then have "\<not> bit (bpid_offset x) (28 + i)" for x :: dpaa_fd using bit_imp_le_length by fastforce
    moreover have "\<not> bit offs (12 + i)" using False bit_imp_le_length [of offs "12 + i"] by auto
    ultimately show ?thesis by (simp add: bit_drop_bit_eq bit_or_iff bit_unsigned_iff)
  qed
qed

lemma get_set_bpid:
  "ldpaa_fd_get_bpid (ldpaa_fd_set_bpid b fd) = b" "ldpaa_fd_get_offset (ldpaa_fd_set_bpid b fd) = ldpaa_fd_get_offset fd"
  by (rule bit_word_eqI, auto simp: bit_bpid bit_offset bit_set_bpid)+

lemma get_set_offset:
  "ldpaa_fd_get_offset (ldpaa_fd_set_offset offs fd) = take_bit 12 offs"
  "ldpaa_fd_get_bpid (ldpaa_fd_set_offset offs fd) = ldpaa_fd_get_bpid fd"
  by (rule bit_word_eqI, auto simp: bit_bpid bit_offset bit_set_offset bit_take_bit_iff)+

text \<open>All that can be read of a descriptor: its four fields and the rest.\<close>

definition fd_view :: "dpaa_fd \<Rightarrow> u64 \<times> u32 \<times> u16 \<times> u16 \<times> u32 \<times> u32 \<times> u32 \<times> u32 \<times> u32" where
  "fd_view fd = (ldpaa_fd_get_addr fd, ldpaa_fd_get_len fd, ldpaa_fd_get_offset fd, ldpaa_fd_get_bpid fd, fd_rest fd)"

text \<open>
  C35: the fields of a descriptor are independent: each setter stores what its getter returns,
  and leaves the other three fields, the flags and the remaining words alone, except that an offset
  of more than 12 bits is cut by the getter, but not by the setter, which adds the excess to the
  flags above the field.
\<close>

theorem fd_fields:
  "fd_view fd = (addr, n0, offs0, b0, flags, rest) \<Longrightarrow>
   fd_view (ldpaa_fd_set_addr a fd) = (a, n0, offs0, b0, flags, rest) \<and>
   fd_view (ldpaa_fd_set_len n fd) = (addr, n, offs0, b0, flags, rest) \<and>
   fd_view (ldpaa_fd_set_bpid b fd) = (addr, n0, offs0, b, flags, rest) \<and>
   fd_view (ldpaa_fd_set_offset offs fd) =
     (addr, n0, take_bit 12 offs, b0, flags OR ucast (drop_bit 12 offs), rest)"
proof -
  assume v: "fd_view fd = (addr, n0, offs0, b0, flags, rest)"
  have "fd_view (ldpaa_fd_set_addr a fd) = (a, n0, offs0, b0, flags, rest)"
    using v by (simp add: fd_view_def fd_accessors addr_join)
  moreover have "fd_view (ldpaa_fd_set_len n fd) = (addr, n, offs0, b0, flags, rest)"
    using v by (simp add: fd_view_def fd_accessors)
  moreover have "ldpaa_fd_get_addr (ldpaa_fd_set_bpid b fd) = ldpaa_fd_get_addr fd"
    "ldpaa_fd_get_len (ldpaa_fd_set_bpid b fd) = ldpaa_fd_get_len fd"
    "ldpaa_fd_get_addr (ldpaa_fd_set_offset offs fd) = ldpaa_fd_get_addr fd"
    "ldpaa_fd_get_len (ldpaa_fd_set_offset offs fd) = ldpaa_fd_get_len fd"
    "snd (fd_rest (ldpaa_fd_set_bpid b fd)) = snd (fd_rest fd)"
    "snd (fd_rest (ldpaa_fd_set_offset offs fd)) = snd (fd_rest fd)"
    by (simp_all add: fd_accessors)
  ultimately show ?thesis
    using v by (simp add: fd_view_def prod_eq_iff get_set_bpid get_set_offset flags_set_bpid flags_set_offset fd_rest_def)
qed

theorem fd_fields_witness:
  "fd_view (ldpaa_fd_set_offset 0x1005 \<lparr>addr_lo = 1, addr_hi = 2, fd_len = 3, bpid_offset = 0x20040006, frc = 7, ctrl = 8,
     flc_lo = 9, flc_hi = 10\<rparr>) = (0x200000001, 3, 5, 6, 3, 7, 8, 9, 10)"
proof -
  have "fd_view \<lparr>addr_lo = 1, addr_hi = 2, fd_len = 3, bpid_offset = 0x20040006, frc = 7, ctrl = 8, flc_lo = 9, flc_hi = 10\<rparr> =
      (0x200000001, 3, 4, 6, 2, 7, 8, 9, 10)"
    by (simp add: fd_view_def fd_accessors)
  from conjunct2 [OF conjunct2 [OF conjunct2 [OF fd_fields [OF this, where offs = "0x1005"]]]] show ?thesis by simp
qed

end
