(* ===== verification/Spec2Isabelle.thy ===== *)
theory Spec2Isabelle
  imports Exo1 Exo2 Exo3 Exo4 Unaligned HList Log2 Bitmap Cppi5 McObjects LongMath Nand Calendar Libata
    RBAugment Atomic AtomicBits Hweight Vring Virtio Poll Bitfield Bitrev Opcodes Rounding
    Malloc DebugUart Blk Phy Boot IoMem Hexdump Headers NetAddr Usb Mtd Frames
begin

text \<open>
  A verification library for the C code of an assembly-language laboratory (\<open>src/c\<close>) and of
  the U-Boot headers it is built against (\<open>src/u-boot\<close>).  The headers are a source tree of
  2019 without its C files: what is verified are the functions and macros that the headers
  themselves contain.  The target is a 32-bit ARM: \<open>int\<close>, \<open>long\<close> and pointers have 32
  bits, plain \<open>char\<close> is unsigned, and the host may have either byte order.

  \<^bold>\<open>The exercises.\<close>  \<open>Exo1\<close> (\<open>c/exo1.c\<close>): \<open>allocate_string\<close> and \<open>main\<close> over the
  block memory of \<open>CMemory\<close>, in which blocks have a lifetime and an access outside of one is
  an error value; that the copy is fresh, terminated and leaves other blocks alone, and what a
  length of -1 or an exhausted heap does.  \<open>Exo2\<close> (\<open>c/exo2.c\<close>): the inversion of the
  LED register.  \<open>Exo3\<close> (\<open>c/exo3.c\<close>): the test of the byte order.  \<open>Exo4\<close>
  (\<open>c/exo4.c\<close>): a pointer to an array that has left its scope.  The test suites and the
  register access functions come from binary archives and are arguments of the models.

  \<^bold>\<open>Byte order and unaligned access.\<close>  \<open>Bytes\<close> relates words to lists of bytes;
  \<open>ByteOrder\<close> models the swaps, both host headers (as records of conversions) and the generic
  names of \<open>include/linux/byteorder\<close>; \<open>Unaligned\<close> the accessors of
  \<open>include/linux/unaligned\<close> over a byte memory.  The locale \<open>host_order\<close> states what
  a host header promises and is interpreted for both; the properties say that the conversions
  give the wire order, that what was written is read back, and that the accessors which rely on
  hardware support do what the byte-wise ones do.

  \<^bold>\<open>Linked lists.\<close>  \<open>Intrusive\<close> states the laws of intrusive stacks and queues as
  locales over an abstraction predicate, with the simulation of any sequence of operations
  proved once.  \<open>ListHead\<close> (\<open>include/linux/list.h\<close>) models a circular list as the two maps
  \<open>next\<close> and \<open>prev\<close> on addresses, each operation as the source's sequence of
  assignments, and interprets the locale (\<open>circ\<close>); \<open>HList\<close> does the same for hash lists, whose
  back pointers point at pointers (\<open>hash\<close>).  \<open>ListLoops\<close> models the iteration macros by
  \<open>while_option\<close>, so that a loop that does not end has the value \<open>None\<close>: the loops visit
  every entry once and in order, the safe ones survive deletion, the plain ones do not.

  \<^bold>\<open>Red-black trees.\<close>  \<open>RBTree\<close> models \<open>include/linux/rbtree.h\<close> and
  \<open>rbtree_augmented.h\<close> on a heap of nodes in which parent and colour share a word: linking a
  node, the callbacks that \<open>RB_DECLARE_CALLBACKS\<close> generates, and the removal of a node up to
  the point where \<open>__rb_erase_color\<close>, a function of another file, rebalances.  \<open>RBShape\<close>
  relates the heap to coloured trees and to trees with a hole, \<open>RBErase\<close> defines the removal
  on trees and proves the refinement in the locale \<open>augment_laws\<close>, which states what the
  removal relies on in its callbacks; \<open>RBAugment\<close> interprets it (\<open>generated\<close>) on the
  generated ones.  The removal returns, keeps the order of the other nodes, gives a red-black
  tree or names the place where one black node is missing, and leaves the augmented values
  right although propagation stops early.

  \<^bold>\<open>Interrupts and counters.\<close>  \<open>Irq\<close> holds the macros of
  \<open>arch/arm/include/asm/proc-armv/system.h\<close> on the status registers of both processors and
  a semantics in which a handler may run between any two machine steps while interrupts are
  not masked (\<open>exec_step\<close>).  The locale \<open>irq_masking\<close>, interpreted for both processors
  (\<open>arm\<close>, \<open>arm64\<close>), proves once that code between save and restore acts at one point in
  time.  \<open>Atomic\<close> (\<open>include/asm-generic/atomic.h\<close>, \<open>atomic-long.h\<close>) and
  \<open>AtomicBits\<close> (\<open>test_and_set_bit\<close>, \<open>test_and_clear_bit\<close>) are its clients; reading a
  64-bit counter is not protected and may return a value that the counter never had.

  \<^bold>\<open>Virtio.\<close>  \<open>Virtio\<close> (\<open>include/virtio.h\<close>): features, byte order and configuration
  access over a device whose transport is a record of functions.  The loop that rereads until
  the generation counter stands still returns the bytes of one moment, for every device that
  keeps the rules of \<open>keeps_generation\<close> and whose counter settles.  \<open>Vring\<close>
  (\<open>include/virtio_ring.h\<close>): the three parts of a ring are aligned and disjoint and fit the
  size computed for them, and the test for events is right across the wrap of the indices.

  \<^bold>\<open>Waiting.\<close>  \<open>Poll\<close> (\<open>include/time.h\<close>, \<open>include/linux/iopoll.h\<close>,
  \<open>include/wait_bit.h\<close>): the loops that read a register until it has a value, the time is up
  or a key is pressed, over a world whose operations take some time, but a bounded one
  (\<open>poll_world\<close>, \<open>wait_world\<close>).  They return, the answer tells what was read and when, and
  the time they take is bounded.  For a limit of half the range of the clock or more the
  comparison of times wraps and the polling macro gives up at once.

  \<^bold>\<open>Bits and numbers.\<close>  \<open>Bits\<close> (masks and bit searches of \<open>include/linux/bitops.h\<close>
  and \<open>include/asm-generic/bitops\<close>), \<open>Log2\<close> (\<open>include/linux/log2.h\<close>; the locale
  \<open>find_last\<close> is what the four searches for the last set bit share), \<open>Bitmap\<close> (bit
  arrays of \<open>arch/arm/include/asm/bitops.h\<close>), \<open>Hweight\<close> (population counts), \<open>Bitfield\<close>
  (\<open>include/bitfield.h\<close>, \<open>include/linux/bitfield.h\<close>: fields of registers, given by
  shift and width or by a mask), \<open>Bitrev\<close> (\<open>include/linux/bitrev.h\<close>: the macros
  reverse bits, but read an uninitialised variable when the argument is a constant), \<open>Opcodes\<close>
  (\<open>arch/arm/include/asm/opcodes.h\<close>: how instructions lie in memory under three byte order
  settings), \<open>Align\<close> and \<open>Rounding\<close> (the arithmetic of \<open>include/linux/kernel.h\<close>, error
  pointers of \<open>include/linux/err.h\<close>, powers of \<open>arch/arm/include/asm/utils.h\<close>), \<open>Division\<close> (\<open>include/div64.h\<close>) and
  \<open>LongMath\<close> (\<open>include/linux/math64.h\<close>).  \<open>Division\<close> proves the division by a constant
  through a reciprocal correct for every divisor and dividend, in all three cases of the macro,
  and that the macro \<open>do_div\<close> of a 32-bit target does what that of a 64-bit target does.
  The locale \<open>long_division\<close> is what callers of \<open>do_div\<close> rely on; it is interpreted for
  the 64-bit macro and for constants on the 32-bit one, and holds for variables if the external
  routine \<open>__div64_32\<close>, an argument of the model, divides.  Its clients are the scaled division
  in \<open>LongMath\<close>, the rounding divisions of 64-bit values in \<open>Rounding\<close> and the conversion of
  offsets in \<open>Nand\<close>.

  \<^bold>\<open>Devices.\<close>  \<open>Nand\<close> (\<open>include/linux/mtd/nand.h\<close>): a position is a mixed-radix number
  (\<open>page_no\<close>); the four moves count (locale \<open>cursor\<close>, interpreted once per unit), the
  comparison orders by that number, and the loop over the pages of a transfer ends with requests
  that cover it.  \<open>io_reach\<close> is the relation of iterators that the loop passes through, with
  its invariant.  \<open>Cppi5\<close> (\<open>include/linux/soc/ti/cppi5.h\<close>): descriptors of a DMA engine as
  records of words, with what each setter leaves for each getter.  \<open>McCmd\<close>
  (\<open>include/fsl-mc/fsl_mc_cmd.h\<close>): commands of a management processor; a packing macro is the
  list of its operations, \<open>McNet\<close>, \<open>McPorts\<close> and \<open>McContainer\<close> hold the 59 macros of
  five objects, and \<open>McObjects\<close> shows that no two fields of a macro overlap and that every
  argument that fits is read back, but for three fields whose macro names too narrow a type.  \<open>Libata\<close> (\<open>include/libata.h\<close>): predicates on ATA devices.  \<open>Calendar\<close>
  (\<open>include/linux/time.h\<close>): the conversion of seconds into a date is exact for every 32-bit
  time, against a Gregorian calendar that is stated without the tables of the code, and its text always has 25 characters.  \<open>Blk\<close> (\<open>include/blk.h\<close>): reading, writing
  and erasing blocks through a cache.  The locale \<open>block_cache\<close> states what the layer relies
  on in the cache, and its lemmas say that the cache stays coherent with the media; it is
  interpreted for the configuration without a cache (\<open>uncached\<close>) and instantiated with a cache
  that keeps everything.  \<open>Mtd\<close> (\<open>include/linux/mtd/mtd.h\<close>): the coordinates of an offset in
  a flash device, by shifts or by \<open>do_div\<close>, a client of \<open>long_division\<close>.  \<open>Phy\<close>
  (\<open>include/phy.h\<close>, \<open>include/linux/mii.h\<close>): a PHY that implements the two registers of
  the indirect access (\<open>mmd_regs\<close>) is an array of registers to its callers; what
  autonegotiation selects.  \<open>IoMem\<close> (\<open>arch/arm/include/asm/io.h\<close>): accesses to device
  registers with their barriers and byte orders, the change of single bits, and bursts to and
  from one address, over a record of accesses of which plain memory and a queue are instances.
  \<open>Usb\<close> (\<open>include/linux/usb/ch9.h\<close>): predicates on endpoint descriptors.  \<open>Frames\<close>
  (\<open>include/fsl-mc/fsl_dpaa_fd.h\<close>): the fields of frame descriptors.

  \<^bold>\<open>Starting and formats.\<close>  \<open>Boot\<close> (\<open>include/initcall.h\<close>, \<open>include/bootcount.h\<close>): the
  list of initialisation calls stops at the first failure; every start is counted once, by the
  first stage or by the main one, and the limit is noticed.  \<open>Headers\<close> (\<open>include/image.h\<close>,
  \<open>scripts/dtc/libfdt\<close>): the big-endian fields of kernel images and device trees.  \<open>NetAddr\<close>
  (\<open>include/net.h\<close>): addresses in packets and the classes of Ethernet addresses.  \<open>Hexdump\<close>
  (\<open>include/linux/ctype.h\<close>, \<open>include/hexdump.h\<close>): character classes by a table, which is an
  argument, and the conversion between bytes and hexadecimal text; a text that is too short and
  has an even number of digits makes \<open>hex2bin\<close> read past its end.  \<open>DebugUart\<close>
  (\<open>include/debug_uart.h\<close>): the early console sends strings and numbers character by
  character; its hexadecimal text is read back by the conversion of \<open>Hexdump\<close>.  \<open>Malloc\<close>
  (\<open>include/malloc.h\<close>): the allocator's macros for clearing and copying chunks, unrolled and
  as Duff's device, store the same words for the sizes that the header allows, and what they do
  for others.

  \<^bold>\<open>Conventions.\<close>  \<open>Prelude\<close> holds the integer types as words, the errors \<open>ub\<close> for what
  C leaves undefined, and the shared lemmas; a function that may run into one returns
  \<open>ub + 'a\<close> and is sequenced by \<open>bindE\<close>.  The collection \<open>word_bits\<close> reduces an equation
  of words to single bits.  No fuel is used: loops are structural recursion over what they
  scan, functions with a termination proof, \<open>while_option\<close>, or partial functions into
  \<open>option\<close> where the source may not return, with the exact condition under which it does.

  \<^bold>\<open>Not modelled.\<close>  Register maps, board configurations, device tree identifiers, fonts and
  other tables are data without behaviour.  Inline assembler and memory-mapped registers
  appear only as parameters or as sequences of events.  Functions that the headers declare
  but do not define are outside the repository, among them the rebalancing of red-black trees
  and the transports of virtio devices.  The variants of the 64-bit counters for 64-bit longs
  have the bodies of the others and are left out, as are \<open>WARN_ON\<close>, which prints, and the
  polling macros on \<open>_relaxed\<close> accessors, which differ from the others only in the function
  that they read with.  The device
  model's wrappers and the record types of multi-dimensional DMA transfers are left for an
  extension.  Widths and layouts are those of the 32-bit target,
  except where the source has both branches.
\<close>

end
